(* ===== verification/Oj_Prelude.thy ===== *)
theory Oj_Prelude
  imports
    Main
    "HOL-Library.FSet"
    "HOL-Library.Finite_Map"
    "HOL-Library.Word"
    "HOL-Library.Char_ord"
    "HOL-Library.List_Lexorder"
    "HOL-Library.Product_Lexorder"
begin

text \<open>
  The shared prelude of the development: the machine types, the two std idioms every
  component uses (sorting a vector, the iteration order of a hash set) and the generic
  facts on worklists the graph walks rest on.

  \<^item> \<open>u32\<close>, \<open>u64\<close> and \<open>usize\<close> are words, so that \<open>+\<close> wraps exactly as the release build does.
  \<^item> \<open>hash_iter\<close> is the contract of \<^verbatim>\<open>HashSet::iter\<close>: every element once, in an order the
    standard library does not specify. Code that iterates over a hash set takes the order as
    its parameter \<open>iter\<close>, and what is proved about that code holds for every such order.
  \<^item> \<open>search\<close> is the contract of a worklist walk: a seen set that starts in the roots and is
    closed once nothing is pending is exactly the set of nodes reachable from the roots.
\<close>

section \<open>Machine types\<close>

type_synonym u32 = "32 word"
type_synonym u64 = "64 word"
type_synonym usize = "64 word"

text \<open>A counter that does not wrap at the next step grows.\<close>

lemma word_succ_less: "w + 1 \<noteq> 0 \<Longrightarrow> w < w + (1 :: 'a::len word)"
  by (metis add.commute lessI unatSuc word_less_nat_alt)

text \<open>The collections of rewrite rules the component proofs draw on.\<close>

named_theorems graph_simps \<open>lookups after an update of the module graph\<close>
named_theorems str_simps \<open>facts on the byte-string primitives\<close>

section \<open>Vectors: sort and dedup\<close>

text \<open>\<^verbatim>\<open>Vec::sort\<close> followed by \<^verbatim>\<open>Vec::dedup\<close>: dedup drops consecutive equal elements.\<close>

definition sort_dedup :: "'a::linorder list \<Rightarrow> 'a list" where
  "sort_dedup xs = remdups_adj (sort xs)"

lemma set_sort_dedup [simp]: "set (sort_dedup xs) = set xs"
  by (simp add: sort_dedup_def)

lemma sorted_sort_dedup [simp]: "sorted (sort_dedup xs)"
  by (simp add: sort_dedup_def sorted_remdups_adj)

lemma strict_sorted_remdups_adj: "sorted xs \<Longrightarrow> sorted_wrt (<) (remdups_adj xs)"
  by (induction xs rule: remdups_adj.induct) (auto simp: less_le)

lemma strict_sorted_sort_dedup [simp]: "sorted_wrt (<) (sort_dedup xs)"
  by (simp add: sort_dedup_def strict_sorted_remdups_adj)

lemma distinct_sort_dedup [simp]: "distinct (sort_dedup xs)"
  using strict_sorted_sort_dedup strict_sorted_iff by blast

lemma sort_dedup_cong: "set xs = set ys \<Longrightarrow> sort_dedup xs = sort_dedup ys"
  by (rule sorted_distinct_set_unique) auto

lemma sort_distinct_cong:
  "distinct xs \<Longrightarrow> distinct ys \<Longrightarrow> set xs = set ys \<Longrightarrow> sort xs = sort ys"
  by (rule sorted_distinct_set_unique) auto

lemma sort_eq_sorted_list_of_set: "distinct xs \<Longrightarrow> sort xs = sorted_list_of_set (set xs)"
  by (rule sorted_distinct_set_unique) auto

text \<open>\<^verbatim>\<open>Iterator::max\<close> is a fold.\<close>

lemma fold_max_ge_start: "y \<le> fold max xs (y :: 'a::linorder)"
  by (induction xs arbitrary: y) (auto intro: order_trans [OF max.cobounded2])

lemma fold_max_ge:
  assumes "x \<in> set xs"
  shows "x \<le> fold max xs (y :: 'a::linorder)"
  using assms
proof (induction xs arbitrary: y)
  case (Cons a xs)
  show ?case
  proof (cases "x \<in> set xs")
    case False
    with Cons.prems show ?thesis using order_trans [OF max.cobounded1 fold_max_ge_start] by auto
  qed (simp add: Cons.IH)
qed simp

section \<open>The iteration order of a hash set\<close>

locale hash_iter =
  fixes iter :: "'a fset \<Rightarrow> 'a list"
  assumes set_iter: "set (iter S) = fset S"
    and distinct_iter: "distinct (iter S)"
begin

lemma in_set_iter [simp]: "x \<in> set (iter S) \<longleftrightarrow> x |\<in>| S"
  by (simp add: set_iter)

lemma length_iter: "length (iter S) = fcard S"
  by (metis distinct_card distinct_iter fcard.rep_eq set_iter)

lemma iter_empty [simp]: "iter {||} = []"
  using set_iter [of "{||}"] by simp

end

interpretation sorted_iter: hash_iter "sorted_list_of_fset :: 'a::linorder fset \<Rightarrow> 'a list"
  by unfold_locales (simp_all add: sorted_list_of_fset.rep_eq)

text \<open>The same for \<^verbatim>\<open>HashMap::iter\<close>: every entry once.\<close>

locale map_iter =
  fixes iter :: "('k, 'v) fmap \<Rightarrow> ('k \<times> 'v) list"
  assumes set_iter: "set (iter m) = {(k, v). fmlookup m k = Some v}"
    and distinct_iter: "distinct (map fst (iter m))"
begin

lemma in_set_iter [simp]: "(k, v) \<in> set (iter m) \<longleftrightarrow> fmlookup m k = Some v"
  by (simp add: set_iter)

lemma keys_iter: "fst ` set (iter m) = fset (fmdom m)"
  by (force simp: set_iter fmlookup_dom_iff)

end

definition sorted_entries :: "('k::linorder, 'v) fmap \<Rightarrow> ('k \<times> 'v) list" where
  "sorted_entries m = map (\<lambda>k. (k, the (fmlookup m k))) (sorted_list_of_fset (fmdom m))"

interpretation sorted_map: map_iter "sorted_entries :: ('k::linorder, 'v) fmap \<Rightarrow> ('k \<times> 'v) list"
proof
  fix m :: "('k, 'v) fmap"
  show "set (sorted_entries m) = {(k, v). fmlookup m k = Some v}"
    by (force simp: sorted_entries_def sorted_list_of_fset.rep_eq fmlookup_dom_iff)
  show "distinct (map fst (sorted_entries m))"
    by (simp add: sorted_entries_def sorted_list_of_fset.rep_eq comp_def)
qed

section \<open>Worklist walks\<close>

text \<open>
  \<open>succ\<close> gives the nodes a walk moves to from a node it expands. The walk's seen set is sound
  when it holds only reachable nodes, and complete when what it has expanded is closed.
\<close>

locale search =
  fixes succ :: "'a \<Rightarrow> 'a set"
begin

inductive_set reach :: "'a set \<Rightarrow> 'a set" for roots :: "'a set" where
  root: "x \<in> roots \<Longrightarrow> x \<in> reach roots"
| edge: "x \<in> reach roots \<Longrightarrow> y \<in> succ x \<Longrightarrow> y \<in> reach roots"

lemma reach_least:
  assumes "roots \<subseteq> S" and "\<And>x y. x \<in> S \<Longrightarrow> y \<in> succ x \<Longrightarrow> y \<in> S"
  shows "reach roots \<subseteq> S"
proof
  fix x assume "x \<in> reach roots"
  then show "x \<in> S" by induction (use assms in auto)
qed

lemma reach_mono: "roots \<subseteq> roots' \<Longrightarrow> reach roots \<subseteq> reach roots'"
  by (rule reach_least) (auto intro: reach.intros)

lemma reach_rtrancl: "reach roots = {(x, y). y \<in> succ x}\<^sup>* `` roots"
proof
  show "reach roots \<subseteq> {(x, y). y \<in> succ x}\<^sup>* `` roots"
    by (rule reach_least) (auto intro: rtrancl_into_rtrancl)
next
  have "y \<in> reach roots" if "(x, y) \<in> {(x, y). y \<in> succ x}\<^sup>*" and "x \<in> roots" for x y
    using that by induction (auto intro: reach.intros)
  then show "{(x, y). y \<in> succ x}\<^sup>* `` roots \<subseteq> reach roots" by auto
qed

text \<open>What a walk ends with: a sound seen set that holds the roots and is closed.\<close>

lemma closed_eq_reach:
  assumes "S \<subseteq> reach roots" and "roots \<subseteq> S"
    and "\<And>x y. x \<in> S \<Longrightarrow> y \<in> succ x \<Longrightarrow> y \<in> S"
  shows "S = reach roots"
  using assms reach_least by blast

end

text \<open>Two facts on measures the walks' termination proofs share.\<close>

lemma card_diff_grow:
  "finite U \<Longrightarrow> x \<in> U \<Longrightarrow> x \<notin> S \<Longrightarrow> card (U - insert x S) < card (U - S)"
  by (rule psubset_card_mono) auto

lemma card_diff_le: "finite U \<Longrightarrow> S \<subseteq> S' \<Longrightarrow> card (U - S') \<le> card (U - S)"
  by (rule card_mono) auto

end
