(* ===== verification/Std_Str.thy ===== *)
theory Std_Str
  imports Oj_Prelude
begin

text \<open>
  What the sources use of \<^verbatim>\<open>str\<close>. A string is the list of its UTF-8 bytes, so lengths and
  positions are byte lengths and byte positions, as in Rust. The searches for an ASCII character
  or a literal work byte by byte, which on UTF-8 finds the same places as a search by characters.

  \<^item> prefixes, suffixes and splits: \<open>strip_prefix\<close>, \<open>strip_suffix\<close>, \<open>split_once\<close>, \<open>rsplit_once\<close>,
    \<open>split_on\<close>, \<open>find_str\<close>;
  \<^item> \<open>trim\<close>, over the encodings of Unicode's \<^verbatim>\<open>White_Space\<close>;
  \<^item> unsigned integers: \<open>parse_radix\<close> (\<^verbatim>\<open>from_str_radix\<close>, and \<^verbatim>\<open>parse\<close> for radix 10) and
    \<open>show_radix\<close> (\<^verbatim>\<open>{}\<close> and \<^verbatim>\<open>{:x}\<close>), with their round trip.
\<close>

section \<open>Prefixes and splits\<close>

fun strip_prefix :: "string \<Rightarrow> string \<Rightarrow> string option" where
  "strip_prefix [] s = Some s"
| "strip_prefix (p # ps) [] = None"
| "strip_prefix (p # ps) (c # cs) = (if p = c then strip_prefix ps cs else None)"

lemma strip_prefix_iff: "strip_prefix p s = Some r \<longleftrightarrow> s = p @ r"
  by (induction p s rule: strip_prefix.induct) auto

lemma strip_prefix_append [simp, str_simps]: "strip_prefix p (p @ r) = Some r"
  by (simp add: strip_prefix_iff)

lemma strip_prefix_None_iff: "strip_prefix p s = None \<longleftrightarrow> (\<nexists>r. s = p @ r)"
  by (metis not_Some_eq strip_prefix_iff)

lemma strip_prefix_length: "strip_prefix p s = Some r \<Longrightarrow> p \<noteq> [] \<Longrightarrow> length r < length s"
  by (auto simp: strip_prefix_iff)

definition starts_with :: "string \<Rightarrow> string \<Rightarrow> bool" where
  "starts_with p s \<longleftrightarrow> strip_prefix p s \<noteq> None"

lemma starts_with_iff: "starts_with p s \<longleftrightarrow> (\<exists>r. s = p @ r)"
  by (auto simp: starts_with_def strip_prefix_iff)

definition strip_suffix :: "string \<Rightarrow> string \<Rightarrow> string option" where
  "strip_suffix p s = map_option rev (strip_prefix (rev p) (rev s))"

lemma strip_suffix_iff: "strip_suffix p s = Some r \<longleftrightarrow> s = r @ p"
  by (simp add: strip_suffix_def strip_prefix_iff) (metis rev_append rev_rev_ident)

definition ends_with :: "string \<Rightarrow> string \<Rightarrow> bool" where
  "ends_with p s \<longleftrightarrow> strip_suffix p s \<noteq> None"

lemma ends_with_iff: "ends_with p s \<longleftrightarrow> (\<exists>r. s = r @ p)"
  by (auto simp: ends_with_def strip_suffix_iff)

text \<open>\<^verbatim>\<open>split_once(c)\<close> and \<^verbatim>\<open>rsplit_once(c)\<close> for a character.\<close>

fun split_once :: "char \<Rightarrow> string \<Rightarrow> (string \<times> string) option" where
  "split_once c [] = None"
| "split_once c (x # xs) =
     (if x = c then Some ([], xs) else map_option (map_prod (Cons x) id) (split_once c xs))"

lemma split_once_iff: "split_once c s = Some (a, b) \<longleftrightarrow> s = a @ c # b \<and> c \<notin> set a"
proof (induction s arbitrary: a)
  case (Cons x xs)
  show ?case
  proof (cases "x = c")
    case True
    then show ?thesis by (cases a) auto
  next
    case False
    then show ?thesis
      by (cases a) (auto simp: Cons.IH)
  qed
qed simp

lemma split_once_None_iff: "split_once c s = None \<longleftrightarrow> c \<notin> set s"
  by (induction s) auto

lemma split_once_append [str_simps]: "c \<notin> set a \<Longrightarrow> split_once c (a @ c # b) = Some (a, b)"
  by (simp add: split_once_iff)

definition rsplit_once :: "char \<Rightarrow> string \<Rightarrow> (string \<times> string) option" where
  "rsplit_once c s = map_option (\<lambda>(b, a). (rev a, rev b)) (split_once c (rev s))"

lemma rsplit_once_iff: "rsplit_once c s = Some (a, b) \<longleftrightarrow> s = a @ c # b \<and> c \<notin> set b"
proof -
  have "rsplit_once c s = Some (a, b) \<longleftrightarrow> split_once c (rev s) = Some (rev b, rev a)"
    by (auto simp: rsplit_once_def)
  also have "\<dots> \<longleftrightarrow> s = a @ c # b \<and> c \<notin> set b"
    by (simp add: split_once_iff) (metis append.assoc append_Cons append_Nil rev.simps(2) rev_append rev_rev_ident)
  finally show ?thesis .
qed

text \<open>\<^verbatim>\<open>split(c)\<close>: the pieces between separators, one more than there are separators.\<close>

fun split_on :: "char \<Rightarrow> string \<Rightarrow> string list" where
  "split_on c [] = [[]]"
| "split_on c (x # xs) =
     (if x = c then [] # split_on c xs
      else (case split_on c xs of [] \<Rightarrow> [[x]] | p # ps \<Rightarrow> (x # p) # ps))"

lemma split_on_ne [simp]: "split_on c s \<noteq> []"
  by (cases s) (auto split: list.splits)

lemma split_on_no_sep: "c \<notin> set s \<Longrightarrow> split_on c s = [s]"
  by (induction s) auto

lemma split_on_append [str_simps]: "c \<notin> set a \<Longrightarrow> split_on c (a @ c # b) = a # split_on c b"
  by (induction a) auto

text \<open>\<^verbatim>\<open>split_once(p)\<close> for a literal \<open>p\<close>: at its first occurrence.\<close>

fun split_once_str :: "string \<Rightarrow> string \<Rightarrow> (string \<times> string) option" where
  "split_once_str p s =
     (case strip_prefix p s of
        Some r \<Rightarrow> Some ([], r)
      | None \<Rightarrow> (case s of [] \<Rightarrow> None
                 | x # xs \<Rightarrow> map_option (map_prod (Cons x) id) (split_once_str p xs)))"

declare split_once_str.simps [simp del]

lemma split_once_str_sound: "split_once_str p s = Some (a, b) \<Longrightarrow> s = a @ p @ b"
proof (induction p s arbitrary: a rule: split_once_str.induct)
  case (1 p s)
  show ?case
  proof (cases "strip_prefix p s")
    case (Some r)
    with "1.prems" show ?thesis
      by (auto simp: split_once_str.simps [of p s] strip_prefix_iff)
  next
    case None
    with "1.prems" obtain x xs a' where s: "s = x # xs" "a = x # a'" and rec: "split_once_str p xs = Some (a', b)"
      by (auto simp: split_once_str.simps [of p s] split: list.splits)
    with "1.IH" [OF None s(1) rec] show ?thesis by simp
  qed
qed

lemma split_once_str_None: "split_once_str p s = None \<Longrightarrow> s \<noteq> a @ p @ b"
proof (induction p s arbitrary: a rule: split_once_str.induct)
  case (1 p s)
  then have none: "strip_prefix p s = None"
    by (auto simp: split_once_str.simps [of p s] split: option.splits)
  show ?case
  proof (cases a)
    case Nil
    with none show ?thesis by (auto simp: strip_prefix_None_iff)
  next
    case (Cons x a')
    show ?thesis
    proof
      assume s: "s = a @ p @ b"
      with Cons have s': "s = x # a' @ p @ b" by simp
      with "1.prems" none have "split_once_str p (a' @ p @ b) = None"
        by (simp add: split_once_str.simps [of p "x # a' @ p @ b"])
      with "1.IH" [OF none s'] show False by blast
    qed
  qed
qed

definition contains_str :: "string \<Rightarrow> string \<Rightarrow> bool" where
  "contains_str p s \<longleftrightarrow> split_once_str p s \<noteq> None"

lemma contains_str_iff: "contains_str p s \<longleftrightarrow> (\<exists>a b. s = a @ p @ b)"
  unfolding contains_str_def
  by (metis not_None_eq split_once_str_None split_once_str_sound surj_pair)

text \<open>\<^verbatim>\<open>replace(p, r)\<close> for a non-empty literal: every occurrence, from the left, without overlaps.\<close>

function str_replace :: "string \<Rightarrow> string \<Rightarrow> string \<Rightarrow> string" where
  "str_replace p r [] = []"
| "str_replace p r (c # cs) =
     (case strip_prefix p (c # cs) of
        Some rest \<Rightarrow> if p = [] then c # str_replace p r cs else r @ str_replace p r rest
      | None \<Rightarrow> c # str_replace p r cs)"
  by pat_completeness auto
termination
  by (relation "measure (\<lambda>(p, r, s). length s)") (auto dest: strip_prefix_length)

lemma length_str_replace_le:
  assumes "length r \<le> length p"
  shows "length (str_replace p r s) \<le> length s"
  using assms
proof (induction p r s rule: str_replace.induct)
  case (2 p r c cs)
  show ?case
  proof (cases "strip_prefix p (c # cs)")
    case (Some rest)
    then have "length (c # cs) = length p + length rest"
      by (metis length_append strip_prefix_iff)
    with 2 Some show ?thesis by (cases "p = []") auto
  qed (use 2 in auto)
qed simp

text \<open>
  \<^verbatim>\<open>lines()\<close>: a line ends at a newline, with the carriage return before it if there is one; the
  text after the last newline is a line unless it is empty.
\<close>

definition strip_cr :: "string \<Rightarrow> string" where
  "strip_cr s = (case strip_suffix [CHR 0x0D] s of Some r \<Rightarrow> r | None \<Rightarrow> s)"

definition str_lines :: "string \<Rightarrow> string list" where
  "str_lines s =
     (let ps = split_on (CHR 0x0A) s in
      map strip_cr (butlast ps) @ (if last ps = [] then [] else [last ps]))"

lemma length_strip_cr: "length (strip_cr s) \<le> length s"
  by (auto simp: strip_cr_def strip_suffix_iff split: option.splits)

lemma length_split_on_piece: "p \<in> set (split_on c s) \<Longrightarrow> length p \<le> length s"
proof (induction s arbitrary: p)
  case (Cons x xs)
  then show ?case by (cases "split_on c xs") (fastforce split: if_splits)+
qed simp

lemma length_str_line:
  assumes "l \<in> set (str_lines s)"
  shows "length l \<le> length s"
proof -
  from assms consider p where "p \<in> set (split_on (CHR 0x0A) s)" "length l \<le> length p"
    unfolding str_lines_def Let_def
    by (auto split: if_splits intro: length_strip_cr dest: in_set_butlastD) (metis last_in_set order_refl split_on_ne)
  then show ?thesis using length_split_on_piece order_trans by cases blast
qed

section \<open>Trimming\<close>

text \<open>The UTF-8 encodings of the characters with the property \<^verbatim>\<open>White_Space\<close>.\<close>

definition white_space :: "string list" where
  "white_space =
     [[CHR 0x09], [CHR 0x0A], [CHR 0x0B],
      [CHR 0x0C], [CHR 0x0D], [CHR 0x20],
      [CHR 0xC2, CHR 0x85], [CHR 0xC2, CHR 0xA0], [CHR 0xE1, CHR 0x9A, CHR 0x80],
      [CHR 0xE2, CHR 0x80, CHR 0xA8], [CHR 0xE2, CHR 0x80, CHR 0xA9], [CHR 0xE2, CHR 0x80, CHR 0xAF],
      [CHR 0xE2, CHR 0x81, CHR 0x9F], [CHR 0xE3, CHR 0x80, CHR 0x80], [CHR 0xE2, CHR 0x80, CHR 0x80],
      [CHR 0xE2, CHR 0x80, CHR 0x81], [CHR 0xE2, CHR 0x80, CHR 0x82], [CHR 0xE2, CHR 0x80, CHR 0x83],
      [CHR 0xE2, CHR 0x80, CHR 0x84], [CHR 0xE2, CHR 0x80, CHR 0x85], [CHR 0xE2, CHR 0x80, CHR 0x86],
      [CHR 0xE2, CHR 0x80, CHR 0x87], [CHR 0xE2, CHR 0x80, CHR 0x88], [CHR 0xE2, CHR 0x80, CHR 0x89],
      [CHR 0xE2, CHR 0x80, CHR 0x8A]]"

text \<open>Strips the first listed non-empty prefix that matches.\<close>

fun strip_any :: "string list \<Rightarrow> string \<Rightarrow> string option" where
  "strip_any [] s = None"
| "strip_any (p # ps) s =
     (case strip_prefix p s of
        Some r \<Rightarrow> if p = [] then strip_any ps s else Some r
      | None \<Rightarrow> strip_any ps s)"

lemma strip_any_length: "strip_any ps s = Some r \<Longrightarrow> length r < length s"
  by (induction ps) (auto simp: strip_prefix_iff split: option.splits if_splits)

function trim_with :: "string list \<Rightarrow> string \<Rightarrow> string" where
  "trim_with ps s = (case strip_any ps s of Some r \<Rightarrow> trim_with ps r | None \<Rightarrow> s)"
  by auto
termination by (relation "measure (length o snd)") (auto dest: strip_any_length)

declare trim_with.simps [simp del]

definition trim_start :: "string \<Rightarrow> string" where
  "trim_start s = trim_with white_space s"

definition trim_end :: "string \<Rightarrow> string" where
  "trim_end s = rev (trim_with (map rev white_space) (rev s))"

definition trim :: "string \<Rightarrow> string" where
  "trim s = trim_end (trim_start s)"

lemma length_trim_with: "length (trim_with ps s) \<le> length s"
proof (induction ps s rule: trim_with.induct)
  case (1 ps s)
  then show ?case
    by (subst trim_with.simps) (fastforce dest: strip_any_length split: option.splits)
qed

lemma length_trim [simp]: "length (trim s) \<le> length s"
  unfolding trim_def trim_end_def trim_start_def
  by (metis length_rev length_trim_with order_trans)

lemma length_trim_start [simp]: "length (trim_start s) \<le> length s"
  by (simp add: trim_start_def length_trim_with)

section \<open>Unsigned integers\<close>

definition digit_val :: "nat \<Rightarrow> char \<Rightarrow> nat option" where
  "digit_val radix c =
     (let n = of_char c;
          d = (if 48 \<le> n \<and> n \<le> 57 then Some (n - 48)
               else if 97 \<le> n \<and> n \<le> 122 then Some (n - 87)
               else if 65 \<le> n \<and> n \<le> 90 then Some (n - 55) else None)
      in case d of Some v \<Rightarrow> if v < radix then Some v else None | None \<Rightarrow> None)"

fun digits_val :: "nat \<Rightarrow> nat \<Rightarrow> string \<Rightarrow> nat option" where
  "digits_val radix acc [] = Some acc"
| "digits_val radix acc (c # cs) =
     (case digit_val radix c of Some d \<Rightarrow> digits_val radix (acc * radix + d) cs | None \<Rightarrow> None)"

text \<open>\<^verbatim>\<open>u64::from_str_radix\<close>: one leading plus is allowed; a value past the range is an error.\<close>

definition parse_radix :: "nat \<Rightarrow> string \<Rightarrow> u64 option" where
  "parse_radix radix s =
     (let t = (case s of c # cs \<Rightarrow> if c = CHR ''+'' then cs else s | [] \<Rightarrow> []) in
      if t = [] then None
      else (case digits_val radix 0 t of
              Some n \<Rightarrow> if n < 2 ^ 64 then Some (of_nat n) else None
            | None \<Rightarrow> None))"

definition digit_char :: "nat \<Rightarrow> char" where
  "digit_char d = char_of (if d < 10 then 48 + d else 87 + d)"

function show_radix :: "nat \<Rightarrow> nat \<Rightarrow> string" where
  "show_radix radix n =
     (if n < radix \<or> radix < 2 then [digit_char n] else show_radix radix (n div radix) @ [digit_char (n mod radix)])"
  by auto
termination by (relation "measure snd") auto

declare show_radix.simps [simp del]

lemma of_char_digit: "d < 16 \<Longrightarrow> of_char (digit_char d) = (if d < 10 then 48 + d else 87 + d)"
  by (simp add: digit_char_def)

lemma digit_val_digit_char: "d < radix \<Longrightarrow> radix \<le> 16 \<Longrightarrow> digit_val radix (digit_char d) = Some d"
  by (auto simp: digit_val_def of_char_digit Let_def)

lemma digits_val_append:
  "digits_val radix acc (s @ t) = Option.bind (digits_val radix acc s) (\<lambda>a. digits_val radix a t)"
  by (induction s arbitrary: acc) (auto split: option.splits)

lemma digits_val_show:
  assumes "2 \<le> radix" and "radix \<le> 16"
  shows "digits_val radix 0 (show_radix radix n) = Some n"
proof (induction n rule: less_induct)
  case (less n)
  show ?case
  proof (cases "n < radix")
    case True
    with assms show ?thesis by (simp add: show_radix.simps [of radix n] digit_val_digit_char)
  next
    case False
    then have "n div radix < n" using assms(1) by simp
    from less.IH [OF this] False assms show ?thesis
      by (simp add: show_radix.simps [of radix n] digits_val_append digit_val_digit_char mult.commute)
  qed
qed

lemma set_show_radix:
  "radix \<le> 16 \<Longrightarrow> 2 \<le> radix \<Longrightarrow> set (show_radix radix n) \<subseteq> digit_char ` {..< radix}"
proof (induction radix n rule: show_radix.induct)
  case (1 radix n)
  then show ?case by (cases "n < radix") (auto simp: show_radix.simps [of radix n])
qed

lemma show_radix_ne [simp]: "show_radix radix n \<noteq> []"
  by (simp add: show_radix.simps)

lemma digit_char_inject: "d < 16 \<Longrightarrow> of_char c \<noteq> (if d < 10 then 48 + d else 87 + d) \<Longrightarrow> digit_char d \<noteq> c"
  using of_char_digit by force

lemma show_radix_no_char:
  assumes "2 \<le> radix" and "radix \<le> 16" and "digit_val radix c = None"
  shows "c \<notin> set (show_radix radix n)"
proof
  assume "c \<in> set (show_radix radix n)"
  then obtain d where "d < radix" "c = digit_char d"
    using set_show_radix [OF assms(2,1)] by auto
  with assms show False by (simp add: digit_val_digit_char)
qed

lemma parse_show_radix:
  assumes "2 \<le> radix" and "radix \<le> 16"
  shows "parse_radix radix (show_radix radix (unat (w :: u64))) = Some w"
proof -
  let ?s = "show_radix radix (unat w)"
  have "CHR ''+'' \<notin> set ?s"
    by (rule show_radix_no_char [OF assms]) (simp add: digit_val_def)
  then have "(case ?s of c # cs \<Rightarrow> if c = CHR ''+'' then cs else ?s | [] \<Rightarrow> []) = ?s"
    by (cases ?s) auto
  moreover have "unat w < 2 ^ 64" using unsigned_less [of w, where 'a = nat] by simp
  ultimately show ?thesis
    by (simp add: parse_radix_def digits_val_show [OF assms])
qed

section \<open>Case and encodings\<close>

definition to_ascii_lowercase :: "string \<Rightarrow> string" where
  "to_ascii_lowercase s =
     map (\<lambda>c. let n = of_char c in if 65 \<le> n \<and> n \<le> 90 then char_of (n + 32 :: nat) else c) s"

definition eq_ignore_ascii_case :: "string \<Rightarrow> string \<Rightarrow> bool" where
  "eq_ignore_ascii_case a b \<longleftrightarrow> to_ascii_lowercase a = to_ascii_lowercase b"

text \<open>\<^verbatim>\<open>join(sep)\<close> of a list of strings.\<close>

fun join_with :: "string \<Rightarrow> string list \<Rightarrow> string" where
  "join_with sep [] = []"
| "join_with sep [s] = s"
| "join_with sep (s # ss) = s @ sep @ join_with sep ss"

lemma join_with_Cons: "ss \<noteq> [] \<Longrightarrow> join_with sep (s # ss) = s @ sep @ join_with sep ss"
  by (cases ss) auto

lemma join_split_on [simp]: "join_with [c] (split_on c s) = s"
proof (induction s)
  case (Cons x xs)
  then show ?case
    by (cases "split_on c xs"; cases "tl (split_on c xs)") auto
qed simp

lemma split_join_with:
  "ss \<noteq> [] \<Longrightarrow> list_all (\<lambda>s. c \<notin> set s) ss \<Longrightarrow> split_on c (join_with [c] ss) = ss"
proof (induction ss)
  case (Cons s ss)
  then show ?case
    by (cases ss) (simp_all add: join_with_Cons split_on_append split_on_no_sep del: join_with.simps(3))
qed simp

lemma split_on_no_char: "p \<in> set (split_on c s) \<Longrightarrow> c \<notin> set p"
  by (induction s arbitrary: p) (auto split: if_splits list.splits)

lemma split_on_append_sep: "split_on c (s @ c # t) = split_on c s @ split_on c t"
  by (induction s) (auto split: list.splits)

text \<open>Well-formed UTF-8, what \<^verbatim>\<open>String::from_utf8\<close> accepts.\<close>

definition byte_in :: "nat \<Rightarrow> nat \<Rightarrow> char \<Rightarrow> bool" where
  "byte_in lo hi c \<longleftrightarrow> lo \<le> of_char c \<and> of_char c \<le> hi"

fun utf8_valid :: "string \<Rightarrow> bool" where
  "utf8_valid [] = True"
| "utf8_valid (a # s) =
     (if byte_in 0 0x7F a then utf8_valid s
      else case s of
        [] \<Rightarrow> False
      | b # s1 \<Rightarrow>
          if byte_in 0xC2 0xDF a then byte_in 0x80 0xBF b \<and> utf8_valid s1
          else (case s1 of
            [] \<Rightarrow> False
          | c # s2 \<Rightarrow>
              if byte_in 0xE0 0xEF a
              then byte_in (if byte_in 0xE0 0xE0 a then 0xA0 else 0x80) (if byte_in 0xED 0xED a then 0x9F else 0xBF) b
                   \<and> byte_in 0x80 0xBF c \<and> utf8_valid s2
              else (case s2 of
                [] \<Rightarrow> False
              | d # s3 \<Rightarrow> byte_in 0xF0 0xF4 a
                  \<and> byte_in (if byte_in 0xF0 0xF0 a then 0x90 else 0x80) (if byte_in 0xF4 0xF4 a then 0x8F else 0xBF) b
                  \<and> byte_in 0x80 0xBF c \<and> byte_in 0x80 0xBF d \<and> utf8_valid s3)))"

text \<open>\<^verbatim>\<open>&s[a..b]\<close>: \<open>None\<close> is the panic of a range that is not within the text.\<close>

definition str_slice :: "string \<Rightarrow> nat \<Rightarrow> nat \<Rightarrow> string option" where
  "str_slice s a b = (if a \<le> b \<and> b \<le> length s then Some (take (b - a) (drop a s)) else None)"

lemma str_slice_nth: "a \<le> b \<Longrightarrow> b \<le> length s \<Longrightarrow> str_slice s a b = Some (map ((!) s) [a ..< b])"
  by (auto simp: str_slice_def intro: nth_equalityI)

lemma str_slice_None_iff: "str_slice s a b = None \<longleftrightarrow> \<not> (a \<le> b \<and> b \<le> length s)"
  by (simp add: str_slice_def)

end
