(* ===== verification/Std_Path.thy ===== *)
theory Std_Path
  imports Std_Str
begin

text \<open>
  \<^verbatim>\<open>std::path\<close> on Unix. Two paths are equal when their components are, and they compare
  component by component (\<^verbatim>\<open>Path\<close>'s \<^verbatim>\<open>Eq\<close> and \<^verbatim>\<open>Ord\<close>), so a path is its list of components;
  \<open>component\<close> is \<^verbatim>\<open>std::path::Component\<close> without \<^verbatim>\<open>Prefix\<close>, which Unix paths never have.
  A component's name is its UTF-8 bytes.
\<close>

datatype component = RootDir | CurDir | ParentDir | Normal string

type_synonym path = "component list"

text \<open>The derived order of \<^verbatim>\<open>Component\<close>: by variant, then by the name's bytes.\<close>

fun component_key :: "component \<Rightarrow> nat \<times> string" where
  "component_key RootDir = (0, [])"
| "component_key CurDir = (1, [])"
| "component_key ParentDir = (2, [])"
| "component_key (Normal s) = (3, s)"

lemma component_key_inject: "component_key a = component_key b \<Longrightarrow> a = b"
  by (cases a; cases b) auto

instantiation component :: linorder
begin

definition less_eq_component :: "component \<Rightarrow> component \<Rightarrow> bool" where
  "less_eq_component a b \<longleftrightarrow> component_key a \<le> component_key b"

definition less_component :: "component \<Rightarrow> component \<Rightarrow> bool" where
  "less_component a b \<longleftrightarrow> component_key a < component_key b"

instance
  by intro_classes
    (auto simp: less_eq_component_def less_component_def intro: component_key_inject)

end

text \<open>
  \<^verbatim>\<open>Path::new\<close> and its components: repeated slashes and \<^verbatim>\<open>.\<close> components vanish, a leading \<^verbatim>\<open>.\<close>
  excepted.
\<close>

fun component_of :: "string \<Rightarrow> component list" where
  "component_of s = (if s = [] \<or> s = ''.'' then [] else if s = ''..'' then [ParentDir] else [Normal s])"

definition path_new :: "string \<Rightarrow> path" where
  "path_new s =
     (case split_on CHR ''/'' s of
        [] \<Rightarrow> []
      | p # ps \<Rightarrow>
          if p = [] \<and> ps \<noteq> [] then RootDir # concat (map component_of ps)
          else if p = ''.'' then CurDir # concat (map component_of ps)
          else concat (map component_of (p # ps)))"

text \<open>\<^verbatim>\<open>Path::file_name\<close> and \<^verbatim>\<open>Path::extension\<close>.\<close>

definition file_name :: "path \<Rightarrow> string option" where
  "file_name p = (if p = [] then None
     else case last p of Normal s \<Rightarrow> Some s | _ \<Rightarrow> None)"

text \<open>
  \<^verbatim>\<open>rsplit_file_at_dot\<close>: the part after the last dot, unless the name has no dot or its only
  dot leads it (\<^verbatim>\<open>.gitignore\<close> has no extension).
\<close>

definition extension_of_name :: "string \<Rightarrow> string option" where
  "extension_of_name s =
     (let after = rev (takeWhile (\<lambda>c. c \<noteq> CHR ''.'') (rev s)) in
      if CHR ''.'' \<notin> set s \<or> Suc (length after) = length s then None else Some after)"

definition extension :: "path \<Rightarrow> string option" where
  "extension p = Option.bind (file_name p) extension_of_name"

text \<open>\<^verbatim>\<open>Path::starts_with\<close> compares whole components.\<close>

definition path_starts_with :: "path \<Rightarrow> path \<Rightarrow> bool" where
  "path_starts_with p base \<longleftrightarrow> take (length base) p = base"


text \<open>The iteration order of a \<^verbatim>\<open>HashSet<PathBuf>\<close>.\<close>

locale path_iter = hash_iter iter
  for iter :: "path fset \<Rightarrow> path list"

interpretation sorted_paths: path_iter sorted_list_of_fset
  by unfold_locales

lemma path_iter_set: "path_iter iter \<Longrightarrow> set (iter S) = fset S"
  by (simp add: hash_iter.set_iter path_iter_def)

lemma path_iter_distinct: "path_iter iter \<Longrightarrow> distinct (iter S)"
  by (simp add: hash_iter.distinct_iter path_iter_def)

end
