(* ===== verification/Module_Graph.thy ===== *)
theory Module_Graph
  imports Std_Path
begin

text \<open>
  The dev server's module graph, \<^verbatim>\<open>crates/oj_graph/src/lib.rs\<close>: the nodes, the registration
  operations a served module runs (\<^verbatim>\<open>set_imports\<close>, \<^verbatim>\<open>set_self_accepting\<close>, \<^verbatim>\<open>set_accepted_deps\<close>,
  \<^verbatim>\<open>set_accepted_exports\<close>, \<^verbatim>\<open>set_imported_bindings\<close>) and the readers. The walks over the
  graph are in \<open>Hmr_Propagate\<close>, the HMR stamps in \<open>Hmr_Stamps\<close>.

  A \<^verbatim>\<open>HashMap\<close> is a finite map and a \<^verbatim>\<open>HashSet\<close> a finite set, both finite by their type. A
  method that takes \<^verbatim>\<open>&mut self\<close> returns the new graph. The invariant is \<open>graph_wf\<close>: the
  importer edges are exactly the import edges reversed, and every edge ends at a module the
  graph holds.
\<close>

section \<open>State\<close>

record module_node =
  importers :: "path fset"
  node_imports :: "path fset"
  is_self_accepting :: bool
  last_hmr_timestamp :: u64
  last_hmr_invalidation_received :: bool
  last_invalidation_timestamp :: u64
  accepted_hmr_deps :: "path fset"
  accepted_exports :: "string fset option"
  imported_bindings :: "(path, string fset) fmap"

text \<open>\<^verbatim>\<open>ModuleNode::default()\<close>.\<close>

definition default_node :: module_node where
  "default_node = \<lparr>importers = {||}, node_imports = {||}, is_self_accepting = False,
     last_hmr_timestamp = 0, last_hmr_invalidation_received = False,
     last_invalidation_timestamp = 0, accepted_hmr_deps = {||}, accepted_exports = None,
     imported_bindings = fmempty\<rparr>"

record module_graph =
  modules :: "(path, module_node) fmap"
  invalidation_stamp :: u64

definition new_graph :: module_graph where
  "new_graph = \<lparr>modules = fmempty, invalidation_stamp = 0\<rparr>"

section \<open>Operations\<close>

text \<open>\<^verbatim>\<open>ensure_module\<close>: the node is created when it is missing.\<close>

definition ensure_module :: "path \<Rightarrow> module_graph \<Rightarrow> module_graph" where
  "ensure_module p g =
     (if p |\<in>| fmdom (modules g) then g
      else g\<lparr>modules := fmupd p default_node (modules g)\<rparr>)"

text \<open>A write through \<^verbatim>\<open>modules.get_mut(p)\<close>: nothing happens to a module the graph lacks.\<close>

definition modify_node :: "path \<Rightarrow> (module_node \<Rightarrow> module_node) \<Rightarrow> module_graph \<Rightarrow> module_graph" where
  "modify_node p f g =
     (case fmlookup (modules g) p of
        None \<Rightarrow> g
      | Some n \<Rightarrow> g\<lparr>modules := fmupd p (f n) (modules g)\<rparr>)"

text \<open>A write through the \<^verbatim>\<open>&mut\<close> that \<^verbatim>\<open>ensure_module(p)\<close> returns.\<close>

definition with_module :: "path \<Rightarrow> (module_node \<Rightarrow> module_node) \<Rightarrow> module_graph \<Rightarrow> module_graph" where
  "with_module p f g = modify_node p f (ensure_module p g)"

definition add_import :: "path \<Rightarrow> path \<Rightarrow> module_graph \<Rightarrow> module_graph" where
  "add_import importer imported g =
     (let g1 = with_module importer
            (\<lambda>n. if imported |\<in>| node_imports n then n
                 else n\<lparr>node_imports := finsert imported (node_imports n)\<rparr>) g
      in with_module imported
            (\<lambda>n. if importer |\<in>| importers n then n
                 else n\<lparr>importers := finsert importer (importers n)\<rparr>) g1)"

definition set_self_accepting :: "path \<Rightarrow> bool \<Rightarrow> module_graph \<Rightarrow> module_graph" where
  "set_self_accepting p accepting g = with_module p (\<lambda>n. n\<lparr>is_self_accepting := accepting\<rparr>) g"

definition set_accepted_deps :: "path \<Rightarrow> path list \<Rightarrow> module_graph \<Rightarrow> module_graph" where
  "set_accepted_deps p deps g =
     with_module p (\<lambda>n. n\<lparr>accepted_hmr_deps := fset_of_list deps\<rparr>) g"

text \<open>
  The borrowed comparison of a recorded name set with a list of names: equal lengths and
  every listed name recorded.
\<close>

definition same_names :: "string fset \<Rightarrow> string list \<Rightarrow> bool" where
  "same_names S v \<longleftrightarrow> fcard S = length v \<and> list_all (\<lambda>n. n |\<in>| S) v"

definition accepted_exports_unchanged :: "path \<Rightarrow> string list option \<Rightarrow> module_graph \<Rightarrow> bool" where
  "accepted_exports_unchanged p names g =
     (case (fmlookup (modules g) p, names) of
        (Some n, Some v) \<Rightarrow>
          (case accepted_exports n of None \<Rightarrow> False | Some S \<Rightarrow> same_names S v)
      | (Some n, None) \<Rightarrow> accepted_exports n = None
      | (None, None) \<Rightarrow> True
      | (None, Some v) \<Rightarrow> False)"

definition set_accepted_exports ::
  "path \<Rightarrow> string list option \<Rightarrow> module_graph \<Rightarrow> module_graph" where
  "set_accepted_exports p names g =
     (if accepted_exports_unchanged p names g then g
      else with_module p (\<lambda>n. n\<lparr>accepted_exports := map_option fset_of_list names\<rparr>) g)"

text \<open>
  The unchanged scan of \<^verbatim>\<open>set_imported_bindings\<close>: \<open>seen\<close> holds the entries before the current
  one (\<^verbatim>\<open>bindings.clone().take(idx)\<close>) and \<open>d\<close> the distinct paths counted so far; \<open>None\<close> is the
  early \<^verbatim>\<open>return false\<close>.
\<close>

fun bindings_scan ::
  "(path, string fset) fmap \<Rightarrow> (path \<times> string list) list \<Rightarrow> (path \<times> string list) list \<Rightarrow> nat
     \<Rightarrow> nat option" where
  "bindings_scan m seen [] d = Some d"
| "bindings_scan m seen ((p, names) # rest) d =
     (case fmlookup m p of
        Some S \<Rightarrow>
          if same_names S names
          then bindings_scan m (seen @ [(p, names)]) rest
                 (if list_ex (\<lambda>(prev, _). prev = p) seen then d else Suc d)
          else None
      | None \<Rightarrow> None)"

definition bindings_unchanged :: "path \<Rightarrow> (path \<times> string list) list \<Rightarrow> module_graph \<Rightarrow> bool" where
  "bindings_unchanged p bs g =
     (case fmlookup (modules g) p of
        None \<Rightarrow> False
      | Some n \<Rightarrow> bindings_scan (imported_bindings n) [] bs 0
                    = Some (fcard (fmdom (imported_bindings n))))"

text \<open>\<^verbatim>\<open>collect\<close> into a map: a later entry for a path replaces an earlier one.\<close>

fun collect_bindings :: "(path \<times> string list) list \<Rightarrow> (path, string fset) fmap \<Rightarrow> (path, string fset) fmap" where
  "collect_bindings [] m = m"
| "collect_bindings ((p, names) # rest) m = collect_bindings rest (fmupd p (fset_of_list names) m)"

definition set_imported_bindings ::
  "path \<Rightarrow> (path \<times> string list) list \<Rightarrow> module_graph \<Rightarrow> module_graph" where
  "set_imported_bindings p bs g =
     (if bindings_unchanged p bs g then g
      else with_module p (\<lambda>n. n\<lparr>imported_bindings := collect_bindings bs fmempty\<rparr>) g)"

subsection \<open>\<open>set_imports\<close>\<close>

definition scan_limit :: nat where "scan_limit = 32"

text \<open>The barrel-sized comparison: one set of the listed paths; \<open>None\<close> is the early \<^verbatim>\<open>return false\<close>.\<close>

fun distinct_listed :: "path fset \<Rightarrow> path list \<Rightarrow> path fset \<Rightarrow> path fset option" where
  "distinct_listed S [] seen = Some seen"
| "distinct_listed S (p # ps) seen =
     (if p |\<notin>| S then None else distinct_listed S ps (finsert p seen))"

definition imports_unchanged ::
  "(path fset \<Rightarrow> path list) \<Rightarrow> path \<Rightarrow> path list \<Rightarrow> module_graph \<Rightarrow> bool" where
  "imports_unchanged iter importer imps g =
     (case fmlookup (modules g) importer of
        None \<Rightarrow> False
      | Some n \<Rightarrow>
          if length imps \<le> scan_limit \<and> fcard (node_imports n) \<le> scan_limit
          then list_all (\<lambda>i. i |\<in>| node_imports n) imps
               \<and> list_all (\<lambda>old. old \<in> set imps) (iter (node_imports n))
          else (case distinct_listed (node_imports n) imps {||} of
                  None \<Rightarrow> False
                | Some d \<Rightarrow> fcard d = fcard (node_imports n)))"

text \<open>The loop over the dropped imports: the reverse edge goes first, then the edge itself.\<close>

fun drop_stale :: "path \<Rightarrow> path list \<Rightarrow> module_graph \<times> path list \<Rightarrow> module_graph \<times> path list" where
  "drop_stale importer [] st = st"
| "drop_stale importer (old # rest) (g, pruned) =
     (let g1 = modify_node old (\<lambda>n. n\<lparr>importers := importers n |-| {|importer|}\<rparr>) g;
          pruned1 = (case fmlookup (modules g1) old of
                       None \<Rightarrow> pruned
                     | Some n \<Rightarrow> if importers n = {||} then pruned @ [old] else pruned);
          g2 = with_module importer (\<lambda>n. n\<lparr>node_imports := node_imports n |-| {|old|}\<rparr>) g1
      in drop_stale importer rest (g2, pruned1))"

definition add_imports :: "path \<Rightarrow> path list \<Rightarrow> module_graph \<Rightarrow> module_graph" where
  "add_imports importer imps g = fold (add_import importer) imps g"

definition node_of :: "module_graph \<Rightarrow> path \<Rightarrow> module_node" where
  "node_of g p = (case fmlookup (modules g) p of Some n \<Rightarrow> n | None \<Rightarrow> default_node)"

definition set_imports ::
  "(path fset \<Rightarrow> path list) \<Rightarrow> path \<Rightarrow> path list \<Rightarrow> module_graph \<Rightarrow> module_graph \<times> path list" where
  "set_imports iter importer imps g =
     (if imports_unchanged iter importer imps g then (g, [])
      else let g0 = ensure_module importer g;
               stale = filter (\<lambda>old. old \<notin> set imps) (iter (node_imports (node_of g0 importer)));
               (g1, pruned) = drop_stale importer stale (g0, [])
           in (add_imports importer imps g1, sort pruned))"

subsection \<open>Stamps and readers\<close>

fun stamp_all :: "path list \<Rightarrow> u64 \<Rightarrow> module_graph \<Rightarrow> module_graph" where
  "stamp_all [] t g = g"
| "stamp_all (p # ps) t g =
     stamp_all ps t (modify_node p
       (\<lambda>n. n\<lparr>last_hmr_timestamp := t, last_hmr_invalidation_received := False\<rparr>) g)"

definition stamp_pruned :: "path list \<Rightarrow> u64 \<Rightarrow> module_graph \<Rightarrow> module_graph" where
  "stamp_pruned ps t g = stamp_all ps t g"

definition contains_module :: "module_graph \<Rightarrow> path \<Rightarrow> bool" where
  "contains_module g p \<longleftrightarrow> p |\<in>| fmdom (modules g)"

definition module_paths :: "(path fset \<Rightarrow> path list) \<Rightarrow> module_graph \<Rightarrow> path list" where
  "module_paths iter g = sort (iter (fmdom (modules g)))"

definition invalidation_timestamp :: "module_graph \<Rightarrow> path \<Rightarrow> u64" where
  "invalidation_timestamp g p =
     (case fmlookup (modules g) p of Some n \<Rightarrow> last_invalidation_timestamp n | None \<Rightarrow> 0)"

definition hmr_timestamp :: "module_graph \<Rightarrow> path \<Rightarrow> u64" where
  "hmr_timestamp g p =
     (case fmlookup (modules g) p of Some n \<Rightarrow> last_hmr_timestamp n | None \<Rightarrow> 0)"

text \<open>\<^verbatim>\<open>Iterator::max\<close> over the timestamps, with 0 for no import.\<close>

definition imports_timestamp :: "(path fset \<Rightarrow> path list) \<Rightarrow> module_graph \<Rightarrow> path \<Rightarrow> u64" where
  "imports_timestamp iter g p =
     (case fmlookup (modules g) p of
        Some n \<Rightarrow>
          (case map (hmr_timestamp g) (iter (node_imports n)) of
             [] \<Rightarrow> 0
           | t # ts \<Rightarrow> fold max ts t)
      | None \<Rightarrow> 0)"


section \<open>Lookups after an update\<close>

lemma fmlookup_ensure_module [graph_simps]:
  "fmlookup (modules (ensure_module p g)) q =
     (if q = p then Some (node_of g p) else fmlookup (modules g) q)"
  by (auto simp: ensure_module_def node_of_def fmlookup_dom_iff split: option.splits)

lemma fmlookup_modify_node [graph_simps]:
  "fmlookup (modules (modify_node p f g)) q =
     (if q = p then map_option f (fmlookup (modules g) p) else fmlookup (modules g) q)"
  by (auto simp: modify_node_def split: option.splits)

lemma fmlookup_with_module [graph_simps]:
  "fmlookup (modules (with_module p f g)) q =
     (if q = p then Some (f (node_of g p)) else fmlookup (modules g) q)"
  by (simp add: with_module_def graph_simps)

lemma node_of_ensure_module [graph_simps]: "node_of (ensure_module p g) q = node_of g q"
  by (simp add: node_of_def [of "ensure_module p g"] graph_simps) (simp add: node_of_def)

lemma node_of_modify_node [graph_simps]:
  "node_of (modify_node p f g) q =
     (if q = p \<and> contains_module g p then f (node_of g p) else node_of g q)"
  by (auto simp: node_of_def graph_simps contains_module_def fmlookup_dom_iff split: option.splits)

lemma node_of_with_module [graph_simps]:
  "node_of (with_module p f g) q = (if q = p then f (node_of g p) else node_of g q)"
  by (simp add: node_of_def [of "with_module p f g"] graph_simps) (simp add: node_of_def)

lemma contains_ensure_module [graph_simps]:
  "contains_module (ensure_module p g) q \<longleftrightarrow> q = p \<or> contains_module g q"
  by (auto simp: contains_module_def ensure_module_def)

lemma contains_modify_node [graph_simps]:
  "contains_module (modify_node p f g) q \<longleftrightarrow> contains_module g q"
  by (auto simp: contains_module_def modify_node_def fmlookup_dom_iff split: option.splits)

lemma contains_with_module [graph_simps]:
  "contains_module (with_module p f g) q \<longleftrightarrow> q = p \<or> contains_module g q"
  by (simp add: with_module_def graph_simps)

lemma stamp_ensure_module [graph_simps]:
  "invalidation_stamp (ensure_module p g) = invalidation_stamp g"
  by (simp add: ensure_module_def)

lemma stamp_modify_node [graph_simps]:
  "invalidation_stamp (modify_node p f g) = invalidation_stamp g"
  by (simp add: modify_node_def split: option.splits)

lemma stamp_with_module [graph_simps]:
  "invalidation_stamp (with_module p f g) = invalidation_stamp g"
  by (simp add: with_module_def graph_simps)

lemma contains_iff_lookup: "contains_module g p \<longleftrightarrow> (\<exists>n. fmlookup (modules g) p = Some n)"
  by (auto simp: contains_module_def fmlookup_dom_iff)

lemma lookup_node_of: "contains_module g p \<Longrightarrow> fmlookup (modules g) p = Some (node_of g p)"
  by (auto simp: contains_iff_lookup node_of_def)

lemma lookup_None_iff: "fmlookup (modules g) p = None \<longleftrightarrow> \<not> contains_module g p"
  by (auto simp: contains_iff_lookup)

lemma lookup_SomeD: "fmlookup (modules g) p = Some n \<Longrightarrow> contains_module g p \<and> node_of g p = n"
  by (auto simp: contains_iff_lookup node_of_def)

lemma node_of_absent: "\<not> contains_module g p \<Longrightarrow> node_of g p = default_node"
  by (auto simp: contains_iff_lookup node_of_def split: option.splits)

lemma default_node_sel [simp]:
  "importers default_node = {||}" "node_imports default_node = {||}"
  "is_self_accepting default_node = False" "last_hmr_timestamp default_node = 0"
  "last_hmr_invalidation_received default_node = False"
  "last_invalidation_timestamp default_node = 0" "accepted_hmr_deps default_node = {||}"
  "accepted_exports default_node = None" "imported_bindings default_node = fmempty"
  by (simp_all add: default_node_def)

lemma hmr_timestamp_node_of: "hmr_timestamp g p = last_hmr_timestamp (node_of g p)"
  by (simp add: hmr_timestamp_def node_of_def split: option.splits)

lemma invalidation_timestamp_node_of:
  "invalidation_timestamp g p = last_invalidation_timestamp (node_of g p)"
  by (simp add: invalidation_timestamp_def node_of_def split: option.splits)

text \<open>Two graphs with the same modules and nodes and the same stamp are equal.\<close>

lemma graph_eqI:
  assumes "\<And>p. contains_module g p = contains_module h p" and "\<And>p. node_of g p = node_of h p"
    and "invalidation_stamp g = invalidation_stamp h"
  shows "g = (h :: module_graph)"
proof -
  have "fmlookup (modules g) p = fmlookup (modules h) p" for p
    by (cases "contains_module g p") (metis assms(1,2) lookup_node_of lookup_None_iff)+
  then have "modules g = modules h" by (rule fmap_ext)
  with assms(3) show ?thesis by simp
qed

section \<open>The invariant\<close>

text \<open>
  Every edge is recorded at both of its ends. A module the graph lacks reads as the default
  node, which has no edges, so the invariant also says that every edge ends at modules of the
  graph (\<open>graph_wf_contains\<close>).
\<close>

definition graph_wf :: "module_graph \<Rightarrow> bool" where
  "graph_wf g \<longleftrightarrow>
     (\<forall>a b. b |\<in>| node_imports (node_of g a) \<longleftrightarrow> a |\<in>| importers (node_of g b))"

lemma graph_wfD:
  "graph_wf g \<Longrightarrow> b |\<in>| node_imports (node_of g a) \<longleftrightarrow> a |\<in>| importers (node_of g b)"
  by (simp add: graph_wf_def)

lemma graph_wf_contains:
  assumes "graph_wf g"
  shows "b |\<in>| node_imports (node_of g a) \<Longrightarrow> contains_module g a \<and> contains_module g b"
    and "a |\<in>| importers (node_of g b) \<Longrightarrow> contains_module g a \<and> contains_module g b"
  using graph_wfD [OF assms, of a b] graph_wfD [OF assms, of b a]
  by (metis default_node_sel(1,2) fempty_iff graph_wfD assms node_of_absent)+

lemma node_of_new: "node_of new_graph p = default_node"
  by (simp add: node_of_def new_graph_def)

lemma graph_wf_new: "graph_wf new_graph"
  by (simp add: graph_wf_def node_of_new)

lemma graph_wf_ensure_module: "graph_wf g \<Longrightarrow> graph_wf (ensure_module p g)"
  by (simp add: graph_wf_def graph_simps)

text \<open>An operation that leaves the two edge sets of the node alone keeps the invariant.\<close>

lemma graph_wf_cong:
  assumes "graph_wf g"
    and "\<And>p. importers (node_of h p) = importers (node_of g p)"
    and "\<And>p. node_imports (node_of h p) = node_imports (node_of g p)"
  shows "graph_wf h"
  using assms by (simp add: graph_wf_def)

lemma node_of_add_import:
  "node_of (add_import a b g) p =
     (node_of g p)\<lparr>node_imports := (if p = a then finsert b (node_imports (node_of g p))
                                     else node_imports (node_of g p)),
                   importers := (if p = b then finsert a (importers (node_of g p))
                                 else importers (node_of g p))\<rparr>"
  by (auto simp: add_import_def Let_def graph_simps finsert_absorb)

lemma contains_add_import [graph_simps]:
  "contains_module (add_import a b g) p \<longleftrightarrow> p = a \<or> p = b \<or> contains_module g p"
  by (auto simp: add_import_def Let_def graph_simps)

lemma stamp_add_import [graph_simps]:
  "invalidation_stamp (add_import a b g) = invalidation_stamp g"
  by (simp add: add_import_def Let_def graph_simps)

lemma graph_wf_add_import: "graph_wf g \<Longrightarrow> graph_wf (add_import a b g)"
  by (auto simp: graph_wf_def node_of_add_import)


section \<open>\<open>set_imports\<close> implements the replacement of a module's imports\<close>

lemma distinct_listed_eq:
  "distinct_listed S ps seen =
     (if list_all (\<lambda>p. p |\<in>| S) ps then Some (fset_of_list ps |\<union>| seen) else None)"
  by (induction ps arbitrary: seen) auto

lemma list_all_fset_of_list: "list_all (\<lambda>p. p |\<in>| S) ps \<longleftrightarrow> fset_of_list ps |\<subseteq>| S"
  by (auto simp: list_all_iff less_eq_fset.rep_eq fset_of_list.rep_eq)

lemma fset_of_list_eq_iff: "fset_of_list ps = S \<longleftrightarrow> set ps \<subseteq> fset S \<and> fset S \<subseteq> set ps"
  by (auto simp: fset_inject [symmetric] fset_of_list.rep_eq)

lemma fminus_finsert: "S |-| {|x|} |-| T = S |-| finsert x T"
  by auto

text \<open>Both comparisons decide whether the listed paths are the recorded ones.\<close>

context path_iter
begin

lemma imports_unchanged_iff:
  "imports_unchanged iter a imps g \<longleftrightarrow>
     contains_module g a \<and> fset_of_list imps = node_imports (node_of g a)"
proof (cases "contains_module g a")
  case False
  then show ?thesis by (simp add: imports_unchanged_def lookup_None_iff [THEN iffD2])
next
  case True
  let ?S = "node_imports (node_of g a)"
  have small: "(list_all (\<lambda>i. i |\<in>| ?S) imps \<and> list_all (\<lambda>old. old \<in> set imps) (iter ?S))
      \<longleftrightarrow> fset_of_list imps = ?S"
    unfolding list_all_iff set_iter fset_of_list_eq_iff by blast
  have "(case distinct_listed ?S imps {||} of None \<Rightarrow> False | Some d \<Rightarrow> fcard d = fcard ?S)
      \<longleftrightarrow> list_all (\<lambda>p. p |\<in>| ?S) imps \<and> fcard (fset_of_list imps) = fcard ?S"
    by (simp add: distinct_listed_eq)
  also have "\<dots> \<longleftrightarrow> fset_of_list imps = ?S"
  proof
    assume h: "list_all (\<lambda>p. p |\<in>| ?S) imps \<and> fcard (fset_of_list imps) = fcard ?S"
    then have "fset_of_list imps |\<subseteq>| ?S" by (simp add: list_all_fset_of_list)
    with h show "fset_of_list imps = ?S"
      by (metis fcard.rep_eq card_subset_eq finite_fset fset_inject less_eq_fset.rep_eq)
  qed (simp add: list_all_fset_of_list)
  finally show ?thesis
    using True small by (simp add: imports_unchanged_def lookup_node_of)
qed

end

text \<open>The loop over the dropped imports removes each edge at both of its ends.\<close>

lemma drop_stale_fst:
  assumes "contains_module g a" and "\<forall>x\<in>set xs. contains_module g x"
  shows "node_of (fst (drop_stale a xs (g, pr))) p =
     (node_of g p)\<lparr>node_imports := (if p = a then node_imports (node_of g p) |-| fset_of_list xs
                                     else node_imports (node_of g p)),
                   importers := (if p \<in> set xs then importers (node_of g p) |-| {|a|}
                                 else importers (node_of g p))\<rparr>"
    and "contains_module (fst (drop_stale a xs (g, pr))) p = contains_module g p"
    and "invalidation_stamp (fst (drop_stale a xs (g, pr))) = invalidation_stamp g"
  using assms
proof (induction xs arbitrary: g pr)
  case Nil
  { case 1 show ?case by simp }
  { case 2 show ?case by simp }
  { case 3 show ?case by simp }
next
  case (Cons x xs)
  let ?g1 = "modify_node x (\<lambda>n. n\<lparr>importers := importers n |-| {|a|}\<rparr>) g"
  let ?g2 = "with_module a (\<lambda>n. n\<lparr>node_imports := node_imports n |-| {|x|}\<rparr>) ?g1"
  { case 1
    then show ?case
      by (auto simp: Let_def Cons.IH(1) graph_simps fminus_finsert) }
  { case 2 then show ?case by (simp add: Let_def Cons.IH(2) graph_simps) auto }
  { case 3 then show ?case by (simp add: Let_def Cons.IH(3) graph_simps) }
qed

lemma drop_stale_snd:
  assumes "contains_module g a" and "\<forall>x\<in>set xs. contains_module g x" and "distinct xs"
  shows "snd (drop_stale a xs (g, pr)) =
     pr @ filter (\<lambda>x. importers (node_of g x) |\<subseteq>| {|a|}) xs"
  using assms
proof (induction xs arbitrary: g pr)
  case Nil
  show ?case by simp
next
  case (Cons x xs)
  let ?g1 = "modify_node x (\<lambda>n. n\<lparr>importers := importers n |-| {|a|}\<rparr>) g"
  let ?g2 = "with_module a (\<lambda>n. n\<lparr>node_imports := node_imports n |-| {|x|}\<rparr>) ?g1"
  have x: "fmlookup (modules g) x = Some (node_of g x)"
    using Cons.prems by (simp add: lookup_node_of)
  have same: "importers (node_of ?g2 y) = importers (node_of g y)" if "y \<in> set xs" for y
    using that Cons.prems by (auto simp: graph_simps)
  have "filter (\<lambda>y. importers (node_of ?g2 y) |\<subseteq>| {|a|}) xs
      = filter (\<lambda>y. importers (node_of g y) |\<subseteq>| {|a|}) xs"
    by (rule filter_cong) (simp_all add: same)
  then show ?case
    using Cons.prems x by (auto simp: Let_def Cons.IH graph_simps fmlookup_modify_node)
qed

lemma node_of_add_imports:
  "node_of (add_imports a imps g) p =
     (node_of g p)\<lparr>node_imports := (if p = a then fset_of_list imps |\<union>| node_imports (node_of g p)
                                     else node_imports (node_of g p)),
                   importers := (if p \<in> set imps then finsert a (importers (node_of g p))
                                 else importers (node_of g p))\<rparr>"
  unfolding add_imports_def
  by (induction imps arbitrary: g) (auto simp: node_of_add_import finsert_absorb)

lemma contains_add_imports:
  "contains_module (add_imports a imps g) p \<longleftrightarrow>
     contains_module g p \<or> p \<in> set imps \<or> (imps \<noteq> [] \<and> p = a)"
  unfolding add_imports_def by (induction imps arbitrary: g) (auto simp: graph_simps)

lemma stamp_add_imports: "invalidation_stamp (add_imports a imps g) = invalidation_stamp g"
  unfolding add_imports_def by (induction imps arbitrary: g) (auto simp: graph_simps)

text \<open>
  What \<^verbatim>\<open>set_imports\<close> promises: \<open>a\<close> imports exactly the listed modules, each of them (and no
  dropped one) records \<open>a\<close> as an importer, every other field of every node stays, and the
  modules reported for pruning are the dropped ones that nothing imports any more.
\<close>

definition imports_replaced :: "path \<Rightarrow> path list \<Rightarrow> module_graph \<Rightarrow> module_graph \<Rightarrow> bool" where
  "imports_replaced a imps g h \<longleftrightarrow>
     (\<forall>p. node_of h p =
        (node_of g p)\<lparr>node_imports := (if p = a then fset_of_list imps
                                        else node_imports (node_of g p)),
                      importers := (if p \<in> set imps then finsert a (importers (node_of g p))
                                    else importers (node_of g p) |-| {|a|})\<rparr>) \<and>
     (\<forall>p. contains_module h p \<longleftrightarrow> contains_module g p \<or> p = a \<or> p \<in> set imps) \<and>
     invalidation_stamp h = invalidation_stamp g"

definition pruned_imports :: "path \<Rightarrow> path list \<Rightarrow> module_graph \<Rightarrow> path set" where
  "pruned_imports a imps g =
     {p. p |\<in>| node_imports (node_of g a) \<and> p \<notin> set imps \<and> importers (node_of g p) |\<subseteq>| {|a|}}"

context path_iter
begin

lemma set_imports_spec:
  assumes "graph_wf g"
  shows "imports_replaced a imps g (fst (set_imports iter a imps g))"
    and "snd (set_imports iter a imps g) = sorted_list_of_set (pruned_imports a imps g)"
proof -
  let ?S = "node_imports (node_of g a)"
  let ?stale = "filter (\<lambda>old. old \<notin> set imps) (iter ?S)"
  let ?g0 = "ensure_module a g"
  let ?d = "drop_stale a ?stale (?g0, [])"
  have unch: "imports_replaced a imps g g" if "imports_unchanged iter a imps g"
  proof -
    from that have c: "contains_module g a" and same: "fset_of_list imps = ?S"
      by (simp_all add: imports_unchanged_iff)
    then have "p \<in> set imps \<longleftrightarrow> a |\<in>| importers (node_of g p)" for p
      using graph_wfD [OF assms, of p a] by (metis fset_of_list_elem)
    then show ?thesis
      using graph_wf_contains(2) [OF assms] c same
      by (auto simp: imports_replaced_def finsert_absorb)
  qed
  have unch_pr: "imports_unchanged iter a imps g \<Longrightarrow> pruned_imports a imps g = {}"
    by (auto simp: imports_unchanged_iff pruned_imports_def fset_of_list_eq_iff)
  have has: "contains_module ?g0 a" "\<forall>x\<in>set ?stale. contains_module ?g0 x"
    using graph_wf_contains(1) [OF assms, of _ a] by (auto simp: graph_simps)
  have dist: "distinct ?stale" by (simp add: distinct_iter)
  have eq: "set_imports iter a imps g = (add_imports a imps (fst ?d), sort (snd ?d))"
    if "\<not> imports_unchanged iter a imps g"
    using that by (simp add: set_imports_def Let_def graph_simps split: prod.splits)
  have imps: "fset_of_list imps |\<union>| (?S |-| fset_of_list ?stale) = fset_of_list imps"
    by (auto simp: fset_of_list_elem)
  have imprs: "(if p \<in> set ?stale then importers (node_of g p) |-| {|a|} else importers (node_of g p))
      = importers (node_of g p) |-| {|a|}" if "p \<notin> set imps" for p
    using that graph_wfD [OF assms, of p a] by auto
  have "imports_replaced a imps g (add_imports a imps (fst ?d))"
    unfolding imports_replaced_def node_of_add_imports contains_add_imports stamp_add_imports
      drop_stale_fst [OF has] node_of_ensure_module contains_ensure_module stamp_ensure_module
    using imps imprs by auto
  then show "imports_replaced a imps g (fst (set_imports iter a imps g))"
    using unch eq by (cases "imports_unchanged iter a imps g") (simp_all add: set_imports_def)
  have "sort (snd ?d) = sorted_list_of_set (pruned_imports a imps g)"
    unfolding drop_stale_snd [OF has dist]
    by (subst sort_eq_sorted_list_of_set) (auto simp: distinct_iter pruned_imports_def graph_simps
        intro!: arg_cong [where f = sorted_list_of_set])
  then show "snd (set_imports iter a imps g) = sorted_list_of_set (pruned_imports a imps g)"
    using unch_pr eq by (cases "imports_unchanged iter a imps g") (simp_all add: set_imports_def)
qed

end

lemma graph_wf_imports_replaced: "graph_wf g \<Longrightarrow> imports_replaced a imps g h \<Longrightarrow> graph_wf h"
  unfolding graph_wf_def imports_replaced_def by (auto simp: fset_of_list_elem)


section \<open>The partial-accept list and the used bindings\<close>

text \<open>The borrowed comparison is exact for a list that names nothing twice.\<close>

lemma same_names_distinct: "distinct v \<Longrightarrow> same_names S v \<longleftrightarrow> S = fset_of_list v"
proof
  assume d: "distinct v" and s: "same_names S v"
  then have "fset_of_list v |\<subseteq>| S" by (simp add: same_names_def list_all_fset_of_list)
  moreover have "fcard (fset_of_list v) = fcard S"
    using d s by (simp add: same_names_def fcard.rep_eq fset_of_list.rep_eq distinct_card)
  ultimately show "S = fset_of_list v"
    by (metis card_subset_eq fcard.rep_eq finite_fset fset_inject less_eq_fset.rep_eq)
next
  assume "distinct v" and "S = fset_of_list v"
  then show "same_names S v"
    by (simp add: same_names_def list_all_iff fcard.rep_eq fset_of_list.rep_eq distinct_card)
qed

lemma node_of_set_accepted_exports:
  assumes "\<And>v. names = Some v \<Longrightarrow> distinct v"
  shows "node_of (set_accepted_exports p names g) q =
     (if q = p then (node_of g p)\<lparr>accepted_exports := map_option fset_of_list names\<rparr>
      else node_of g q)"
proof (cases "accepted_exports_unchanged p names g")
  case True
  have "accepted_exports (node_of g p) = map_option fset_of_list names"
  proof (cases "contains_module g p")
    case c: True
    with True assms show ?thesis
      by (auto simp: accepted_exports_unchanged_def lookup_node_of same_names_distinct
          split: option.splits)
  next
    case c: False
    with True show ?thesis
      by (auto simp: accepted_exports_unchanged_def lookup_None_iff [THEN iffD2] node_of_absent
          split: option.splits)
  qed
  then have "(node_of g p)\<lparr>accepted_exports := map_option fset_of_list names\<rparr> = node_of g p"
    by (metis module_node.surjective module_node.update_convs(8))
  with True show ?thesis by (simp add: set_accepted_exports_def)
next
  case False
  then show ?thesis by (simp add: set_accepted_exports_def graph_simps)
qed

lemma bindings_scan_Some:
  "bindings_scan m seen bs d = Some e \<Longrightarrow>
     (\<forall>(p, ns) \<in> set bs. \<exists>S. fmlookup m p = Some S \<and> same_names S ns) \<and>
     e = d + card (fst ` set bs - fst ` set seen)"
proof (induction m seen bs d rule: bindings_scan.induct)
  case (2 m seen p names rest d)
  from "2.prems" obtain S where S: "fmlookup m p = Some S" and same: "same_names S names"
    and rec: "bindings_scan m (seen @ [(p, names)]) rest
                (if list_ex (\<lambda>(prev, _). prev = p) seen then d else Suc d) = Some e"
    by (auto split: option.splits if_splits)
  have ex: "list_ex (\<lambda>(prev, _). prev = p) seen \<longleftrightarrow> p \<in> fst ` set seen"
    by (force simp: list_ex_iff)
  have "fst ` set ((p, names) # rest) - fst ` set seen =
      (if p \<in> fst ` set seen then {} else {p}) \<union> (fst ` set rest - fst ` set (seen @ [(p, names)]))"
    by auto
  then have "card (fst ` set ((p, names) # rest) - fst ` set seen) =
      (if p \<in> fst ` set seen then 0 else 1) + card (fst ` set rest - fst ` set (seen @ [(p, names)]))"
    by (simp add: card_insert_if)
  with "2.IH" [OF S same rec] ex S same show ?case by auto
qed simp

lemma fmlookup_collect_bindings:
  assumes "\<And>q ns. (q, ns) \<in> set bs \<Longrightarrow> fmlookup m q = Some (fset_of_list ns)"
  shows "fmlookup (collect_bindings bs m0) p =
     (if p \<in> fst ` set bs then fmlookup m p else fmlookup m0 p)"
  using assms
proof (induction bs m0 rule: collect_bindings.induct)
  case (2 q names rest m0)
  have "fmlookup m q = Some (fset_of_list names)" using "2.prems" by simp
  then show ?case using "2.IH" [OF "2.prems"] by auto
qed simp

lemma bindings_unchanged_collect:
  assumes "bindings_unchanged p bs g" and "\<And>q ns. (q, ns) \<in> set bs \<Longrightarrow> distinct ns"
  shows "imported_bindings (node_of g p) = collect_bindings bs fmempty"
proof -
  let ?m = "imported_bindings (node_of g p)"
  from assms(1) have scan: "bindings_scan ?m [] bs 0 = Some (fcard (fmdom ?m))"
    by (auto simp: bindings_unchanged_def node_of_def split: option.splits)
  have lk: "fmlookup ?m q = Some (fset_of_list ns)" if "(q, ns) \<in> set bs" for q ns
    using bindings_scan_Some [OF scan] assms(2) [OF that] that same_names_distinct by fastforce
  have "fst ` set bs \<subseteq> fset (fmdom ?m)" using lk by (auto intro: fmdomI)
  moreover have "card (fst ` set bs) = card (fset (fmdom ?m))"
    using bindings_scan_Some [OF scan] by (simp add: fcard.rep_eq)
  ultimately have "fst ` set bs = fset (fmdom ?m)" by (simp add: card_subset_eq)
  then show ?thesis
    by (intro fmap_ext) (auto simp: fmlookup_collect_bindings [of bs ?m, OF lk] fmlookup_dom_iff)
qed

lemma node_of_set_imported_bindings:
  assumes "\<And>q ns. (q, ns) \<in> set bs \<Longrightarrow> distinct ns"
  shows "node_of (set_imported_bindings p bs g) q =
     (if q = p then (node_of g p)\<lparr>imported_bindings := collect_bindings bs fmempty\<rparr>
      else node_of g q)"
proof (cases "bindings_unchanged p bs g")
  case True
  then have "(node_of g p)\<lparr>imported_bindings := collect_bindings bs fmempty\<rparr> = node_of g p"
    by (metis assms bindings_unchanged_collect module_node.surjective module_node.update_convs(9))
  with True show ?thesis by (simp add: set_imported_bindings_def)
next
  case False
  then show ?thesis by (simp add: set_imported_bindings_def graph_simps)
qed

section \<open>Every registration keeps the invariant\<close>

lemma graph_wf_with_module:
  assumes "graph_wf g" and "\<And>n. importers (f n) = importers n" and "\<And>n. node_imports (f n) = node_imports n"
  shows "graph_wf (with_module p f g)"
  by (rule graph_wf_cong [OF assms(1)]) (simp_all add: graph_simps assms(2,3))

lemma graph_wf_modify_node:
  assumes "graph_wf g" and "\<And>n. importers (f n) = importers n" and "\<And>n. node_imports (f n) = node_imports n"
  shows "graph_wf (modify_node p f g)"
  by (rule graph_wf_cong [OF assms(1)]) (simp_all add: graph_simps assms(2,3))

lemma graph_wf_set_self_accepting: "graph_wf g \<Longrightarrow> graph_wf (set_self_accepting p b g)"
  by (simp add: set_self_accepting_def graph_wf_with_module)

lemma graph_wf_set_accepted_deps: "graph_wf g \<Longrightarrow> graph_wf (set_accepted_deps p ds g)"
  by (simp add: set_accepted_deps_def graph_wf_with_module)

lemma graph_wf_set_accepted_exports: "graph_wf g \<Longrightarrow> graph_wf (set_accepted_exports p ns g)"
  by (simp add: set_accepted_exports_def graph_wf_with_module)

lemma graph_wf_set_imported_bindings: "graph_wf g \<Longrightarrow> graph_wf (set_imported_bindings p bs g)"
  by (simp add: set_imported_bindings_def graph_wf_with_module)

lemma graph_wf_stamp_all: "graph_wf g \<Longrightarrow> graph_wf (stamp_all ps t g)"
  by (induction ps t g rule: stamp_all.induct) (simp_all add: graph_wf_modify_node)

lemmas graph_wf_registration =
  graph_wf_new graph_wf_ensure_module graph_wf_add_import graph_wf_set_self_accepting
  graph_wf_set_accepted_deps graph_wf_set_accepted_exports graph_wf_set_imported_bindings
  graph_wf_stamp_all

lemma node_of_stamp_all:
  "node_of (stamp_all ps t g) p =
     (if p \<in> set ps \<and> contains_module g p
      then (node_of g p)\<lparr>last_hmr_timestamp := t, last_hmr_invalidation_received := False\<rparr>
      else node_of g p)"
  by (induction ps t g rule: stamp_all.induct) (auto simp: graph_simps)

lemma contains_stamp_all [graph_simps]: "contains_module (stamp_all ps t g) p = contains_module g p"
  by (induction ps t g rule: stamp_all.induct) (auto simp: graph_simps)

lemma stamp_stamp_all [graph_simps]: "invalidation_stamp (stamp_all ps t g) = invalidation_stamp g"
  by (induction ps t g rule: stamp_all.induct) (auto simp: graph_simps)


section \<open>Properties\<close>

text \<open>A small application for the witnesses: \<open>main\<close> imports \<open>app\<close>, which imports \<open>util\<close>.\<close>

definition demo_path :: "string \<Rightarrow> path" where
  "demo_path s = [RootDir, Normal s]"

definition demo_graph :: module_graph where
  "demo_graph =
     fst (set_imports sorted_list_of_fset (demo_path ''main'') [demo_path ''app'']
       (fst (set_imports sorted_list_of_fset (demo_path ''app'') [demo_path ''util'', demo_path ''util'']
         new_graph)))"

lemma graph_wf_set_imports: "path_iter iter \<Longrightarrow> graph_wf g \<Longrightarrow> graph_wf (fst (set_imports iter a imps g))"
  by (rule graph_wf_imports_replaced [OF _ path_iter.set_imports_spec(1)])

lemma graph_wf_demo: "graph_wf demo_graph"
  unfolding demo_graph_def
  by (intro graph_wf_set_imports graph_wf_new sorted_paths.path_iter_axioms)

text \<open>
  C4: registering a module's imports replaces them. Whatever order the hash sets iterate in, and
  whichever of the two comparisons decides that nothing changed, the module imports exactly the
  listed modules afterwards, each of them and no other module of the graph gains or loses it as an
  importer, no other field of any node changes, and the modules returned for pruning are, sorted
  and without repetition, the dropped imports that nothing else imports.
\<close>

theorem set_imports_replaces:
  assumes "path_iter iter" and "graph_wf g"
  shows "imports_replaced a imps g (fst (set_imports iter a imps g)) \<and>
     snd (set_imports iter a imps g) = sorted_list_of_set (pruned_imports a imps g)"
  using path_iter.set_imports_spec [OF assms] by blast

theorem set_imports_replaces_witness:
  "snd (set_imports sorted_list_of_fset (demo_path ''app'') [demo_path ''button''] demo_graph)
     = [demo_path ''util''] \<and>
   node_imports (node_of (fst (set_imports sorted_list_of_fset (demo_path ''app'')
     [demo_path ''button''] demo_graph)) (demo_path ''app'')) = {|demo_path ''button''|}"
proof -
  have "snd (set_imports sorted_list_of_fset (demo_path ''app'') [demo_path ''button''] demo_graph)
     = [demo_path ''util'']"
    by code_simp
  then show ?thesis
    using set_imports_replaces [OF sorted_paths.path_iter_axioms graph_wf_demo,
        of "demo_path ''app''" "[demo_path ''button'']"]
    by (simp add: imports_replaced_def)
qed

text \<open>
  Recording a partial-accept list that names no export twice leaves the module with exactly
  that list (or none), in particular when the borrowed comparison skips the write.
\<close>

theorem set_accepted_exports_records:
  assumes "\<And>v. names = Some v \<Longrightarrow> distinct v"
  shows "accepted_exports (node_of (set_accepted_exports p names g) p) = map_option fset_of_list names"
  using node_of_set_accepted_exports [OF assms] by simp

theorem set_accepted_exports_records_witness:
  "accepted_exports (node_of (set_accepted_exports (demo_path ''app'') (Some [''a'', ''b'']) demo_graph)
     (demo_path ''app'')) = Some {|''b'', ''a''|}"
  using set_accepted_exports_records [of "Some [''a'', ''b'']" "demo_path ''app''" demo_graph]
  by (simp add: finsert_commute)


end
