(* ===== verification/Hmr_Propagate.thy ===== *)
theory Hmr_Propagate
  imports Module_Graph
begin

text \<open>
  HMR propagation, \<^verbatim>\<open>crates/oj_graph/src/propagate.rs\<close>: from a changed module up its importers
  to the accepting boundaries, or a full reload.

  A \<^verbatim>\<open>Vec\<close> used as a stack is a list whose head is its top, so pushing \<open>a\<close> then \<open>b\<close> on \<open>st\<close>
  gives \<open>b # a # st\<close>. The three walks (\<open>dirty_closure\<close>, \<open>is_within_circular_imports\<close>, \<open>climb\<close>)
  are total: each is defined with the proof that it ends. What they compute is stated with
  \<open>search.reach\<close>: the nodes reachable over the edges the walk follows. A rendered reload reason
  (\<^verbatim>\<open>format!\<close>) is a constructor of \<open>hmr_error\<close> with the path it names.
\<close>

section \<open>Results\<close>

datatype update_target =
  UpdateTarget (boundary: path) (accepted: path) (within_circular_import: bool)

text \<open>The derived order of \<^verbatim>\<open>UpdateTarget\<close>: its fields in order.\<close>

definition target_key :: "update_target \<Rightarrow> path \<times> path \<times> bool" where
  "target_key t = (boundary t, accepted t, within_circular_import t)"

lemma target_key_inject: "target_key a = target_key b \<Longrightarrow> a = b"
  by (cases a; cases b) (simp add: target_key_def)

instantiation update_target :: linorder
begin

definition less_eq_update_target :: "update_target \<Rightarrow> update_target \<Rightarrow> bool" where
  "less_eq_update_target a b \<longleftrightarrow> target_key a \<le> target_key b"

definition less_update_target :: "update_target \<Rightarrow> update_target \<Rightarrow> bool" where
  "less_update_target a b \<longleftrightarrow> target_key a < target_key b"

instance
  by intro_classes
    (auto simp: less_eq_update_target_def less_update_target_def intro: target_key_inject)

end

datatype hmr_error =
    NotInGraph path          \<comment> \<open>\<^verbatim>\<open>{} is not in the module graph\<close>\<close>
  | InvalidatedAtEntry path  \<comment> \<open>\<^verbatim>\<open>{} invalidated at an entry\<close>\<close>
  | NoBoundary path          \<comment> \<open>\<^verbatim>\<open>update reached entry {} with no accepting boundary\<close>\<close>

datatype hmr_decision = Update "path list" | FullReload hmr_error

datatype color = Gray | Black

section \<open>Definitions\<close>

definition is_css_path :: "path \<Rightarrow> bool" where
  "is_css_path p =
     (case extension p of
        None \<Rightarrow> False
      | Some e \<Rightarrow> e \<in> {''css'', ''scss'', ''sass'', ''less'', ''styl'', ''stylus'', ''pcss'',
                         ''postcss'', ''sss''})"

definition all_imports_accepted :: "module_graph \<Rightarrow> path \<Rightarrow> path \<Rightarrow> string fset \<Rightarrow> bool" where
  "all_imports_accepted g importer dep acc =
     (case Option.bind (fmlookup (modules g) importer) (\<lambda>n. fmlookup (imported_bindings n) dep) of
        None \<Rightarrow> False
      | Some bindings \<Rightarrow> bindings |\<subseteq>| acc)"

definition accepts_dep :: "module_graph \<Rightarrow> path \<Rightarrow> path \<Rightarrow> bool" where
  "accepts_dep g importer dep =
     (case fmlookup (modules g) importer of
        None \<Rightarrow> False
      | Some n \<Rightarrow> dep |\<in>| accepted_hmr_deps n)"

subsection \<open>\<open>dirty_closure\<close>\<close>

text \<open>The \<^verbatim>\<open>for\<close> loop over the importers of the current module.\<close>

fun dirty_importers ::
  "module_graph \<Rightarrow> path \<Rightarrow> path list \<Rightarrow> path list \<times> path list \<times> path set
     \<Rightarrow> path list \<times> path list \<times> path set" where
  "dirty_importers g current [] st = st"
| "dirty_importers g current (i # is) (dirty, queue, seen) =
     (if accepts_dep g i current then dirty_importers g current is (dirty, queue, seen)
      else if i \<in> seen then dirty_importers g current is (dirty, queue, seen)
      else dirty_importers g current is (dirty @ [i], i # queue, insert i seen))"

text \<open>The nodes a walk over importers can meet, for the termination of \<open>dirty_loop\<close>.\<close>

definition all_importers :: "(path fset \<Rightarrow> path list) \<Rightarrow> module_graph \<Rightarrow> path set" where
  "all_importers iter g = (\<Union>n \<in> fmran' (modules g). set (iter (importers n)))"

lemma finite_all_importers: "finite (all_importers iter g)"
  by (simp add: all_importers_def fmran'_alt_def)

lemma importers_all_importers:
  "fmlookup (modules g) p = Some n \<Longrightarrow> i \<in> set (iter (importers n)) \<Longrightarrow> i \<in> all_importers iter g"
  by (auto simp: all_importers_def intro: fmran'I)

lemma dirty_importers_result:
  "\<exists>new. dirty_importers g c is (dirty, queue, seen) =
       (dirty @ new, rev new @ queue, seen \<union> set new) \<and> distinct new \<and>
       set new = {i \<in> set is. \<not> accepts_dep g i c} - seen"
proof (induction "is" arbitrary: dirty queue seen)
  case (Cons i "is")
  show ?case
  proof (cases "accepts_dep g i c \<or> i \<in> seen")
    case True
    then have "dirty_importers g c (i # is) (dirty, queue, seen)
        = dirty_importers g c is (dirty, queue, seen)" by auto
    moreover have "{j \<in> set (i # is). \<not> accepts_dep g j c} - seen
        = {j \<in> set is. \<not> accepts_dep g j c} - seen" using True by auto
    ultimately show ?thesis using Cons.IH [of dirty queue seen] by presburger
  next
    case False
    obtain new where new: "dirty_importers g c is (dirty @ [i], i # queue, insert i seen) =
        ((dirty @ [i]) @ new, rev new @ i # queue, insert i seen \<union> set new)" "distinct new"
        "set new = {j \<in> set is. \<not> accepts_dep g j c} - insert i seen"
      using Cons.IH [of "dirty @ [i]" "i # queue" "insert i seen"] by blast
    with False show ?thesis by (intro exI [of _ "i # new"]) auto
  qed
qed simp

function dirty_loop ::
  "(path fset \<Rightarrow> path list) \<Rightarrow> module_graph \<Rightarrow> path \<Rightarrow> path list \<Rightarrow> path list \<Rightarrow> path set \<Rightarrow> path list" where
  "dirty_loop iter g changed dirty [] seen = dirty"
| "dirty_loop iter g changed dirty (current # queue) seen =
     (case fmlookup (modules g) current of
        None \<Rightarrow> dirty_loop iter g changed dirty queue seen
      | Some n \<Rightarrow>
          if is_self_accepting n \<and> current \<noteq> changed
          then dirty_loop iter g changed dirty queue seen
          else (case dirty_importers g current (iter (importers n)) (dirty, queue, seen) of
                  (dirty', queue', seen') \<Rightarrow> dirty_loop iter g changed dirty' queue' seen'))"
  by pat_completeness auto
termination
proof (relation "measures [\<lambda>(iter, g, c, d, q, seen). card (all_importers iter g - seen),
    \<lambda>(iter, g, c, d, q, seen). length q]", goal_cases)
  case (4 iter g changed dirty current queue seen n d' rest q' seen')
  obtain new where new: "dirty_importers g current (iter (importers n)) (dirty, queue, seen) =
      (dirty @ new, rev new @ queue, seen \<union> set new)" "distinct new"
      "set new = {i \<in> set (iter (importers n)). \<not> accepts_dep g i current} - seen"
    using dirty_importers_result by blast
  show ?case
  proof (cases new)
    case Nil
    with new 4 show ?thesis by simp
  next
    case (Cons i js)
    with new 4 have i: "i \<in> all_importers iter g" "i \<notin> seen"
      by (auto intro: importers_all_importers)
    have "card (all_importers iter g - seen') \<le> card (all_importers iter g - insert i seen)"
      using new 4 Cons by (intro card_diff_le finite_all_importers) auto
    also have "\<dots> < card (all_importers iter g - seen)"
      using i by (intro card_diff_grow finite_all_importers)
    finally show ?thesis by simp
  qed
qed auto

definition dirty_closure :: "(path fset \<Rightarrow> path list) \<Rightarrow> module_graph \<Rightarrow> path \<Rightarrow> path list" where
  "dirty_closure iter g changed = sort (dirty_loop iter g changed [changed] [changed] {changed})"

subsection \<open>\<open>is_within_circular_imports\<close>\<close>

text \<open>
  The \<^verbatim>\<open>for\<close> loop over the importers of the current module: \<open>None\<close> is the early \<^verbatim>\<open>return true\<close>,
  otherwise the stack with the importers pushed.
\<close>

fun circular_importers ::
  "path \<Rightarrow> (path \<rightharpoonup> color) \<Rightarrow> path \<Rightarrow> path list \<Rightarrow> path list \<Rightarrow> path list option" where
  "circular_importers b colors current [] stack = Some stack"
| "circular_importers b colors current (i # is) stack =
     (if i = current \<or> is_css_path i then circular_importers b colors current is stack
      else if i = b \<or> colors i = Some Gray then None
      else circular_importers b colors current is (i # stack))"

function circular_loop ::
  "(path fset \<Rightarrow> path list) \<Rightarrow> module_graph \<Rightarrow> path \<Rightarrow> (path \<rightharpoonup> color) \<Rightarrow> path list \<Rightarrow> path set \<Rightarrow> bool" where
  "circular_loop iter g b colors [] seen = False"
| "circular_loop iter g b colors (current # stack) seen =
     (if current \<in> seen then circular_loop iter g b colors stack seen
      else (case fmlookup (modules g) current of
              None \<Rightarrow> circular_loop iter g b colors stack (insert current seen)
            | Some n \<Rightarrow>
                (case circular_importers b colors current (iter (importers n)) stack of
                   None \<Rightarrow> True
                 | Some stack' \<Rightarrow> circular_loop iter g b colors stack' (insert current seen))))"
  by pat_completeness auto
termination
proof (relation "measures [\<lambda>(iter, g, b, colors, stack, seen). card (fmdom' (modules g) - seen),
    \<lambda>(iter, g, b, colors, stack, seen). length stack]", goal_cases)
  case (3 iter g b colors current stack seen)
  then have "current \<notin> fmdom' (modules g)" by (simp add: fmdom'_notI)
  then have "fmdom' (modules g) - insert current seen = fmdom' (modules g) - seen" by auto
  then show ?case by simp
next
  case (4 iter g b colors current stack seen n stack')
  then have "card (fmdom' (modules g) - insert current seen) < card (fmdom' (modules g) - seen)"
    by (intro card_diff_grow) (auto intro: fmdom'I)
  then show ?case by simp
qed auto

definition is_within_circular_imports ::
  "(path fset \<Rightarrow> path list) \<Rightarrow> module_graph \<Rightarrow> path \<Rightarrow> (path \<rightharpoonup> color) \<Rightarrow> bool" where
  "is_within_circular_imports iter g b colors = circular_loop iter g b colors [b] {}"

definition mk_target ::
  "(path fset \<Rightarrow> path list) \<Rightarrow> module_graph \<Rightarrow> path \<Rightarrow> path \<Rightarrow> (path \<rightharpoonup> color) \<Rightarrow> update_target" where
  "mk_target iter g b acc colors = UpdateTarget b acc (is_within_circular_imports iter g b colors)"

subsection \<open>\<open>climb\<close>\<close>

datatype climb_step = Enter path | Blacken path

text \<open>The \<^verbatim>\<open>for\<close> loop over the sorted importers, from the last to the first.\<close>

fun climb_importers ::
  "(path fset \<Rightarrow> path list) \<Rightarrow> module_graph \<Rightarrow> path \<Rightarrow> string fset option \<Rightarrow> (path \<rightharpoonup> color) \<Rightarrow> path list
     \<Rightarrow> climb_step list \<times> update_target list \<Rightarrow> climb_step list \<times> update_target list" where
  "climb_importers iter g current acc colors [] st = st"
| "climb_importers iter g current acc colors (i # is) (stack, bs) =
     (if accepts_dep g i current
      then climb_importers iter g current acc colors is
             (stack, bs @ [mk_target iter g i current colors])
      else if (case acc of None \<Rightarrow> False | Some a \<Rightarrow> all_imports_accepted g i current a)
      then climb_importers iter g current acc colors is (stack, bs)
      else climb_importers iter g current acc colors is (Enter i # stack, bs))"

function climb_loop ::
  "(path fset \<Rightarrow> path list) \<Rightarrow> module_graph \<Rightarrow> climb_step list \<Rightarrow> (path \<rightharpoonup> color) \<Rightarrow> update_target list
     \<Rightarrow> hmr_error + (path \<rightharpoonup> color) \<times> update_target list" where
  "climb_loop iter g [] colors bs = Inr (colors, bs)"
| "climb_loop iter g (Blacken p # stack) colors bs =
     climb_loop iter g stack (colors(p \<mapsto> Black)) bs"
| "climb_loop iter g (Enter current # stack) colors bs =
     (case colors current of
        Some _ \<Rightarrow> climb_loop iter g stack colors bs
      | None \<Rightarrow>
          (case fmlookup (modules g) current of
             None \<Rightarrow> Inl (NotInGraph current)
           | Some n \<Rightarrow>
               if is_self_accepting n
               then climb_loop iter g stack (colors(current \<mapsto> Black))
                      (bs @ [mk_target iter g current current colors])
               else if accepted_exports n = None \<and> importers n = {||}
               then Inl (NoBoundary current)
               else (case climb_importers iter g current (accepted_exports n)
                            (colors(current \<mapsto> Gray)) (rev (sorted_list_of_fset (importers n)))
                            (Blacken current # stack,
                             bs @ (if accepted_exports n = None then []
                                   else [mk_target iter g current current colors])) of
                       (stack', bs') \<Rightarrow>
                         climb_loop iter g stack' (colors(current \<mapsto> Gray)) bs')))"
  by pat_completeness auto
termination
proof (relation "measures [\<lambda>(iter, g, stack, colors, bs). card (fmdom' (modules g) - dom colors),
    \<lambda>(iter, g, stack, colors, bs). length stack]", goal_cases)
  case (2 iter g p stack colors bs)
  have "card (fmdom' (modules g) - dom (colors(p \<mapsto> Black))) \<le> card (fmdom' (modules g) - dom colors)"
    by (intro card_diff_le) auto
  then show ?case by (auto simp: le_less)
next
  case (3 iter g current stack colors bs n)
  then have "card (fmdom' (modules g) - insert current (dom colors)) < card (fmdom' (modules g) - dom colors)"
    by (intro card_diff_grow) (auto intro: fmdom'I)
  then show ?case by simp
next
  case (4 iter g current stack colors bs n stack' bs')
  then have "card (fmdom' (modules g) - insert current (dom colors)) < card (fmdom' (modules g) - dom colors)"
    by (intro card_diff_grow) (auto intro: fmdom'I)
  then show ?case by simp
qed auto

definition climb ::
  "(path fset \<Rightarrow> path list) \<Rightarrow> module_graph \<Rightarrow> path \<Rightarrow> (path \<rightharpoonup> color) \<Rightarrow> update_target list
     \<Rightarrow> hmr_error + (path \<rightharpoonup> color) \<times> update_target list" where
  "climb iter g seed colors bs = climb_loop iter g [Enter seed] colors bs"

text \<open>The loop over the seeds; \<^verbatim>\<open>?\<close> returns the first error.\<close>

fun climb_seeds ::
  "(path fset \<Rightarrow> path list) \<Rightarrow> module_graph \<Rightarrow> path list \<Rightarrow> (path \<rightharpoonup> color) \<Rightarrow> update_target list
     \<Rightarrow> hmr_error + update_target list" where
  "climb_seeds iter g [] colors bs = Inr bs"
| "climb_seeds iter g (s # ss) colors bs =
     (case climb iter g s colors bs of
        Inl e \<Rightarrow> Inl e
      | Inr (colors', bs') \<Rightarrow> climb_seeds iter g ss colors' bs')"

definition collect_boundaries ::
  "(path fset \<Rightarrow> path list) \<Rightarrow> module_graph \<Rightarrow> path list \<Rightarrow> path list \<Rightarrow> hmr_error + update_target list" where
  "collect_boundaries iter g seeds pre_stack =
     climb_seeds iter g seeds (fold (\<lambda>m colors. colors(m \<mapsto> Gray)) pre_stack Map.empty) []"

subsection \<open>Entry points\<close>

definition update_targets ::
  "(path fset \<Rightarrow> path list) \<Rightarrow> module_graph \<Rightarrow> path \<Rightarrow> hmr_error + update_target list" where
  "update_targets iter g changed =
     (if \<not> contains_module g changed then Inl (NotInGraph changed)
      else map_sum id sort_dedup (collect_boundaries iter g [changed] []))"

definition update_targets_from_importers ::
  "(path fset \<Rightarrow> path list) \<Rightarrow> module_graph \<Rightarrow> path \<Rightarrow> hmr_error + update_target list" where
  "update_targets_from_importers iter g changed =
     (case fmlookup (modules g) changed of
        None \<Rightarrow> Inl (NotInGraph changed)
      | Some n \<Rightarrow>
          if importers n = {||} then Inl (InvalidatedAtEntry changed)
          else map_sum id sort_dedup (collect_boundaries iter g (iter (importers n)) [changed]))"

definition propagate_from_seeds ::
  "(path fset \<Rightarrow> path list) \<Rightarrow> module_graph \<Rightarrow> path list \<Rightarrow> hmr_decision" where
  "propagate_from_seeds iter g seeds =
     (case find (\<lambda>s. \<not> contains_module g s) seeds of
        Some s \<Rightarrow> FullReload (NotInGraph s)
      | None \<Rightarrow>
          (case collect_boundaries iter g seeds [] of
             Inr ts \<Rightarrow> Update (sort_dedup (map boundary ts))
           | Inl e \<Rightarrow> FullReload e))"

definition propagate_update ::
  "(path fset \<Rightarrow> path list) \<Rightarrow> module_graph \<Rightarrow> path \<Rightarrow> hmr_decision" where
  "propagate_update iter g changed = propagate_from_seeds iter g [changed]"


section \<open>The dirty set\<close>

text \<open>
  The edges \<^verbatim>\<open>dirty_closure\<close> follows: from a module to the importers that do not accept it, not
  past a self-accepting module other than the changed one.
\<close>

definition dirty_succ :: "module_graph \<Rightarrow> path \<Rightarrow> path \<Rightarrow> path set" where
  "dirty_succ g changed x =
     (if is_self_accepting (node_of g x) \<and> x \<noteq> changed then {}
      else {i. i |\<in>| importers (node_of g x) \<and> \<not> accepts_dep g i x})"

interpretation dirty: search "dirty_succ g changed" for g changed .

lemma dirty_loop_reach:
  assumes "path_iter iter" and "distinct ds" and "set queue \<subseteq> seen" and "seen = set ds"
    and "seen \<subseteq> dirty.reach g c {c}" and "c \<in> seen"
    and "\<And>x. x \<in> seen - set queue \<Longrightarrow> dirty_succ g c x \<subseteq> seen"
  shows "distinct (dirty_loop iter g c ds queue seen) \<and>
     set (dirty_loop iter g c ds queue seen) = dirty.reach g c {c}"
  using assms
proof (induction iter g c ds queue seen rule: dirty_loop.induct)
  case (1 iter g c ds seen)
  then show ?case using dirty.closed_eq_reach [of "set ds" g c "{c}"] by auto
next
  case (2 iter g c ds x queue seen)
  consider (none) "fmlookup (modules g) x = None"
    | (stop) n where "fmlookup (modules g) x = Some n" "is_self_accepting n \<and> x \<noteq> c"
    | (go) n where "fmlookup (modules g) x = Some n" "\<not> (is_self_accepting n \<and> x \<noteq> c)"
    by (cases "fmlookup (modules g) x") blast+
  then show ?case
  proof cases
    case none
    then have "dirty_succ g c x = {}"
      by (auto simp: dirty_succ_def lookup_None_iff node_of_absent)
    then have "dirty_succ g c y \<subseteq> seen" if "y \<in> seen - set queue" for y
      using "2.prems"(7) that by (cases "y = x") auto
    with none "2.prems" "2.IH"(1) show ?thesis by simp
  next
    case stop
    then have "dirty_succ g c x = {}"
      by (auto simp: dirty_succ_def dest: lookup_SomeD)
    then have "dirty_succ g c y \<subseteq> seen" if "y \<in> seen - set queue" for y
      using "2.prems"(7) that by (cases "y = x") auto
    with stop "2.prems" "2.IH"(2) show ?thesis by simp
  next
    case go
    obtain new where new: "dirty_importers g x (iter (importers n)) (ds, queue, seen) =
        (ds @ new, rev new @ queue, seen \<union> set new)" "distinct new"
        "set new = {i \<in> set (iter (importers n)). \<not> accepts_dep g i x} - seen"
      using dirty_importers_result by blast
    have succ: "dirty_succ g c x = {i \<in> set (iter (importers n)). \<not> accepts_dep g i x}"
      using go by (auto simp: dirty_succ_def path_iter_set [OF "2.prems"(1)] dest: lookup_SomeD)
    have closed: "dirty_succ g c y \<subseteq> seen \<union> set new"
      if "y \<in> (seen \<union> set new) - set (rev new @ queue)" for y
      using "2.prems"(7) [of y] that succ new(3) by (cases "y = x") auto
    have sound: "seen \<union> set new \<subseteq> dirty.reach g c {c}"
      using "2.prems"(3,5) succ new(3) by (auto intro: dirty.reach.edge)
    have "distinct (dirty_loop iter g c (ds @ new) (rev new @ queue) (seen \<union> set new)) \<and>
        set (dirty_loop iter g c (ds @ new) (rev new @ queue) (seen \<union> set new)) = dirty.reach g c {c}"
      by (rule "2.IH"(3) [OF go new(1) [symmetric] refl "2.prems"(1) _ _ _ sound _ closed])
        (use "2.prems" new in auto)
    then show ?thesis using go new(1) by auto
  qed
qed

lemma dirty_closure_reach:
  assumes "path_iter iter"
  shows set_dirty_closure: "set (dirty_closure iter g c) = dirty.reach g c {c}"
    and distinct_dirty_closure: "distinct (dirty_closure iter g c)"
proof -
  have "c \<in> dirty.reach g c {c}" by (simp add: dirty.reach.root)
  then have "distinct (dirty_loop iter g c [c] [c] {c}) \<and>
      set (dirty_loop iter g c [c] [c] {c}) = dirty.reach g c {c}"
    by (intro dirty_loop_reach assms) simp_all
  then show "set (dirty_closure iter g c) = dirty.reach g c {c}" "distinct (dirty_closure iter g c)"
    by (simp_all add: dirty_closure_def)
qed

lemma sorted_dirty_closure: "sorted (dirty_closure iter g c)"
  by (simp add: dirty_closure_def del: dirty_loop.simps)

lemma finite_dirty_reach: "finite (dirty.reach g c {c})"
  by (metis List.finite_set set_dirty_closure sorted_paths.path_iter_axioms)


section \<open>Import cycles\<close>

text \<open>The edges of the cycle check: importers, without stylesheets and direct self-imports.\<close>

definition circ_succ :: "module_graph \<Rightarrow> path \<Rightarrow> path set" where
  "circ_succ g x = {i. i |\<in>| importers (node_of g x) \<and> i \<noteq> x \<and> \<not> is_css_path i}"

interpretation circ: search "circ_succ g" for g .

text \<open>A module whose expansion finds the boundary again, or a module of the current chain.\<close>

definition circ_hit :: "module_graph \<Rightarrow> path \<Rightarrow> (path \<rightharpoonup> color) \<Rightarrow> path \<Rightarrow> bool" where
  "circ_hit g b colors x \<longleftrightarrow> (\<exists>i \<in> circ_succ g x. i = b \<or> colors i = Some Gray)"

lemma circular_importers_eq:
  "circular_importers b colors x is stack =
     (if \<exists>i \<in> set is. i \<noteq> x \<and> \<not> is_css_path i \<and> (i = b \<or> colors i = Some Gray) then None
      else Some (rev (filter (\<lambda>i. i \<noteq> x \<and> \<not> is_css_path i) is) @ stack))"
  by (induction "is" arbitrary: stack) auto

lemma circular_loop_iff:
  assumes "path_iter iter" and "set stack \<union> seen \<subseteq> circ.reach g {b}" and "b \<in> seen \<union> set stack"
    and "\<And>x. x \<in> seen \<Longrightarrow> \<not> circ_hit g b colors x \<and> circ_succ g x \<subseteq> seen \<union> set stack"
  shows "circular_loop iter g b colors stack seen \<longleftrightarrow> (\<exists>x \<in> circ.reach g {b}. circ_hit g b colors x)"
  using assms
proof (induction iter g b colors stack seen rule: circular_loop.induct)
  case (1 iter g b colors seen)
  then have "seen = circ.reach g {b}"
    by (intro circ.closed_eq_reach) auto
  with 1 show ?case by auto
next
  case (2 iter g b colors x stack seen)
  let ?is = "iter (importers (node_of g x))"
  have members: "set ?is = fset (importers (node_of g x))"
    by (rule path_iter_set [OF "2.prems"(1)])
  show ?case
  proof (cases "x \<in> seen")
    case True
    then have ins: "seen \<union> set (x # stack) = seen \<union> set stack" by auto
    have "circular_loop iter g b colors stack seen \<longleftrightarrow> (\<exists>x \<in> circ.reach g {b}. circ_hit g b colors x)"
      by (rule "2.IH"(1) [OF True "2.prems"(1)]) (use "2.prems" ins in auto)
    with True show ?thesis by simp
  next
    case new: False
    show ?thesis
    proof (cases "contains_module g x")
      case False
      then have nosucc: "circ_succ g x = {}" by (simp add: circ_succ_def node_of_absent)
      have "circular_loop iter g b colors stack (insert x seen)
          \<longleftrightarrow> (\<exists>x \<in> circ.reach g {b}. circ_hit g b colors x)"
        by (rule "2.IH"(2) [OF new _ "2.prems"(1)])
          (use "2.prems" False nosucc in \<open>auto simp: lookup_None_iff circ_hit_def\<close>)
      with False new show ?thesis by (simp add: lookup_None_iff [THEN iffD2])
    next
      case True
      then have lk: "fmlookup (modules g) x = Some (node_of g x)" by (rule lookup_node_of)
      have hit: "circ_hit g b colors x \<longleftrightarrow>
          (\<exists>i \<in> set ?is. i \<noteq> x \<and> \<not> is_css_path i \<and> (i = b \<or> colors i = Some Gray))"
        unfolding circ_hit_def circ_succ_def members by blast
      show ?thesis
      proof (cases "circ_hit g b colors x")
        case True
        with hit lk new "2.prems"(2) show ?thesis by (auto simp: circular_importers_eq)
      next
        case False
        let ?st = "rev (filter (\<lambda>i. i \<noteq> x \<and> \<not> is_css_path i) ?is) @ stack"
        have ci: "circular_importers b colors x ?is stack = Some ?st"
          using False hit by (simp add: circular_importers_eq)
        have succ: "circ_succ g x = {i \<in> set ?is. i \<noteq> x \<and> \<not> is_css_path i}"
          by (auto simp: circ_succ_def members)
        have "circular_loop iter g b colors ?st (insert x seen)
            \<longleftrightarrow> (\<exists>x \<in> circ.reach g {b}. circ_hit g b colors x)"
        proof (rule "2.IH"(3) [OF new lk ci "2.prems"(1)])
          have "circ_succ g x \<subseteq> circ.reach g {b}"
            using "2.prems"(2) by (auto intro: circ.reach.edge)
          then show "set ?st \<union> insert x seen \<subseteq> circ.reach g {b}"
            using "2.prems"(2) succ by auto
        next
          show "b \<in> insert x seen \<union> set ?st" using "2.prems"(3) by auto
        next
          fix y assume "y \<in> insert x seen"
          then show "\<not> circ_hit g b colors y \<and> circ_succ g y \<subseteq> insert x seen \<union> set ?st"
            using "2.prems"(4) [of y] False succ by auto
        qed
        with new lk ci show ?thesis by simp
      qed
    qed
  qed
qed

lemma is_within_circular_imports_iff:
  "path_iter iter \<Longrightarrow> is_within_circular_imports iter g b colors \<longleftrightarrow>
     (\<exists>x \<in> circ.reach g {b}. circ_hit g b colors x)"
  unfolding is_within_circular_imports_def
  by (rule circular_loop_iff) (auto intro: circ.reach.root)


section \<open>Boundaries\<close>

text \<open>
  An importer that uses only exports its import accepts is covered by the partial boundary. The
  walk goes from a module that does not accept itself to the importers that neither accept it
  nor are covered, never into a module of \<open>B\<close> (the modules gray before the walk starts).
\<close>

definition covered :: "module_graph \<Rightarrow> path \<Rightarrow> path \<Rightarrow> bool" where
  "covered g i x =
     (case accepted_exports (node_of g x) of
        None \<Rightarrow> False
      | Some a \<Rightarrow> all_imports_accepted g i x a)"

definition climb_succ :: "module_graph \<Rightarrow> path set \<Rightarrow> path \<Rightarrow> path set" where
  "climb_succ g B x =
     (if is_self_accepting (node_of g x) then {}
      else {i. i |\<in>| importers (node_of g x) \<and> \<not> accepts_dep g i x \<and> \<not> covered g i x} - B)"

interpretation walk: search "climb_succ g B" for g B .

text \<open>A module the walk cannot pass: missing, or an entry that accepts nothing.\<close>

definition dead_end :: "module_graph \<Rightarrow> path \<Rightarrow> bool" where
  "dead_end g x \<longleftrightarrow> \<not> contains_module g x \<or>
     (\<not> is_self_accepting (node_of g x) \<and> accepted_exports (node_of g x) = None
      \<and> importers (node_of g x) = {||})"

definition dead_error :: "module_graph \<Rightarrow> path \<Rightarrow> hmr_error" where
  "dead_error g x = (if contains_module g x then NoBoundary x else NotInGraph x)"

text \<open>The (boundary, accepted) pairs an update stops with at a module it reaches.\<close>

definition stops :: "module_graph \<Rightarrow> path \<Rightarrow> (path \<times> path) set" where
  "stops g x =
     (if is_self_accepting (node_of g x) then {(x, x)}
      else (if accepted_exports (node_of g x) = None then {} else {(x, x)})
           \<union> {(i, x) | i. i |\<in>| importers (node_of g x) \<and> accepts_dep g i x})"

definition target_pairs :: "update_target list \<Rightarrow> (path \<times> path) set" where
  "target_pairs ts = (\<lambda>t. (boundary t, accepted t)) ` set ts"

lemma target_pairs_simps [simp]:
  "target_pairs [] = {}" "target_pairs (xs @ ys) = target_pairs xs \<union> target_pairs ys"
  "target_pairs [mk_target iter g b a colors] = {(b, a)}"
  "target_pairs (map (\<lambda>i. mk_target iter g i x colors) is) = {(i, x) | i. i \<in> set is}"
  by (force simp: target_pairs_def mk_target_def image_iff)+

lemma climb_importers_eq:
  "climb_importers iter g x acc colors is (stack, bs) =
     (map Enter (rev (filter (\<lambda>i. \<not> accepts_dep g i x \<and>
         \<not> (case acc of None \<Rightarrow> False | Some a \<Rightarrow> all_imports_accepted g i x a)) is)) @ stack,
      bs @ map (\<lambda>i. mk_target iter g i x colors) (filter (\<lambda>i. accepts_dep g i x) is))"
  by (induction "is" arbitrary: stack bs) auto

definition entered :: "climb_step list \<Rightarrow> path set" where
  "entered stack = {p. Enter p \<in> set stack}"

lemma entered_simps [simp]:
  "entered [] = {}" "entered (Enter p # st) = insert p (entered st)" "entered (Blacken p # st) = entered st"
  "entered (xs @ ys) = entered xs \<union> entered ys" "entered (map Enter ps) = set ps"
  by (auto simp: entered_def)

text \<open>
  The invariant of the walk: \<open>C\<close> holds the colored modules and \<open>E\<close> those waiting to be entered;
  what is colored beyond \<open>B\<close> is reachable, is no dead end, leads only to colored or waiting
  modules, and has its stops among the boundaries, which hold nothing else.
\<close>

definition climb_inv ::
  "module_graph \<Rightarrow> path set \<Rightarrow> path set \<Rightarrow> path set \<Rightarrow> path set \<Rightarrow> update_target list \<Rightarrow> bool" where
  "climb_inv g B R C E bs \<longleftrightarrow>
     B \<subseteq> C \<and> C - B \<subseteq> R \<and> E - B \<subseteq> R \<and>
     (\<forall>x \<in> C - B. \<not> dead_end g x \<and> climb_succ g B x \<subseteq> C \<union> E) \<and>
     target_pairs bs = (\<Union>x \<in> C - B. stops g x)"

lemma climb_inv_add:
  assumes "climb_inv g B R C (insert x E) bs" and "x \<notin> C" and "\<not> dead_end g x"
    and "E' - B \<subseteq> R" and "E \<union> climb_succ g B x \<subseteq> insert x C \<union> E'"
    and "target_pairs bs' = target_pairs bs \<union> stops g x"
  shows "climb_inv g B R (insert x C) E' bs'"
proof -
  have diff: "insert x C - B = insert x (C - B)"
    using assms(1,2) unfolding climb_inv_def by blast
  have "\<not> dead_end g y \<and> climb_succ g B y \<subseteq> insert x C \<union> E'" if "y \<in> insert x C - B" for y
  proof (cases "y = x")
    case False
    then have "\<not> dead_end g y" "climb_succ g B y \<subseteq> C \<union> insert x E"
      using that assms(1) unfolding climb_inv_def by blast+
    with assms(5) show ?thesis by blast
  qed (use assms in blast)
  moreover have "B \<subseteq> insert x C" "insert x C - B \<subseteq> R"
    using assms(1,2) diff unfolding climb_inv_def by blast+
  moreover have "target_pairs bs' = (\<Union>y \<in> insert x C - B. stops g y)"
    using assms(1,6) unfolding climb_inv_def diff by auto
  ultimately show ?thesis
    using assms(4) unfolding climb_inv_def by blast
qed

definition climb_post ::
  "module_graph \<Rightarrow> path set \<Rightarrow> path set \<Rightarrow> path set \<Rightarrow> hmr_error + (path \<rightharpoonup> color) \<times> update_target list \<Rightarrow> bool" where
  "climb_post g B R W r =
     (case r of
        Inl e \<Rightarrow> \<exists>x \<in> R. dead_end g x \<and> e = dead_error g x
      | Inr (colors, bs) \<Rightarrow> W \<subseteq> dom colors \<and> climb_inv g B R (dom colors) {} bs)"

lemma climb_post_mono: "climb_post g B R W r \<Longrightarrow> W' \<subseteq> W \<Longrightarrow> climb_post g B R W' r"
  by (auto simp: climb_post_def split: sum.splits)

lemma climb_loop_post:
  assumes "climb_inv g B R (dom colors) (entered stack) bs"
    and "\<And>p. Blacken p \<in> set stack \<Longrightarrow> p \<in> dom colors"
    and "\<And>x y. x \<in> R \<Longrightarrow> y \<in> climb_succ g B x \<Longrightarrow> y \<in> R"
  shows "climb_post g B R (dom colors \<union> entered stack) (climb_loop iter g stack colors bs)"
  using assms
proof (induction iter g stack colors bs rule: climb_loop.induct)
  case (1 iter g colors bs)
  then show ?case by (simp add: climb_post_def)
next
  case (2 iter g p stack colors bs)
  then have same: "dom (colors(p \<mapsto> Black)) = dom colors" by auto
  have "climb_post g B R (dom (colors(p \<mapsto> Black)) \<union> entered stack)
      (climb_loop iter g stack (colors(p \<mapsto> Black)) bs)"
    by (rule "2.IH") (use "2.prems" same in \<open>simp_all del: fun_upd_apply dom_fun_upd\<close>)
  then show ?case by (simp only: same climb_loop.simps entered_simps)
next
  case (3 iter g x stack colors bs)
  show ?case
  proof (cases "x \<in> dom colors")
    case True
    then obtain c where c: "colors x = Some c" by auto
    have "climb_inv g B R (dom colors) (entered stack) bs"
      using "3.prems"(1) True by (simp add: climb_inv_def insert_absorb) blast
    then have "climb_post g B R (dom colors \<union> entered stack) (climb_loop iter g stack colors bs)"
      using "3.IH"(3) [OF c] "3.prems"(2,3) by simp
    with c True show ?thesis by (simp add: insert_absorb)
  next
    case new: False
    then have none: "colors x = None" by auto
    have xR: "x \<in> R" using "3.prems"(1) new unfolding climb_inv_def by auto
    show ?thesis
    proof (cases "contains_module g x")
      case False
      then have "climb_loop iter g (Enter x # stack) colors bs = Inl (dead_error g x)"
        using none by (simp add: lookup_None_iff [THEN iffD2] dead_error_def)
      with False xR show ?thesis by (auto simp: climb_post_def dead_end_def)
    next
      case has: True
      let ?n = "node_of g x"
      have lk: "fmlookup (modules g) x = Some ?n" using has by (rule lookup_node_of)
      show ?thesis
      proof (cases "is_self_accepting ?n")
        case True
        let ?bs = "bs @ [mk_target iter g x x colors]"
        have "climb_inv g B R (insert x (dom colors)) (entered stack) ?bs"
        proof (rule climb_inv_add [OF _ new])
          show "climb_inv g B R (dom colors) (insert x (entered stack)) bs"
            using "3.prems"(1) by simp
          then show "entered stack - B \<subseteq> R" unfolding climb_inv_def by blast
        qed (use True has in \<open>auto simp: dead_end_def climb_succ_def stops_def\<close>)
        then have "climb_post g B R (insert x (dom colors) \<union> entered stack)
            (climb_loop iter g stack (colors(x \<mapsto> Black)) ?bs)"
          using "3.IH"(1) [OF none lk True] "3.prems"(2,3) by (simp del: fun_upd_apply)
        with True none lk show ?thesis by simp
      next
        case nsa: False
        show ?thesis
        proof (cases "accepted_exports ?n = None \<and> importers ?n = {||}")
          case True
          then have "climb_loop iter g (Enter x # stack) colors bs = Inl (dead_error g x)"
            using none lk nsa has by (simp add: dead_error_def)
          with True nsa xR show ?thesis by (auto simp: climb_post_def dead_end_def)
        next
          case alive: False
          let ?is = "rev (sorted_list_of_fset (importers ?n))"
          let ?go = "filter (\<lambda>i. \<not> accepts_dep g i x \<and> \<not> covered g i x) ?is"
          let ?st = "map Enter (rev ?go) @ Blacken x # stack"
          let ?bs = "(bs @ (if accepted_exports ?n = None then [] else [mk_target iter g x x colors]))
            @ map (\<lambda>i. mk_target iter g i x (colors(x \<mapsto> Gray))) (filter (\<lambda>i. accepts_dep g i x) ?is)"
          have ci: "climb_importers iter g x (accepted_exports ?n) (colors(x \<mapsto> Gray)) ?is
              (Blacken x # stack, bs @ (if accepted_exports ?n = None then []
                 else [mk_target iter g x x colors])) = (?st, ?bs)"
            by (simp add: climb_importers_eq covered_def)
          have succ: "climb_succ g B x = set ?go - B"
            using nsa by (auto simp: climb_succ_def)
          have "climb_inv g B R (insert x (dom colors)) (entered ?st) ?bs"
          proof (rule climb_inv_add [OF _ new])
            show "climb_inv g B R (dom colors) (insert x (entered stack)) bs"
              using "3.prems"(1) by simp
            show "\<not> dead_end g x" using has alive by (simp add: dead_end_def)
            show "entered ?st - B \<subseteq> R"
              using "3.prems"(1,3) xR succ unfolding climb_inv_def by auto
            show "entered stack \<union> climb_succ g B x \<subseteq> insert x (dom colors) \<union> entered ?st"
              using succ by auto
            show "target_pairs ?bs = target_pairs bs \<union> stops g x"
              using nsa by (auto simp: stops_def)
          qed
          moreover have gray: "dom (colors(x \<mapsto> Gray)) = insert x (dom colors)" by simp
          ultimately have "climb_post g B R (dom (colors(x \<mapsto> Gray)) \<union> entered ?st)
              (climb_loop iter g ?st (colors(x \<mapsto> Gray)) ?bs)"
            by (intro "3.IH"(2) [OF none lk nsa alive ci [symmetric]])
              (use "3.prems"(2,3) in \<open>auto simp only: gray set_append set_map list.set\<close>)
          then have "climb_post g B R (dom colors \<union> entered (Enter x # stack))
              (climb_loop iter g ?st (colors(x \<mapsto> Gray)) ?bs)"
            by (rule climb_post_mono) auto
          moreover have "climb_loop iter g (Enter x # stack) colors bs
              = climb_loop iter g ?st (colors(x \<mapsto> Gray)) ?bs"
            unfolding climb_loop.simps none lk option.case ci prod.case if_not_P [OF nsa] if_not_P [OF alive] ..
          ultimately show ?thesis by (simp only:)
        qed
      qed
    qed
  qed
qed

text \<open>The modules gray before the walk starts.\<close>

lemma dom_gray_fold: "dom (fold (\<lambda>m colors. colors(m \<mapsto> Gray)) ms colors) = set ms \<union> dom colors"
  by (induction ms arbitrary: colors) auto

definition seeds_post ::
  "module_graph \<Rightarrow> path set \<Rightarrow> hmr_error + update_target list \<Rightarrow> bool" where
  "seeds_post g R r =
     (case r of
        Inl e \<Rightarrow> \<exists>x \<in> R. dead_end g x \<and> e = dead_error g x
      | Inr bs \<Rightarrow> (\<forall>x \<in> R. \<not> dead_end g x) \<and> target_pairs bs = (\<Union>x \<in> R. stops g x))"

lemma climb_seeds_post:
  assumes "climb_inv g B R (dom colors) {} bs" and "set seeds - B \<subseteq> R"
    and "R = walk.reach g B roots" and "roots \<subseteq> dom colors \<union> set seeds" and "B \<inter> roots = {}"
  shows "seeds_post g R (climb_seeds iter g seeds colors bs)"
  using assms(1,2,4)
proof (induction seeds arbitrary: colors bs)
  case Nil
  have "dom colors - B = R"
    unfolding assms(3)
    by (rule walk.closed_eq_reach)
      (use Nil assms(3,5) in \<open>auto simp: climb_inv_def climb_succ_def split: if_splits\<close>)
  with Nil show ?case by (auto simp: seeds_post_def climb_inv_def)
next
  case (Cons s seeds)
  have post: "climb_post g B R (dom colors \<union> entered [Enter s]) (climb iter g s colors bs)"
    unfolding climb_def
    by (rule climb_loop_post)
      (use Cons.prems assms(3) in \<open>auto simp: climb_inv_def intro: walk.reach.edge\<close>)
  show ?case
  proof (cases "climb iter g s colors bs")
    case (Inl e)
    with post show ?thesis by (simp add: climb_post_def seeds_post_def)
  next
    case (Inr r)
    obtain colors' bs' where r: "r = (colors', bs')" by force
    with post Inr have "insert s (dom colors) \<subseteq> dom colors'" "climb_inv g B R (dom colors') {} bs'"
      by (auto simp: climb_post_def)
    moreover from this Cons.prems have "set seeds - B \<subseteq> R" "roots \<subseteq> dom colors' \<union> set seeds"
      unfolding list.set by blast+
    ultimately show ?thesis using Cons.IH [of colors' bs'] Inr r by simp
  qed
qed

lemma collect_boundaries_post:
  fixes g seeds pre_stack
  defines "R \<equiv> walk.reach g (set pre_stack) (set seeds - set pre_stack)"
  shows "seeds_post g R (collect_boundaries iter g seeds pre_stack)"
  unfolding collect_boundaries_def
proof (rule climb_seeds_post [where roots = "set seeds - set pre_stack"])
  show "climb_inv g (set pre_stack) R
      (dom (fold (\<lambda>m colors. colors(m \<mapsto> Gray)) pre_stack Map.empty)) {} []"
    by (simp add: climb_inv_def dom_gray_fold)
qed (auto simp: R_def dom_gray_fold intro: walk.reach.root)

text \<open>The same for the two entry points, whose results are sorted and deduplicated.\<close>

lemma seeds_post_sort_dedup:
  "seeds_post g R r \<Longrightarrow> seeds_post g R (map_sum id sort_dedup r)"
  by (cases r) (auto simp: seeds_post_def target_pairs_def)

text \<open>What the walk reaches from a module is dirty, so a boundary's accepted module is.\<close>

lemma walk_reach_dirty: "walk.reach g B {c} \<subseteq> dirty.reach g c {c}"
  by (rule walk.reach_least)
    (auto simp: climb_succ_def dirty_succ_def split: if_splits intro: dirty.reach.intros)


section \<open>Importer chains\<close>

text \<open>A list of modules each of which imports the one before it.\<close>

fun importer_chain :: "module_graph \<Rightarrow> path list \<Rightarrow> bool" where
  "importer_chain g (x # y # xs) \<longleftrightarrow> y |\<in>| importers (node_of g x) \<and> importer_chain g (y # xs)"
| "importer_chain g _ \<longleftrightarrow> True"

definition entry :: "module_graph \<Rightarrow> path \<Rightarrow> bool" where
  "entry g x \<longleftrightarrow> importers (node_of g x) = {||}"

lemma chain_meets_stop:
  assumes "importer_chain g (x # xs)" and "entry g (last (x # xs))" and "x \<in> walk.reach g {} roots"
    and "\<forall>y \<in> walk.reach g {} roots. \<not> dead_end g y"
  shows "\<exists>y \<in> set (x # xs). y \<in> fst ` (\<Union>z \<in> walk.reach g {} roots. stops g z)"
  using assms(1-3)
proof (induction xs arbitrary: x)
  case Nil
  then have "(x, x) \<in> stops g x"
    using assms(4) by (auto simp: dead_end_def entry_def stops_def)
  with Nil.prems(3) show ?case by force
next
  case (Cons y xs)
  show ?case
  proof (cases "(x, x) \<in> stops g x")
    case True
    with Cons.prems(3) show ?thesis by force
  next
    case False
    then have nsa: "\<not> is_self_accepting (node_of g x)" and none: "accepted_exports (node_of g x) = None"
      by (auto simp: stops_def split: if_splits)
    show ?thesis
    proof (cases "accepts_dep g y x")
      case True
      then have "(y, x) \<in> stops g x" using nsa Cons.prems(1) by (simp add: stops_def)
      with Cons.prems(3) show ?thesis by force
    next
      case False
      then have "y \<in> climb_succ g {} x"
        using nsa none Cons.prems(1) by (simp add: climb_succ_def covered_def)
      then have "y \<in> walk.reach g {} roots" using Cons.prems(3) by (rule walk.reach.edge [rotated])
      with Cons.IH [of y] Cons.prems show ?thesis by auto
    qed
  qed
qed

lemma propagate_update_cases:
  "propagate_update iter g c =
     (case collect_boundaries iter g [c] [] of
        Inr ts \<Rightarrow> Update (sort_dedup (map boundary ts))
      | Inl e \<Rightarrow> FullReload e)"
proof (cases "contains_module g c")
  case False
  then have "collect_boundaries iter g [c] [] = Inl (NotInGraph c)"
    by (simp add: collect_boundaries_def climb_def lookup_None_iff [THEN iffD2])
  with False show ?thesis by (simp add: propagate_update_def propagate_from_seeds_def)
qed (simp add: propagate_update_def propagate_from_seeds_def)

lemma fst_target_pairs: "fst ` target_pairs ts = boundary ` set ts"
  by (force simp: target_pairs_def)

lemma propagate_update_post:
  "case propagate_update iter g c of
     Update bs \<Rightarrow> (\<forall>x \<in> walk.reach g {} {c}. \<not> dead_end g x) \<and>
       set bs = fst ` (\<Union>x \<in> walk.reach g {} {c}. stops g x) \<and> sorted_wrt (<) bs
   | FullReload e \<Rightarrow> \<exists>x \<in> walk.reach g {} {c}. dead_end g x \<and> e = dead_error g x"
  using collect_boundaries_post [of g "[]" "[c]" iter]
  by (auto simp: propagate_update_cases seeds_post_def fst_target_pairs [symmetric] split: sum.splits)

section \<open>Independence of the hash order\<close>

lemma mk_target_iter:
  "path_iter iter \<Longrightarrow> path_iter iter' \<Longrightarrow> mk_target iter = mk_target iter'"
  by (simp add: mk_target_def fun_eq_iff is_within_circular_imports_iff)

lemma climb_importers_iter:
  "path_iter iter \<Longrightarrow> path_iter iter' \<Longrightarrow>
     climb_importers iter g x acc colors is st = climb_importers iter' g x acc colors is st"
  by (cases st) (simp add: climb_importers_eq mk_target_iter [of iter iter'])

lemma climb_loop_iter:
  assumes "path_iter iter" and "path_iter iter'"
  shows "climb_loop iter g stack colors bs = climb_loop iter' g stack colors bs"
  using assms(1)
proof (induction iter g stack colors bs rule: climb_loop.induct)
  case (3 iter g x stack colors bs)
  note same = mk_target_iter [OF "3.prems" assms(2)] climb_importers_iter [OF "3.prems" assms(2)]
  show ?case
    unfolding climb_loop.simps same
    by (rule option.case_cong [OF refl], rule option.case_cong [OF refl refl], rule if_cong [OF refl])
      (auto simp: same "3.prems" "3.IH" [unfolded same] simp del: fun_upd_apply split: prod.splits)
qed simp_all

lemma collect_boundaries_iter:
  assumes "path_iter iter" and "path_iter iter'"
  shows "collect_boundaries iter g seeds pre = collect_boundaries iter' g seeds pre"
proof -
  have "climb_seeds iter g seeds colors bs = climb_seeds iter' g seeds colors bs" for colors bs
    by (induction seeds arbitrary: colors bs)
      (simp_all add: climb_def climb_loop_iter [OF assms] del: climb_loop.simps split: sum.splits)
  then show ?thesis by (simp add: collect_boundaries_def)
qed


section \<open>Properties\<close>

text \<open>The graph of the witnesses: the application of \<open>demo_graph\<close> with a self-accepting \<open>app\<close>.\<close>

definition demo_hot :: module_graph where
  "demo_hot = set_self_accepting (demo_path ''app'') True demo_graph"

text \<open>
  C2: the boundaries of an update are exact. If the walk from the changed module over importers
  that neither accept it nor use only its accepted exports meets a missing module or an entry that
  accepts nothing, the answer is a full reload that names such a module. Otherwise the targets,
  sorted and without repetition, are exactly the (boundary, accepted) pairs at which a module the
  walk reaches stops the update.
\<close>

theorem update_targets_exact:
  "case update_targets iter g c of
     Inl e \<Rightarrow> \<exists>x \<in> walk.reach g {} {c}. dead_end g x \<and> e = dead_error g x
   | Inr ts \<Rightarrow> walk.reach g {} {c} \<inter> {x. dead_end g x} = {} \<and>
       target_pairs ts = (\<Union>x \<in> walk.reach g {} {c}. stops g x) \<and> sorted_wrt (<) ts"
proof (cases "contains_module g c")
  case True
  have "seeds_post g (walk.reach g {} {c}) (map_sum id sort_dedup (collect_boundaries iter g [c] []))"
    using seeds_post_sort_dedup [OF collect_boundaries_post [of g "[]" "[c]" iter]] by simp
  with True show ?thesis
    by (cases "collect_boundaries iter g [c] []") (auto simp: update_targets_def seeds_post_def)
next
  case False
  then show ?thesis
    by (auto simp: update_targets_def dead_end_def dead_error_def intro: walk.reach.root)
qed

text \<open>
  The same for \<^verbatim>\<open>import.meta.hot.invalidate()\<close>: the walk starts from the importers of the
  invalidated module and never enters that module again.
\<close>

theorem update_targets_from_importers_exact:
  assumes "path_iter iter" and "graph_wf g" and "contains_module g c"
  defines "R \<equiv> walk.reach g {c} (fset (importers (node_of g c)) - {c})"
  shows "case update_targets_from_importers iter g c of
     Inl e \<Rightarrow> entry g c \<and> e = InvalidatedAtEntry c \<or> (\<exists>x \<in> R. dead_end g x \<and> e = NoBoundary x)
   | Inr ts \<Rightarrow> \<not> entry g c \<and> R \<inter> {x. dead_end g x} = {} \<and>
       target_pairs ts = (\<Union>x \<in> R. stops g x) \<and> sorted_wrt (<) ts"
proof -
  let ?n = "node_of g c"
  let ?r = "map_sum id sort_dedup (collect_boundaries iter g (iter (importers ?n)) [c])"
  have lk: "fmlookup (modules g) c = Some ?n" using assms(3) by (rule lookup_node_of)
  have post: "seeds_post g R ?r"
    using seeds_post_sort_dedup [OF collect_boundaries_post [of g "[c]" "iter (importers ?n)" iter]]
    by (simp add: R_def path_iter_set [OF assms(1)])
  have "contains_module g x" if "x \<in> R" for x
    using that unfolding R_def
    by induction (auto simp: climb_succ_def split: if_splits dest: graph_wf_contains(2) [OF assms(2)])
  with post lk show ?thesis
    by (cases "collect_boundaries iter g (iter (importers ?n)) [c]")
      (auto simp: update_targets_from_importers_def entry_def seeds_post_def dead_error_def)
qed

theorem update_targets_from_importers_exact_witness:
  "target_pairs [UpdateTarget (demo_path ''app'') (demo_path ''app'') False] =
     (\<Union>x \<in> walk.reach demo_hot {demo_path ''util''}
        (fset (importers (node_of demo_hot (demo_path ''util''))) - {demo_path ''util''}). stops demo_hot x)"
proof -
  have "update_targets_from_importers sorted_list_of_fset demo_hot (demo_path ''util'') =
      Inr [UpdateTarget (demo_path ''app'') (demo_path ''app'') False]"
    by code_simp
  moreover have "contains_module demo_hot (demo_path ''util'')" by code_simp
  ultimately show ?thesis
    using update_targets_from_importers_exact [OF sorted_paths.path_iter_axioms, of demo_hot "demo_path ''util''"]
    by (simp add: demo_hot_def graph_wf_set_self_accepting graph_wf_demo)
qed

text \<open>
  C1: an update that is not a full reload leaves no importer stale. On every chain of importers from
  the changed module up to an entry there is a module the client is told to update.
\<close>

theorem update_covers_every_chain:
  assumes "propagate_update iter g c = Update bs"
    and "importer_chain g (c # xs)" and "entry g (last (c # xs))"
  shows "set (c # xs) \<inter> set bs \<noteq> {}"
proof -
  have "\<forall>y \<in> walk.reach g {} {c}. \<not> dead_end g y"
    and bs: "set bs = fst ` (\<Union>x \<in> walk.reach g {} {c}. stops g x)"
    using propagate_update_post [where iter = iter and g = g and c = c] assms(1) by auto
  then have "\<exists>y \<in> set (c # xs). y \<in> fst ` (\<Union>z \<in> walk.reach g {} {c}. stops g z)"
    by (intro chain_meets_stop assms walk.reach.root) auto
  with bs show ?thesis by blast
qed

theorem update_covers_every_chain_witness:
  "set [demo_path ''util'', demo_path ''app'', demo_path ''main''] \<inter> set [demo_path ''app''] \<noteq> {}"
proof -
  have "propagate_update sorted_list_of_fset demo_hot (demo_path ''util'') = Update [demo_path ''app'']"
    by code_simp
  moreover have "importer_chain demo_hot [demo_path ''util'', demo_path ''app'', demo_path ''main'']"
    by code_simp
  moreover have "entry demo_hot (last [demo_path ''util'', demo_path ''app'', demo_path ''main''])"
    by code_simp
  ultimately show ?thesis by (rule update_covers_every_chain)
qed

text \<open>
  The modules an update dirties are, sorted and each once, those reachable from the changed one
  over importers that do not accept it, not past a self-accepting module, for every order the
  importer sets iterate in.
\<close>

theorem dirty_closure_exact:
  assumes "path_iter iter"
  shows "dirty_closure iter g c = sorted_list_of_set (dirty.reach g c {c})"
  by (rule sorted_distinct_set_unique)
    (simp_all add: set_dirty_closure distinct_dirty_closure sorted_dirty_closure finite_dirty_reach assms)

theorem dirty_closure_exact_witness:
  "sorted_list_of_set (dirty.reach demo_hot (demo_path ''util'') {demo_path ''util''}) =
     [demo_path ''app'', demo_path ''util'']"
proof -
  have "dirty_closure sorted_list_of_fset demo_hot (demo_path ''util'') =
      [demo_path ''app'', demo_path ''util'']"
    by code_simp
  with dirty_closure_exact [OF sorted_paths.path_iter_axioms] show ?thesis by metis
qed

text \<open>
  The accepted module of every target is among the dirty modules, so a boundary that re-imports
  it fetches a freshly stamped version.
\<close>

theorem targets_accept_dirty_modules:
  assumes "path_iter iter" and "update_targets iter g c = Inr ts"
  shows "accepted ` set ts \<subseteq> set (dirty_closure iter g c)"
proof -
  have "seeds_post g (walk.reach g {} {c}) (collect_boundaries iter g [c] [])"
    using collect_boundaries_post [of g "[]" "[c]" iter] by simp
  then have eq: "target_pairs ts = (\<Union>x \<in> walk.reach g {} {c}. stops g x)"
    using assms(2)
    by (cases "collect_boundaries iter g [c] []")
      (auto simp: update_targets_def seeds_post_def target_pairs_def split: if_splits)
  then have "accepted t \<in> walk.reach g {} {c}" if "t \<in> set ts" for t
  proof -
    have "(boundary t, accepted t) \<in> target_pairs ts" using that by (auto simp: target_pairs_def)
    then obtain x where "x \<in> walk.reach g {} {c}" "(boundary t, accepted t) \<in> stops g x"
      unfolding eq by blast
    then show ?thesis by (auto simp: stops_def split: if_splits)
  qed
  then show ?thesis
    unfolding set_dirty_closure [OF assms(1)] using walk_reach_dirty [of g "{}" c] by blast
qed

theorem targets_accept_dirty_modules_witness:
  "demo_path ''app'' \<in> set (dirty_closure sorted_list_of_fset demo_hot (demo_path ''util''))"
proof -
  have "update_targets sorted_list_of_fset demo_hot (demo_path ''util'') =
      Inr [UpdateTarget (demo_path ''app'') (demo_path ''app'') False]"
    by code_simp
  from targets_accept_dirty_modules [OF sorted_paths.path_iter_axioms this] show ?thesis by simp
qed

text \<open>
  The targets of an update, with their circular-import flags, do not depend on the order hash
  sets iterate in.
\<close>

theorem update_targets_deterministic:
  assumes "path_iter iter" and "path_iter iter'"
  shows "update_targets iter g c = update_targets iter' g c"
  using collect_boundaries_iter [OF assms] by (simp add: update_targets_def)

theorem update_targets_deterministic_witness:
  "update_targets (\<lambda>S. rev (sorted_list_of_fset S)) demo_hot (demo_path ''util'') =
     update_targets sorted_list_of_fset demo_hot (demo_path ''util'')"
proof (rule update_targets_deterministic [OF _ sorted_paths.path_iter_axioms])
  show "path_iter (\<lambda>S. rev (sorted_list_of_fset S))"
    by unfold_locales (simp_all add: sorted_iter.distinct_iter sorted_iter.set_iter)
qed

text \<open>
  A boundary is flagged as within circular imports exactly when a chain of importers from it,
  stylesheets and direct self-imports aside, leads back to it or to a module of the current chain.
\<close>

theorem circular_flag_exact:
  assumes "path_iter iter"
  shows "is_within_circular_imports iter g b colors \<longleftrightarrow>
     (\<exists>x \<in> circ.reach g {b}. \<exists>i \<in> circ_succ g x. i = b \<or> colors i = Some Gray)"
  unfolding is_within_circular_imports_iff [OF assms] circ_hit_def ..

theorem circular_flag_exact_witness:
  "\<not> (\<exists>x \<in> circ.reach demo_hot {demo_path ''app''}. \<exists>i \<in> circ_succ demo_hot x. i = demo_path ''app'')"
proof -
  have "\<not> is_within_circular_imports sorted_list_of_fset demo_hot (demo_path ''app'') Map.empty"
    by code_simp
  then show ?thesis
    using circular_flag_exact [OF sorted_paths.path_iter_axioms, of demo_hot "demo_path ''app''" Map.empty]
    by simp
qed

end
