(* ===== verification/Hmr_Stamps.thy ===== *)
theory Hmr_Stamps
  imports Hmr_Propagate
begin

text \<open>
  The HMR stamps of the module graph, the rest of \<^verbatim>\<open>crates/oj_graph/src/lib.rs\<close>: an update stamps
  the modules it dirties (\<^verbatim>\<open>stamp_update\<close>), a client's \<^verbatim>\<open>import.meta.hot.invalidate()\<close> is taken
  once per update (\<^verbatim>\<open>accept_invalidation\<close>), and a file change hard-invalidates the modules whose
  output depends on it (\<^verbatim>\<open>invalidate_on_change\<close>). The step relation \<open>graph_step\<close> closes the
  theory of the graph: it holds every public operation that changes one, and \<open>reachable_wf\<close>
  shows that whatever sequence of them runs, the importer edges stay the import edges reversed.

  The caller's \<^verbatim>\<open>soft\<close> predicate is a parameter. \<^verbatim>\<open>self.invalidation_stamp += 1\<close> wraps at
  \<open>2 ^ 64\<close>, as in a release build.
\<close>

section \<open>Operations\<close>

definition stamp_update ::
  "(path fset \<Rightarrow> path list) \<Rightarrow> path \<Rightarrow> u64 \<Rightarrow> module_graph \<Rightarrow> module_graph \<times> path list" where
  "stamp_update iter changed t g =
     (let dirty = dirty_closure iter g changed in (stamp_all dirty t g, dirty))"

definition accept_invalidation ::
  "(path fset \<Rightarrow> path list) \<Rightarrow> path \<Rightarrow> u64 \<Rightarrow> module_graph \<Rightarrow> module_graph \<times> path list option" where
  "accept_invalidation iter changed t g =
     (case fmlookup (modules g) changed of
        None \<Rightarrow> (g, None)
      | Some n \<Rightarrow>
          if \<not> is_self_accepting n \<or> last_hmr_timestamp n = 0 \<or> last_hmr_invalidation_received n
          then (g, None)
          else let g1 = modify_node changed (\<lambda>n. n\<lparr>last_hmr_invalidation_received := True\<rparr>) g;
                   dirty = filter (\<lambda>p. p \<noteq> changed) (dirty_closure iter g1 changed)
               in (stamp_all dirty t g1, Some dirty))"

text \<open>The \<^verbatim>\<open>for\<close> loop over the importers of the current module.\<close>

fun invalidate_importers ::
  "module_graph \<Rightarrow> (path \<Rightarrow> bool) \<Rightarrow> path \<Rightarrow> path list \<Rightarrow> (path \<times> bool) list \<Rightarrow> (path \<times> bool) list" where
  "invalidate_importers g soft p [] stack = stack"
| "invalidate_importers g soft p (i # is) stack =
     (if accepts_dep g i p then invalidate_importers g soft p is stack
      else invalidate_importers g soft p is ((i, soft i) # stack))"

text \<open>A module's hard invalidation: the stamp and the entry in \<^verbatim>\<open>hard\<close>.\<close>

definition hard_stamp :: "path \<Rightarrow> u64 \<Rightarrow> module_graph \<Rightarrow> module_graph" where
  "hard_stamp p stamp g = modify_node p (\<lambda>n. n\<lparr>last_invalidation_timestamp := stamp\<rparr>) g"

lemma fmdom_hard_stamp [simp]: "fmdom' (modules (hard_stamp p stamp g)) = fmdom' (modules g)"
  by (auto simp: hard_stamp_def modify_node_def fmdom'_alt_def fmlookup_dom_iff split: option.splits)

function invalidate_loop ::
  "(path fset \<Rightarrow> path list) \<Rightarrow> (path \<Rightarrow> bool) \<Rightarrow> u64 \<Rightarrow> module_graph \<Rightarrow> path list \<Rightarrow> path set \<Rightarrow> path set
     \<Rightarrow> (path \<times> bool) list \<Rightarrow> module_graph \<times> path list" where
  "invalidate_loop iter soft stamp g hard seen_hard seen_soft [] = (g, hard)"
| "invalidate_loop iter soft stamp g hard seen_hard seen_soft ((p, is_soft) # stack) =
     (if p \<in> seen_hard \<or> (is_soft \<and> p \<in> seen_soft)
      then invalidate_loop iter soft stamp g hard seen_hard seen_soft stack
      else (case fmlookup (modules g) p of
              None \<Rightarrow> invalidate_loop iter soft stamp g hard seen_hard
                        (if is_soft then insert p seen_soft else seen_soft) stack
            | Some n \<Rightarrow>
                if is_soft
                then invalidate_loop iter soft stamp g hard seen_hard (insert p seen_soft)
                       (invalidate_importers g soft p (iter (importers n)) stack)
                else invalidate_loop iter soft stamp (hard_stamp p stamp g) (hard @ [p])
                       (insert p seen_hard) seen_soft
                       (invalidate_importers (hard_stamp p stamp g) soft p (iter (importers n)) stack)))"
  by pat_completeness auto
termination
proof (relation "measures [\<lambda>(iter, soft, stamp, g, hard, sh, ss, st).
      card (fmdom' (modules g) - sh) + card (fmdom' (modules g) - ss),
    \<lambda>(iter, soft, stamp, g, hard, sh, ss, st). length st]", goal_cases)
  case (3 iter soft stamp g hard sh ss p is_soft stack)
  then have "p \<notin> fmdom' (modules g)" by (simp add: fmdom'_notI)
  then have "fmdom' (modules g) - insert p ss = fmdom' (modules g) - ss" by auto
  then show ?case by simp
next
  case (4 iter soft stamp g hard sh ss p is_soft stack n)
  then have "card (fmdom' (modules g) - insert p ss) < card (fmdom' (modules g) - ss)"
    by (intro card_diff_grow) (auto intro: fmdom'I)
  then show ?case by simp
next
  case (5 iter soft stamp g hard sh ss p is_soft stack n)
  then have "card (fmdom' (modules g) - insert p sh) < card (fmdom' (modules g) - sh)"
    by (intro card_diff_grow) (auto intro: fmdom'I)
  then show ?case by simp
qed auto

definition invalidate_on_change ::
  "(path fset \<Rightarrow> path list) \<Rightarrow> (path \<Rightarrow> bool) \<Rightarrow> path \<Rightarrow> module_graph \<Rightarrow> module_graph \<times> path list" where
  "invalidate_on_change iter soft changed g =
     (if \<not> contains_module g changed then (g, [])
      else let g1 = g\<lparr>invalidation_stamp := invalidation_stamp g + 1\<rparr>
           in invalidate_loop iter soft (invalidation_stamp g1) g1 [] {} {} [(changed, False)])"


section \<open>What a file change invalidates\<close>

lemma node_of_hard_stamp [graph_simps]:
  "node_of (hard_stamp p t g) q =
     (if q = p \<and> contains_module g p then (node_of g p)\<lparr>last_invalidation_timestamp := t\<rparr>
      else node_of g q)"
  by (simp add: hard_stamp_def graph_simps)

lemma contains_hard_stamp [graph_simps]: "contains_module (hard_stamp p t g) q = contains_module g q"
  by (simp add: hard_stamp_def graph_simps)

lemma stamp_hard_stamp [graph_simps]: "invalidation_stamp (hard_stamp p t g) = invalidation_stamp g"
  by (simp add: hard_stamp_def graph_simps)

lemma accepts_dep_node_of: "accepts_dep g i p \<longleftrightarrow> p |\<in>| accepted_hmr_deps (node_of g i)"
  by (simp add: accepts_dep_def node_of_def split: option.splits)

lemma invalidate_importers_eq:
  "invalidate_importers g soft p is stack =
     rev (map (\<lambda>i. (i, soft i)) (filter (\<lambda>i. \<not> accepts_dep g i p) is)) @ stack"
  by (induction "is" arbitrary: stack) auto

text \<open>The edges of the invalidation: from a module to the importers that do not accept it.\<close>

definition inval_succ :: "module_graph \<Rightarrow> path \<Rightarrow> path set" where
  "inval_succ g x = {i. i |\<in>| importers (node_of g x) \<and> \<not> accepts_dep g i x}"

interpretation inval: search "inval_succ g" for g .

text \<open>Hard stamps change nothing the walk looks at.\<close>

definition hard_stamped :: "module_graph \<Rightarrow> path set \<Rightarrow> u64 \<Rightarrow> module_graph \<Rightarrow> bool" where
  "hard_stamped g H t h \<longleftrightarrow>
     (\<forall>p. node_of h p = (if p \<in> H then (node_of g p)\<lparr>last_invalidation_timestamp := t\<rparr> else node_of g p)) \<and>
     (\<forall>p. contains_module h p = contains_module g p) \<and> invalidation_stamp h = invalidation_stamp g"

lemma hard_stamped_add:
  "hard_stamped g H t h \<Longrightarrow> contains_module g p \<Longrightarrow> hard_stamped g (insert p H) t (hard_stamp p t h)"
  by (auto simp: hard_stamped_def graph_simps)

lemma hard_stamped_edges:
  assumes "hard_stamped g H t h"
  shows "importers (node_of h p) = importers (node_of g p)" "accepts_dep h i p = accepts_dep g i p"
    "inval_succ h p = inval_succ g p"
  using assms by (auto simp: hard_stamped_def inval_succ_def accepts_dep_node_of)

text \<open>
  The invariant of the walk after the changed module \<open>c\<close> was taken: \<open>sh\<close> and \<open>ss\<close> hold what was
  hard and soft invalidated, everything pending carries its own kind, and what was taken leads
  only to modules that were taken, are pending or are missing.
\<close>

definition inval_inv ::
  "module_graph \<Rightarrow> (path \<Rightarrow> bool) \<Rightarrow> path \<Rightarrow> path set \<Rightarrow> path set \<Rightarrow> (path \<times> bool) list \<Rightarrow> bool" where
  "inval_inv g soft c sh ss stack \<longleftrightarrow>
     c \<in> sh \<and> (\<forall>x \<in> sh. contains_module g x \<and> (x = c \<or> \<not> soft x)) \<and> (\<forall>x \<in> ss. soft x) \<and>
     (\<forall>(x, s) \<in> set stack. s = soft x) \<and> sh \<union> ss \<union> fst ` set stack \<subseteq> inval.reach g {c} \<and>
     (\<forall>x \<in> sh \<union> ss. inval_succ g x \<subseteq> sh \<union> ss \<union> fst ` set stack \<union> {x. \<not> contains_module g x})"

lemma inval_inv_done:
  assumes "inval_inv g soft c sh ss []"
  shows "sh = {x \<in> inval.reach g {c}. contains_module g x \<and> (x = c \<or> \<not> soft x)}"
proof -
  let ?S = "sh \<union> ss \<union> {x \<in> inval.reach g {c}. \<not> contains_module g x}"
  have "?S = inval.reach g {c}"
  proof (rule inval.closed_eq_reach)
    fix x y assume "x \<in> ?S" and y: "y \<in> inval_succ g x"
    then have "x \<in> sh \<union> ss"
      by (auto simp: inval_succ_def node_of_absent)
    moreover from this have "x \<in> inval.reach g {c}"
      "inval_succ g x \<subseteq> sh \<union> ss \<union> {x. \<not> contains_module g x}"
      using assms unfolding inval_inv_def by auto
    ultimately show "y \<in> ?S" using y inval.reach.edge [of x g "{c}" y] by blast
  qed (use assms in \<open>auto simp: inval_inv_def\<close>)
  then have "x \<in> sh \<union> ss" if "x \<in> inval.reach g {c}" "contains_module g x" for x
    using that by blast
  moreover have "sh \<subseteq> inval.reach g {c}" "c \<in> sh" "\<forall>x \<in> ss. soft x"
    "\<forall>x \<in> sh. contains_module g x \<and> (x = c \<or> \<not> soft x)"
    using assms unfolding inval_inv_def by auto
  ultimately show ?thesis by blast
qed

lemma inval_inv_drop:
  assumes "inval_inv g soft c sh ss ((p, s) # stack)" and "p \<in> sh \<union> ss \<union> {x. \<not> contains_module g x}"
  shows "inval_inv g soft c sh ss stack"
proof -
  have "inval_succ g x \<subseteq> sh \<union> ss \<union> fst ` set stack \<union> {x. \<not> contains_module g x}"
    if "x \<in> sh \<union> ss" for x
    using assms that unfolding inval_inv_def list.set image_insert fst_conv by blast
  then show ?thesis
    using assms(1) unfolding inval_inv_def list.set image_insert fst_conv by simp
qed

lemma inval_inv_take:
  assumes "inval_inv g soft c sh ss ((x, soft x) # stack)" and "contains_module g x"
    and "sh' \<union> ss' = insert x (sh \<union> ss)" and "sh \<subseteq> sh'" and "\<And>y. y \<in> sh' - sh \<Longrightarrow> \<not> soft y"
    and "\<And>y. y \<in> ss' \<Longrightarrow> soft y" and "set stack' = (\<lambda>i. (i, soft i)) ` inval_succ g x \<union> set stack"
  shows "inval_inv g soft c sh' ss' stack'"
proof -
  have x: "x \<in> inval.reach g {c}" using assms(1) by (auto simp: inval_inv_def)
  then have "inval_succ g x \<subseteq> inval.reach g {c}" by (auto intro: inval.reach.edge)
  moreover have fst: "fst ` set stack' = inval_succ g x \<union> fst ` set stack"
    using assms(7) by (simp add: image_Un image_image)
  ultimately have "sh' \<union> ss' \<union> fst ` set stack' \<subseteq> inval.reach g {c}"
    using assms(1,3) x by (auto simp: inval_inv_def)
  moreover have "inval_succ g y \<subseteq> sh' \<union> ss' \<union> fst ` set stack' \<union> {x. \<not> contains_module g x}"
    if "y \<in> sh' \<union> ss'" for y
    using assms(1,3) that fst unfolding inval_inv_def by (cases "y = x") auto
  moreover have "contains_module g y \<and> (y = c \<or> \<not> soft y)" if "y \<in> sh'" for y
  proof (cases "y \<in> sh")
    case False
    then have "\<not> soft y" "y \<in> insert x (sh \<union> ss)" using assms(3,5) that by blast+
    with False assms(1,2) show ?thesis by (auto simp: inval_inv_def)
  qed (use assms(1) in \<open>auto simp: inval_inv_def\<close>)
  ultimately show ?thesis
    using assms(1,4,6,7) unfolding inval_inv_def by auto
qed

text \<open>What the walk from \<open>c\<close> returns: the stamped graph and the hard-invalidated modules.\<close>

definition hard_result ::
  "module_graph \<Rightarrow> (path \<Rightarrow> bool) \<Rightarrow> path \<Rightarrow> u64 \<Rightarrow> module_graph \<times> path list \<Rightarrow> bool" where
  "hard_result g soft c t r \<longleftrightarrow>
     hard_stamped g (set (snd r)) t (fst r) \<and> distinct (snd r) \<and>
     set (snd r) = {x \<in> inval.reach g {c}. contains_module g x \<and> (x = c \<or> \<not> soft x)}"

lemma invalidate_loop_spec:
  assumes "path_iter iter" and "hard_stamped g0 (set hard) t g" and "sh = set hard" and "distinct hard"
    and "inval_inv g0 soft c sh ss stack"
  shows "hard_result g0 soft c t (invalidate_loop iter soft t g hard sh ss stack)"
  using assms
proof (induction iter soft t g hard sh ss stack rule: invalidate_loop.induct)
  case (1 iter soft t g hard sh ss)
  then show ?case using inval_inv_done [of g0 soft c sh ss] by (simp add: hard_result_def)
next
  case (2 iter soft t g hard sh ss p is_soft stack)
  have is_soft: "is_soft = soft p" using "2.prems"(5) by (auto simp: inval_inv_def)
  have has: "contains_module g x = contains_module g0 x" for x
    using "2.prems"(2) by (simp add: hard_stamped_def)
  consider (seen) "p \<in> sh \<or> is_soft \<and> p \<in> ss"
    | (missing) "\<not> (p \<in> sh \<or> is_soft \<and> p \<in> ss)" "\<not> contains_module g p"
    | (found) "\<not> (p \<in> sh \<or> is_soft \<and> p \<in> ss)" "contains_module g p" by blast
  then show ?case
  proof cases
    case seen
    then have "inval_inv g0 soft c sh ss stack"
      by (intro inval_inv_drop [OF "2.prems"(5)]) auto
    with seen show ?thesis using "2.IH"(1) [OF seen "2.prems"(1-4)] by auto
  next
    case missing
    then have lk: "fmlookup (modules g) p = None" by (simp add: lookup_None_iff)
    have "inval_inv g0 soft c sh ss stack"
      using missing(2) has by (intro inval_inv_drop [OF "2.prems"(5)]) auto
    moreover have "inval_succ g0 p = {}" "p \<in> inval.reach g0 {c}"
      using missing(2) has "2.prems"(5) by (auto simp: inval_succ_def node_of_absent inval_inv_def)
    ultimately have "inval_inv g0 soft c sh (if is_soft then insert p ss else ss) stack"
      using is_soft unfolding inval_inv_def by auto
    with missing(1) lk show ?thesis using "2.IH"(2) [OF missing(1) lk "2.prems"(1-4)] by auto
  next
    case found
    have lk: "fmlookup (modules g) p = Some (node_of g p)" using found(2) by (rule lookup_node_of)
    have succ: "set (filter (\<lambda>i. \<not> accepts_dep g0 i p) (iter (importers (node_of g p)))) = inval_succ g0 p"
      by (auto simp: inval_succ_def path_iter_set [OF "2.prems"(1)] hard_stamped_edges [OF "2.prems"(2)])
    have pushed: "set (invalidate_importers h soft p (iter (importers (node_of g p))) stack)
        = (\<lambda>i. (i, soft i)) ` inval_succ g0 p \<union> set stack" if "hard_stamped g0 H t h" for H h
      using succ by (simp add: invalidate_importers_eq hard_stamped_edges [OF that])
    have inv: "inval_inv g0 soft c sh ss ((p, soft p) # stack)" using "2.prems"(5) is_soft by simp
    show ?thesis
    proof (cases is_soft)
      case True
      have "inval_inv g0 soft c sh (insert p ss)
          (invalidate_importers g soft p (iter (importers (node_of g p))) stack)"
        by (rule inval_inv_take [OF inv])
          (use True is_soft found has pushed [OF "2.prems"(2)] inv in \<open>auto simp: inval_inv_def\<close>)
      then show ?thesis
        using "2.IH"(3) [OF found(1) lk True "2.prems"(1-4)] found(1) lk True by simp
    next
      case False
      let ?h = "hard_stamp p t g"
      have st: "hard_stamped g0 (set (hard @ [p])) t ?h"
        using hard_stamped_add [OF "2.prems"(2)] found(2) has by simp
      have "inval_inv g0 soft c (insert p sh) ss
          (invalidate_importers ?h soft p (iter (importers (node_of g p))) stack)"
        by (rule inval_inv_take [OF inv])
          (use False is_soft found has pushed [OF st] inv in \<open>auto simp: inval_inv_def\<close>)
      then show ?thesis
        using "2.IH"(4) [OF found(1) lk False "2.prems"(1) st] "2.prems"(3,4) found(1) lk False by simp
    qed
  qed
qed

lemma invalidate_on_change_spec:
  assumes "path_iter iter" and "contains_module g c"
  shows "hard_result (g\<lparr>invalidation_stamp := invalidation_stamp g + 1\<rparr>) soft c
     (invalidation_stamp g + 1) (invalidate_on_change iter soft c g)"
proof -
  let ?t = "invalidation_stamp g + 1"
  let ?g = "g\<lparr>invalidation_stamp := ?t\<rparr>"
  have same: "node_of ?g = node_of g" "contains_module ?g = contains_module g" "inval_succ ?g = inval_succ g"
    by (auto simp: node_of_def contains_module_def inval_succ_def accepts_dep_def fun_eq_iff)
  let ?h = "hard_stamp c ?t ?g"
  let ?is = "iter (importers (node_of g c))"
  have lk: "fmlookup (modules g) c = Some (node_of g c)" using assms(2) by (rule lookup_node_of)
  have run: "invalidate_on_change iter soft c g =
      invalidate_loop iter soft ?t ?h [c] {c} {} (invalidate_importers ?h soft c ?is [])"
    using assms(2) lk by (simp add: invalidate_on_change_def Let_def)
  have st: "hard_stamped ?g (set [c]) ?t ?h"
    using hard_stamped_add [of ?g "{}" ?t ?g c] assms(2) same by (simp add: hard_stamped_def)
  have "fst ` set (invalidate_importers ?h soft c ?is []) = inval_succ g c"
    by (auto simp: invalidate_importers_eq hard_stamped_edges [OF st] inval_succ_def image_image
        path_iter_set [OF assms(1)] accepts_dep_node_of [of ?g] accepts_dep_node_of [of g] same)
  then have "inval_inv ?g soft c {c} {} (invalidate_importers ?h soft c ?is [])"
    using assms(2) unfolding inval_inv_def same
    by (auto simp: invalidate_importers_eq intro: inval.reach.intros)
  moreover have "{c} = set [c]" "distinct [c]" by simp_all
  ultimately show ?thesis
    using invalidate_loop_spec [OF assms(1) st] unfolding run by blast
qed


section \<open>Stamps and invalidations\<close>

lemma snd_stamp_update: "snd (stamp_update iter c t g) = dirty_closure iter g c"
  by (simp add: stamp_update_def Let_def)

lemma node_of_stamp_update:
  "node_of (fst (stamp_update iter c t g)) p =
     (if p \<in> set (dirty_closure iter g c) \<and> contains_module g p
      then (node_of g p)\<lparr>last_hmr_timestamp := t, last_hmr_invalidation_received := False\<rparr>
      else node_of g p)"
  by (simp add: stamp_update_def Let_def node_of_stamp_all)

lemma contains_stamp_update [graph_simps]:
  "contains_module (fst (stamp_update iter c t g)) p = contains_module g p"
  by (simp add: stamp_update_def Let_def graph_simps)

text \<open>When a client's invalidation is taken.\<close>

definition may_invalidate :: "module_graph \<Rightarrow> path \<Rightarrow> bool" where
  "may_invalidate g c \<longleftrightarrow> is_self_accepting (node_of g c) \<and> last_hmr_timestamp (node_of g c) \<noteq> 0 \<and>
     \<not> last_hmr_invalidation_received (node_of g c)"

lemma accept_invalidation_ignored:
  "\<not> may_invalidate g c \<Longrightarrow> accept_invalidation iter c t g = (g, None)"
  by (cases "contains_module g c")
    (auto simp: accept_invalidation_def may_invalidate_def lookup_node_of lookup_None_iff [THEN iffD2])

lemma accept_invalidation_taken:
  assumes "may_invalidate g c"
  defines "g1 \<equiv> modify_node c (\<lambda>n. n\<lparr>last_hmr_invalidation_received := True\<rparr>) g"
  shows "accept_invalidation iter c t g =
     (stamp_all (filter (\<lambda>p. p \<noteq> c) (dirty_closure iter g1 c)) t g1,
      Some (filter (\<lambda>p. p \<noteq> c) (dirty_closure iter g1 c)))"
proof -
  have "contains_module g c"
    using assms(1) by (metis default_node_sel(3) may_invalidate_def node_of_absent)
  then show ?thesis
    using assms(1) by (simp add: accept_invalidation_def may_invalidate_def lookup_node_of g1_def Let_def)
qed

text \<open>A node's flag and stamps are no edges of the dirty set.\<close>

lemma dirty_closure_cong:
  assumes "path_iter iter"
    and "\<And>p. importers (node_of h p) = importers (node_of g p)"
    and "\<And>p. is_self_accepting (node_of h p) = is_self_accepting (node_of g p)"
    and "\<And>p. accepted_hmr_deps (node_of h p) = accepted_hmr_deps (node_of g p)"
  shows "dirty_closure iter h c = dirty_closure iter g c"
proof -
  have succ: "dirty_succ h c = dirty_succ g c"
    by (intro ext) (simp add: dirty_succ_def accepts_dep_node_of assms(2-4))
  show ?thesis
    by (rule sorted_distinct_set_unique)
      (simp_all add: sorted_dirty_closure distinct_dirty_closure set_dirty_closure assms(1) succ)
qed

section \<open>The graph as a state machine\<close>

text \<open>Every public operation that changes the graph, with every argument a caller may pass.\<close>

inductive graph_step :: "(path fset \<Rightarrow> path list) \<Rightarrow> module_graph \<Rightarrow> module_graph \<Rightarrow> bool"
  for iter :: "path fset \<Rightarrow> path list" where
  ensure: "graph_step iter g (ensure_module p g)"
| add: "graph_step iter g (add_import p q g)"
| self_accepting: "graph_step iter g (set_self_accepting p b g)"
| accepted_deps: "graph_step iter g (set_accepted_deps p ds g)"
| accepted_exports: "graph_step iter g (set_accepted_exports p ns g)"
| imported_bindings: "graph_step iter g (set_imported_bindings p bs g)"
| replaced: "graph_step iter g (fst (set_imports iter p ps g))"
| pruned: "graph_step iter g (stamp_pruned ps t g)"
| updated: "graph_step iter g (fst (stamp_update iter p t g))"
| invalidated: "graph_step iter g (fst (accept_invalidation iter p t g))"
| changed: "graph_step iter g (fst (invalidate_on_change iter soft p g))"

inductive_set graph_reachable :: "(path fset \<Rightarrow> path list) \<Rightarrow> module_graph set"
  for iter :: "path fset \<Rightarrow> path list" where
  start: "new_graph \<in> graph_reachable iter"
| step: "g \<in> graph_reachable iter \<Longrightarrow> graph_step iter g h \<Longrightarrow> h \<in> graph_reachable iter"

lemma graph_wf_accept_invalidation: "graph_wf g \<Longrightarrow> graph_wf (fst (accept_invalidation iter c t g))"
  by (cases "may_invalidate g c")
    (simp_all add: accept_invalidation_taken accept_invalidation_ignored graph_wf_stamp_all graph_wf_modify_node)

lemma graph_wf_invalidate_on_change:
  assumes "path_iter iter" and "graph_wf g"
  shows "graph_wf (fst (invalidate_on_change iter soft c g))"
proof (cases "contains_module g c")
  case True
  let ?g = "g\<lparr>invalidation_stamp := invalidation_stamp g + 1\<rparr>"
  have "node_of ?g p = node_of g p" for p by (simp add: node_of_def)
  with invalidate_on_change_spec [OF assms(1) True, of soft] show ?thesis
    by (intro graph_wf_cong [OF assms(2)]) (simp_all add: hard_result_def hard_stamped_def)
next
  case False
  with assms show ?thesis by (simp add: invalidate_on_change_def)
qed

lemma graph_wf_step: "path_iter iter \<Longrightarrow> graph_wf g \<Longrightarrow> graph_step iter g h \<Longrightarrow> graph_wf h"
  by (erule graph_step.cases)
    (simp_all add: graph_wf_registration graph_wf_set_imports stamp_pruned_def stamp_update_def Let_def
      graph_wf_accept_invalidation graph_wf_invalidate_on_change)


section \<open>Properties\<close>

text \<open>
  C3: whatever sequence of its public operations ran on a graph, every edge is recorded at both
  ends and ends at modules of the graph: a module imports another exactly when that one lists it
  as an importer, and both are modules of the graph then.
\<close>

theorem reachable_graph_wf:
  assumes "path_iter iter" and "g \<in> graph_reachable iter"
  shows "b |\<in>| node_imports (node_of g a) \<longleftrightarrow>
     a |\<in>| importers (node_of g b) \<and> contains_module g a \<and> contains_module g b"
proof -
  have "graph_wf g"
    using assms(2) by induction (rule graph_wf_new, rule graph_wf_step [OF assms(1)])
  then show ?thesis using graph_wfD [of g b a] graph_wf_contains(1) [of g b a] by blast
qed

lemma demo_reachable: "demo_graph \<in> graph_reachable sorted_list_of_fset"
  unfolding demo_graph_def
  by (rule graph_reachable.step [OF graph_reachable.step [OF graph_reachable.start graph_step.replaced]
        graph_step.replaced])

theorem reachable_graph_wf_witness:
  "demo_path ''app'' |\<in>| importers (node_of demo_graph (demo_path ''util''))"
proof -
  have "demo_path ''util'' |\<in>| node_imports (node_of demo_graph (demo_path ''app''))" by code_simp
  with reachable_graph_wf [OF sorted_paths.path_iter_axioms demo_reachable] show ?thesis by blast
qed

text \<open>
  C5: a file change hard-invalidates, each once, exactly the changed module and the non-soft modules
  that reach it through importers that do not accept; these get the next stamp, every other module
  keeps its own, and a file that is no module changes nothing.
\<close>

theorem invalidate_on_change_exact:
  assumes "path_iter iter" and "contains_module g c"
  shows "set (snd (invalidate_on_change iter soft c g)) =
       {x \<in> inval.reach g {c}. contains_module g x \<and> (x = c \<or> \<not> soft x)}
     \<and> distinct (snd (invalidate_on_change iter soft c g))
     \<and> invalidation_timestamp (fst (invalidate_on_change iter soft c g)) p =
         (if p \<in> set (snd (invalidate_on_change iter soft c g)) then invalidation_stamp g + 1
          else invalidation_timestamp g p)"
proof -
  let ?g = "g\<lparr>invalidation_stamp := invalidation_stamp g + 1\<rparr>"
  have "node_of ?g = node_of g" "contains_module ?g = contains_module g" "inval_succ ?g = inval_succ g"
    by (auto simp: node_of_def contains_module_def inval_succ_def accepts_dep_def fun_eq_iff)
  with invalidate_on_change_spec [OF assms, of soft] show ?thesis
    by (auto simp: hard_result_def hard_stamped_def invalidation_timestamp_node_of)
qed

theorem invalidate_on_change_exact_witness:
  "{x \<in> inval.reach demo_graph {demo_path ''util''}.
      contains_module demo_graph x \<and> (x = demo_path ''util'' \<or> \<not> x = demo_path ''app'')} =
   {demo_path ''util'', demo_path ''main''}"
proof -
  have "snd (invalidate_on_change sorted_list_of_fset (\<lambda>x. x = demo_path ''app'') (demo_path ''util'') demo_graph)
      = [demo_path ''util'', demo_path ''main'']"
    by code_simp
  moreover have "contains_module demo_graph (demo_path ''util'')" by code_simp
  ultimately show ?thesis
    using invalidate_on_change_exact [OF sorted_paths.path_iter_axioms, of demo_graph
        "demo_path ''util''" "\<lambda>x. x = demo_path ''app''"]
    by simp
qed

text \<open>
  A client's invalidation is taken once per update. When it is taken, it returns the dirty
  modules other than the module itself, whose own stamp stays, and a second call is ignored and
  changes nothing until an update of the module stamps it again, after which it is taken anew.
\<close>

theorem invalidation_once_per_update:
  fixes t :: u64
  assumes "path_iter iter" and "may_invalidate g c" and "t2 \<noteq> 0"
  defines "g1 \<equiv> fst (accept_invalidation iter c t g)"
  shows "snd (accept_invalidation iter c t g) = Some (filter (\<lambda>p. p \<noteq> c) (dirty_closure iter g c))
     \<and> hmr_timestamp g1 c = hmr_timestamp g c
     \<and> accept_invalidation iter c t' g1 = (g1, None)
     \<and> snd (accept_invalidation iter c t' (fst (stamp_update iter c t2 g1))) \<noteq> None"
proof -
  let ?g' = "modify_node c (\<lambda>n. n\<lparr>last_hmr_invalidation_received := True\<rparr>) g"
  have has: "contains_module g c"
    using assms(2) by (metis default_node_sel(3) may_invalidate_def node_of_absent)
  have eq: "dirty_closure iter ?g' c = dirty_closure iter g c"
    by (rule dirty_closure_cong [OF assms(1)]) (simp_all add: graph_simps)
  have g1: "g1 = stamp_all (filter (\<lambda>p. p \<noteq> c) (dirty_closure iter g c)) t ?g'"
    by (simp add: g1_def accept_invalidation_taken [OF assms(2)] eq)
  have node: "node_of g1 c = (node_of g c)\<lparr>last_hmr_invalidation_received := True\<rparr>"
    using has by (simp add: g1 node_of_stamp_all graph_simps)
  have "c \<in> set (dirty_closure iter g1 c)"
    by (simp add: set_dirty_closure [OF assms(1)] dirty.reach.root)
  moreover have "contains_module g1 c" using has by (simp add: g1 graph_simps)
  ultimately have "may_invalidate (fst (stamp_update iter c t2 g1)) c"
    using assms(2,3) node by (simp add: may_invalidate_def node_of_stamp_update)
  then show ?thesis
    using node eq
    by (simp add: accept_invalidation_taken [OF assms(2)] accept_invalidation_taken
        accept_invalidation_ignored may_invalidate_def [of g1] hmr_timestamp_node_of)
qed

theorem invalidation_once_per_update_witness:
  "accept_invalidation sorted_list_of_fset (demo_path ''app'') 9
     (fst (accept_invalidation sorted_list_of_fset (demo_path ''app'') 8
       (fst (stamp_update sorted_list_of_fset (demo_path ''app'') 7 demo_hot)))) =
   (fst (accept_invalidation sorted_list_of_fset (demo_path ''app'') 8
       (fst (stamp_update sorted_list_of_fset (demo_path ''app'') 7 demo_hot))), None)"
proof -
  have "may_invalidate (fst (stamp_update sorted_list_of_fset (demo_path ''app'') 7 demo_hot)) (demo_path ''app'')"
    by code_simp
  from invalidation_once_per_update [OF sorted_paths.path_iter_axioms this, of 5] show ?thesis by simp
qed

text \<open>
  After an update of a module of the graph, exactly the dirty modules carry its timestamp and
  every other module keeps its own, and an importer's \<^verbatim>\<open>imports_timestamp\<close>, part of its compile
  cache key, is at least the stamp of each of its imports.
\<close>

theorem stamp_update_exact:
  fixes t :: u64
  assumes "path_iter iter" and "graph_wf g" and "contains_module g c"
  defines "h \<equiv> fst (stamp_update iter c t g)"
  shows "hmr_timestamp h p = (if p \<in> dirty.reach g c {c} then t else hmr_timestamp g p) \<and>
     (i |\<in>| node_imports (node_of h p) \<longrightarrow> hmr_timestamp h i \<le> imports_timestamp iter h p)"
proof -
  have "contains_module g x" if "x \<in> dirty.reach g c {c}" for x
    using that by induction
      (use assms(3) graph_wf_contains(2) [OF assms(2)] in \<open>auto simp: dirty_succ_def split: if_splits\<close>)
  then have stamps: "hmr_timestamp h p = (if p \<in> dirty.reach g c {c} then t else hmr_timestamp g p)"
    by (simp add: h_def hmr_timestamp_node_of node_of_stamp_update set_dirty_closure [OF assms(1)])
  have "hmr_timestamp h i \<le> imports_timestamp iter h p" if "i |\<in>| node_imports (node_of h p)"
  proof -
    have "contains_module h p" using that by (metis default_node_sel(2) fempty_iff node_of_absent)
    moreover have "i \<in> set (iter (node_imports (node_of h p)))"
      using that by (simp add: path_iter_set [OF assms(1)])
    ultimately show ?thesis
      by (cases "iter (node_imports (node_of h p))")
        (auto simp: imports_timestamp_def lookup_node_of fold_max_ge fold_max_ge_start)
  qed
  with stamps show ?thesis by blast
qed

theorem stamp_update_exact_witness:
  "hmr_timestamp (fst (stamp_update sorted_list_of_fset (demo_path ''util'') 7 demo_hot)) (demo_path ''util'') = 7"
proof -
  have "graph_wf demo_hot" by (simp add: demo_hot_def graph_wf_set_self_accepting graph_wf_demo)
  moreover have "contains_module demo_hot (demo_path ''util'')" by code_simp
  ultimately show ?thesis
    using stamp_update_exact [OF sorted_paths.path_iter_axioms, of demo_hot "demo_path ''util''" 7 "demo_path ''util''"]
    by (simp add: dirty.reach.root)
qed

end
