(* ===== verification/Memory_Cache.thy ===== *)
theory Memory_Cache
  imports Std_Str
begin

text \<open>
  The dev server's in-memory module cache, \<^verbatim>\<open>crates/oj_server/src/memory_cache.rs\<close>: compiled modules
  by url, each with the validator it was compiled under, its accounted size and the sequence
  number of its last use. \<open>cache_ok\<close> is the invariant (the running total is the sum of the
  entries, sequence numbers are distinct and none is newer than the counter); eviction drops the
  least recently used entries and never the one just put.

  Sizes and counters are 64-bit words, so \<^verbatim>\<open>+=\<close> and \<^verbatim>\<open>-=\<close> wrap. The eviction order, a hash map
  iteration followed by an unstable sort on the sequence number, is a stable sort of an
  iteration order \<open>iter\<close> of the locale \<open>map_iter\<close>: every sorted permutation is one. What a
  \<^verbatim>\<open>CachedModule\<close> keeps of StyleX is a type parameter, the cache never looks at it.
\<close>

section \<open>Modules\<close>

record hot_meta =
  self_accept :: bool
  hot_deps :: "string list"
  hot_accepted_exports :: "string list option"

record 'r cached_module =
  code :: string
  map_json :: "string option"
  cm_imports :: "string list"
  is_boundary :: bool
  kind :: string
  require_map :: "(string \<times> string) list"
  css_exports :: "(string \<times> string) list"
  fs_allow :: "string list"
  watch_files :: "string list"
  import_bindings :: "(string \<times> string list) list"
  hot :: "hot_meta option"
  stylex_rules :: "'r list"

text \<open>\<^verbatim>\<open>String::len\<close>, and \<^verbatim>\<open>size_of::<String>()\<close> on a 64-bit target.\<close>

definition str_len :: "string \<Rightarrow> usize" where
  "str_len s = of_nat (length s)"

definition size_of_string :: usize where
  "size_of_string = 24"

definition strs_weight :: "string list \<Rightarrow> usize" where
  "strs_weight v = sum_list (map (\<lambda>s. str_len s + size_of_string) v)"

definition pairs_weight :: "(string \<times> string) list \<Rightarrow> usize" where
  "pairs_weight v = sum_list (map (\<lambda>(a, b). str_len a + str_len b + 2 * size_of_string) v)"

definition module_weight :: "'r cached_module \<Rightarrow> usize" where
  "module_weight m =
     str_len (code m)
     + (case map_json m of None \<Rightarrow> 0 | Some s \<Rightarrow> str_len s)
     + str_len (kind m)
     + strs_weight (cm_imports m)
     + strs_weight (fs_allow m)
     + strs_weight (watch_files m)
     + pairs_weight (require_map m)
     + pairs_weight (css_exports m)
     + sum_list (map (\<lambda>(s, names). str_len s + size_of_string + strs_weight names) (import_bindings m))
     + (case hot m of
          None \<Rightarrow> 0
        | Some h \<Rightarrow> strs_weight (hot_deps h)
            + (case hot_accepted_exports h of None \<Rightarrow> 0 | Some v \<Rightarrow> strs_weight v))"

section \<open>The cache\<close>

record 'r memory_entry =
  entry_key :: string
  entry_module :: "'r cached_module"
  entry_bytes :: usize
  entry_seq :: u64

record 'r memory_cache =
  cache_map :: "(string, 'r memory_entry) fmap"
  cache_total :: usize
  cache_budget :: usize
  cache_seq :: u64

definition memory_entry_overhead :: usize where
  "memory_entry_overhead = 160"

definition new_cache :: "usize \<Rightarrow> 'r memory_cache" where
  "new_cache budget = \<lparr>cache_map = fmempty, cache_total = 0, cache_budget = budget, cache_seq = 0\<rparr>"

definition cache_get ::
  "string \<Rightarrow> string \<Rightarrow> 'r memory_cache \<Rightarrow> 'r memory_cache \<times> 'r cached_module option" where
  "cache_get url key c =
     (let c1 = c\<lparr>cache_seq := cache_seq c + 1\<rparr> in
      case fmlookup (cache_map c1) url of
        None \<Rightarrow> (c1, None)
      | Some e \<Rightarrow>
          if entry_key e \<noteq> key then (c1, None)
          else (c1\<lparr>cache_map := fmupd url (e\<lparr>entry_seq := cache_seq c1\<rparr>) (cache_map c1)\<rparr>,
                Some (entry_module e)))"

definition cache_peek :: "string \<Rightarrow> 'r memory_cache \<Rightarrow> 'r cached_module option" where
  "cache_peek url c = map_option entry_module (fmlookup (cache_map c) url)"

definition cache_remove :: "string \<Rightarrow> 'r memory_cache \<Rightarrow> 'r memory_cache" where
  "cache_remove url c =
     (case fmlookup (cache_map c) url of
        None \<Rightarrow> c
      | Some old \<Rightarrow> c\<lparr>cache_map := fmdrop url (cache_map c), cache_total := cache_total c - entry_bytes old\<rparr>)"

definition cache_clear :: "'r memory_cache \<Rightarrow> 'r memory_cache" where
  "cache_clear c = c\<lparr>cache_map := fmempty, cache_total := 0\<rparr>"

definition cache_stats ::
  "((string, 'r memory_entry) fmap \<Rightarrow> (string \<times> 'r memory_entry) list) \<Rightarrow> 'r memory_cache
     \<Rightarrow> nat \<times> usize \<times> usize \<times> usize" where
  "cache_stats iter c =
     (let es = map snd (iter (cache_map c)) in
      (fcard (fmdom (cache_map c)), cache_total c,
       sum_list (map (\<lambda>e. str_len (code (entry_module e))) es),
       sum_list (map (\<lambda>e. case map_json (entry_module e) of None \<Rightarrow> 0 | Some s \<Rightarrow> str_len s) es)))"

text \<open>The loop of \<^verbatim>\<open>evict\<close>.\<close>

fun evict_loop :: "usize \<Rightarrow> string list \<Rightarrow> 'r memory_cache \<Rightarrow> 'r memory_cache" where
  "evict_loop low [] c = c"
| "evict_loop low (url # urls) c =
     (if cache_total c \<le> low \<or> fcard (fmdom (cache_map c)) \<le> 1 then c
      else evict_loop low urls
        (case fmlookup (cache_map c) url of
           None \<Rightarrow> c
         | Some e \<Rightarrow> c\<lparr>cache_map := fmdrop url (cache_map c), cache_total := cache_total c - entry_bytes e\<rparr>))"

definition evict_order ::
  "((string, 'r memory_entry) fmap \<Rightarrow> (string \<times> 'r memory_entry) list) \<Rightarrow> 'r memory_cache \<Rightarrow> string list" where
  "evict_order iter c =
     map snd (sort_key fst (map (\<lambda>(url, e). (entry_seq e, url)) (iter (cache_map c))))"

definition evict ::
  "((string, 'r memory_entry) fmap \<Rightarrow> (string \<times> 'r memory_entry) list) \<Rightarrow> 'r memory_cache \<Rightarrow> 'r memory_cache" where
  "evict iter c =
     (if cache_total c \<le> cache_budget c then c
      else evict_loop (cache_budget c - cache_budget c div 10) (evict_order iter c) c)"

text \<open>The insertion of \<^verbatim>\<open>put\<close>, before the eviction.\<close>

definition insert_entry :: "string \<Rightarrow> string \<Rightarrow> 'r cached_module \<Rightarrow> 'r memory_cache \<Rightarrow> 'r memory_cache" where
  "insert_entry url key m c =
     (let bytes = module_weight m + str_len url + str_len key + memory_entry_overhead;
          c1 = c\<lparr>cache_seq := cache_seq c + 1\<rparr>;
          entry = \<lparr>entry_key = key, entry_module = m, entry_bytes = bytes, entry_seq = cache_seq c1\<rparr>;
          c2 = c1\<lparr>cache_map := fmupd url entry (cache_map c1)\<rparr>;
          c3 = (case fmlookup (cache_map c) url of
                  None \<Rightarrow> c2
                | Some old \<Rightarrow> c2\<lparr>cache_total := cache_total c2 - entry_bytes old\<rparr>)
      in c3\<lparr>cache_total := cache_total c3 + bytes\<rparr>)"

definition cache_put ::
  "((string, 'r memory_entry) fmap \<Rightarrow> (string \<times> 'r memory_entry) list)
     \<Rightarrow> string \<Rightarrow> string \<Rightarrow> 'r cached_module \<Rightarrow> 'r memory_cache \<Rightarrow> 'r memory_cache" where
  "cache_put iter url key m c = evict iter (insert_entry url key m c)"

section \<open>The budget\<close>

definition saturating_mul :: "usize \<Rightarrow> usize \<Rightarrow> usize" where
  "saturating_mul a b = (if unat a * unat b < 2 ^ 64 then a * b else - 1)"

text \<open>\<^verbatim>\<open>detect_memory_limit\<close> on the contents of the two cgroup files, \<open>None\<close> when unreadable.\<close>

definition detect_memory_limit :: "string option \<Rightarrow> string option \<Rightarrow> usize option" where
  "detect_memory_limit memory_max limit_in_bytes =
     (case Option.bind memory_max (\<lambda>s. if trim s \<noteq> ''max'' then parse_radix 10 (trim s) else None) of
        Some v \<Rightarrow> Some v
      | None \<Rightarrow>
          (case Option.bind limit_in_bytes (\<lambda>s. parse_radix 10 (trim s)) of
             Some v \<Rightarrow> if v < push_bit 62 1 then Some v else None
           | None \<Rightarrow> None))"

definition memory_cache_budget :: "usize option \<Rightarrow> usize option \<Rightarrow> usize" where
  "memory_cache_budget memory_cache_mb limit =
     (case memory_cache_mb of
        Some mb \<Rightarrow> if mb = 0 then - 1 else saturating_mul mb (1024 * 1024)
      | None \<Rightarrow>
          (let ceil = 256 * 1024 * 1024; floor = 32 * 1024 * 1024 in
           case limit of
             Some l \<Rightarrow> (if l div 8 < floor then floor else if ceil < l div 8 then ceil else l div 8)
           | None \<Rightarrow> 128 * 1024 * 1024))"

section \<open>The invariant\<close>

definition bytes_at :: "'r memory_cache \<Rightarrow> string \<Rightarrow> usize" where
  "bytes_at c url = (case fmlookup (cache_map c) url of Some e \<Rightarrow> entry_bytes e | None \<Rightarrow> 0)"

definition seq_at :: "'r memory_cache \<Rightarrow> string \<Rightarrow> u64" where
  "seq_at c url = (case fmlookup (cache_map c) url of Some e \<Rightarrow> entry_seq e | None \<Rightarrow> 0)"

abbreviation urls :: "'r memory_cache \<Rightarrow> string set" where
  "urls c \<equiv> fset (fmdom (cache_map c))"

definition cache_ok :: "'r memory_cache \<Rightarrow> bool" where
  "cache_ok c \<longleftrightarrow> cache_total c = (\<Sum>u \<in> urls c. bytes_at c u) \<and>
     (\<forall>u \<in> urls c. seq_at c u \<le> cache_seq c) \<and> inj_on (seq_at c) (urls c)"

lemma cache_ok_new: "cache_ok (new_cache b)"
  by (simp add: cache_ok_def new_cache_def)

lemma cache_ok_clear: "cache_ok (cache_clear c)"
  by (simp add: cache_ok_def cache_clear_def)

text \<open>What one operation does to the urls, sizes and sequence numbers.\<close>

lemma cache_remove_simps [simp]:
  "urls (cache_remove u c) = urls c - {u}"
  "bytes_at (cache_remove u c) v = (if v = u then 0 else bytes_at c v)"
  "seq_at (cache_remove u c) v = (if v = u then 0 else seq_at c v)"
  "cache_seq (cache_remove u c) = cache_seq c" "cache_budget (cache_remove u c) = cache_budget c"
  "cache_total (cache_remove u c) = cache_total c - bytes_at c u"
  "fmlookup (cache_map (cache_remove u c)) v = (if v = u then None else fmlookup (cache_map c) v)"
  by (auto simp: cache_remove_def bytes_at_def seq_at_def fmlookup_dom_iff split: option.splits)

lemma bytes_at_outside: "u \<notin> urls c \<Longrightarrow> bytes_at c u = 0"
  by (simp add: bytes_at_def fmlookup_dom_iff split: option.splits)

lemma sum_bytes_remove:
  "(\<Sum>v \<in> urls c - {u}. bytes_at c v) = (\<Sum>v \<in> urls c. bytes_at c v) - bytes_at c u"
  by (cases "u \<in> urls c") (simp_all add: sum_diff1 bytes_at_outside)

lemma cache_ok_remove: "cache_ok c \<Longrightarrow> cache_ok (cache_remove u c)"
proof -
  assume ok: "cache_ok c"
  have "(\<Sum>v \<in> urls c - {u}. bytes_at (cache_remove u c) v) = (\<Sum>v \<in> urls c - {u}. bytes_at c v)"
    by (rule sum.cong) auto
  moreover have "inj_on (seq_at (cache_remove u c)) (urls c - {u})"
    using ok by (auto simp: cache_ok_def inj_on_def)
  ultimately show ?thesis using ok by (simp add: cache_ok_def sum_bytes_remove)
qed

text \<open>An operation that gives one url the next sequence number, and maybe a new entry.\<close>

lemma cache_ok_touch:
  assumes "cache_ok c" and "cache_seq c + 1 \<noteq> 0"
    and "cache_seq d = cache_seq c + 1" and "urls d = insert u (urls c)"
    and "\<And>v. v \<noteq> u \<Longrightarrow> seq_at d v = seq_at c v" and "seq_at d u = cache_seq c + 1"
    and "\<And>v. v \<noteq> u \<Longrightarrow> bytes_at d v = bytes_at c v"
    and "cache_total d = cache_total c - bytes_at c u + bytes_at d u"
  shows "cache_ok d"
proof -
  have lt: "cache_seq c < cache_seq c + 1"
    using assms(2) by (rule word_succ_less)
  then have less: "seq_at c v < cache_seq c + 1" if "v \<in> urls c" for v
    using assms(1) that unfolding cache_ok_def by force
  have "inj_on (seq_at d) (urls d)"
    using assms(1) less unfolding inj_on_def assms(4) cache_ok_def
    by (metis assms(5,6) insert_iff order_less_irrefl)
  moreover have "(\<Sum>v \<in> urls d. bytes_at d v) = bytes_at d u + (\<Sum>v \<in> urls c - {u}. bytes_at d v)"
    unfolding assms(4) by (simp add: sum.insert_remove)
  moreover have "(\<Sum>v \<in> urls c - {u}. bytes_at d v) = (\<Sum>v \<in> urls c - {u}. bytes_at c v)"
    by (rule sum.cong) (auto simp: assms(7))
  moreover have "seq_at d v \<le> cache_seq d" if "v \<in> urls d" for v
    using less [of v] that assms(4-6) by (cases "v = u") (auto simp: assms(3))
  ultimately show ?thesis
    using assms(1,8) by (simp add: cache_ok_def sum_bytes_remove)
qed

lemma cache_seq_get [simp]: "cache_seq (fst (cache_get u k c)) = cache_seq c + 1"
  by (simp add: cache_get_def Let_def split: option.splits)

lemma cache_ok_get:
  assumes "cache_ok c" and "cache_seq c + 1 \<noteq> 0"
  shows "cache_ok (fst (cache_get u k c))"
proof (cases "\<exists>e. fmlookup (cache_map c) u = Some e \<and> entry_key e = k")
  case True
  then obtain e where e: "fmlookup (cache_map c) u = Some e" "entry_key e = k" by blast
  then have "u \<in> urls c" by (simp add: fmlookup_dom_iff)
  with e show ?thesis
    by (intro cache_ok_touch [OF assms, where u = u])
      (auto simp: cache_get_def Let_def seq_at_def bytes_at_def split: option.splits)
next
  case False
  then have "fst (cache_get u k c) = c\<lparr>cache_seq := cache_seq c + 1\<rparr>"
    by (auto simp: cache_get_def Let_def split: option.splits)
  moreover have "cache_seq c < cache_seq c + 1"
    using assms(2) by (rule word_succ_less)
  moreover have "seq_at (c\<lparr>cache_seq := x\<rparr>) = seq_at c" "bytes_at (c\<lparr>cache_seq := x\<rparr>) = bytes_at c" for x
    by (simp_all add: fun_eq_iff seq_at_def bytes_at_def)
  ultimately show ?thesis
    using assms(1) by (auto simp: cache_ok_def intro: order_trans)
qed

lemma insert_entry_simps:
  "urls (insert_entry u k m c) = insert u (urls c)"
  "cache_seq (insert_entry u k m c) = cache_seq c + 1"
  "cache_budget (insert_entry u k m c) = cache_budget c"
  "seq_at (insert_entry u k m c) v = (if v = u then cache_seq c + 1 else seq_at c v)"
  "bytes_at (insert_entry u k m c) v =
     (if v = u then module_weight m + str_len u + str_len k + memory_entry_overhead else bytes_at c v)"
  "cache_total (insert_entry u k m c) = cache_total c - bytes_at c u + bytes_at (insert_entry u k m c) u"
  by (auto simp: insert_entry_def Let_def seq_at_def bytes_at_def split: option.splits)

lemma fmlookup_insert_entry:
  "\<exists>e. fmlookup (cache_map (insert_entry u k m c)) u = Some e \<and> entry_key e = k \<and> entry_module e = m"
  by (simp add: insert_entry_def Let_def split: option.splits)

lemma cache_ok_insert_entry:
  "cache_ok c \<Longrightarrow> cache_seq c + 1 \<noteq> 0 \<Longrightarrow> cache_ok (insert_entry u k m c)"
  by (rule cache_ok_touch [where u = u]) (simp_all add: insert_entry_simps)

section \<open>Eviction\<close>

lemma evict_loop_remove:
  "evict_loop low (u # us) c =
     (if cache_total c \<le> low \<or> fcard (fmdom (cache_map c)) \<le> 1 then c else evict_loop low us (cache_remove u c))"
  by (simp add: cache_remove_def split: option.splits)

text \<open>The loop removes a prefix of the order, as long as it is over the mark with two entries left.\<close>

lemma evict_loop_prefix:
  "\<exists>n \<le> length us. evict_loop low us c = fold cache_remove (take n us) c \<and>
     (n < length us \<longrightarrow> cache_total (fold cache_remove (take n us) c) \<le> low \<or>
        card (urls (fold cache_remove (take n us) c)) \<le> 1) \<and>
     (\<forall>i < n. 1 < card (urls (fold cache_remove (take i us) c)) \<and>
        low < cache_total (fold cache_remove (take i us) c))"
proof (induction us arbitrary: c)
  case (Cons u us)
  show ?case
  proof (cases "cache_total c \<le> low \<or> fcard (fmdom (cache_map c)) \<le> 1")
    case True
    then show ?thesis by (intro exI [of _ 0]) (auto simp: evict_loop_remove fcard.rep_eq)
  next
    case False
    obtain n where n: "n \<le> length us"
      "evict_loop low us (cache_remove u c) = fold cache_remove (take n us) (cache_remove u c)"
      "n < length us \<longrightarrow> cache_total (fold cache_remove (take n us) (cache_remove u c)) \<le> low \<or>
        card (urls (fold cache_remove (take n us) (cache_remove u c))) \<le> 1"
      "\<forall>i < n. 1 < card (urls (fold cache_remove (take i us) (cache_remove u c))) \<and>
        low < cache_total (fold cache_remove (take i us) (cache_remove u c))"
      using Cons.IH [of "cache_remove u c"] by blast
    have "1 < card (urls (fold cache_remove (take i (u # us)) c)) \<and>
        low < cache_total (fold cache_remove (take i (u # us)) c)" if "i < Suc n" for i
      using that False n(4) by (cases i) (auto simp: fcard.rep_eq)
    with n False show ?thesis
      by (intro exI [of _ "Suc n"]) (simp add: evict_loop_remove del: evict_loop.simps)
  qed
qed simp

lemma urls_removed: "urls (fold cache_remove us c) = urls c - set us"
  by (induction us arbitrary: c) auto

lemma lookup_removed:
  "fmlookup (cache_map (fold cache_remove us c)) v = (if v \<in> set us then None else fmlookup (cache_map c) v)"
  by (induction us arbitrary: c) auto

lemma seq_removed: "v \<notin> set us \<Longrightarrow> seq_at (fold cache_remove us c) v = seq_at c v"
  by (simp add: seq_at_def lookup_removed)

lemma removed_fields [simp]:
  "cache_seq (fold cache_remove us c) = cache_seq c" "cache_budget (fold cache_remove us c) = cache_budget c"
  by (induction us arbitrary: c) auto

lemma cache_ok_removed: "cache_ok c \<Longrightarrow> cache_ok (fold cache_remove us c)"
  by (induction us arbitrary: c) (auto intro: cache_ok_remove)

lemma evict_removes: "\<exists>n. evict iter c = fold cache_remove (take n (evict_order iter c)) c"
  unfolding evict_def using evict_loop_prefix by (metis fold_simps(1) id_apply take0)

lemma cache_ok_evict: "cache_ok c \<Longrightarrow> cache_ok (evict iter c)"
  using evict_removes [of iter c] cache_ok_removed by metis

text \<open>The eviction order: every url once, from the least recently used on.\<close>

lemma evict_order_facts:
  assumes "map_iter iter"
  shows set_evict_order: "set (evict_order iter c) = urls c"
    and distinct_evict_order: "distinct (evict_order iter c)"
    and sorted_evict_order: "sorted (map (seq_at c) (evict_order iter c))"
proof -
  let ?es = "iter (cache_map c)"
  let ?ps = "map (\<lambda>(url, e). (entry_seq e, url)) ?es"
  have snd: "snd ` set ?ps = fst ` set ?es" by force
  then show "set (evict_order iter c) = urls c"
    by (simp add: evict_order_def map_iter.keys_iter [OF assms])
  have "map snd ?ps = map fst ?es" by auto
  then have "distinct (map snd ?ps)" using map_iter.distinct_iter [OF assms] by metis
  then show "distinct (evict_order iter c)"
    unfolding evict_order_def by (simp add: distinct_map [of snd] del: map_map)
  have "seq_at c (snd p) = fst p" if "p \<in> set ?ps" for p
    using that map_iter.in_set_iter [OF assms] by (auto simp: seq_at_def)
  then have "map (seq_at c) (evict_order iter c) = map fst (sort_key fst ?ps)"
    by (auto simp: evict_order_def)
  then show "sorted (map (seq_at c) (evict_order iter c))"
    by (simp only: sorted_sort_key)
qed

text \<open>What an eviction of a well-formed cache leaves.\<close>

lemma evict_spec:
  assumes iter: "map_iter iter" and ok: "cache_ok c"
  shows "cache_total (evict iter c) \<le> cache_budget c \<or> card (urls (evict iter c)) \<le> 1"
    and "u \<in> urls c - urls (evict iter c) \<Longrightarrow> v \<in> urls (evict iter c) \<Longrightarrow> seq_at c u < seq_at c v"
    and "urls c \<noteq> {} \<Longrightarrow> urls (evict iter c) \<noteq> {}"
proof -
  let ?low = "cache_budget c - cache_budget c div 10" and ?us = "evict_order iter c"
  have low: "?low \<le> cache_budget c"
    by (metis word_le_nat_alt unat_div div_le_dividend word_sub_le)
  obtain n where n: "n \<le> length ?us" "evict iter c = fold cache_remove (take n ?us) c"
    "cache_total c \<le> cache_budget c \<and> n = 0 \<or>
       (n < length ?us \<longrightarrow> cache_total (evict iter c) \<le> ?low \<or> card (urls (evict iter c)) \<le> 1)"
    "\<forall>i < n. 1 < card (urls (fold cache_remove (take i ?us) c))"
  proof (cases "cache_total c \<le> cache_budget c")
    case True
    then show thesis by (intro that [of 0]) (auto simp: evict_def)
  next
    case False
    then show thesis
      using evict_loop_prefix [of ?us ?low c] that by (auto simp: evict_def)
  qed
  note us = evict_order_facts [OF iter, of c]
  have kept: "urls (evict iter c) = set (drop n ?us)"
    using us(1,2) unfolding n(2) urls_removed
    by (metis append_take_drop_id distinct_append Diff_cancel Un_Diff set_append Diff_triv Un_empty_left inf_commute)
  show "cache_total (evict iter c) \<le> cache_budget c \<or> card (urls (evict iter c)) \<le> 1"
  proof (cases "n < length ?us")
    case True
    with n(2,3) low show ?thesis by auto
  next
    case False
    with kept show ?thesis by simp
  qed
  show "urls c \<noteq> {} \<Longrightarrow> urls (evict iter c) \<noteq> {}"
  proof
    assume ne: "urls c \<noteq> {}" and "urls (evict iter c) = {}"
    with kept n(1) have all: "n = length ?us" by simp
    from ne us(1) have "?us \<noteq> []" by auto
    then have "n - 1 < n" using all by simp
    with n(4) have "1 < card (urls (fold cache_remove (take (n - 1) ?us) c))" by blast
    moreover have "urls (fold cache_remove (take (n - 1) ?us) c) \<subseteq> {last ?us}"
      using us(1) \<open>?us \<noteq> []\<close> unfolding urls_removed all
      by (metis Diff_subset_conv append_butlast_last_id butlast_conv_take set_append list.set(1,2) order_refl)
    then have "card (urls (fold cache_remove (take (n - 1) ?us) c)) \<le> card {last ?us}"
      by (rule card_mono [rotated]) simp
    ultimately show False by simp
  qed
  show "seq_at c u < seq_at c v" if "u \<in> urls c - urls (evict iter c)" "v \<in> urls (evict iter c)"
  proof -
    have u: "u \<in> set (take n ?us)" and v: "v \<in> set (drop n ?us)"
      using that kept us(1) by (metis Diff_iff Un_iff append_take_drop_id set_append)+
    have "sorted (map (seq_at c) (take n ?us) @ map (seq_at c) (drop n ?us))"
      using us(3) by (metis append_take_drop_id map_append)
    then have "seq_at c u \<le> seq_at c v" using u v by (auto simp: sorted_append)
    moreover have "u \<noteq> v" using that by auto
    moreover have "u \<in> urls c" "v \<in> urls c"
      using u v us(1) by (metis in_set_takeD, metis in_set_dropD)
    ultimately show ?thesis
      using ok by (metis cache_ok_def inj_onD order_le_less)
  qed
qed

section \<open>Histories\<close>

text \<open>The operations of \<^verbatim>\<open>MemoryCache\<close> that change it.\<close>

datatype 'r cache_op = Get string string | Put string string "'r cached_module" | Remove string | Clear

fun cache_run_op ::
  "((string, 'r memory_entry) fmap \<Rightarrow> (string \<times> 'r memory_entry) list)
     \<Rightarrow> 'r cache_op \<Rightarrow> 'r memory_cache \<Rightarrow> 'r memory_cache" where
  "cache_run_op iter (Get u k) c = fst (cache_get u k c)"
| "cache_run_op iter (Put u k m) c = cache_put iter u k m c"
| "cache_run_op iter (Remove u) c = cache_remove u c"
| "cache_run_op iter Clear c = cache_clear c"

lemma cache_seq_put [simp]: "cache_seq (cache_put iter u k m c) = cache_seq c + 1"
  using evict_removes [of iter "insert_entry u k m c"] by (auto simp: cache_put_def insert_entry_simps)

lemma cache_budget_put [simp]: "cache_budget (cache_put iter u k m c) = cache_budget c"
  using evict_removes [of iter "insert_entry u k m c"] by (auto simp: cache_put_def insert_entry_simps)

lemma cache_ok_put: "cache_ok c \<Longrightarrow> cache_seq c + 1 \<noteq> 0 \<Longrightarrow> cache_ok (cache_put iter u k m c)"
  by (simp add: cache_put_def cache_ok_evict cache_ok_insert_entry)

lemma seq_run_op:
  "cache_seq (cache_run_op iter op c) = cache_seq c + 1 \<or> cache_seq (cache_run_op iter op c) = cache_seq c"
  by (cases op) (simp_all add: cache_clear_def)

lemma cache_ok_run_op:
  "cache_ok c \<Longrightarrow> cache_seq c + 1 \<noteq> 0 \<Longrightarrow> cache_ok (cache_run_op iter op c)"
  by (cases op) (simp_all add: cache_ok_get cache_ok_put cache_ok_remove cache_ok_clear)

lemma history_ok:
  assumes "cache_ok c" and "unat (cache_seq c) + length ops < 2 ^ 64"
  shows "cache_ok (fold (cache_run_op iter) ops c)"
  using assms
proof (induction ops arbitrary: c)
  case (Cons op ops)
  have bound: "unat (cache_seq c) + 1 < 2 ^ 64" using Cons.prems by simp
  have next_seq: "unat (cache_seq c + 1) = unat (cache_seq c) + 1"
    using bound by (simp add: unat_word_ariths)
  then have "cache_seq c + 1 \<noteq> 0" by (metis add_is_0 one_neq_zero unat_0)
  with Cons.prems have "cache_ok (cache_run_op iter op c)" by (intro cache_ok_run_op) auto
  moreover have "unat (cache_seq (cache_run_op iter op c)) \<le> unat (cache_seq c) + 1"
    using seq_run_op [of iter op c] next_seq by auto
  ultimately show ?case using Cons.IH Cons.prems by simp
qed simp

text \<open>The newest entry survives the eviction.\<close>

lemma put_then_get_kept:
  assumes "map_iter iter" and "cache_ok c" and "cache_seq c + 1 \<noteq> 0"
  shows "u \<in> urls (cache_put iter u k m c)"
proof -
  let ?d = "insert_entry u k m c"
  have ok: "cache_ok ?d" using assms by (intro cache_ok_insert_entry)
  have "u \<in> urls (evict iter ?d)"
  proof (rule ccontr)
    assume out: "u \<notin> urls (evict iter ?d)"
    obtain v where v: "v \<in> urls (evict iter ?d)"
      using evict_spec(3) [OF assms(1) ok] by (auto simp: insert_entry_simps)
    then have "v \<in> urls ?d" using evict_removes [of iter ?d] by (auto simp: urls_removed)
    then have "seq_at ?d v \<le> seq_at ?d u"
      using ok by (auto simp: cache_ok_def insert_entry_simps)
    with evict_spec(2) [OF assms(1) ok _ v, of u] out show False by (auto simp: insert_entry_simps)
  qed
  then show ?thesis by (simp add: cache_put_def)
qed


section \<open>Properties\<close>

definition demo_module :: "string \<Rightarrow> unit cached_module" where
  "demo_module s = \<lparr>code = s, map_json = None, cm_imports = [], is_boundary = False, kind = ''js'',
     require_map = [], css_exports = [], fs_allow = [], watch_files = [], import_bindings = [],
     hot = None, stylex_rules = []\<rparr>"

text \<open>
  C7: a module just put is served. Whatever the budget, the eviction that ends the put never drops
  the entry it made, and a get with its validator returns the module, while a get with another
  validator misses.
\<close>

theorem put_then_get:
  assumes "map_iter iter" and "cache_ok c" and "cache_seq c + 1 \<noteq> 0"
  shows "snd (cache_get u k (cache_put iter u k m c)) = Some m \<and>
     (k' \<noteq> k \<longrightarrow> snd (cache_get u k' (cache_put iter u k m c)) = None)"
proof -
  let ?d = "insert_entry u k m c"
  have ok: "cache_ok ?d" using assms by (intro cache_ok_insert_entry)
  have "u \<in> urls (evict iter ?d)"
    using put_then_get_kept [OF assms] by (simp add: cache_put_def)
  moreover obtain n where n: "evict iter ?d = fold cache_remove (take n (evict_order iter ?d)) ?d"
    using evict_removes by blast
  ultimately have "fmlookup (cache_map (evict iter ?d)) u = fmlookup (cache_map ?d) u"
    by (auto simp: n urls_removed lookup_removed)
  with fmlookup_insert_entry [of u k m c] show ?thesis
    by (auto simp: cache_get_def cache_put_def Let_def)
qed

theorem put_then_get_witness:
  "snd (cache_get ''/a.js'' ''v1'' (cache_put sorted_entries ''/a.js'' ''v1'' (demo_module ''x'') (new_cache 10)))
     = Some (demo_module ''x'')"
  using put_then_get [OF sorted_map.map_iter_axioms cache_ok_new [of 10],
      of "''/a.js''" "''v1''" "demo_module ''x''"]
  by (simp add: new_cache_def)

text \<open>
  C8: after a put the accounted total is within the budget or one entry is left, and the entries an
  eviction drops are the least recently used: each was last used before every entry that stays.
\<close>

theorem put_keeps_budget_lru:
  assumes "map_iter iter" and "cache_ok c" and "cache_seq c + 1 \<noteq> 0"
  shows "(cache_total (cache_put iter u k m c) \<le> cache_budget c \<or> card (urls (cache_put iter u k m c)) = 1) \<and>
     (v \<in> insert u (urls c) - urls (cache_put iter u k m c) \<longrightarrow> w \<in> urls (cache_put iter u k m c) \<longrightarrow>
        seq_at c v < seq_at (cache_put iter u k m c) w)"
proof -
  let ?d = "insert_entry u k m c"
  have ok: "cache_ok ?d" using assms by (intro cache_ok_insert_entry)
  note spec = evict_spec [OF assms(1) ok]
  have "urls (evict iter ?d) \<noteq> {}" using spec(3) by (simp add: insert_entry_simps)
  then have one: "card (urls (evict iter ?d)) \<le> 1 \<longleftrightarrow> card (urls (evict iter ?d)) = 1"
    by (metis card_0_eq finite_fset le_less less_one)
  have u: "u \<in> urls (evict iter ?d)"
    using put_then_get_kept [OF assms] by (simp add: cache_put_def)
  have "seq_at c v < seq_at (evict iter ?d) w"
    if "v \<in> insert u (urls c) - urls (evict iter ?d)" "w \<in> urls (evict iter ?d)"
  proof -
    have "seq_at (evict iter ?d) w = seq_at ?d w"
      using that(2) evict_removes [of iter ?d] by (auto simp: urls_removed seq_removed)
    with spec(2) [of v w] that u show ?thesis by (auto simp: insert_entry_simps split: if_splits)
  qed
  with spec(1) one show ?thesis by (auto simp: cache_put_def insert_entry_simps)
qed

theorem put_keeps_budget_lru_witness:
  "card (urls (cache_put sorted_entries ''/a.js'' ''v1'' (demo_module ''x'') (new_cache 10))) = 1"
proof -
  have "\<not> cache_total (cache_put sorted_entries ''/a.js'' ''v1'' (demo_module ''x'') (new_cache 10))
      \<le> cache_budget (new_cache 10 :: unit memory_cache)"
    by code_simp
  with put_keeps_budget_lru [OF sorted_map.map_iter_axioms cache_ok_new [of 10],
      of "''/a.js''" "''v1''" "demo_module ''x''"]
  show ?thesis by (simp add: new_cache_def)
qed

text \<open>
  C9: over every history of fewer than \<open>2 ^ 64\<close> operations the cache's running total is the sum of
  the sizes of the entries it holds, and no two entries share a sequence number.
\<close>

theorem history_accounts:
  fixes iter :: "(string, 'r memory_entry) fmap \<Rightarrow> (string \<times> 'r memory_entry) list" and b :: usize
  assumes "length ops < 2 ^ 64"
  defines "c \<equiv> fold (cache_run_op iter) ops (new_cache b)"
  shows "cache_total c = (\<Sum>u \<in> urls c. bytes_at c u) \<and> inj_on (seq_at c) (urls c)"
proof -
  have "cache_ok c"
    unfolding c_def using assms(1) by (intro history_ok cache_ok_new) (simp add: new_cache_def)
  then show ?thesis by (simp add: cache_ok_def)
qed

theorem history_accounts_witness:
  "cache_total (fold (cache_run_op sorted_entries) [Put ''/a.js'' ''v1'' (demo_module ''x''), Get ''/a.js'' ''v1'']
     (new_cache 1000)) = 170 \<and>
   (\<Sum>u \<in> urls (fold (cache_run_op sorted_entries) [Put ''/a.js'' ''v1'' (demo_module ''x''), Get ''/a.js'' ''v1'']
     (new_cache 1000)).
     bytes_at (fold (cache_run_op sorted_entries) [Put ''/a.js'' ''v1'' (demo_module ''x''), Get ''/a.js'' ''v1'']
     (new_cache 1000)) u) = 170"
proof -
  have "cache_total (fold (cache_run_op sorted_entries) [Put ''/a.js'' ''v1'' (demo_module ''x''), Get ''/a.js'' ''v1'']
     (new_cache 1000)) = 170"
    by code_simp
  then show ?thesis
    using history_accounts [of "[Put ''/a.js'' ''v1'' (demo_module ''x''), Get ''/a.js'' ''v1'']" sorted_entries 1000]
    by simp
qed

text \<open>
  The budget. Without the knob it lies between 32 and 256 MiB whatever limit the container
  reports; the knob counts MiB, saturates at the largest \<^verbatim>\<open>usize\<close>, and 0 turns the limit off.
\<close>

theorem memory_cache_budget_bounds:
  "32 * 1024 * 1024 \<le> memory_cache_budget None limit \<and>
   memory_cache_budget None limit \<le> 256 * 1024 * 1024 \<and>
   unat (memory_cache_budget (Some mb) limit) =
     (if mb = 0 then 2 ^ 64 - 1 else min (unat mb * 2 ^ 20) (2 ^ 64 - 1))"
proof -
  have max: "unat (- 1 :: usize) = 2 ^ 64 - 1" by (simp add: unsigned_minus_1_eq_mask mask_eq_exp_minus_1)
  have "unat (saturating_mul mb (1024 * 1024)) = min (unat mb * 2 ^ 20) (2 ^ 64 - 1)"
    unfolding saturating_mul_def
    by (auto simp: max unat_word_ariths min_def)
  then show ?thesis
    by (auto simp: memory_cache_budget_def Let_def max split: option.splits)
qed

end
