(* ===== verification/Start_Reloads.thy ===== *)
theory Start_Reloads
  imports Std_Str
begin

text \<open>
  The page reloads of Start dev, \<^verbatim>\<open>crates/oj/src/start_reloads.rs\<close>: two counters instead of
  messages. \<open>latest\<close> counts the changes pages must reload for, \<open>published\<close> is where the pages are
  told to be, and a page reloads when \<open>published\<close> passes the stamp it was rendered with.

  \<^item> \<open>epochs\<close> is \<^verbatim>\<open>Epochs\<close> without its mutex and channel: the value in each. The clock the boot id is
    read from and the gate's \<^verbatim>\<open>held()\<close> closure are arguments; \<open>gated\<close> tells whether there is a gate.
  \<^item> \<open>bump\<close> runs under the lock of \<^verbatim>\<open>latest\<close>, in the two halves between which the gate may change its
    hold: \<open>bump_count\<close>, then \<open>bump_decide\<close>. The step relation \<open>reload_step\<close> interleaves them with
    the gate, and \<open>no_lost_reload\<close> is the invariant the comment in \<^verbatim>\<open>bump\<close> argues for.
  \<^item> \<open>fell_behind\<close> runs over the published values its \<^verbatim>\<open>watch\<close> receiver is woken for.
\<close>

section \<open>Definitions\<close>

record epochs =
  boot :: u64
  latest :: u64
  published :: u64
  gated :: bool

definition new_epochs :: "u64 \<Rightarrow> bool \<Rightarrow> epochs" where
  "new_epochs now_nanos gate = \<lparr>boot = now_nanos, latest = 0, published = 0, gated = gate\<rparr>"

definition publish_locked :: "u64 \<Rightarrow> epochs \<Rightarrow> epochs" where
  "publish_locked n e = e\<lparr>published := max n (published e)\<rparr>"

text \<open>The halves of \<^verbatim>\<open>bump\<close>: the count moves, then the hold is read.\<close>

definition bump_count :: "epochs \<Rightarrow> epochs" where
  "bump_count e = e\<lparr>latest := latest e + 1\<rparr>"

definition bump_decide :: "bool \<Rightarrow> epochs \<Rightarrow> epochs \<times> bool" where
  "bump_decide held e =
     (if gated e \<and> held then (e, False) else (publish_locked (latest e) e, True))"

definition bump :: "bool \<Rightarrow> epochs \<Rightarrow> epochs \<times> bool" where
  "bump held e = bump_decide held (bump_count e)"

definition flushed :: "epochs \<Rightarrow> epochs" where
  "flushed e = publish_locked (latest e) e"

definition stamp :: "epochs \<Rightarrow> string" where
  "stamp e = show_radix 16 (unat (boot e)) @ ''-'' @ show_radix 10 (unat (latest e))"

definition is_ascii_hexdigit :: "char \<Rightarrow> bool" where
  "is_ascii_hexdigit c \<longleftrightarrow> digit_val 16 c \<noteq> None"

definition is_ascii_digit :: "char \<Rightarrow> bool" where
  "is_ascii_digit c \<longleftrightarrow> digit_val 10 c \<noteq> None"

text \<open>\<^verbatim>\<open>find_map\<close> over the pairs of the query.\<close>

fun first_g :: "string list \<Rightarrow> string option" where
  "first_g [] = None"
| "first_g (p # ps) = (case strip_prefix ''g='' p of Some r \<Rightarrow> Some r | None \<Rightarrow> first_g ps)"

definition stamp_in :: "string option \<Rightarrow> string option" where
  "stamp_in query =
     Option.bind query (\<lambda>q. Option.bind (first_g (split_on CHR ''&'' q)) (\<lambda>raw.
       Option.bind (split_once CHR ''-'' raw) (\<lambda>(b, n).
         if (b \<noteq> [] \<and> list_all is_ascii_hexdigit b) \<and> (n \<noteq> [] \<and> list_all is_ascii_digit n)
         then Some raw else None)))"

definition count_of :: "epochs \<Rightarrow> string \<Rightarrow> u64 option" where
  "count_of e s =
     Option.bind (split_once CHR ''-'' s) (\<lambda>(b, n).
       Option.bind (parse_radix 16 b) (\<lambda>v.
         if v = boot e then parse_radix 10 n else None))"

text \<open>The count of a page: \<^verbatim>\<open>PageEpoch::has\<close>.\<close>

definition page :: "epochs \<Rightarrow> string option \<Rightarrow> u64" where
  "page e query =
     (case Option.bind (stamp_in query) (count_of e) of Some n \<Rightarrow> n | None \<Rightarrow> published e)"

definition behind :: "epochs \<Rightarrow> u64 \<Rightarrow> bool" where
  "behind e has \<longleftrightarrow> has < published e"

text \<open>\<^verbatim>\<open>None\<close> is the end of the server: the values stop coming.\<close>

fun fell_behind :: "u64 \<Rightarrow> u64 list \<Rightarrow> unit option" where
  "fell_behind has [] = None"
| "fell_behind has (p # ps) = (if has < p then Some () else fell_behind has ps)"

section \<open>Stamps\<close>

lemma show_hex_digits: "list_all is_ascii_hexdigit (show_radix 16 n)"
  using show_radix_no_char [of 16 _ n] by (auto simp: list_all_iff is_ascii_hexdigit_def)

lemma show_digits: "list_all is_ascii_digit (show_radix 10 n)"
  using show_radix_no_char [of 10 _ n] by (auto simp: list_all_iff is_ascii_digit_def)

lemma dash_free: "radix \<in> {10, 16} \<Longrightarrow> CHR ''-'' \<notin> set (show_radix radix n)"
  by (rule show_radix_no_char) (auto simp: digit_val_def)

lemma amp_free: "radix \<in> {10, 16} \<Longrightarrow> CHR ''&'' \<notin> set (show_radix radix n)"
  by (rule show_radix_no_char) (auto simp: digit_val_def)

lemma split_stamp:
  "split_once CHR ''-'' (stamp e) = Some (show_radix 16 (unat (boot e)), show_radix 10 (unat (latest e)))"
  by (simp add: stamp_def split_once_append dash_free)

lemma count_of_stamp: "count_of e (stamp e) = Some (latest e)"
  by (simp add: count_of_def split_stamp parse_show_radix)

lemma first_g_skips:
  "list_all (\<lambda>p. \<not> starts_with ''g='' p) ps \<Longrightarrow> first_g (ps @ qs) = first_g qs"
  by (induction ps) (auto simp: starts_with_def split: option.splits)

lemma stamp_in_query:
  assumes "list_all (\<lambda>p. CHR ''&'' \<notin> set p) (before @ after)"
    and "list_all (\<lambda>p. \<not> starts_with ''g='' p) before"
  shows "stamp_in (Some (join_with ''&'' (before @ (''g='' @ stamp e) # after))) = Some (stamp e)"
proof -
  have "CHR ''&'' \<notin> set (''g='' @ stamp e)" by (simp add: stamp_def amp_free)
  then have "split_on CHR ''&'' (join_with ''&'' (before @ (''g='' @ stamp e) # after)) = before @ (''g='' @ stamp e) # after"
    using assms(1) by (intro split_join_with) auto
  moreover have "first_g (before @ (''g='' @ stamp e) # after) = Some (stamp e)"
    by (simp only: first_g_skips [OF assms(2)] first_g.simps strip_prefix_append option.case)
  ultimately show ?thesis
    by (simp add: stamp_in_def split_stamp show_hex_digits show_digits)
qed

section \<open>Interleavings with the gate\<close>

text \<open>
  \<open>holding\<close> is the gate's hold, \<open>flushing\<close> a release whose \<^verbatim>\<open>flushed()\<close> has not run yet, and
  \<open>bumping\<close> a bump that counted and still has the lock.
\<close>

record reload_state =
  ep :: epochs
  holding :: bool
  flushing :: bool
  bumping :: bool

text \<open>The count stays below \<open>2 ^ 64\<close> in every run a server lives to see.\<close>

inductive reload_step :: "reload_state \<Rightarrow> reload_state \<Rightarrow> bool" where
  hold: "reload_step s (s\<lparr>holding := True\<rparr>)"
| release: "reload_step s (s\<lparr>holding := False, flushing := True\<rparr>)"
| flush: "\<not> bumping s \<Longrightarrow> reload_step s (s\<lparr>ep := flushed (ep s), flushing := False\<rparr>)"
| count: "\<not> bumping s \<Longrightarrow> latest (ep s) + 1 \<noteq> 0 \<Longrightarrow> reload_step s (s\<lparr>ep := bump_count (ep s), bumping := True\<rparr>)"
| decide: "bumping s \<Longrightarrow> reload_step s (s\<lparr>ep := fst (bump_decide (holding s) (ep s)), bumping := False\<rparr>)"

inductive_set reload_runs :: "u64 \<Rightarrow> bool \<Rightarrow> reload_state set" for b :: u64 and gate :: bool where
  start: "\<lparr>ep = new_epochs b gate, holding = False, flushing = False, bumping = False\<rparr> \<in> reload_runs b gate"
| step: "s \<in> reload_runs b gate \<Longrightarrow> reload_step s t \<Longrightarrow> t \<in> reload_runs b gate"

definition reload_inv :: "u64 \<Rightarrow> bool \<Rightarrow> reload_state \<Rightarrow> bool" where
  "reload_inv b gate s \<longleftrightarrow> boot (ep s) = b \<and> gated (ep s) = gate \<and> published (ep s) \<le> latest (ep s) \<and>
     (published (ep s) = latest (ep s) \<or> holding s \<or> flushing s \<or> bumping s)"

lemma published_publish [simp]:
  "published e \<le> n \<Longrightarrow> published (publish_locked n e) = n" "latest (publish_locked n e) = latest e"
  "boot (publish_locked n e) = boot e" "gated (publish_locked n e) = gated e"
  by (simp_all add: publish_locked_def)

lemma reload_inv_step:
  assumes "reload_inv b gate s" and "reload_step s t"
  shows "reload_inv b gate t"
  using assms(2)
proof (cases rule: reload_step.cases)
  case count
  then have "published (ep s) \<le> latest (ep s) + 1"
    using assms(1) word_succ_less [of "latest (ep s)"] by (auto simp: reload_inv_def)
  with count assms(1) show ?thesis by (simp add: reload_inv_def bump_count_def)
next
  case decide
  with assms(1) show ?thesis by (auto simp: reload_inv_def bump_decide_def)
qed (use assms(1) in \<open>auto simp: reload_inv_def flushed_def\<close>)

lemma reload_runs_inv: "s \<in> reload_runs b gate \<Longrightarrow> reload_inv b gate s"
  by (induction rule: reload_runs.induct)
    (simp add: reload_inv_def new_epochs_def, rule reload_inv_step)


section \<open>Properties\<close>

text \<open>
  C10: no reload is lost. However changes, the gate's holds and releases and their flushes interleave,
  whenever the gate neither holds nor is flushing and no change is being counted, the pages have been
  told of every change: a page is behind exactly when a change came after the one it was rendered at.
\<close>

theorem no_lost_reload:
  assumes "s \<in> reload_runs b gate" and "\<not> holding s" and "\<not> flushing s" and "\<not> bumping s"
  shows "behind (ep s) has \<longleftrightarrow> has < latest (ep s)"
  using reload_runs_inv [OF assms(1)] assms(2-4) by (simp add: reload_inv_def behind_def)

lemma demo_run:
  "\<lparr>ep = fst (bump False (new_epochs 1 True)), holding = False, flushing = False, bumping = False\<rparr>
     \<in> reload_runs 1 True"
proof -
  let ?s = "\<lparr>ep = new_epochs 1 True, holding = False, flushing = False, bumping = False\<rparr>"
  have "?s\<lparr>ep := bump_count (ep ?s), bumping := True\<rparr> \<in> reload_runs 1 True"
    by (rule reload_runs.step [OF reload_runs.start reload_step.count]) (simp_all add: new_epochs_def)
  from reload_runs.step [OF this reload_step.decide] show ?thesis by (simp add: bump_def)
qed

theorem no_lost_reload_witness: "behind (fst (bump False (new_epochs 1 True))) 0"
  using no_lost_reload [OF demo_run, of 0]
  by (simp add: bump_def bump_decide_def bump_count_def new_epochs_def)

text \<open>
  A page never reloads for nothing: in every interleaving a page that is told to reload was
  rendered before the latest change, so a page with the newest stamp stays.
\<close>

theorem no_needless_reload:
  assumes "s \<in> reload_runs b gate"
  shows "\<not> behind (ep s) (page (ep s) (Some (''g='' @ stamp (ep s))))"
proof -
  have "page (ep s) (Some (''g='' @ stamp (ep s))) = latest (ep s)"
    using stamp_in_query [of "[]" "[]" "ep s"] by (simp add: page_def count_of_stamp)
  then show ?thesis
    using reload_runs_inv [OF assms] by (auto simp: reload_inv_def behind_def)
qed

theorem no_needless_reload_witness:
  "\<not> behind (fst (bump False (new_epochs 1 True))) (page (fst (bump False (new_epochs 1 True))) (Some ''g=1-1''))"
proof -
  have "stamp (fst (bump False (new_epochs 1 True))) = ''1-1''" by code_simp
  with no_needless_reload [OF demo_run] show ?thesis by simp
qed

text \<open>
  A document's stamp survives the trip through its url: wherever it stands in the query, as long
  as no earlier pair starts with \<^verbatim>\<open>g=\<close>, the page counts as rendered at the stamped change; a stamp of
  another server run, or none, counts as the published change.
\<close>

theorem stamp_roundtrip:
  assumes "list_all (\<lambda>p. CHR ''&'' \<notin> set p) (before @ after)"
    and "list_all (\<lambda>p. \<not> starts_with ''g='' p) before"
  shows "page e' (Some (join_with ''&'' (before @ (''g='' @ stamp e) # after))) =
     (if boot e = boot e' then latest e else published e')"
  using stamp_in_query [OF assms, of e]
  by (auto simp: page_def count_of_def split_stamp parse_show_radix)

theorem stamp_roundtrip_witness:
  "page (new_epochs 7 False) (Some ''a=1&g=7-0&b'') = 0"
proof -
  have "stamp (new_epochs 7 False) = ''7-0''" by code_simp
  with stamp_roundtrip [of "[''a=1'']" "[''b'']" "new_epochs 7 False" "new_epochs 7 False"]
  show ?thesis by (simp add: starts_with_def new_epochs_def)
qed

end
