(* ===== verification/Start_Hot.thy ===== *)
theory Start_Hot
  imports Std_Str
begin

text \<open>
  The hot updates of Start dev, \<^verbatim>\<open>crates/oj/src/start_hot.rs\<close>: the patches the pages fetch (the last
  64), the frames announcing them, and whether the written client output is stale.

  Building a JSON text is \<^verbatim>\<open>serde_json\<close>, which the model takes as the parameter \<open>json_api\<close>; the broadcast
  channel is the log of the frames sent on it. \<open>hot_run\<close> is the state machine of patches
  accepted and outputs served, \<open>hot_inv\<close> its invariant.
\<close>

section \<open>Definitions\<close>

definition kept_patches :: nat where "kept_patches = 64"

definition patch_prefix_path :: string where "patch_prefix_path = ''/@oj-start/hmr/''"

record patch =
  patch_client :: string
  patch_filename :: string
  patch_seq :: u32
  changed_ids :: "string list"
  patch_code :: string

record frame =
  frame_client :: "string option"
  frame_text :: string

text \<open>
  What the code takes from \<^verbatim>\<open>serde_json\<close>: a string as a JSON literal (empty if that fails), the \<^verbatim>\<open>oj:css\<close>
  and \<^verbatim>\<open>oj:hmr\<close> frames, and reading a message.
\<close>

record 'v json_api =
  quote :: "string \<Rightarrow> string"
  css_frame :: "bool \<Rightarrow> string list \<Rightarrow> string"
  hmr_frame :: "string \<Rightarrow> u32 \<Rightarrow> string list \<Rightarrow> string"
  from_str :: "string \<Rightarrow> 'v option"
  get_field :: "'v \<Rightarrow> string \<Rightarrow> 'v option"
  as_str :: "'v \<Rightarrow> string option"
  json_text :: "'v \<Rightarrow> string"
  json_null :: 'v

record hot_updates =
  sent :: "frame list"
  patches :: "(string \<times> string) list"
  generation :: u64
  stale :: bool
  patch_prefix :: string

definition new_hot :: "string \<Rightarrow> hot_updates" where
  "new_hot url_base =
     \<lparr>sent = [], patches = [], generation = 0, stale = False, patch_prefix = url_base @ patch_prefix_path\<rparr>"

definition served_output_of :: "u64 \<Rightarrow> hot_updates \<Rightarrow> hot_updates" where
  "served_output_of g h = (if stale h \<and> generation h = g then h\<lparr>stale := False\<rparr> else h)"

definition refresh_styles :: "'v json_api \<Rightarrow> bool \<Rightarrow> string list \<Rightarrow> hot_updates \<Rightarrow> hot_updates" where
  "refresh_styles j relink added h =
     h\<lparr>sent := sent h @ [\<lparr>frame_client = None, frame_text = css_frame j relink added\<rparr>]\<rparr>"

definition patch_body :: "'v json_api \<Rightarrow> patch \<Rightarrow> string" where
  "patch_body j p =
     patch_code p @ [CHR 0x0A] @ '';__rolldown_runtime__.payloadDelivered('' @ quote j (patch_filename p)
     @ '');'' @ [CHR 0x0A] @ ''; export {}''"

text \<open>The locked block of \<^verbatim>\<open>accept\<close>: the deque keeps the newest patches.\<close>

definition keep_patch :: "string \<times> string \<Rightarrow> (string \<times> string) list \<Rightarrow> (string \<times> string) list" where
  "keep_patch p kept = (if kept_patches \<le> length kept then drop 1 kept else kept) @ [p]"

definition accept_patch :: "'v json_api \<Rightarrow> patch \<Rightarrow> hot_updates \<Rightarrow> hot_updates" where
  "accept_patch j p h =
     (if CHR ''/'' \<in> set (patch_filename p) then h
      else h\<lparr>patches := keep_patch (patch_filename p, patch_body j p) (patches h),
             generation := generation h + 1,
             stale := True,
             sent := sent h @ [\<lparr>frame_client = Some (patch_client p),
                       frame_text = hmr_frame j (patch_prefix h @ patch_filename p) (patch_seq p) (changed_ids p)\<rparr>]\<rparr>)"

text \<open>\<^verbatim>\<open>serve\<close>: the body of the newest patch of that name, \<open>None\<close> for 404.\<close>

definition serve :: "string \<Rightarrow> hot_updates \<Rightarrow> string option" where
  "serve name h = map_option snd (find (\<lambda>(n, _). n = name) (rev (patches h)))"

datatype page_message_t = Client string | Delivered string | ReloadNeeded | Custom string string

definition page_message :: "'v json_api \<Rightarrow> string \<Rightarrow> page_message_t option" where
  "page_message j t =
     Option.bind (from_str j t) (\<lambda>v.
       let field = (\<lambda>k. Option.bind (get_field j v k) (as_str j)) in
       Option.bind (Option.bind (get_field j v ''type'') (as_str j)) (\<lambda>ty.
         if ty = ''oj:client'' then
           Option.bind (field ''id'') (\<lambda>i. if i = [] then None else Some (Client i))
         else if ty = ''oj:delivered'' then map_option Delivered (field ''filename'')
         else if ty = ''oj:reload-needed'' then Some ReloadNeeded
         else if ty = ''custom'' then
           Option.bind (field ''event'') (\<lambda>e.
             Some (Custom e (json_text j (case get_field j v ''data'' of Some d \<Rightarrow> d | None \<Rightarrow> json_null j))))
         else None))"

section \<open>Patches and outputs as a state machine\<close>

text \<open>
  \<open>served\<close> collects the generations of the outputs served so far: an output is generated at a
  generation read before, and served when it is written.
\<close>

inductive_set hot_runs :: "'v json_api \<Rightarrow> string \<Rightarrow> (hot_updates \<times> u64 set) set"
  for j :: "'v json_api" and base :: string where
  start: "(new_hot base, {}) \<in> hot_runs j base"
| accept: "(h, served) \<in> hot_runs j base \<Longrightarrow> (accept_patch j p h, served) \<in> hot_runs j base"
| styles: "(h, served) \<in> hot_runs j base \<Longrightarrow> (refresh_styles j relink added h, served) \<in> hot_runs j base"
| shown: "(h, served) \<in> hot_runs j base \<Longrightarrow> (served_output_of g h, insert g served) \<in> hot_runs j base"

definition hot_inv :: "hot_updates \<times> u64 set \<Rightarrow> bool" where
  "hot_inv s \<longleftrightarrow> length (patches (fst s)) \<le> kept_patches \<and>
     list_all (\<lambda>(n, _). CHR ''/'' \<notin> set n) (patches (fst s)) \<and>
     (stale (fst s) \<or> generation (fst s) = 0 \<or> generation (fst s) \<in> snd s)"

lemma length_keep_patch: "length ks \<le> kept_patches \<Longrightarrow> length (keep_patch p ks) \<le> kept_patches"
  by (simp add: keep_patch_def kept_patches_def)

lemma set_keep_patch: "set (keep_patch p ks) \<subseteq> insert p (set ks)"
  by (auto simp: keep_patch_def dest: in_set_dropD)

lemma hot_inv_accept: "hot_inv (h, served) \<Longrightarrow> hot_inv (accept_patch j p h, served)"
  using set_keep_patch [of "(patch_filename p, patch_body j p)" "patches h"]
  by (auto simp: hot_inv_def accept_patch_def length_keep_patch list_all_iff)

lemma hot_inv_output: "hot_inv (h, served) \<Longrightarrow> hot_inv (served_output_of g h, insert g served)"
  by (auto simp: hot_inv_def served_output_of_def)

lemma hot_inv_run: "s \<in> hot_runs j base \<Longrightarrow> hot_inv s"
proof (induction s rule: prod.induct)
  case (Pair h served)
  then show ?case
  proof (induction rule: hot_runs.induct)
    case start
    show ?case by (simp add: hot_inv_def new_hot_def)
  next
    case (styles h served relink added)
    then show ?case by (simp add: hot_inv_def refresh_styles_def)
  qed (auto intro: hot_inv_accept hot_inv_output)
qed


section \<open>Properties\<close>


definition demo_json :: "unit json_api" where
  "demo_json = \<lparr>quote = id, css_frame = \<lambda>r a. ''css'', hmr_frame = \<lambda>u n c. u, from_str = Map.empty,
     get_field = \<lambda>v k. None, as_str = Map.empty, json_text = \<lambda>v. ''null'', json_null = ()\<rparr>"

definition demo_patch :: patch where
  "demo_patch = \<lparr>patch_client = ''page'', patch_filename = ''p1.js'', patch_seq = 1, changed_ids = [],
     patch_code = ''1''\<rparr>"


text \<open>
  A page can fetch the patch it is told of. Right after a patch with a plain file name was
  accepted, its body is served under that name and announced under the patch prefix, at most 64
  patches are kept in every run, and a name with a slash is never served.
\<close>

theorem accepted_patch_is_served:
  assumes "(h, served) \<in> hot_runs j base"
  shows "(CHR ''/'' \<notin> set (patch_filename p) \<longrightarrow>
       serve (patch_filename p) (accept_patch j p h) = Some (patch_body j p) \<and>
       last (sent (accept_patch j p h)) = \<lparr>frame_client = Some (patch_client p),
         frame_text = hmr_frame j (patch_prefix h @ patch_filename p) (patch_seq p) (changed_ids p)\<rparr>)
     \<and> length (patches h) \<le> 64
     \<and> (CHR ''/'' \<in> set name \<longrightarrow> serve name h = None)"
proof (intro conjI impI)
  show "length (patches h) \<le> 64" using hot_inv_run [OF assms] by (simp add: hot_inv_def kept_patches_def)
next
  assume "CHR ''/'' \<in> set name"
  then have "find (\<lambda>(n, _). n = name) (rev (patches h)) = None"
    using hot_inv_run [OF assms] by (auto simp: hot_inv_def list_all_iff find_None_iff)
  then show "serve name h = None" by (simp add: serve_def)
qed (simp_all add: serve_def accept_patch_def keep_patch_def)

theorem accepted_patch_is_served_witness:
  "serve ''p1.js'' (accept_patch demo_json demo_patch (new_hot '''')) = Some (patch_body demo_json demo_patch)"
  using accepted_patch_is_served [OF hot_runs.start [where j = demo_json and base = "''''"], of demo_patch]
  by (simp add: demo_patch_def)

end
