(* ===== verification/Hmr_Gate.thy ===== *)
theory Hmr_Gate
  imports Std_Path
begin

text \<open>
  The editor's HMR gate and the watcher's content filter, from \<^verbatim>\<open>crates/oj_server/src/hmr.rs\<close>:
  \<^verbatim>\<open>HmrGate\<close> holds the changes of watched files until the editor flushes or a cap timer does, and
  \<^verbatim>\<open>ContentChanges\<close> keeps the watcher events that changed a file's content.

  Instants are natural numbers. The clock reading and the mtimes of the file system at the time of a
  call are arguments. The spawned cap timers are part of the state: each is the instant it was armed
  at, and \<open>gate_step\<close> lets it fire once its hold cap has passed. The frames a flush sends are the
  value \<open>flush_frames\<close>; \<^verbatim>\<open>decide\<close>, which computes the frames of a granular flush, is outside this
  theory, so that value names the paths it is called with.
\<close>

section \<open>The gate\<close>

record hmr_gate =
  full_reload :: bool
  max_hold :: nat
  pending :: "(path, string fset) fmap"
  last_flush :: "nat option"
  held_reload :: bool
  cap_timers :: "nat list"

definition new_gate :: "bool \<Rightarrow> nat \<Rightarrow> hmr_gate" where
  "new_gate fr cap =
     \<lparr>full_reload = fr, max_hold = cap, pending = fmempty, last_flush = None, held_reload = False, cap_timers = []\<rparr>"

definition gate_relevant :: "path \<Rightarrow> bool" where
  "gate_relevant p \<longleftrightarrow>
     \<not> list_ex (\<lambda>c. c = Normal ''node_modules'' \<or> c = Normal ''.oj-cache'' \<or> c = Normal ''dist'') p"

text \<open>A write the last flush did not cover: no readable mtime, or one after it.\<close>

definition uncovered :: "(path \<Rightarrow> nat option) \<Rightarrow> nat option \<Rightarrow> path \<Rightarrow> bool" where
  "uncovered mtime flushed p =
     (case flushed of
        None \<Rightarrow> True
      | Some f \<Rightarrow> (case mtime p of None \<Rightarrow> True | Some m \<Rightarrow> f < m))"

definition add_pending :: "path \<Rightarrow> (path, string fset) fmap \<Rightarrow> (path, string fset) fmap" where
  "add_pending p m =
     fmupd p (finsert ''change'' (case fmlookup m p of Some s \<Rightarrow> s | None \<Rightarrow> {||})) m"

definition hold :: "(path \<Rightarrow> nat option) \<Rightarrow> nat \<Rightarrow> path list \<Rightarrow> bool \<Rightarrow> hmr_gate \<Rightarrow> hmr_gate \<times> bool" where
  "hold mtime now paths reload g =
     (let relevant = filter gate_relevant paths in
      if relevant = [] then (g, False)
      else let relevant' = filter (uncovered mtime (last_flush g)) relevant in
        if relevant' = [] then (g, False)
        else (g\<lparr>pending := fold add_pending relevant' (pending g),
                held_reload := (if reload then True else held_reload g),
                cap_timers := (if pending g = fmempty then cap_timers g @ [now] else cap_timers g)\<rparr>,
              True))"

datatype flush_frames = NoFrames | FullReloadFrame string | DecideFrames "path list"

text \<open>The flush: the drained paths in order, whether the flush is announced, and the frames.\<close>

definition flush :: "nat \<Rightarrow> hmr_gate \<Rightarrow> hmr_gate \<times> path list \<times> bool \<times> flush_frames" where
  "flush now g =
     (let entries = sorted_list_of_fset (fmdom (pending g));
          g1 = g\<lparr>last_flush := Some now, pending := fmempty, held_reload := False\<rparr>
      in (g1, entries, held_reload g \<or> entries \<noteq> [],
          if entries = [] then NoFrames
          else if full_reload g then FullReloadFrame ''hmr-flush''
          else DecideFrames entries))"

text \<open>The body of the cap timer armed at \<open>armed\<close>.\<close>

definition cap_expired :: "nat \<Rightarrow> hmr_gate \<Rightarrow> bool" where
  "cap_expired armed g \<longleftrightarrow>
     pending g \<noteq> fmempty \<and> (case last_flush g of None \<Rightarrow> True | Some f \<Rightarrow> f < armed)"

definition cap_fires :: "nat \<Rightarrow> nat \<Rightarrow> hmr_gate \<Rightarrow> hmr_gate" where
  "cap_fires armed now g =
     (let g1 = g\<lparr>cap_timers := removeAll armed (cap_timers g)\<rparr> in
      if cap_expired armed g1 then fst (flush now g1) else g1)"

definition gate_mode :: "hmr_gate \<Rightarrow> string" where
  "gate_mode g = (if full_reload g then ''full-reload'' else ''granular'')"

text \<open>The handle of the Start server; \<open>None\<close> without a gate.\<close>

definition hold_reload ::
  "(path \<Rightarrow> nat option) \<Rightarrow> nat \<Rightarrow> path list \<Rightarrow> hmr_gate option \<Rightarrow> hmr_gate option \<times> bool" where
  "hold_reload mtime now paths og =
     (case og of None \<Rightarrow> (None, False) | Some g \<Rightarrow> map_prod Some id (hold mtime now paths True g))"

definition reload_is_held :: "hmr_gate option \<Rightarrow> bool" where
  "reload_is_held og =
     (case og of None \<Rightarrow> False | Some g \<Rightarrow> held_reload g \<or> pending g \<noteq> fmempty)"

section \<open>Runs\<close>

text \<open>The clock moves on with every call, so no two readings agree.\<close>

inductive gate_step :: "hmr_gate \<times> nat \<Rightarrow> hmr_gate \<times> nat \<Rightarrow> bool" where
  holds: "now < now' \<Longrightarrow> gate_step (g, now) (fst (hold mtime now' paths reload g), now')"
| flushes: "now < now' \<Longrightarrow> gate_step (g, now) (fst (flush now' g), now')"
| fires: "now < now' \<Longrightarrow> armed \<in> set (cap_timers g) \<Longrightarrow> armed + max_hold g \<le> now' \<Longrightarrow>
     gate_step (g, now) (cap_fires armed now' g, now')"

inductive_set gate_runs :: "bool \<Rightarrow> nat \<Rightarrow> (hmr_gate \<times> nat) set" for fr :: bool and cap :: nat where
  start: "(new_gate fr cap, 0) \<in> gate_runs fr cap"
| step: "s \<in> gate_runs fr cap \<Longrightarrow> gate_step s t \<Longrightarrow> t \<in> gate_runs fr cap"

text \<open>
  The invariant: a held reload has pending changes behind it, and pending changes have a cap timer
  armed after the last flush, which therefore flushes them when it fires.
\<close>

definition gate_inv :: "bool \<Rightarrow> nat \<Rightarrow> hmr_gate \<times> nat \<Rightarrow> bool" where
  "gate_inv fr cap s \<longleftrightarrow>
     (case s of (g, now) \<Rightarrow>
        full_reload g = fr \<and> max_hold g = cap \<and>
        (held_reload g \<longrightarrow> pending g \<noteq> fmempty) \<and>
        (\<forall>f. last_flush g = Some f \<longrightarrow> f \<le> now) \<and> (\<forall>a \<in> set (cap_timers g). a \<le> now) \<and>
        (pending g \<noteq> fmempty \<longrightarrow> (\<exists>a \<in> set (cap_timers g). cap_expired a g)))"

lemma fold_add_pending:
  "fmdom (fold add_pending ps m) = fset_of_list ps |\<union>| fmdom m"
  by (induction ps arbitrary: m) (auto simp: add_pending_def)

lemma fold_add_pending_ne: "ps \<noteq> [] \<Longrightarrow> fold add_pending ps m \<noteq> fmempty"
proof
  assume "ps \<noteq> []" and "fold add_pending ps m = fmempty"
  then have "fset_of_list ps |\<union>| fmdom m = {||}" by (metis fmdom_empty fold_add_pending)
  with \<open>ps \<noteq> []\<close> show False by (cases ps) auto
qed

lemma hold_cases:
  obtains "hold mtime now paths reload g = (g, False)"
  | ps where "ps \<noteq> []" "ps = filter (uncovered mtime (last_flush g)) (filter gate_relevant paths)"
      "hold mtime now paths reload g =
         (g\<lparr>pending := fold add_pending ps (pending g), held_reload := reload \<or> held_reload g,
            cap_timers := (if pending g = fmempty then cap_timers g @ [now] else cap_timers g)\<rparr>, True)"
proof -
  let ?ps = "filter (uncovered mtime (last_flush g)) (filter gate_relevant paths)"
  show thesis
  proof (cases "?ps = []")
    case True
    then show thesis by (intro that(1)) (simp add: hold_def Let_def)
  next
    case False
    moreover from this have "filter gate_relevant paths \<noteq> []" by (cases "filter gate_relevant paths") auto
    ultimately show thesis by (intro that(2) [of ?ps]) (simp_all add: hold_def Let_def del: filter_filter)
  qed
qed

lemma gate_inv_hold:
  assumes "gate_inv fr cap (g, now)" and "now < now'"
  shows "gate_inv fr cap (fst (hold mtime now' paths reload g), now')"
proof (cases rule: hold_cases [of mtime now' paths reload g])
  case 1
  with assms show ?thesis by (force simp: gate_inv_def)
next
  case (2 ps)
  have flush: "\<forall>f. last_flush g = Some f \<longrightarrow> f < now'"
    using assms by (auto simp: gate_inv_def)
  define h where "h = fst (hold mtime now' paths reload g)"
  have h: "full_reload h = full_reload g" "max_hold h = max_hold g" "last_flush h = last_flush g"
    "pending h \<noteq> fmempty" "set (cap_timers h) \<subseteq> insert now' (set (cap_timers g))"
    unfolding h_def 2(3) using fold_add_pending_ne [OF 2(1)] by auto
  have "\<exists>a \<in> set (cap_timers h). (case last_flush g of None \<Rightarrow> True | Some f \<Rightarrow> f < a)"
    unfolding h_def 2(3) using assms(1) flush by (cases "pending g = fmempty")
      (auto simp: gate_inv_def cap_expired_def split: option.splits)
  then have "\<exists>a \<in> set (cap_timers h). cap_expired a h"
    using h(3,4) by (simp add: cap_expired_def)
  moreover have "a \<le> now'" if "a \<in> set (cap_timers h)" for a
    using that h(5) assms by (fastforce simp: gate_inv_def)
  ultimately show ?thesis
    using assms h(1-4) flush unfolding h_def [symmetric] by (auto simp: gate_inv_def intro: less_imp_le)
qed

lemma gate_inv_flush:
  "gate_inv fr cap (g, now) \<Longrightarrow> now < now' \<Longrightarrow> gate_inv fr cap (fst (flush now' g), now')"
  by (force simp: gate_inv_def flush_def Let_def)

lemma gate_inv_fires:
  assumes "gate_inv fr cap (g, now)" and "now < now'"
  shows "gate_inv fr cap (cap_fires armed now' g, now')"
proof -
  let ?g1 = "g\<lparr>cap_timers := removeAll armed (cap_timers g)\<rparr>"
  show ?thesis
  proof (cases "cap_expired armed ?g1")
    case True
    then have "cap_fires armed now' g = fst (flush now' ?g1)" by (simp add: cap_fires_def)
    with assms show ?thesis by (force simp: gate_inv_def flush_def Let_def)
  next
    case False
    have same: "cap_expired a ?g1 = cap_expired a g" for a by (simp add: cap_expired_def)
    from False same have "\<not> cap_expired armed g" by simp
    then have "\<exists>a \<in> set (removeAll armed (cap_timers g)). cap_expired a g" if "pending g \<noteq> fmempty"
      using assms(1) that by (auto simp: gate_inv_def)
    with assms False same show ?thesis by (force simp: gate_inv_def cap_fires_def)
  qed
qed

lemma gate_inv_run: "s \<in> gate_runs fr cap \<Longrightarrow> gate_inv fr cap s"
proof (induction rule: gate_runs.induct)
  case start
  show ?case by (simp add: gate_inv_def new_gate_def)
next
  case (step s t)
  from step(2,3) show ?case
    by cases (auto intro: gate_inv_hold gate_inv_flush gate_inv_fires)
qed

section \<open>Content changes\<close>

type_synonym content_changes = "(path, nat) fmap"

datatype event_kind = Access | ModifyMetadata | OtherKind

text \<open>\<open>fresh\<close> tells whether an mtime is less than ten seconds old, or in the future.\<close>

definition mtime_moved ::
  "(path \<Rightarrow> nat option) \<Rightarrow> (nat \<Rightarrow> bool) \<Rightarrow> path \<Rightarrow> content_changes \<Rightarrow> content_changes \<times> bool" where
  "mtime_moved mtime fresh p m =
     (case mtime p of
        None \<Rightarrow> (fmdrop p m, True)
      | Some t \<Rightarrow> (fmupd p t m, case fmlookup m p of Some prev \<Rightarrow> prev \<noteq> t | None \<Rightarrow> fresh t))"

fun moved_paths ::
  "(path \<Rightarrow> nat option) \<Rightarrow> (nat \<Rightarrow> bool) \<Rightarrow> path list \<Rightarrow> content_changes \<Rightarrow> content_changes \<times> path list" where
  "moved_paths mtime fresh [] m = (m, [])"
| "moved_paths mtime fresh (p # ps) m =
     (let (m1, moved) = mtime_moved mtime fresh p m;
          (m2, rest) = moved_paths mtime fresh ps m1
      in (m2, if moved then p # rest else rest))"

fun note_mtimes :: "(path \<Rightarrow> nat option) \<Rightarrow> path list \<Rightarrow> content_changes \<Rightarrow> content_changes" where
  "note_mtimes mtime [] m = m"
| "note_mtimes mtime (p # ps) m =
     note_mtimes mtime ps (case mtime p of Some t \<Rightarrow> fmupd p t m | None \<Rightarrow> m)"

definition changed_paths ::
  "(path \<Rightarrow> nat option) \<Rightarrow> (nat \<Rightarrow> bool) \<Rightarrow> event_kind \<Rightarrow> path list \<Rightarrow> content_changes \<Rightarrow> content_changes \<times> path list" where
  "changed_paths mtime fresh k paths m =
     (case k of
        Access \<Rightarrow> (m, [])
      | ModifyMetadata \<Rightarrow> moved_paths mtime fresh paths m
      | OtherKind \<Rightarrow> (note_mtimes mtime paths m, paths))"

lemma note_mtimes_lookup:
  "fmlookup (note_mtimes mtime ps m) p =
     (if p \<in> set ps \<and> mtime p \<noteq> None then mtime p else fmlookup m p)"
  by (induction mtime ps m rule: note_mtimes.induct) (auto split: option.splits)

text \<open>Once a path's mtime is noted, a metadata event reports it only if the mtime moved.\<close>

lemma moved_paths_noted:
  assumes "\<And>p. p \<in> set ps \<Longrightarrow> mtime p \<noteq> None \<and> fmlookup m p = mtime p"
  shows "snd (moved_paths mtime fresh ps m) = [] \<and> fst (moved_paths mtime fresh ps m) = m"
  using assms
proof (induction ps arbitrary: m)
  case (Cons p ps)
  then obtain t where t: "mtime p = Some t" "fmlookup m p = Some t" by fastforce
  then have "fmupd p t m = m" by (intro fmap_ext) auto
  with t Cons show ?case by (simp add: mtime_moved_def split: prod.splits)
qed simp

lemma moved_paths_stale:
  assumes "distinct ps" and "p \<in> set ps" and "mtime p = Some t" and "fmlookup m p = Some t'" and "t \<noteq> t'"
  shows "p \<in> set (snd (moved_paths mtime fresh ps m))"
  using assms
proof (induction ps arbitrary: m)
  case (Cons q ps)
  have keep: "fmlookup (fst (mtime_moved mtime fresh q m)) p = fmlookup m p" if "q \<noteq> p"
    using that by (simp add: mtime_moved_def split: option.splits)
  show ?case
  proof (cases "q = p")
    case True
    with Cons.prems show ?thesis by (simp add: mtime_moved_def split: prod.splits)
  next
    case False
    with Cons keep have "p \<in> set (snd (moved_paths mtime fresh ps (fst (mtime_moved mtime fresh q m))))"
      by simp
    then show ?thesis by (auto split: prod.splits)
  qed
qed simp


section \<open>Properties\<close>



text \<open>
  A flush covers every write made before it: a hold of files whose mtimes are not after the last
  flush is refused and changes nothing, and one with a later or unreadable relevant write holds it.
\<close>

theorem flush_covers_earlier_writes:
  assumes "(g, now) \<in> gate_runs fr cap" and "now < now'"
  defines "h \<equiv> fst (flush now' g)"
  shows "pending h = fmempty \<and> \<not> held_reload h \<and>
     hold mtime t paths reload h =
       (if list_all (\<lambda>p. gate_relevant p \<longrightarrow> (\<exists>m \<le> now'. mtime p = Some m)) paths then (h, False)
        else (fst (hold mtime t paths reload h), True))"
proof -
  have "uncovered mtime (Some now') p \<longleftrightarrow> \<not> (\<exists>m \<le> now'. mtime p = Some m)" for p
    by (cases "mtime p") (auto simp: uncovered_def not_le)
  moreover have "last_flush h = Some now'" by (simp add: h_def flush_def Let_def)
  ultimately have "filter (uncovered mtime (last_flush h)) (filter gate_relevant paths) = [] \<longleftrightarrow>
      list_all (\<lambda>p. gate_relevant p \<longrightarrow> (\<exists>m \<le> now'. mtime p = Some m)) paths"
    by (simp add: filter_empty_conv list_all_iff)
  then show ?thesis
    by (auto simp: hold_def Let_def h_def flush_def filter_empty_conv)
qed

theorem flush_covers_earlier_writes_witness:
  "snd (hold (\<lambda>_. Some 1) 3 [[Normal ''a.ts'']] True (fst (flush 2 (new_gate False 5)))) = False"
  using flush_covers_earlier_writes [OF gate_runs.start, of 2 False 5 "\<lambda>_. Some 1" 3 "[[Normal ''a.ts'']]" True]
  by simp

text \<open>
  Access-time noise is dropped and content changes are not. After an event that noted the
  mtimes of files, a metadata event on them reports nothing as long as no mtime moved, and every
  file whose mtime did move.
\<close>

theorem metadata_noise_filtered:
  fixes m :: content_changes and fresh :: "nat \<Rightarrow> bool"
  assumes "list_all (\<lambda>p. mtime p \<noteq> None) ps" and "distinct ps"
  defines "m1 \<equiv> fst (changed_paths mtime fresh OtherKind ps m)"
  shows "changed_paths mtime fresh' ModifyMetadata ps m1 = (m1, []) \<and>
     (p \<in> set ps \<and> mtime' p \<noteq> None \<and> mtime' p \<noteq> mtime p \<longrightarrow>
        p \<in> set (snd (changed_paths mtime' fresh' ModifyMetadata ps m1)))"
proof -
  have noted: "q \<in> set ps \<Longrightarrow> mtime q \<noteq> None \<and> fmlookup m1 q = mtime q" for q
    using assms(1) by (auto simp: m1_def changed_paths_def note_mtimes_lookup list_all_iff)
  have "moved_paths mtime fresh' ps m1 = (m1, [])"
    using moved_paths_noted [of ps mtime m1 fresh', OF noted] by (simp add: prod_eq_iff)
  moreover have "p \<in> set (snd (moved_paths mtime' fresh' ps m1))"
    if "p \<in> set ps" "mtime' p \<noteq> None" "mtime' p \<noteq> mtime p"
    using that noted [of p] moved_paths_stale [OF assms(2) that(1)] by fastforce
  ultimately show ?thesis by (simp add: changed_paths_def)
qed

theorem metadata_noise_filtered_witness:
  "snd (changed_paths (\<lambda>_. Some 7) (\<lambda>_. True) ModifyMetadata [[Normal ''a'']]
     (fst (changed_paths (\<lambda>_. Some 7) (\<lambda>_. True) OtherKind [[Normal ''a'']] fmempty))) = []"
  using metadata_noise_filtered [where mtime = "\<lambda>_. Some 7" and ps = "[[Normal ''a'']]" and m = fmempty
      and fresh = "\<lambda>_. True" and fresh' = "\<lambda>_. True"] by simp

end
