(* ===== verification/Web_Urls.thy ===== *)
theory Web_Urls
  imports Std_Path
begin

text \<open>
  Urls and file types of the dev server: the asset types and their MIME types
  (\<^verbatim>\<open>crates/oj_compiler/src/assets.rs\<close>, \<^verbatim>\<open>crates/oj_server/src/util.rs\<close>), style urls
  (\<^verbatim>\<open>css_serve.rs\<close>), the hex ids of \<^verbatim>\<open>/@id/\<close> links, and the \<^verbatim>\<open>t=\<close> timestamps of hot updates
  (\<^verbatim>\<open>hmr.rs\<close>): \<open>stamp_import_url\<close> appends one, \<open>strip_hmr_timestamp\<close> removes it.
\<close>

section \<open>File types\<close>

definition known_asset_types :: "string list" where
  "known_asset_types =
    [''apng'', ''bmp'', ''png'', ''jpg'', ''jpeg'', ''jfif'', ''pjpeg'', ''pjp'', ''gif'', ''svg'', ''ico'',
     ''webp'', ''avif'', ''cur'', ''jxl'',
     ''mp4'', ''webm'', ''ogg'', ''mp3'', ''wav'', ''flac'', ''aac'', ''opus'', ''mov'', ''m4a'', ''vtt'',
     ''woff'', ''woff2'', ''eot'', ''ttf'', ''otf'',
     ''webmanifest'', ''pdf'', ''txt'']"

definition is_asset_ext :: "string \<Rightarrow> bool" where
  "is_asset_ext ext \<longleftrightarrow> list_ex (\<lambda>k. eq_ignore_ascii_case k ext) known_asset_types"

text \<open>The last piece of a \<^verbatim>\<open>rsplit\<close> over two separators, and the first of a \<^verbatim>\<open>split\<close>.\<close>

definition clean_ext :: "string \<Rightarrow> string option" where
  "clean_ext url =
     (let clean = takeWhile (\<lambda>c. c \<noteq> CHR ''?'' \<and> c \<noteq> CHR ''#'') url;
          name = rev (takeWhile (\<lambda>c. c \<noteq> CHR ''/'' \<and> c \<noteq> CHR 0x5C) (rev clean))
      in Option.bind (rsplit_once CHR ''.'' name) (\<lambda>(_, ext). if ext = [] then None else Some ext))"

definition is_asset_url :: "string \<Rightarrow> bool" where
  "is_asset_url url = (case clean_ext url of None \<Rightarrow> False | Some e \<Rightarrow> is_asset_ext e)"

definition octet_stream :: string where "octet_stream = ''application/octet-stream''"

definition mime_table :: "(string list \<times> string) list" where
  "mime_table =
    [([''svg''], ''image/svg+xml''), ([''png''], ''image/png''), ([''apng''], ''image/apng''),
     ([''jpg'', ''jpeg'', ''jfif'', ''pjpeg'', ''pjp''], ''image/jpeg''), ([''gif''], ''image/gif''),
     ([''webp''], ''image/webp''), ([''avif''], ''image/avif''), ([''jxl''], ''image/jxl''),
     ([''ico'', ''cur''], ''image/x-icon''), ([''bmp''], ''image/bmp''), ([''woff''], ''font/woff''),
     ([''woff2''], ''font/woff2''), ([''ttf''], ''font/ttf''), ([''otf''], ''font/otf''),
     ([''eot''], ''application/vnd.ms-fontobject''), ([''mp4'', ''m4a''], ''video/mp4''),
     ([''webm''], ''video/webm''), ([''mov''], ''video/quicktime''), ([''mp3''], ''audio/mpeg''),
     ([''wav''], ''audio/wav''), ([''ogg'', ''opus''], ''audio/ogg''), ([''flac''], ''audio/flac''),
     ([''aac''], ''audio/aac''), ([''vtt''], ''text/vtt''),
     ([''webmanifest''], ''application/manifest+json''), ([''pdf''], ''application/pdf''),
     ([''txt''], ''text/plain''), ([''css''], ''text/css'')]"

text \<open>A \<^verbatim>\<open>match\<close> over alternatives of literals.\<close>

fun match_table :: "(string list \<times> string) list \<Rightarrow> string \<Rightarrow> string option" where
  "match_table [] s = None"
| "match_table ((keys, v) # rest) s = (if s \<in> set keys then Some v else match_table rest s)"

definition asset_mime :: "string \<Rightarrow> string" where
  "asset_mime ext =
     (case match_table mime_table (to_ascii_lowercase ext) of Some v \<Rightarrow> v | None \<Rightarrow> octet_stream)"

definition server_is_asset_ext :: "string \<Rightarrow> bool" where
  "server_is_asset_ext ext \<longleftrightarrow> is_asset_ext ext \<or> eq_ignore_ascii_case ext ''wasm''"

definition is_asset_path :: "path \<Rightarrow> bool" where
  "is_asset_path p = (case extension p of None \<Rightarrow> False | Some e \<Rightarrow> server_is_asset_ext e)"

definition content_table :: "(string list \<times> string) list" where
  "content_table =
    [([''html''], ''text/html; charset=utf-8''), ([''js'', ''mjs'', ''cjs''], ''text/javascript''),
     ([''css''], ''text/css''), ([''json'', ''map''], ''application/json''), ([''svg''], ''image/svg+xml''),
     ([''png''], ''image/png''), ([''jpg'', ''jpeg''], ''image/jpeg''), ([''ico''], ''image/x-icon''),
     ([''wasm''], ''application/wasm''), ([''woff2''], ''font/woff2''), ([''woff''], ''font/woff''),
     ([''ttf''], ''font/ttf''), ([''otf''], ''font/otf''), ([''eot''], ''application/vnd.ms-fontobject''),
     ([''webp''], ''image/webp''), ([''gif''], ''image/gif''),
     ([''txt'', ''map2''], ''text/plain; charset=utf-8'')]"

definition content_type :: "string \<Rightarrow> string" where
  "content_type ext = (case match_table content_table ext of Some v \<Rightarrow> v | None \<Rightarrow> asset_mime ext)"

definition compilable :: "string list" where
  "compilable = [''mjs'', ''js'', ''mts'', ''ts'', ''jsx'', ''tsx'', ''cts'', ''svelte'']"

definition is_style_ext :: "string \<Rightarrow> bool" where
  "is_style_ext ext \<longleftrightarrow> ext \<in> {''css'', ''scss'', ''sass'', ''less'', ''styl'', ''stylus'', ''pcss'', ''postcss'', ''sss''}"

definition is_style_url :: "string \<Rightarrow> bool" where
  "is_style_url url =
     (case extension (path_new (hd (split_on CHR ''?'' url))) of None \<Rightarrow> False | Some e \<Rightarrow> is_style_ext e)"

text \<open>A boundary's url in an update: stylesheets are named by their \<^verbatim>\<open>?import\<close> wrapper.\<close>

definition boundary_url :: "string \<Rightarrow> string" where
  "boundary_url p = (if is_style_url p then p @ ''?import'' else p)"

definition url_variants :: "string \<Rightarrow> string list" where
  "url_variants url = [url, url @ ''?direct'', url @ ''?inline'']"

section \<open>Hex ids\<close>

definition hex_encode :: "string \<Rightarrow> string" where
  "hex_encode s = concat (map (\<lambda>b. [digit_char (of_char b div 16), digit_char (of_char b mod 16)]) s)"

text \<open>The loop over the pairs of bytes; \<open>None\<close> for a byte that is no hex digit.\<close>

fun hex_pairs :: "string \<Rightarrow> string option" where
  "hex_pairs (a # b # rest) =
     Option.bind (digit_val 16 a) (\<lambda>hi. Option.bind (digit_val 16 b) (\<lambda>lo.
       map_option (Cons (char_of (hi * 16 + lo))) (hex_pairs rest)))"
| "hex_pairs _ = Some []"

definition hex_decode :: "string \<Rightarrow> string option" where
  "hex_decode s =
     (if odd (length s) then None
      else Option.bind (hex_pairs s) (\<lambda>out. if utf8_valid out then Some out else None))"

section \<open>Timestamps\<close>

definition is_digit :: "char \<Rightarrow> bool" where
  "is_digit c \<longleftrightarrow> digit_val 10 c \<noteq> None"

definition is_timestamp_pair :: "string \<Rightarrow> bool" where
  "is_timestamp_pair kv \<longleftrightarrow> starts_with ''t='' kv \<and> length kv = 15 \<and> list_all is_digit (drop 2 kv)"

definition strip_hmr_timestamp :: "string \<Rightarrow> string" where
  "strip_hmr_timestamp url =
     (case split_once CHR ''?'' url of
        None \<Rightarrow> url
      | Some (base, query) \<Rightarrow>
          (let kept = filter (\<lambda>kv. \<not> is_timestamp_pair kv) (split_on CHR ''&'' query) in
           if kept = [] then base else base @ ''?'' @ join_with ''&'' kept))"

definition stamp_import_url :: "string \<Rightarrow> u64 \<Rightarrow> string" where
  "stamp_import_url url t =
     (if t = 0 \<or> starts_with ''/@'' url \<or> \<not> starts_with ''/'' url then url
      else let (p, query) = (case split_once CHR ''?'' url of Some pq \<Rightarrow> pq | None \<Rightarrow> (url, ''''));
               ext = (case extension (path_new p) of Some e \<Rightarrow> e | None \<Rightarrow> '''')
           in if ext \<notin> set compilable \<and> ext \<noteq> ''json'' \<and> \<not> is_style_ext ext \<and> \<not> server_is_asset_ext ext then url
              else if list_ex (\<lambda>kv. starts_with ''t='' kv) (split_on CHR ''&'' query) then url
              else if query = [] then p @ ''?t='' @ show_radix 10 (unat t)
              else url @ ''&t='' @ show_radix 10 (unat t))"

section \<open>Lemmas\<close>

lemma length_show_radix_10:
  "10 ^ n \<le> k \<Longrightarrow> k < 10 ^ Suc n \<Longrightarrow> length (show_radix 10 k) = Suc n"
proof (induction n arbitrary: k)
  case 0
  then show ?case by (simp add: show_radix.simps [of 10 k])
next
  case (Suc n)
  have "1 \<le> (10 :: nat) ^ n" by simp
  then have "10 * 1 \<le> (10 :: nat) * 10 ^ n" by (rule mult_le_mono2)
  also have "10 * 10 ^ n \<le> k" using Suc.prems(1) by simp
  finally have ge: "\<not> k < 10" by simp
  have "10 ^ n \<le> k div 10" "k div 10 < 10 ^ Suc n"
    using Suc.prems by (auto simp: less_mult_imp_div_less)
  from Suc.IH [OF this] ge show ?case by (simp add: show_radix.simps [of 10 k])
qed

text \<open>A timestamp of 13 digits: the milliseconds of the years 2001 to 2286.\<close>

lemma is_timestamp_pair_stamp:
  assumes "10 ^ 12 \<le> unat t" and "unat t < 10 ^ 13"
  shows "is_timestamp_pair (''t='' @ show_radix 10 (unat (t :: u64)))"
proof -
  have "length (show_radix 10 (unat t)) = 13"
    using length_show_radix_10 [of 12 "unat t"] assms by simp
  moreover have "list_all is_digit (show_radix 10 (unat t))"
    using show_radix_no_char [of 10 _ "unat t"] by (auto simp: list_all_iff is_digit_def)
  ultimately show ?thesis by (simp add: is_timestamp_pair_def starts_with_def)
qed

lemma amp_free_pair: "CHR ''&'' \<notin> set (''t='' @ show_radix 10 n)"
  using show_radix_no_char [of 10 "CHR ''&''" n] by (simp add: digit_val_def)

lemma split_on_stamped:
  "split_on CHR ''&'' (q @ ''&t='' @ show_radix 10 n) = split_on CHR ''&'' q @ [''t='' @ show_radix 10 n]"
proof -
  have "split_on CHR ''&'' (q @ CHR ''&'' # (''t='' @ show_radix 10 n))
      = split_on CHR ''&'' q @ [''t='' @ show_radix 10 n]"
    by (simp only: split_on_append_sep split_on_no_sep [OF amp_free_pair])
  then show ?thesis by simp
qed

lemma strip_query:
  "CHR ''?'' \<notin> set p \<Longrightarrow> strip_hmr_timestamp (p @ CHR ''?'' # q) =
     (let kept = filter (\<lambda>kv. \<not> is_timestamp_pair kv) (split_on CHR ''&'' q) in
      if kept = [] then p else p @ ''?'' @ join_with ''&'' kept)"
  by (simp add: strip_hmr_timestamp_def split_once_append)

lemma strip_no_query: "CHR ''?'' \<notin> set u \<Longrightarrow> strip_hmr_timestamp u = u"
  by (simp add: strip_hmr_timestamp_def split_once_None_iff [THEN iffD2])

text \<open>The shapes a stamped url has.\<close>

lemma stamp_import_url_cases:
  obtains "stamp_import_url u t = u"
  | p where "u = p" "CHR ''?'' \<notin> set p" "stamp_import_url u t = p @ CHR ''?'' # ''t='' @ show_radix 10 (unat t)"
  | p where "u = p @ ''?''" "CHR ''?'' \<notin> set p"
      "stamp_import_url u t = p @ CHR ''?'' # ''t='' @ show_radix 10 (unat t)"
  | p q where "u = p @ CHR ''?'' # q" "CHR ''?'' \<notin> set p" "q \<noteq> []"
      "stamp_import_url u t = p @ CHR ''?'' # q @ ''&t='' @ show_radix 10 (unat t)"
proof (cases "split_once CHR ''?'' u")
  case None
  then have "CHR ''?'' \<notin> set u" by (simp add: split_once_None_iff)
  moreover have "stamp_import_url u t \<noteq> u \<Longrightarrow> stamp_import_url u t = u @ ''?t='' @ show_radix 10 (unat t)"
    using None unfolding stamp_import_url_def Let_def by (simp split: if_splits)
  ultimately show thesis using that(1,2) by (cases "stamp_import_url u t = u") auto
next
  case (Some pq)
  obtain p q where pq: "pq = (p, q)" by force
  with Some have u: "u = p @ CHR ''?'' # q" and p: "CHR ''?'' \<notin> set p" by (simp_all add: split_once_iff)
  show thesis
  proof (cases "stamp_import_url u t = u")
    case True
    then show thesis by (rule that(1))
  next
    case False
    have "stamp_import_url u t = (if q = [] then p @ ''?t='' @ show_radix 10 (unat t)
        else u @ ''&t='' @ show_radix 10 (unat t))"
      using False Some pq unfolding stamp_import_url_def Let_def by (simp split: if_splits)
    with u p that(3,4) show thesis by (cases "q = []") auto
  qed
qed

lemma filter_join_split:
  assumes "kept = filter P (split_on CHR ''&'' q)" and "kept \<noteq> []"
  shows "split_on CHR ''&'' (join_with ''&'' kept) = kept"
  using assms by (intro split_join_with) (auto simp: list_all_iff split_on_no_char)


section \<open>Properties\<close>

text \<open>
  Stamping an import does not change a module's identity. For a timestamp of 13 digits, as
  every clock between 2001 and 2286 gives, and a url that does not end in an empty query, stripping
  the stamped url gives what stripping the url itself gives.
\<close>

theorem strip_undoes_stamp:
  assumes "10 ^ 12 \<le> unat t" and "unat t < 10 ^ 13" and "\<And>p. split_once CHR ''?'' u \<noteq> Some (p, [])"
  shows "strip_hmr_timestamp (stamp_import_url u t) = strip_hmr_timestamp u"
proof (cases rule: stamp_import_url_cases [of u t])
  case (2 p)
  have "split_on CHR ''&'' (''t='' @ show_radix 10 (unat t)) = [''t='' @ show_radix 10 (unat t)]"
    by (rule split_on_no_sep [OF amp_free_pair])
  with 2 show ?thesis
    using is_timestamp_pair_stamp [OF assms(1,2)] by (simp add: strip_query strip_no_query)
next
  case (3 p)
  with assms(3) [of p] show ?thesis by (simp add: split_once_iff)
next
  case (4 p q)
  then show ?thesis
    using is_timestamp_pair_stamp [OF assms(1,2)]
    by (simp only: strip_query split_on_stamped filter_append filter.simps append_Nil2 simp_thms if_False)
qed simp

theorem strip_undoes_stamp_witness:
  "strip_hmr_timestamp (stamp_import_url ''/src/a.ts?raw'' 1700000000000) = ''/src/a.ts?raw''"
proof -
  have "strip_hmr_timestamp ''/src/a.ts?raw'' = ''/src/a.ts?raw''" by code_simp
  then show ?thesis
    using strip_undoes_stamp [of 1700000000000 "''/src/a.ts?raw''"] by simp
qed

text \<open>
  Stripping is idempotent and removes nothing but timestamps: the result has no pair that is
  \<^verbatim>\<open>t=\<close> with 13 digits, and a url without one is returned as it is.
\<close>

theorem strip_removes_timestamps_only:
  "strip_hmr_timestamp (strip_hmr_timestamp u) = strip_hmr_timestamp u \<and>
   (case split_once CHR ''?'' u of
      None \<Rightarrow> strip_hmr_timestamp u = u
    | Some (b, q) \<Rightarrow>
        (case split_once CHR ''?'' (strip_hmr_timestamp u) of
           None \<Rightarrow> list_all is_timestamp_pair (split_on CHR ''&'' q)
         | Some (b', q') \<Rightarrow> b' = b \<and>
             split_on CHR ''&'' q' = filter (\<lambda>kv. \<not> is_timestamp_pair kv) (split_on CHR ''&'' q)))"
proof (cases "split_once CHR ''?'' u")
  case None
  then show ?thesis by (simp add: strip_hmr_timestamp_def)
next
  case (Some pq)
  obtain p q where pq: "pq = (p, q)" by force
  with Some have u: "u = p @ CHR ''?'' # q" and p: "CHR ''?'' \<notin> set p" by (simp_all add: split_once_iff)
  let ?kept = "filter (\<lambda>kv. \<not> is_timestamp_pair kv) (split_on CHR ''&'' q)"
  show ?thesis
  proof (cases "?kept = []")
    case True
    then have "strip_hmr_timestamp u = p" using p by (simp add: u strip_query)
    moreover have "split_once CHR ''?'' p = None" using p by (simp add: split_once_None_iff)
    moreover have "list_all is_timestamp_pair (split_on CHR ''&'' q)"
      using True by (simp add: filter_empty_conv list_all_iff)
    ultimately show ?thesis using Some pq p by (simp add: strip_no_query)
  next
    case False
    then have s: "strip_hmr_timestamp u = p @ CHR ''?'' # join_with ''&'' ?kept"
      using p by (simp add: u strip_query)
    have j: "split_on CHR ''&'' (join_with ''&'' ?kept) = ?kept"
      by (rule filter_join_split [OF refl False])
    have "strip_hmr_timestamp (p @ CHR ''?'' # join_with ''&'' ?kept) = p @ CHR ''?'' # join_with ''&'' ?kept"
      using False by (simp add: strip_query [OF p] j)
    with s j Some pq show ?thesis by (simp add: split_once_append [OF p])
  qed
qed

lemma to_ascii_lowercase_lower:
  "list_all (\<lambda>c. \<not> (65 \<le> (of_char c :: nat) \<and> of_char c \<le> (90 :: nat))) s \<Longrightarrow> to_ascii_lowercase s = s"
  unfolding to_ascii_lowercase_def Let_def
  by (rule map_idI) (auto simp: list_all_iff)

lemma known_assets_lower: "list_all (\<lambda>k. to_ascii_lowercase k = k) known_asset_types"
  by code_simp

lemma known_assets_mime: "list_all (\<lambda>k. match_table mime_table k \<noteq> None) known_asset_types"
  by code_simp

lemma mime_table_specific: "list_all (\<lambda>(ks, v). v \<noteq> octet_stream) mime_table"
  by code_simp

lemma match_table_in: "match_table t s = Some v \<Longrightarrow> \<exists>ks. (ks, v) \<in> set t"
  by (induction t s rule: match_table.induct) (auto split: if_splits)

text \<open>
  Every file the server treats as a known asset type, in any letter case, has a MIME type of
  its own: none is served or inlined as \<^verbatim>\<open>application/octet-stream\<close>.
\<close>

theorem asset_types_have_mime:
  assumes "is_asset_ext ext"
  shows "asset_mime ext \<noteq> octet_stream"
proof -
  from assms obtain k where k: "k \<in> set known_asset_types" "to_ascii_lowercase k = to_ascii_lowercase ext"
    by (auto simp: is_asset_ext_def list_ex_iff eq_ignore_ascii_case_def)
  then have "to_ascii_lowercase ext \<in> set known_asset_types"
    using known_assets_lower by (auto simp: list_all_iff)
  then obtain v where v: "match_table mime_table (to_ascii_lowercase ext) = Some v"
    using known_assets_mime by (auto simp: list_all_iff)
  then have "v \<noteq> octet_stream"
    using match_table_in [OF v] mime_table_specific by (auto simp: list_all_iff)
  with v show ?thesis by (simp add: asset_mime_def)
qed

theorem asset_types_have_mime_witness: "asset_mime ''JPG'' \<noteq> octet_stream"
proof -
  have "is_asset_ext ''JPG''" by code_simp
  then show ?thesis by (rule asset_types_have_mime)
qed

lemma hex_pairs_encode: "hex_pairs (hex_encode s) = Some s"
proof (induction s)
  case (Cons c s)
  have lt: "of_char c < (256 :: nat)" by (metis of_char_of of_char_mod_256 mod_less_divisor zero_less_numeral)
  then have "of_char c div 16 < (16 :: nat)" by (simp add: less_mult_imp_div_less)
  moreover have "char_of (of_char c div 16 * 16 + of_char c mod 16 :: nat) = c"
    by (simp only: div_mult_mod_eq char_of_char)
  ultimately show ?case
    using Cons.IH by (simp add: hex_encode_def digit_val_digit_char)
qed (simp add: hex_encode_def)

text \<open>
  Decoding a hex id gives the id back, for every UTF-8 string.
\<close>

theorem hex_roundtrip:
  assumes "utf8_valid s"
  shows "hex_decode (hex_encode s) = Some s"
proof -
  have "even (length (hex_encode s))" by (induction s) (simp_all add: hex_encode_def)
  with assms show ?thesis by (simp add: hex_decode_def hex_pairs_encode)
qed

theorem hex_roundtrip_witness: "hex_decode (hex_encode ''virtual:x'') = Some ''virtual:x''"
proof -
  have "utf8_valid ''virtual:x''" by code_simp
  then show ?thesis by (rule hex_roundtrip)
qed

end
