(* ===== verification/App_Env.thy ===== *)
theory App_Env
  imports Std_Path
begin

text \<open>
  The app's environment, \<^verbatim>\<open>crates/oj_env/src\<close>: \<^verbatim>\<open>.env\<close> files with \<^verbatim>\<open>$\<close> references (\<^verbatim>\<open>dotenv.rs\<close>), the
  \<^verbatim>\<open>import.meta.env\<close> defines (\<^verbatim>\<open>defines.rs\<close>, \<^verbatim>\<open>app.rs\<close>) and the \<^verbatim>\<open>%KEY%\<close> placeholders of index.html
  (\<^verbatim>\<open>html.rs\<close>).

  A \<^verbatim>\<open>BTreeMap\<close> is a finite map and iterates as \<open>sorted_entries\<close>; the process environment is the list of
  its variables, and the file system a function from paths to contents. Writing and reading
  JSON is \<^verbatim>\<open>serde_json\<close>: the functions that need it take \<open>to_json\<close>, \<open>obj_json\<close> or \<open>from_json\<close>.
  The scans work on the bytes that are left, where the code keeps an index: a byte of a longer UTF-8
  sequence is never one the scans look for, so copying a character byte by byte is the same.
\<close>

type_synonym vars = "(string, string) fmap"

section \<open>Dotenv files\<close>

definition expansion_cap :: nat where
  "expansion_cap = 128 * 1024"

definition is_name_byte :: "char \<Rightarrow> bool" where
  "is_name_byte c \<longleftrightarrow> byte_in 48 57 c \<or> byte_in 65 90 c \<or> byte_in 97 122 c \<or> c = CHR ''_''"

text \<open>The reference after a dollar sign: its name and what follows it.\<close>

definition reference :: "string \<Rightarrow> (string \<times> string) option" where
  "reference s =
     (case s of
        c # r \<Rightarrow>
          if c = CHR ''{''
          then (case split_once CHR ''}'' r of
                  Some (name, rest) \<Rightarrow> if name = [] then None else Some (name, rest)
                | None \<Rightarrow> None)
          else (let name = takeWhile is_name_byte s in
                if name = [] then None else Some (name, dropWhile is_name_byte s))
      | [] \<Rightarrow> None)"

lemma reference_length: "reference s = Some (name, rest) \<Longrightarrow> length rest < length s \<and> name \<noteq> []"
proof -
  assume r: "reference s = Some (name, rest)"
  then obtain c cs where s: "s = c # cs" by (cases s) (auto simp: reference_def)
  show ?thesis
  proof (cases "c = CHR ''{''")
    case True
    with r s show ?thesis
      by (auto simp: reference_def split_once_iff split: option.splits if_splits)
  next
    case False
    have "length (takeWhile is_name_byte s) + length (dropWhile is_name_byte s) = length s"
      by (metis length_append takeWhile_dropWhile_id)
    with r s False show ?thesis
      by (cases "takeWhile is_name_byte s") (auto simp: reference_def Let_def split: if_splits)
  qed
qed

text \<open>\<^verbatim>\<open>expand\<close>: a reference whose value exceeds the remaining budget ends the output.\<close>

function expand_loop :: "vars \<Rightarrow> nat \<Rightarrow> string \<Rightarrow> string" where
  "expand_loop vs budget s =
     (case s of
        [] \<Rightarrow> []
      | c # cs \<Rightarrow>
          if c = CHR 0x5C \<and> cs \<noteq> [] \<and> hd cs = CHR ''$'' then CHR ''$'' # expand_loop vs budget (tl cs)
          else (case (if c = CHR ''$'' then reference cs else None) of
                  Some (name, rest) \<Rightarrow>
                    (let val = (case fmlookup vs name of Some v \<Rightarrow> v | None \<Rightarrow> []) in
                     if budget < length val then []
                     else val @ expand_loop vs (budget - length val) rest)
                | None \<Rightarrow> c # expand_loop vs budget cs))"
  by pat_completeness auto
termination
  by (relation "measure (\<lambda>(vs, budget, s). length s)") (auto dest!: reference_length split: if_splits)

declare expand_loop.simps [simp del]

definition expand :: "string \<Rightarrow> vars \<Rightarrow> string" where
  "expand input vs = expand_loop vs expansion_cap input"

definition before_or_all :: "(string \<times> string) option \<Rightarrow> string \<Rightarrow> string" where
  "before_or_all r s = (case r of Some (v, _) \<Rightarrow> v | None \<Rightarrow> s)"

definition parse_value :: "string \<Rightarrow> vars \<Rightarrow> string" where
  "parse_value raw vs =
     (if raw \<noteq> [] \<and> hd raw = CHR 0x27 then before_or_all (split_once CHR 0x27 (tl raw)) (tl raw)
      else if raw \<noteq> [] \<and> hd raw = CHR 0x22 then
        (let inner = before_or_all (split_once CHR 0x22 (tl raw)) (tl raw);
             unescaped = str_replace [CHR 0x5C, CHR 0x22] [CHR 0x22]
               (str_replace [CHR 0x5C, CHR ''t''] [CHR 0x09]
                 (str_replace [CHR 0x5C, CHR ''n''] [CHR 0x0A] inner))
         in expand unescaped vs)
      else expand (trim (before_or_all (split_once_str '' #'' raw) raw)) vs)"

text \<open>One line of a file: \<open>None\<close> for a line without an entry.\<close>

definition parse_line :: "string \<Rightarrow> vars \<Rightarrow> (string \<times> string) option" where
  "parse_line raw acc =
     (let line = trim_start raw in
      if line = [] \<or> hd line = CHR ''#'' then None
      else let line' = (case strip_prefix ''export '' line of Some r \<Rightarrow> r | None \<Rightarrow> line) in
        (case split_once CHR ''='' line' of
           None \<Rightarrow> None
         | Some (key, rest) \<Rightarrow>
             (let key' = trim key in
              if key' = [] then None else Some (key', parse_value (trim rest) acc))))"

fun parse_lines :: "string list \<Rightarrow> vars \<Rightarrow> (string \<times> string) list" where
  "parse_lines [] acc = []"
| "parse_lines (l # ls) acc =
     (case parse_line l acc of
        None \<Rightarrow> parse_lines ls acc
      | Some (k, v) \<Rightarrow> (k, v) # parse_lines ls (fmupd k v acc))"

definition parse_env :: "string \<Rightarrow> vars \<Rightarrow> (string \<times> string) list" where
  "parse_env contents base = parse_lines (str_lines contents) base"

definition path_join :: "path \<Rightarrow> path \<Rightarrow> path" where
  "path_join dir p = (if p \<noteq> [] \<and> hd p = RootDir then p else dir @ p)"

definition env_files :: "path \<Rightarrow> string \<Rightarrow> path list" where
  "env_files dir mode =
     map (\<lambda>s. path_join dir (path_new s)) [''.env'', ''.env.local'', ''.env.'' @ mode, ''.env.'' @ mode @ ''.local'']"

definition insert_all :: "(string \<times> string) list \<Rightarrow> vars \<Rightarrow> vars" where
  "insert_all kvs m = fold (\<lambda>(k, v) m. fmupd k v m) kvs m"

record env =
  env_vars :: "(string \<times> string) list"
  knob_node_env :: "string option"

fun load_files :: "(path \<Rightarrow> string option) \<Rightarrow> path list \<Rightarrow> vars \<Rightarrow> vars \<Rightarrow> vars" where
  "load_files read [] base merged = merged"
| "load_files read (f # fs) base merged =
     (case read f of
        None \<Rightarrow> load_files read fs base merged
      | Some contents \<Rightarrow>
          (let kvs = parse_env contents base
           in load_files read fs (insert_all kvs base) (insert_all kvs merged)))"

definition load_with :: "(path \<Rightarrow> string option) \<Rightarrow> env \<Rightarrow> path \<Rightarrow> string \<Rightarrow> (string \<times> string) list" where
  "load_with read e dir mode =
     sorted_entries (load_files read (env_files dir mode) (insert_all (env_vars e) fmempty) fmempty)"

section \<open>Defines\<close>

definition has_prefix :: "string \<Rightarrow> string list \<Rightarrow> bool" where
  "has_prefix key prefixes \<longleftrightarrow> list_ex (\<lambda>p. starts_with p key) prefixes"

definition with_process_env ::
  "(string \<times> string) list \<Rightarrow> (string \<times> string) list \<Rightarrow> string list \<Rightarrow> (string \<times> string) list" where
  "with_process_env loaded process prefixes =
     sorted_entries (insert_all (filter (\<lambda>(k, v). has_prefix k prefixes) process) (insert_all loaded fmempty))"

definition resolve_node_env :: "string option \<Rightarrow> (string \<times> string) list \<Rightarrow> string \<Rightarrow> string" where
  "resolve_node_env shell loaded dflt =
     (if (case shell of Some v \<Rightarrow> v \<noteq> [] | None \<Rightarrow> False) then the shell
      else (case find (\<lambda>(k, _). k = ''NODE_ENV'') loaded of
              Some (_, v) \<Rightarrow> if v = ''development'' then v else dflt
            | None \<Rightarrow> dflt))"

datatype json_value = JString string | JBool bool

text \<open>\<^verbatim>\<open>Map::insert\<close>: a new key goes to the end, an old one keeps its place.\<close>

fun obj_insert :: "string \<Rightarrow> json_value \<Rightarrow> (string \<times> json_value) list \<Rightarrow> (string \<times> json_value) list" where
  "obj_insert k v [] = [(k, v)]"
| "obj_insert k v ((k', v') # rest) = (if k' = k then (k, v) # rest else (k', v') # obj_insert k v rest)"

definition meta_env_object ::
  "(string \<times> string) list \<Rightarrow> string \<Rightarrow> bool \<Rightarrow> string \<Rightarrow> string list \<Rightarrow> bool \<Rightarrow> (string \<times> json_value) list" where
  "meta_env_object loaded mode dev base_url prefixes ssr =
     fold (\<lambda>(k, v) obj. if has_prefix k prefixes then obj_insert k (JString v) obj else obj) loaded
       [(''MODE'', JString mode), (''BASE_URL'', JString base_url), (''DEV'', JBool dev),
        (''PROD'', JBool (\<not> dev)), (''SSR'', JBool ssr)]"

definition import_meta_env_defines_with ::
  "(json_value \<Rightarrow> string) \<Rightarrow> ((string \<times> json_value) list \<Rightarrow> string) \<Rightarrow> (string \<times> string) list \<Rightarrow> string \<Rightarrow> bool
     \<Rightarrow> string \<Rightarrow> string list \<Rightarrow> bool \<Rightarrow> (string \<times> string) list" where
  "import_meta_env_defines_with to_json obj_json loaded mode dev base_url prefixes ssr =
     (let obj = meta_env_object loaded mode dev base_url prefixes ssr in
      map (\<lambda>(k, v). (''import.meta.env.'' @ k, to_json v)) obj @ [(''import.meta.env'', obj_json obj)])"

record app_env =
  app_mode :: string
  app_loaded :: "(string \<times> string) list"
  app_prefixes :: "string list"
  app_node_env :: string

definition resolve_app ::
  "(path \<Rightarrow> string option) \<Rightarrow> env \<Rightarrow> path \<Rightarrow> string \<Rightarrow> string list \<Rightarrow> string \<Rightarrow> app_env" where
  "resolve_app read e dir mode prefixes dflt =
     (let loaded = load_with read e dir mode in
      \<lparr>app_mode = mode, app_loaded = loaded, app_prefixes = prefixes,
       app_node_env = resolve_node_env (knob_node_env e) loaded dflt\<rparr>)"

definition is_production :: "app_env \<Rightarrow> bool" where
  "is_production a \<longleftrightarrow> app_node_env a = ''production''"

definition exposed_vars :: "app_env \<Rightarrow> env \<Rightarrow> (string \<times> string) list \<Rightarrow> (string \<times> string) list" where
  "exposed_vars a e delta = with_process_env (app_loaded a) (env_vars e @ delta) (app_prefixes a)"

definition app_defines ::
  "(json_value \<Rightarrow> string) \<Rightarrow> ((string \<times> json_value) list \<Rightarrow> string) \<Rightarrow> app_env \<Rightarrow> env \<Rightarrow> (string \<times> string) list
     \<Rightarrow> string \<Rightarrow> bool \<Rightarrow> (string \<times> string) list" where
  "app_defines to_json obj_json a e delta base_url ssr =
     import_meta_env_defines_with to_json obj_json (exposed_vars a e delta) (app_mode a)
       (\<not> is_production a) base_url (app_prefixes a) ssr"

section \<open>Placeholders\<close>

datatype json_read = ReadString string | ReadOther string | ReadError

text \<open>\<open>from_json\<close> reads a text: a string literal, another value (rendered again), or an error.\<close>

definition html_env_map :: "(string \<Rightarrow> json_read) \<Rightarrow> (string \<times> string) list \<Rightarrow> vars" where
  "html_env_map from_json defines =
     fold (\<lambda>(k, v) m.
         case strip_prefix ''import.meta.env.'' k of
           None \<Rightarrow> m
         | Some name \<Rightarrow>
             fmupd name (case from_json v of ReadString s \<Rightarrow> s | ReadOther t \<Rightarrow> t | ReadError \<Rightarrow> v) m)
       defines fmempty"

text \<open>The UTF-8 encodings of the characters of JavaScript's whitespace class.\<close>

definition js_whitespace :: "string list" where
  "js_whitespace =
     [[CHR 0x09], [CHR 0x0A], [CHR 0x0B],
      [CHR 0x0C], [CHR 0x0D], [CHR 0x20],
      [CHR 0xC2, CHR 0xA0], [CHR 0xE1, CHR 0x9A, CHR 0x80], [CHR 0xE2, CHR 0x80, CHR 0xA8],
      [CHR 0xE2, CHR 0x80, CHR 0xA9], [CHR 0xE2, CHR 0x80, CHR 0xAF], [CHR 0xE2, CHR 0x81, CHR 0x9F],
      [CHR 0xE3, CHR 0x80, CHR 0x80], [CHR 0xEF, CHR 0xBB, CHR 0xBF], [CHR 0xE2, CHR 0x80, CHR 0x80],
      [CHR 0xE2, CHR 0x80, CHR 0x81], [CHR 0xE2, CHR 0x80, CHR 0x82], [CHR 0xE2, CHR 0x80, CHR 0x83],
      [CHR 0xE2, CHR 0x80, CHR 0x84], [CHR 0xE2, CHR 0x80, CHR 0x85], [CHR 0xE2, CHR 0x80, CHR 0x86],
      [CHR 0xE2, CHR 0x80, CHR 0x87], [CHR 0xE2, CHR 0x80, CHR 0x88], [CHR 0xE2, CHR 0x80, CHR 0x89],
      [CHR 0xE2, CHR 0x80, CHR 0x8A]]"

text \<open>
  The scan for the closing percent sign after an opener: the key and the rest; \<open>first\<close> holds for the
  byte straight after the opener.
\<close>

fun find_close :: "bool \<Rightarrow> string \<Rightarrow> (string \<times> string) option" where
  "find_close first [] = None"
| "find_close first (c # cs) =
     (if c = CHR ''%'' \<and> \<not> first then Some ([], cs)
      else if c \<noteq> CHR ''%'' \<and> strip_any js_whitespace (c # cs) \<noteq> None then None
      else map_option (map_prod (Cons c) id) (find_close False cs))"

lemma find_close_sound: "find_close first s = Some (key, rest) \<Longrightarrow> s = key @ CHR ''%'' # rest"
  by (induction first s arbitrary: key rule: find_close.induct) (auto split: if_splits)

function replace_loop :: "vars \<Rightarrow> string \<Rightarrow> string" where
  "replace_loop e rest =
     (case split_once CHR ''%'' rest of
        None \<Rightarrow> rest
      | Some (before, s) \<Rightarrow>
          before @
          (case find_close True s of
             None \<Rightarrow> CHR ''%'' # replace_loop e s
           | Some (key, rest') \<Rightarrow>
               (case fmlookup e key of Some val \<Rightarrow> val | None \<Rightarrow> CHR ''%'' # key @ ''%'') @ replace_loop e rest'))"
  by auto
termination
  by (relation "measure (\<lambda>(e, s). length s)") (auto simp: split_once_iff dest!: find_close_sound)

declare replace_loop.simps [simp del]

definition replace_html_env :: "string \<Rightarrow> vars \<Rightarrow> string" where
  "replace_html_env html e =
     (if e = fmempty \<or> CHR ''%'' \<notin> set html then html else replace_loop e html)"

section \<open>Bounds\<close>

lemma length_expand_loop: "length (expand_loop vs budget s) \<le> length s + budget"
proof (induction vs budget s rule: expand_loop.induct)
  case (1 vs budget s)
  show ?case
  proof (cases s)
    case Nil
    then show ?thesis by (simp add: expand_loop.simps)
  next
    case (Cons c cs)
    consider (esc) "c = CHR 0x5C \<and> cs \<noteq> [] \<and> hd cs = CHR ''$''"
      | (ref) name rest where "\<not> (c = CHR 0x5C \<and> cs \<noteq> [] \<and> hd cs = CHR ''$'')"
          "(if c = CHR ''$'' then reference cs else None) = Some (name, rest)"
      | (plain) "\<not> (c = CHR 0x5C \<and> cs \<noteq> [] \<and> hd cs = CHR ''$'')"
          "(if c = CHR ''$'' then reference cs else None) = None"
      by (cases "if c = CHR ''$'' then reference cs else None") force+
    then show ?thesis
    proof cases
      case esc
      have "length (expand_loop vs budget (tl cs)) \<le> length (tl cs) + budget"
        by (rule "1.IH"(1) [OF Cons esc])
      with esc show ?thesis unfolding Cons by (subst expand_loop.simps) simp
    next
      case ref
      let ?val = "case fmlookup vs name of Some v \<Rightarrow> v | None \<Rightarrow> []"
      from ref have "length rest < length cs" by (auto dest: reference_length split: if_splits)
      moreover have "length (expand_loop vs (budget - length ?val) rest) \<le> length rest + (budget - length ?val)"
        if "\<not> budget < length ?val"
        by (rule "1.IH"(3) [OF Cons ref refl refl that])
      ultimately show ?thesis
        unfolding Cons expand_loop.simps [of vs budget "c # cs"] list.case if_not_P [OF ref(1)] ref(2)
          option.case prod.case Let_def
        by (cases "budget < length ?val") simp_all
    next
      case plain
      have "length (expand_loop vs budget cs) \<le> length cs + budget"
        by (rule "1.IH"(2) [OF Cons plain])
      then show ?thesis
        unfolding Cons expand_loop.simps [of vs budget "c # cs"] list.case if_not_P [OF plain(1)] plain(2)
          option.case by simp
    qed
  qed
qed

lemma length_expand: "length (expand s vs) \<le> length s + expansion_cap"
  by (simp add: expand_def length_expand_loop)

lemma length_before_or_all:
  "(\<And>a b. r = Some (a, b) \<Longrightarrow> length a \<le> length s) \<Longrightarrow> length (before_or_all r s) \<le> length s"
  by (cases r) (auto simp: before_or_all_def)

lemma length_parse_value: "length (parse_value raw vs) \<le> length raw + expansion_cap"
proof -
  let ?u = "\<lambda>s. str_replace [CHR 0x5C, CHR 0x22] [CHR 0x22]
    (str_replace [CHR 0x5C, CHR ''t''] [CHR 0x09] (str_replace [CHR 0x5C, CHR ''n''] [CHR 0x0A] s))"
  have once: "length (before_or_all (split_once c t) t) \<le> length t" for c t
    by (rule length_before_or_all) (auto simp: split_once_iff)
  have once_str: "length (before_or_all (split_once_str p t) t) \<le> length t" for p t
    by (rule length_before_or_all) (auto dest: split_once_str_sound)
  have step: "length (str_replace [a, b] [c] t) \<le> length t" for a b c t
    by (rule length_str_replace_le) simp
  have u: "length (?u s) \<le> length s" for s
    by (rule order_trans [OF step order_trans [OF step step]])
  have tl: "length (tl raw) \<le> length raw" by simp
  show ?thesis
    unfolding parse_value_def Let_def
    using once [of "CHR 0x27" "tl raw"] once [of "CHR 0x22" "tl raw"] once_str [of "'' #''" raw] tl
      u [of "before_or_all (split_once CHR 0x22 (tl raw)) (tl raw)"]
      length_trim [of "before_or_all (split_once_str '' #'' raw) raw"]
      length_expand [of "?u (before_or_all (split_once CHR 0x22 (tl raw)) (tl raw))" vs]
      length_expand [of "trim (before_or_all (split_once_str '' #'' raw) raw)" vs]
    by (auto simp del: length_tl length_trim)
qed

lemma length_parse_line:
  assumes "parse_line raw acc = Some (k, v)"
  shows "length v \<le> length raw + expansion_cap"
proof -
  let ?line = "trim_start raw"
  let ?line' = "case strip_prefix ''export '' ?line of Some r \<Rightarrow> r | None \<Rightarrow> ?line"
  from assms obtain key rest where split: "split_once CHR ''='' ?line' = Some (key, rest)"
    and v: "v = parse_value (trim rest) acc"
    by (auto simp: parse_line_def Let_def split: if_splits option.splits)
  have "length ?line' \<le> length ?line"
    by (auto simp: strip_prefix_iff split: option.splits)
  moreover have "length rest \<le> length ?line'" using split by (auto simp: split_once_iff)
  ultimately have "length (trim rest) \<le> length raw"
    using length_trim [of rest] length_trim_start [of raw] by linarith
  then show ?thesis unfolding v using length_parse_value [of "trim rest" acc] by linarith
qed

lemma length_parse_lines:
  "(k, v) \<in> set (parse_lines ls acc) \<Longrightarrow> \<exists>l \<in> set ls. length v \<le> length l + expansion_cap"
  by (induction ls acc rule: parse_lines.induct)
    (fastforce split: option.splits prod.splits dest: length_parse_line)+

section \<open>Lookups\<close>

lemma fmlookup_insert_all:
  "fmlookup (insert_all kvs m) k = (case map_of (rev kvs) k of Some v \<Rightarrow> Some v | None \<Rightarrow> fmlookup m k)"
  unfolding insert_all_def
  by (induction kvs arbitrary: m) (auto simp: map_add_def split: option.splits)

lemma map_of_sorted_entries: "map_of (sorted_entries m) k = fmlookup m k"
proof (cases "fmlookup m k")
  case None
  then show ?thesis
    using sorted_map.set_iter [of m] by (auto simp: map_of_eq_None_iff)
next
  case (Some v)
  then show ?thesis
    by (simp add: map_of_eq_Some_iff [OF sorted_map.distinct_iter])
qed

lemma map_of_rev_filter:
  "map_of (rev (filter (\<lambda>(k, v). P k) kvs)) k = (if P k then map_of (rev kvs) k else None)"
  by (induction kvs) (auto simp: map_add_def split: option.splits)

lemma fst_obj_insert: "fst ` set (obj_insert k v obj) = insert k (fst ` set obj)"
  by (induction k v obj rule: obj_insert.induct) auto

lemma fst_fold_obj_insert:
  "fst ` set (fold (\<lambda>(k, v) obj. if P k then obj_insert k (f v) obj else obj) kvs obj)
     \<subseteq> fst ` set obj \<union> {k. P k}"
proof (induction kvs arbitrary: obj)
  case (Cons kv kvs)
  obtain k v where kv: "kv = (k, v)" by force
  show ?case
    using Cons.IH [of "if P k then obj_insert k (f v) obj else obj"] kv
    by (auto simp: fst_obj_insert split: if_splits)
qed simp

definition builtin_keys :: "string set" where
  "builtin_keys = {''MODE'', ''BASE_URL'', ''DEV'', ''PROD'', ''SSR''}"

lemma fst_meta_env_object:
  "fst ` set (meta_env_object loaded mode dev base prefixes ssr) \<subseteq> builtin_keys \<union> {k. has_prefix k prefixes}"
  using fst_fold_obj_insert [of "\<lambda>k. has_prefix k prefixes" JString loaded]
  unfolding meta_env_object_def builtin_keys_def by fastforce

section \<open>Placeholders that name no variable\<close>

lemma replace_loop_unknown:
  assumes "\<And>k a b. k \<in> fset (fmdom e) \<Longrightarrow> s \<noteq> a @ CHR ''%'' # k @ CHR ''%'' # b"
  shows "replace_loop e s = s"
  using assms
proof (induction e s rule: replace_loop.induct)
  case (1 e s)
  show ?case
  proof (cases "split_once CHR ''%'' s")
    case None
    then show ?thesis by (simp add: replace_loop.simps)
  next
    case (Some bs)
    obtain b t where bs: "bs = (b, t)" by force
    with Some have s: "s = b @ CHR ''%'' # t" by (simp add: split_once_iff)
    show ?thesis
    proof (cases "find_close True t")
      case None
      have "replace_loop e t = t"
      proof (rule "1.IH"(1) [OF Some bs [symmetric] None])
        fix k u v assume "k \<in> fset (fmdom e)"
        with "1.prems" [of k "b @ CHR ''%'' # u" v] s show "t \<noteq> u @ CHR ''%'' # k @ CHR ''%'' # v" by auto
      qed
      with None Some bs show ?thesis unfolding s by (simp add: replace_loop.simps [of e "b @ CHR ''%'' # t"])
    next
      case found: (Some kr)
      obtain k r where kr: "kr = (k, r)" by force
      with found have t: "t = k @ CHR ''%'' # r" by (auto dest: find_close_sound)
      have "k \<notin> fset (fmdom e)" using "1.prems" [of k b r] s t by auto
      then have none: "fmlookup e k = None" by (simp add: fmdom_notD)
      have "replace_loop e r = r"
      proof (rule "1.IH"(2) [OF Some bs [symmetric] found kr [symmetric]])
        fix k' u v assume "k' \<in> fset (fmdom e)"
        with "1.prems" [of k' "b @ CHR ''%'' # k @ CHR ''%'' # u" v] s t
        show "r \<noteq> u @ CHR ''%'' # k' @ CHR ''%'' # v" by auto
      qed
      with found kr none Some bs show ?thesis
        unfolding s t by (simp add: replace_loop.simps [of e "b @ CHR ''%'' # k @ CHR ''%'' # r"])
    qed
  qed
qed

text \<open>A key without whitespace or percent signs is read up to its closing percent sign.\<close>

definition plain_key :: "string \<Rightarrow> bool" where
  "plain_key k \<longleftrightarrow> k \<noteq> [] \<and> list_all (\<lambda>c. byte_in 33 126 c \<and> c \<noteq> CHR ''%'') k"

lemma js_whitespace_bytes: "list_all (\<lambda>w. w \<noteq> [] \<and> \<not> byte_in 33 126 (hd w)) js_whitespace"
  by code_simp

lemma strip_any_plain:
  assumes "byte_in 33 126 c"
  shows "strip_any js_whitespace (c # cs) = None"
proof -
  have "strip_any ws (c # cs) = None" if "list_all (\<lambda>w. w \<noteq> [] \<and> \<not> byte_in 33 126 (hd w)) ws" for ws
    using that
  proof (induction ws)
    case (Cons w ws)
    then obtain d w' where "w = d # w'" "\<not> byte_in 33 126 d" by (cases w) auto
    with Cons assms show ?case by auto
  qed simp
  then show ?thesis using js_whitespace_bytes by blast
qed

lemma find_close_plain:
  "list_all (\<lambda>c. byte_in 33 126 c \<and> c \<noteq> CHR ''%'') k \<Longrightarrow> (first \<Longrightarrow> k \<noteq> []) \<Longrightarrow>
     find_close first (k @ CHR ''%'' # r) = Some (k, r)"
  by (induction k arbitrary: first) (auto simp: strip_any_plain)


section \<open>Properties\<close>

text \<open>
  A \<^verbatim>\<open>.env\<close> file cannot blow up through references: every value it defines is at most as long as
  the file plus the expansion cap of 128 KiB, whatever the variables before it hold.
\<close>

theorem env_values_bounded:
  assumes "(k, v) \<in> set (parse_env contents base)"
  shows "length v \<le> length contents + 131072"
proof -
  from assms obtain l where "l \<in> set (str_lines contents)" "length v \<le> length l + expansion_cap"
    unfolding parse_env_def using length_parse_lines by blast
  then show ?thesis using length_str_line [of l contents] by (simp add: expansion_cap_def)
qed

theorem env_values_bounded_witness:
  "length ''x'' \<le> length [CHR ''A'', CHR ''='', CHR 0x27, CHR ''x'', CHR 0x27] + 131072"
proof -
  have ls: "str_lines [CHR ''A'', CHR ''='', CHR 0x27, CHR ''x'', CHR 0x27]
      = [[CHR ''A'', CHR ''='', CHR 0x27, CHR ''x'', CHR 0x27]]"
    by code_simp
  have ts: "trim_start [CHR ''A'', CHR ''='', CHR 0x27, CHR ''x'', CHR 0x27]
      = [CHR ''A'', CHR ''='', CHR 0x27, CHR ''x'', CHR 0x27]"
    by code_simp
  have tk: "trim [CHR ''A''] = [CHR ''A'']" by code_simp
  have tv: "trim [CHR 0x27, CHR ''x'', CHR 0x27] = [CHR 0x27, CHR ''x'', CHR 0x27]" by code_simp
  have "(''A'', ''x'') \<in> set (parse_env [CHR ''A'', CHR ''='', CHR 0x27, CHR ''x'', CHR 0x27] fmempty)"
    by (simp add: parse_env_def ls parse_line_def ts tk tv parse_value_def before_or_all_def)
  then show ?thesis by (rule env_values_bounded)
qed

text \<open>
  C13: only what is meant for the client reaches it: every define, and every key of the
  \<^verbatim>\<open>import.meta.env\<close> object, is a built-in or starts with one of the configured prefixes.
\<close>

theorem only_prefixed_vars_reach_client:
  "fst ` set (app_defines to_json obj_json a e delta base_url ssr) \<subseteq>
     insert ''import.meta.env''
       ((@) ''import.meta.env.'' ` (builtin_keys \<union> {k. has_prefix k (app_prefixes a)})) \<and>
   fst ` set (meta_env_object (exposed_vars a e delta) (app_mode a) (\<not> is_production a) base_url
       (app_prefixes a) ssr) \<subseteq> builtin_keys \<union> {k. has_prefix k (app_prefixes a)}"
proof -
  let ?obj = "meta_env_object (exposed_vars a e delta) (app_mode a) (\<not> is_production a) base_url (app_prefixes a) ssr"
  have eq: "fst ` set (app_defines to_json obj_json a e delta base_url ssr) =
      insert ''import.meta.env'' ((@) ''import.meta.env.'' ` fst ` set ?obj)"
    unfolding app_defines_def import_meta_env_defines_with_def Let_def
    by (simp add: image_image case_prod_beta)
  show ?thesis
    unfolding eq by (intro conjI insert_mono image_mono fst_meta_env_object)
qed

text \<open>
  Precedence. For a prefixed variable the last plugin change wins, then the process environment,
  then the \<^verbatim>\<open>.env\<close> files; a variable without the prefix is what the files say.
\<close>

theorem exposed_vars_precedence:
  "map_of (exposed_vars a e delta) k =
     (if has_prefix k (app_prefixes a) then
        (case map_of (rev delta) k of
           Some v \<Rightarrow> Some v
         | None \<Rightarrow>
             (case map_of (rev (env_vars e)) k of
                Some v \<Rightarrow> Some v
              | None \<Rightarrow> map_of (rev (app_loaded a)) k))
      else map_of (rev (app_loaded a)) k)"
  unfolding exposed_vars_def with_process_env_def map_of_sorted_entries fmlookup_insert_all
    map_of_rev_filter [where P = "\<lambda>k. has_prefix k (app_prefixes a)"]
  by (auto simp: map_add_def split: option.splits)

text \<open>
  Placeholders. A page in which no variable's placeholder occurs is served as it is, and in a page
  whose first percent sign opens the placeholder of a plainly named variable it is replaced by the
  value, the rest of the page being treated the same way.
\<close>

theorem html_placeholders_replaced:
  assumes "\<And>k a b. k \<in> fset (fmdom e) \<Longrightarrow> html \<noteq> a @ CHR ''%'' # k @ CHR ''%'' # b"
    and "CHR ''%'' \<notin> set pre" and "plain_key key" and "fmlookup e' key = Some val"
  shows "replace_html_env html e = html \<and>
     replace_html_env (pre @ CHR ''%'' # key @ CHR ''%'' # post) e' = pre @ val @ replace_html_env post e'"
proof -
  have ne: "e' \<noteq> fmempty" using assms(4) by auto
  have rest: "replace_html_env post e' = replace_loop e' post"
    using ne by (auto simp: replace_html_env_def replace_loop.simps [of e' post] split_once_None_iff [THEN iffD2])
  have "find_close True (key @ CHR ''%'' # post) = Some (key, post)"
    using assms(3) by (intro find_close_plain) (auto simp: plain_key_def)
  then have "replace_loop e' (pre @ CHR ''%'' # key @ CHR ''%'' # post) = pre @ val @ replace_loop e' post"
    using assms(2,4)
    by (simp add: replace_loop.simps [of e' "pre @ CHR ''%'' # key @ CHR ''%'' # post"] split_once_append)
  with ne rest replace_loop_unknown [OF assms(1)] show ?thesis by (simp add: replace_html_env_def)
qed

theorem html_placeholders_replaced_witness:
  "replace_html_env ''<p>%MODE%</p>'' (fmupd ''MODE'' ''dev'' fmempty) = ''<p>dev</p>''"
proof -
  have "plain_key ''MODE''" by code_simp
  moreover have "replace_html_env ''</p>'' (fmupd ''MODE'' ''dev'' fmempty) = ''</p>''" by code_simp
  ultimately show ?thesis
    using html_placeholders_replaced [of fmempty "[]" "''<p>''" "''MODE''" "fmupd ''MODE'' ''dev'' fmempty" "''dev''" "''</p>''"]
    by simp
qed

end
