(* ===== verification/Stylex_Hash.thy ===== *)
theory Stylex_Hash
  imports Std_Str
begin

unbundle bit_operations_syntax

text \<open>
  The hashes of the StyleX compiler: the murmur2 of class names with its two renderings
  (\<^verbatim>\<open>crates/oj_stylex/src/hash.rs\<close>) and the FxHasher of its internal maps (\<^verbatim>\<open>fxhash.rs\<close>).

  A string is its UTF-8 bytes; \<open>utf16_units\<close> re-encodes it, as \<^verbatim>\<open>encode_utf16\<close> does, for the inputs that are
  not ASCII. Hash words are \<open>u32\<close> and \<open>u64\<close>, whose \<open>*\<close> is \<^verbatim>\<open>wrapping_mul\<close>.
\<close>

section \<open>Murmur\<close>

definition murmur_m :: u32 where
  "murmur_m = 0x5bd1e995"

text \<open>The rounds over the low bytes of the units, and the tail of fewer than four.\<close>

fun murmur_rounds :: "u32 \<Rightarrow> u32 list \<Rightarrow> u32" where
  "murmur_rounds h (a # b # c # d # rest) =
     (let k = a OR push_bit 8 b OR push_bit 16 c OR push_bit 24 d;
          k = k * murmur_m;
          k = k XOR drop_bit 24 k;
          k = k * murmur_m
      in murmur_rounds ((h * murmur_m) XOR k) rest)"
| "murmur_rounds h [a, b, c] = (((h XOR push_bit 16 c) XOR push_bit 8 b) XOR a) * murmur_m"
| "murmur_rounds h [a, b] = ((h XOR push_bit 8 b) XOR a) * murmur_m"
| "murmur_rounds h [a] = (h XOR a) * murmur_m"
| "murmur_rounds h [] = h"

definition murmur2_32_units :: "u32 list \<Rightarrow> u32 \<Rightarrow> u32" where
  "murmur2_32_units low_bytes seed =
     (let h = murmur_rounds (seed XOR of_nat (length low_bytes)) low_bytes;
          h = h XOR drop_bit 13 h;
          h = h * murmur_m
      in h XOR drop_bit 15 h)"

text \<open>The UTF-16 code units of a UTF-8 string; an astral character is a surrogate pair.\<close>

fun utf16_units :: "string \<Rightarrow> nat list" where
  "utf16_units [] = []"
| "utf16_units (a # s) =
     (let x = of_char a in
      if x < 0x80 then x # utf16_units s
      else (case s of
          b # s1 \<Rightarrow>
            let y = of_char b mod 64 in
            if x < 0xE0 then (x mod 32 * 64 + y) # utf16_units s1
            else (case s1 of
                c # s2 \<Rightarrow>
                  let z = of_char c mod 64 in
                  if x < 0xF0 then (x mod 16 * 4096 + y * 64 + z) # utf16_units s2
                  else (case s2 of
                      d # s3 \<Rightarrow>
                        let v = x mod 8 * 262144 + y * 4096 + z * 64 + of_char d mod 64 - 0x10000 in
                        (0xD800 + v div 1024) # (0xDC00 + v mod 1024) # utf16_units s3
                    | [] \<Rightarrow> [])
              | [] \<Rightarrow> [])
        | [] \<Rightarrow> []))"

definition is_ascii :: "string \<Rightarrow> bool" where
  "is_ascii s \<longleftrightarrow> list_all (\<lambda>c. of_char c < (0x80 :: nat)) s"

definition ascii_units :: "string \<Rightarrow> u32 list" where
  "ascii_units s = map (\<lambda>c. of_nat (of_char c)) s"

definition utf16_low_bytes :: "string \<Rightarrow> u32 list" where
  "utf16_low_bytes s = map (\<lambda>u. of_nat u AND 0xff) (utf16_units s)"

definition murmur2_32_gc :: "string \<Rightarrow> u32 \<Rightarrow> u32" where
  "murmur2_32_gc input seed =
     (if is_ascii input then murmur2_32_units (ascii_units input) seed
      else murmur2_32_units (utf16_low_bytes input) seed)"

section \<open>Renderings\<close>

text \<open>The digits of a loop that divides until nothing is left, the most significant first.\<close>

fun base_digits :: "nat \<Rightarrow> nat \<Rightarrow> nat list" where
  "base_digits b n = (if n = 0 \<or> b < 2 then [] else base_digits b (n div b) @ [n mod b])"

declare base_digits.simps [simp del]

definition digits36 :: string where
  "digits36 = ''0123456789abcdefghijklmnopqrstuvwxyz''"

definition digits62 :: string where
  "digits62 = ''0123456789ABCDEFGHIJKLMNOPQRSTUVWXYZabcdefghijklmnopqrstuvwxyz''"

text \<open>
  \<^verbatim>\<open>to_base36\<close> fills a buffer of seven bytes from its end; \<open>None\<close> is the panic of an index below its
  start.
\<close>

definition to_base36 :: "u32 \<Rightarrow> string option" where
  "to_base36 n =
     (if n = 0 then Some ''0''
      else (let ds = base_digits 36 (unat n) in
            if length ds \<le> 7 then Some (map (\<lambda>d. digits36 ! d) ds) else None))"

definition hash :: "string \<Rightarrow> string option" where
  "hash s = to_base36 (murmur2_32_gc s 1)"

definition short_hash_number :: "string \<Rightarrow> u32" where
  "short_hash_number s = murmur2_32_gc s 1 mod 916132832"

definition create_short_hash :: "string \<Rightarrow> string" where
  "create_short_hash s = map (\<lambda>d. digits62 ! d) (base_digits 62 (unat (short_hash_number s)))"

section \<open>FxHasher\<close>

definition fx_seed :: u64 where
  "fx_seed = 0x517cc1b727220a95"

definition fx_add :: "u64 \<Rightarrow> u64 \<Rightarrow> u64" where
  "fx_add word h = (word_rotl 5 h XOR word) * fx_seed"

text \<open>\<^verbatim>\<open>u64::from_le_bytes\<close>; a short tail is padded with zero bytes.\<close>

fun from_le_bytes :: "nat list \<Rightarrow> u64" where
  "from_le_bytes [] = 0"
| "from_le_bytes (b # bs) = of_nat b + 256 * from_le_bytes bs"

fun fx_write :: "nat list \<Rightarrow> u64 \<Rightarrow> u64" where
  "fx_write (a # b # c # d # e # f # g # h # rest) w =
     fx_write rest (fx_add (from_le_bytes [a, b, c, d, e, f, g, h]) w)"
| "fx_write [] w = w"
| "fx_write tail w = fx_add (from_le_bytes tail) w"

section \<open>Lemmas\<close>

lemma base_digits_0 [simp]: "base_digits b 0 = []"
  by (simp add: base_digits.simps)

lemma length_base_digits: "2 \<le> b \<Longrightarrow> n < b ^ k \<Longrightarrow> length (base_digits b n) \<le> k"
proof (induction k arbitrary: n)
  case 0
  then show ?case by (simp add: base_digits.simps [of b n])
next
  case (Suc k)
  then have "n div b < b ^ k" by (simp add: less_mult_imp_div_less mult.commute)
  with Suc show ?case by (simp add: base_digits.simps [of b n])
qed

lemma base_digits_less: "2 \<le> b \<Longrightarrow> d \<in> set (base_digits b n) \<Longrightarrow> d < b"
proof (induction b n rule: base_digits.induct)
  case (1 b n)
  then show ?case by (cases "n = 0") (auto simp: base_digits.simps [of b n])
qed

lemma base_digits_inject: "2 \<le> b \<Longrightarrow> base_digits b m = base_digits b n \<Longrightarrow> m = n"
proof (induction b m arbitrary: n rule: base_digits.induct)
  case (1 b m)
  show ?case
  proof (cases "m = 0 \<or> n = 0")
    case True
    with "1.prems" show ?thesis
      by (auto simp: base_digits.simps [of b m] base_digits.simps [of b n] split: if_splits)
  next
    case False
    with "1.prems" have "base_digits b (m div b) = base_digits b (n div b)" "m mod b = n mod b"
      by (simp_all add: base_digits.simps [of b m] base_digits.simps [of b n])
    moreover from this(1) "1" False have "m div b = n div b" by simp
    ultimately show ?thesis by (metis div_mult_mod_eq)
  qed
qed

lemma distinct_digits: "distinct digits36" "length digits36 = 36" "distinct digits62" "length digits62 = 62"
  by (simp_all add: digits36_def digits62_def)

lemma map_digits_inject:
  assumes "distinct ds" and "\<And>d. d \<in> set xs \<union> set ys \<Longrightarrow> d < length ds"
    and "map (\<lambda>d. ds ! d) xs = map (\<lambda>d. ds ! d) ys"
  shows "xs = ys"
proof (rule inj_on_map_eq_map [THEN iffD1, OF _ assms(3)])
  show "inj_on (\<lambda>d. ds ! d) (set xs \<union> set ys)"
    using assms(1,2) by (auto simp: inj_on_def nth_eq_iff_index_eq)
qed

lemma utf16_units_ascii: "is_ascii s \<Longrightarrow> utf16_units s = map of_char s"
  by (induction s) (simp_all add: is_ascii_def Let_def)

lemma low_byte_ascii: "n < 0x80 \<Longrightarrow> (of_nat n :: u32) AND 0xff = of_nat n"
proof -
  assume n: "n < 0x80"
  have "(0xff :: u32) = mask 8" by (simp add: mask_eq_exp_minus_1)
  then have "(of_nat n :: u32) AND 0xff = take_bit 8 (of_nat n)" by (simp add: take_bit_eq_mask)
  also have "\<dots> = of_nat (take_bit 8 n)" by (simp add: take_bit_of_nat)
  also have "take_bit 8 n = n" using n by (simp add: take_bit_nat_eq_self)
  finally show ?thesis .
qed

lemma of_char_less_256: "of_char c < (256 :: nat)"
  by (metis of_char_of of_char_mod_256 mod_less_divisor zero_less_numeral)

lemma fx_write_append:
  "length xs mod 8 = 0 \<Longrightarrow> fx_write (xs @ ys) w = fx_write ys (fx_write xs w)"
  by (induction xs w rule: fx_write.induct) auto


section \<open>Properties\<close>

text \<open>
  The fast path for ASCII input computes the same hash as the re-encoding it avoids, for every
  seed.
\<close>

theorem ascii_fast_path:
  "murmur2_32_gc s seed = murmur2_32_units (utf16_low_bytes s) seed"
proof (cases "is_ascii s")
  case True
  then have "utf16_low_bytes s = ascii_units s"
    by (auto simp: utf16_low_bytes_def ascii_units_def utf16_units_ascii low_byte_ascii is_ascii_def list_all_iff)
  with True show ?thesis by (simp add: murmur2_32_gc_def)
qed (simp add: murmur2_32_gc_def)

text \<open>
  Rendering a hash never fails and loses nothing. The base-36 loop stays within its seven-byte
  buffer, a short hash has at most five characters, and different hash numbers give different texts.
\<close>

theorem hash_rendering:
  "(\<exists>t. to_base36 m = Some t \<and> t \<noteq> [] \<and> length t \<le> 7) \<and>
   (to_base36 m = to_base36 n) = (m = n) \<and>
   length (create_short_hash s) \<le> 5 \<and>
   (create_short_hash s = create_short_hash s') = (short_hash_number s = short_hash_number s')"
proof -
  have len: "length (base_digits 36 (unat k)) \<le> 7" for k :: u32
    using unsigned_less [of k, where 'a = nat] by (intro length_base_digits) auto
  have ne: "base_digits b k \<noteq> []" if "k \<noteq> 0" "2 \<le> b" for b k
    using that by (simp add: base_digits.simps [of b k])
  have b36: "to_base36 k = Some (if k = 0 then ''0'' else map (\<lambda>d. digits36 ! d) (base_digits 36 (unat k)))" for k
    using len by (simp add: to_base36_def Let_def)
  have zero: "map (\<lambda>d. digits36 ! d) (base_digits 36 (unat k)) \<noteq> ''0''" if "k \<noteq> 0" for k :: u32
  proof
    assume eq: "map (\<lambda>d. digits36 ! d) (base_digits 36 (unat k)) = ''0''"
    have k: "base_digits 36 (unat k) = base_digits 36 (unat k div 36) @ [unat k mod 36]"
      using that by (simp add: base_digits.simps [of 36 "unat k"] unat_eq_zero)
    from eq k have "unat k div 36 = 0" using ne [of "unat k div 36" 36] by fastforce
    moreover from this have "unat k < 36" by simp
    moreover from eq k this have "digits36 ! (unat k) = digits36 ! 0"
      by (simp add: base_digits.simps [of 36 0] digits36_def)
    ultimately show False
      using that distinct_digits(1,2) by (simp add: nth_eq_iff_index_eq unat_eq_zero)
  qed
  have inj36: "map (\<lambda>d. digits36 ! d) (base_digits 36 a) = map (\<lambda>d. digits36 ! d) (base_digits 36 b) \<longleftrightarrow> a = b" for a b
    using map_digits_inject [OF distinct_digits(1), of "base_digits 36 a" "base_digits 36 b"]
      base_digits_less [of 36] base_digits_inject [of 36 a b] distinct_digits(2) by auto
  have inj62: "map (\<lambda>d. digits62 ! d) (base_digits 62 a) = map (\<lambda>d. digits62 ! d) (base_digits 62 b) \<longleftrightarrow> a = b" for a b
    using map_digits_inject [OF distinct_digits(3), of "base_digits 62 a" "base_digits 62 b"]
      base_digits_less [of 62] base_digits_inject [of 62 a b] distinct_digits(4) by auto
  have "to_base36 m = to_base36 n \<longleftrightarrow> m = n"
    using zero [of m] zero [of n] zero [of n, symmetric]
    by (cases "m = 0"; cases "n = 0") (simp_all add: b36 inj36 word_unat_eq_iff)
  moreover have "unat (short_hash_number s) < 62 ^ 5"
    by (simp add: short_hash_number_def unat_mod)
  then have "length (create_short_hash s) \<le> 5"
    by (simp add: create_short_hash_def length_base_digits)
  moreover have "create_short_hash s = create_short_hash s' \<longleftrightarrow> short_hash_number s = short_hash_number s'"
    by (simp add: create_short_hash_def inj62 word_unat_eq_iff)
  moreover have "\<exists>t. to_base36 m = Some t \<and> t \<noteq> [] \<and> length t \<le> 7"
    using len [of m] ne [of "unat m" 36] by (auto simp: b36 unat_eq_zero)
  ultimately show ?thesis by blast
qed

end
