(* ===== verification/Stylex_Priorities.thy ===== *)
theory Stylex_Priorities
  imports Stylex_Tiers
begin

text \<open>
  Rule priorities and relational selectors of the StyleX compiler:
  \<^verbatim>\<open>crates/oj_stylex/src/shared/priorities.rs\<close> and \<^verbatim>\<open>when.rs\<close>.

  A priority is an \<^verbatim>\<open>f64\<close> that is a whole number or a whole number plus a pseudo-class priority divided
  by 100. The model counts hundredths, exactly: the rounding of the division is far below the distance
  of two priorities, so the order of the model is the order of the code. A scanner of the code keeps a
  position, here it returns what is left; the regular expressions in the comments of the source
  describe the same shapes. The marker class of a \<^verbatim>\<open>when\<close> selector, which comes from the evaluated
  arguments, is a parameter.
\<close>

section \<open>Pseudo-classes\<close>

definition pseudo_class_rows :: "(string \<times> nat) list" where
  "pseudo_class_rows =
    [('':is'', 40), ('':where'', 40), ('':not'', 40), ('':has'', 45), ('':dir'', 50), ('':lang'', 51),
     ('':first-child'', 52), ('':first-of-type'', 53), ('':last-child'', 54), ('':last-of-type'', 55),
     ('':only-child'', 56), ('':only-of-type'', 57), ('':nth-child'', 60), ('':nth-last-child'', 61),
     ('':nth-of-type'', 62), ('':nth-last-of-type'', 63), ('':empty'', 70), ('':link'', 80),
     ('':any-link'', 81), ('':local-link'', 82), ('':target-within'', 83), ('':target'', 84),
     ('':visited'', 85), ('':enabled'', 91), ('':disabled'', 92), ('':required'', 93), ('':optional'', 94),
     ('':read-only'', 95), ('':read-write'', 96), ('':placeholder-shown'', 97), ('':in-range'', 98),
     ('':out-of-range'', 99), ('':default'', 100), ('':checked'', 101), ('':indeterminate'', 101),
     ('':blank'', 102), ('':valid'', 103), ('':invalid'', 104), ('':user-invalid'', 105),
     ('':autofill'', 110), ('':picture-in-picture'', 120), ('':modal'', 121), ('':fullscreen'', 122),
     ('':paused'', 123), ('':playing'', 124), ('':current'', 125), ('':past'', 126), ('':future'', 127),
     ('':hover'', 130), ('':focusWithin'', 140), ('':focus'', 150), ('':focusVisible'', 160),
     ('':active'', 170)]"

definition pseudo_class_table :: "string \<Rightarrow> nat option" where
  "pseudo_class_table p = map_of pseudo_class_rows p"

definition is_name :: "char \<Rightarrow> bool" where
  "is_name c \<longleftrightarrow> byte_in 65 90 c \<or> byte_in 97 122 c \<or> c = CHR ''-''"

text \<open>The part that starts at a colon, which is not in \<open>s\<close>, and what follows it.\<close>

definition pseudo_part :: "string \<Rightarrow> (string \<times> string) option" where
  "pseudo_part s =
     (if s \<noteq> [] \<and> hd s = CHR '':'' then
        (let name = takeWhile is_name (tl s); rest = dropWhile is_name (tl s) in
         if name = [] then None else Some (''::'' @ name, rest))
      else
        (let name = takeWhile is_name s; rest = dropWhile is_name s in
         if name = [] then None
         else if rest \<noteq> [] \<and> hd rest = CHR ''('' then
           (case split_once CHR '')'' (tl rest) of
              Some (a, b) \<Rightarrow> Some (CHR '':'' # name @ CHR ''('' # a @ '')'', b)
            | None \<Rightarrow> Some (CHR '':'' # name, rest))
         else Some (CHR '':'' # name, rest)))"

lemma length_dropWhile_tl: "length (dropWhile P (tl s)) \<le> length s"
  by (metis length_dropWhile_le length_tl diff_le_self order_trans)

lemma pseudo_part_length: "pseudo_part s = Some (p, r) \<Longrightarrow> length r \<le> length s"
proof -
  assume p: "pseudo_part s = Some (p, r)"
  have "length b \<le> length s" if "split_once CHR '')'' (tl (dropWhile is_name s)) = Some (a, b)" for a b
  proof -
    have "length b \<le> length (tl (dropWhile is_name s))" using that by (auto simp: split_once_iff)
    also have "\<dots> \<le> length s" using length_dropWhile_le [of is_name s] by simp
    finally show ?thesis .
  qed
  with p show ?thesis
    using length_dropWhile_tl [of is_name s] length_dropWhile_le [of is_name s]
    by (auto simp: pseudo_part_def Let_def split: if_splits option.splits)
qed

function pseudo_parts :: "string \<Rightarrow> string list" where
  "pseudo_parts [] = []"
| "pseudo_parts (c # cs) =
     (case (if c = CHR '':'' then pseudo_part cs else None) of
        Some (p, r) \<Rightarrow> p # pseudo_parts r
      | None \<Rightarrow> pseudo_parts cs)"
  by pat_completeness auto
termination
  by (relation "measure length") (auto dest!: pseudo_part_length split: if_splits)

section \<open>Priorities in hundredths\<close>

definition at_rule_priority :: "string \<Rightarrow> nat option" where
  "at_rule_priority key =
     (if starts_with ''--'' key then Some 100
      else if starts_with ''@supports'' key then Some 3000
      else if starts_with ''@media'' key then Some 20000
      else if starts_with ''@container'' key then Some 30000
      else None)"

definition pseudo_element_priority :: "string \<Rightarrow> nat option" where
  "pseudo_element_priority key = (if starts_with ''::'' key then Some 500000 else None)"

definition pseudo_or_40 :: "string \<Rightarrow> nat" where
  "pseudo_or_40 p = (case pseudo_class_table p of Some n \<Rightarrow> n | None \<Rightarrow> 40)"

definition compound_pseudo_priority :: "string \<Rightarrow> nat option" where
  "compound_pseudo_priority key =
     (let parts = pseudo_parts key in
      if length parts \<le> 1 \<or> list_ex (\<lambda>p. CHR ''('' \<in> set p) parts then None
      else Some (sum_list (map (\<lambda>p. if starts_with ''::'' p then 500000 else 100 * pseudo_or_40 p) parts)))"

datatype relational = Ancestor | Descendant | SiblingBefore | SiblingAfter | AnySibling

text \<open>The encodings of JavaScript's whitespace.\<close>

definition is_js_ws :: "string list" where
  "is_js_ws =
     [[CHR 0x09], [CHR 0x0A], [CHR 0x0B], [CHR 0x0C], [CHR 0x0D], [CHR 0x20], [CHR 0xC2, CHR 0xA0],
      [CHR 0xE1, CHR 0x9A, CHR 0x80], [CHR 0xE2, CHR 0x80, CHR 0x80], [CHR 0xE2, CHR 0x80, CHR 0x81],
      [CHR 0xE2, CHR 0x80, CHR 0x82], [CHR 0xE2, CHR 0x80, CHR 0x83], [CHR 0xE2, CHR 0x80, CHR 0x84],
      [CHR 0xE2, CHR 0x80, CHR 0x85], [CHR 0xE2, CHR 0x80, CHR 0x86], [CHR 0xE2, CHR 0x80, CHR 0x87],
      [CHR 0xE2, CHR 0x80, CHR 0x88], [CHR 0xE2, CHR 0x80, CHR 0x89], [CHR 0xE2, CHR 0x80, CHR 0x8A],
      [CHR 0xE2, CHR 0x80, CHR 0xA8], [CHR 0xE2, CHR 0x80, CHR 0xA9], [CHR 0xE2, CHR 0x80, CHR 0xAF],
      [CHR 0xE2, CHR 0x81, CHR 0x9F], [CHR 0xE3, CHR 0x80, CHR 0x80], [CHR 0xEF, CHR 0xBB, CHR 0xBF]]"

definition is_class_byte :: "char \<Rightarrow> bool" where
  "is_class_byte c \<longleftrightarrow> byte_in 48 57 c \<or> byte_in 65 90 c \<or> byte_in 97 122 c \<or> c = CHR ''_'' \<or> c = CHR ''-''"

definition class_name :: "string \<Rightarrow> string option" where
  "class_name s =
     Option.bind (strip_prefix ''.'' s) (\<lambda>r.
       if takeWhile is_class_byte r = [] then None else Some (dropWhile is_class_byte r))"

definition pseudo_capture :: "string \<Rightarrow> (string \<times> string) option" where
  "pseudo_capture s =
     Option.bind (strip_prefix '':'' s) (\<lambda>r.
       if takeWhile is_name r = [] then None else Some (CHR '':'' # takeWhile is_name r, dropWhile is_name r))"

text \<open>\<^verbatim>\<open>ws(true, false)\<close> and \<^verbatim>\<open>ws(true, true)\<close>: at least one whitespace, and exactly one.\<close>

definition ws_many :: "string \<Rightarrow> string option" where
  "ws_many s = map_option (trim_with is_js_ws) (strip_any is_js_ws s)"

definition ws_one :: "string \<Rightarrow> string option" where
  "ws_one s = strip_any is_js_ws s"

definition end_lit :: "string \<Rightarrow> string \<Rightarrow> bool" where
  "end_lit l s \<longleftrightarrow> strip_prefix l s = Some []"

fun match_relational :: "string \<Rightarrow> relational \<Rightarrow> (string \<times> string option) option" where
  "match_relational key Ancestor =
     Option.bind (strip_prefix '':where('' key) (\<lambda>s. Option.bind (class_name s) (\<lambda>s.
       Option.bind (pseudo_capture s) (\<lambda>(p, s). Option.bind (ws_many s) (\<lambda>s.
         if end_lit ''*)'' s then Some (p, None) else None))))"
| "match_relational key Descendant =
     Option.bind (strip_prefix '':where('' key) (\<lambda>s. Option.bind (strip_prefix '':has('' s) (\<lambda>s.
       Option.bind (class_name s) (\<lambda>s. Option.bind (pseudo_capture s) (\<lambda>(p, s).
         if end_lit ''))'' s then Some (p, None) else None))))"
| "match_relational key SiblingBefore =
     Option.bind (strip_prefix '':where('' key) (\<lambda>s. Option.bind (class_name s) (\<lambda>s.
       Option.bind (pseudo_capture s) (\<lambda>(p, s). Option.bind (ws_many s) (\<lambda>s.
         Option.bind (strip_prefix ''~'' s) (\<lambda>s. Option.bind (ws_many s) (\<lambda>s.
           if end_lit ''*)'' s then Some (p, None) else None))))))"
| "match_relational key SiblingAfter =
     Option.bind (strip_prefix '':where('' key) (\<lambda>s. Option.bind (strip_prefix '':has(~'' s) (\<lambda>s.
       Option.bind (ws_one s) (\<lambda>s. Option.bind (class_name s) (\<lambda>s.
         Option.bind (pseudo_capture s) (\<lambda>(p, s).
           if end_lit ''))'' s then Some (p, None) else None)))))"
| "match_relational key AnySibling =
     Option.bind (strip_prefix '':where('' key) (\<lambda>s. Option.bind (class_name s) (\<lambda>s.
       Option.bind (pseudo_capture s) (\<lambda>(p1, s). Option.bind (ws_many s) (\<lambda>s.
         Option.bind (strip_prefix ''~'' s) (\<lambda>s. Option.bind (ws_many s) (\<lambda>s.
           Option.bind (strip_prefix ''*,'' s) (\<lambda>s. Option.bind (ws_many s) (\<lambda>s.
             Option.bind (strip_prefix '':has(~'' s) (\<lambda>s. Option.bind (ws_one s) (\<lambda>s.
               Option.bind (class_name s) (\<lambda>s. Option.bind (pseudo_capture s) (\<lambda>(p2, s).
                 if end_lit ''))'' s then Some (p1, Some p2) else None))))))))))))"

definition pseudo_class_priority :: "string \<Rightarrow> nat option" where
  "pseudo_class_priority key =
     (if \<not> starts_with '':'' key then None
      else (case (if starts_with '':where('' key then
                    (case match_relational key Ancestor of
                       Some (p, _) \<Rightarrow> Some (1000 + pseudo_or_40 p)
                     | None \<Rightarrow> (case match_relational key Descendant of
                       Some (p, _) \<Rightarrow> Some (1500 + pseudo_or_40 p)
                     | None \<Rightarrow> (case match_relational key AnySibling of
                       Some (p, q) \<Rightarrow>
                         Some (2000 + max (pseudo_or_40 p) (pseudo_or_40 (case q of Some r \<Rightarrow> r | None \<Rightarrow> p)))
                     | None \<Rightarrow> (case match_relational key SiblingBefore of
                       Some (p, _) \<Rightarrow> Some (3000 + pseudo_or_40 p)
                     | None \<Rightarrow> (case match_relational key SiblingAfter of
                       Some (p, _) \<Rightarrow> Some (4000 + pseudo_or_40 p)
                     | None \<Rightarrow> None)))))
                  else None) of
              Some n \<Rightarrow> Some n
            | None \<Rightarrow> Some (100 * pseudo_or_40 (hd (split_on CHR ''('' key)))))"

definition default_priority :: "string \<Rightarrow> nat option" where
  "default_priority key =
     (if key \<in> set tier_1000 then Some 100000
      else if key \<in> set tier_2000 then Some 200000
      else if key \<in> set tier_3000_a \<or> key \<in> set tier_3000_b \<or> key \<in> set tier_3000_c then Some 300000
      else if key \<in> set tier_4000 then Some 400000
      else None)"

definition get_priority :: "string \<Rightarrow> nat" where
  "get_priority key =
     (case at_rule_priority key of Some p \<Rightarrow> p | None \<Rightarrow>
       (case compound_pseudo_priority key of Some p \<Rightarrow> p | None \<Rightarrow>
         (case pseudo_element_priority key of Some p \<Rightarrow> p | None \<Rightarrow>
           (case pseudo_class_priority key of Some p \<Rightarrow> p | None \<Rightarrow>
             (case default_priority key of Some p \<Rightarrow> p | None \<Rightarrow> 300000)))))"

section \<open>Relational selectors\<close>

definition when_from_name :: "string \<Rightarrow> relational option" where
  "when_from_name name =
     (if name = ''ancestor'' then Some Ancestor
      else if name = ''descendant'' then Some Descendant
      else if name = ''siblingBefore'' then Some SiblingBefore
      else if name = ''siblingAfter'' then Some SiblingAfter
      else if name = ''anySibling'' then Some AnySibling
      else None)"

datatype when_error = MustStartWithColonOrBracket | PseudoElementNotSupported | AttributeMustEndWithBracket

definition validate_pseudo_selector :: "string \<Rightarrow> when_error option" where
  "validate_pseudo_selector pseudo =
     (if \<not> (starts_with '':'' pseudo \<or> starts_with ''['' pseudo) then Some MustStartWithColonOrBracket
      else if starts_with ''::'' pseudo then Some PseudoElementNotSupported
      else if starts_with ''['' pseudo \<and> \<not> ends_with '']'' pseudo then Some AttributeMustEndWithBracket
      else None)"

definition when_selector :: "relational \<Rightarrow> string \<Rightarrow> string \<Rightarrow> when_error + string" where
  "when_selector rel pseudo m =
     (case validate_pseudo_selector pseudo of
        Some e \<Rightarrow> Inl e
      | None \<Rightarrow> Inr (case rel of
            Ancestor \<Rightarrow> '':where(.'' @ m @ pseudo @ '' *)''
          | Descendant \<Rightarrow> '':where(:has(.'' @ m @ pseudo @ ''))''
          | SiblingBefore \<Rightarrow> '':where(.'' @ m @ pseudo @ '' ~ *)''
          | SiblingAfter \<Rightarrow> '':where(:has(~ .'' @ m @ pseudo @ ''))''
          | AnySibling \<Rightarrow> '':where(.'' @ m @ pseudo @ '' ~ *, :has(~ .'' @ m @ pseudo @ ''))''))"

section \<open>Scanning a rendered selector\<close>

lemma takeWhile_all: "list_all P xs \<Longrightarrow> takeWhile P (xs @ ys) = xs @ takeWhile P ys"
  by (induction xs) auto

lemma dropWhile_all: "list_all P xs \<Longrightarrow> dropWhile P (xs @ ys) = dropWhile P ys"
  by (induction xs) auto

definition plain_marker :: "string \<Rightarrow> bool" where
  "plain_marker m \<longleftrightarrow> m \<noteq> [] \<and> list_all is_class_byte m"

definition plain_pseudo :: "string \<Rightarrow> bool" where
  "plain_pseudo p \<longleftrightarrow> p \<noteq> [] \<and> hd p = CHR '':'' \<and> tl p \<noteq> [] \<and> list_all is_name (tl p)"

lemma plain_pseudoE:
  assumes "plain_pseudo p"
  obtains nm where "p = CHR '':'' # nm" "nm \<noteq> []" "list_all is_name nm"
  using assms by (cases p) (auto simp: plain_pseudo_def)

lemma class_name_plain:
  assumes "plain_marker m" and "plain_pseudo p"
  shows "class_name (CHR ''.'' # m @ p @ r) = Some (p @ r)"
  using assms(2)
proof (rule plain_pseudoE)
  fix nm assume p: "p = CHR '':'' # nm"
  have "\<not> is_class_byte CHR '':''" by (simp add: is_class_byte_def byte_in_def)
  with assms(1) show ?thesis
    by (simp add: p class_name_def plain_marker_def takeWhile_all dropWhile_all)
qed

lemma pseudo_capture_plain:
  assumes "plain_pseudo p" and "\<not> is_name c"
  shows "pseudo_capture (p @ c # r) = Some (p, c # r)"
  using assms(1)
proof (rule plain_pseudoE)
  fix nm assume "p = CHR '':'' # nm" "nm \<noteq> []" "list_all is_name nm"
  with assms(2) show ?thesis by (simp add: pseudo_capture_def takeWhile_all dropWhile_all)
qed

lemma is_js_ws_bytes: "list_all (\<lambda>w. w \<noteq> [] \<and> \<not> byte_in 33 126 (hd w)) is_js_ws"
  by (simp add: is_js_ws_def byte_in_def)

lemma strip_any_visible:
  assumes "byte_in 33 126 c" and "list_all (\<lambda>w. w \<noteq> [] \<and> \<not> byte_in 33 126 (hd w)) ws"
  shows "strip_any ws (c # cs) = None"
  using assms(2)
proof (induction ws)
  case (Cons w ws)
  then obtain d w' where "w = d # w'" "\<not> byte_in 33 126 d" by (cases w) auto
  with Cons assms(1) show ?case by auto
qed simp

lemma strip_any_space: "strip_any is_js_ws (CHR '' '' # s) = Some s"
  by (simp add: is_js_ws_def)

lemma ws_many_space: "byte_in 33 126 c \<Longrightarrow> ws_many (CHR '' '' # c # s) = Some (c # s)"
  by (simp add: ws_many_def strip_any_space trim_with.simps [of is_js_ws "c # s"]
      strip_any_visible is_js_ws_bytes)

lemma ws_one_space: "ws_one (CHR '' '' # s) = Some s"
  by (simp add: ws_one_def strip_any_space)

lemma ws_many_visible: "byte_in 33 126 c \<Longrightarrow> ws_many (c # s) = None"
  by (simp add: ws_many_def strip_any_visible is_js_ws_bytes)

lemma visible_bytes:
  "byte_in 33 126 CHR ''*''" "byte_in 33 126 CHR ''~''" "byte_in 33 126 CHR '':''" "byte_in 33 126 CHR '')''"
  "byte_in 33 126 CHR ''.''"
  by (simp_all add: byte_in_def)

lemma not_names: "\<not> is_name CHR '' ''" "\<not> is_name CHR '')''" "\<not> is_name CHR ''(''"
  by (simp_all add: is_name_def byte_in_def)

lemmas scan_simps = class_name_plain pseudo_capture_plain ws_many_space ws_one_space visible_bytes not_names

lemma class_name_other: "c \<noteq> CHR ''.'' \<Longrightarrow> class_name (c # s) = None"
  by (simp add: class_name_def)

lemma no_paren_plain:
  "plain_marker m \<Longrightarrow> CHR '')'' \<notin> set m" "plain_pseudo p \<Longrightarrow> CHR '')'' \<notin> set p"
proof -
  show "plain_marker m \<Longrightarrow> CHR '')'' \<notin> set m"
    by (auto simp: plain_marker_def list_all_iff is_class_byte_def byte_in_def)
  show "plain_pseudo p \<Longrightarrow> CHR '')'' \<notin> set p"
    by (cases p) (auto simp: plain_pseudo_def list_all_iff is_name_def byte_in_def)
qed

lemma pseudo_parts_where:
  assumes "CHR '')'' \<notin> set b"
  shows "pseudo_parts ('':where('' @ b @ CHR '')'' # r) = ('':where('' @ b @ '')'') # pseudo_parts r"
proof -
  have names: "is_name CHR ''w''" "is_name CHR ''h''" "is_name CHR ''e''" "is_name CHR ''r''"
    by (simp_all add: is_name_def byte_in_def)
  have "pseudo_part (''where('' @ b @ CHR '')'' # r) = Some ('':where('' @ b @ '')'', r)"
    using assms by (simp add: pseudo_part_def names not_names split_once_append)
  then show ?thesis by simp
qed

lemma compound_where:
  assumes "CHR '')'' \<notin> set b" and "set r \<subseteq> {CHR '')''}"
  shows "compound_pseudo_priority ('':where('' @ b @ CHR '')'' # r) = None"
proof -
  have "pseudo_parts r = []" using assms(2) by (induction r) auto
  then show ?thesis
    unfolding compound_pseudo_priority_def pseudo_parts_where [OF assms(1)] by simp
qed

lemma get_priority_where:
  assumes "CHR '')'' \<notin> set b" and "set r \<subseteq> {CHR '')''}"
    and "pseudo_class_priority ('':where('' @ b @ CHR '')'' # r) = Some n"
  shows "get_priority ('':where('' @ b @ CHR '')'' # r) = n"
  using compound_where [OF assms(1,2)] assms(3)
  by (simp add: get_priority_def at_rule_priority_def pseudo_element_priority_def starts_with_def)

definition when_base :: "relational \<Rightarrow> nat" where
  "when_base rel =
     (case rel of Ancestor \<Rightarrow> 1000 | Descendant \<Rightarrow> 1500 | AnySibling \<Rightarrow> 2000 | SiblingBefore \<Rightarrow> 3000
      | SiblingAfter \<Rightarrow> 4000)"

definition when_body :: "relational \<Rightarrow> string \<Rightarrow> string \<Rightarrow> string \<times> string" where
  "when_body rel m p =
     (case rel of
        Ancestor \<Rightarrow> (CHR ''.'' # m @ p @ '' *'', [])
      | Descendant \<Rightarrow> ('':has(.'' @ m @ p, '')'')
      | SiblingBefore \<Rightarrow> (CHR ''.'' # m @ p @ '' ~ *'', [])
      | SiblingAfter \<Rightarrow> ('':has(~ .'' @ m @ p, '')'')
      | AnySibling \<Rightarrow> (CHR ''.'' # m @ p @ '' ~ *, :has(~ .'' @ m @ p, '')''))"

lemma when_selector_body:
  assumes "plain_pseudo p"
  shows "when_selector rel p m =
     Inr ('':where('' @ fst (when_body rel m p) @ CHR '')'' # snd (when_body rel m p))"
  using assms
proof (rule plain_pseudoE)
  fix nm assume p: "p = CHR '':'' # nm" "nm \<noteq> []" "list_all is_name nm"
  have "hd nm \<noteq> CHR '':''" using p(2,3) by (cases nm) (auto simp: is_name_def byte_in_def)
  then have "validate_pseudo_selector p = None"
    using p(1,2) by (cases nm) (auto simp: validate_pseudo_selector_def starts_with_def)
  then show ?thesis by (simp add: when_selector_def when_body_def split: relational.splits)
qed

lemma when_priority:
  assumes "plain_marker m" and "plain_pseudo p"
  shows "pseudo_class_priority ('':where('' @ fst (when_body rel m p) @ CHR '')'' # snd (when_body rel m p))
     = Some (when_base rel + pseudo_or_40 p)"
  by (cases rel)
    (simp_all add: when_body_def when_base_def pseudo_class_priority_def starts_with_def
      scan_simps assms end_lit_def class_name_other)


section \<open>Properties\<close>

text \<open>
  The selectors the compiler writes are the ones it ranks: for every relation, every marker class and
  every plain pseudo-class, the priority of the rendered \<^verbatim>\<open>when\<close> selector is the relation's base plus the
  pseudo-class's own priority over 100.
\<close>

theorem when_selector_priority:
  assumes "plain_marker m" and "plain_pseudo p"
  shows "map_sum id get_priority (when_selector rel p m) = Inr (when_base rel + pseudo_or_40 p)"
proof -
  have "CHR '')'' \<notin> set (fst (when_body rel m p))" "set (snd (when_body rel m p)) \<subseteq> {CHR '')''}"
    using no_paren_plain assms by (cases rel; simp add: when_body_def)+
  from get_priority_where [OF this when_priority [OF assms]]
  show ?thesis by (simp add: when_selector_body [OF assms(2)])
qed

theorem when_selector_priority_witness:
  "map_sum id get_priority (when_selector AnySibling '':hover'' ''x1'') = Inr 2130"
proof -
  have "pseudo_or_40 '':hover'' = 130" by (simp add: pseudo_or_40_def pseudo_class_table_def pseudo_class_rows_def)
  moreover have "plain_marker ''x1''" "plain_pseudo '':hover''"
    by (simp_all add: plain_marker_def plain_pseudo_def is_class_byte_def is_name_def byte_in_def)
  ultimately show ?thesis using when_selector_priority [of "''x1''" "'':hover''" AnySibling]
    by (simp add: when_base_def)
qed

text \<open>
  The order of the rules. A property (a key with no colon that is no custom property or at-rule) lies
  in one of the four tiers, so it ranks above every at-rule and every single pseudo-class, however
  that is named, and below every pseudo-element.
\<close>

theorem priority_bands:
  assumes "CHR '':'' \<notin> set key" and "at_rule_priority key = None"
  shows "get_priority key \<in> {100000, 200000, 300000, 400000} \<and>
     (at_rule_priority rule = Some n \<longrightarrow> get_priority rule < get_priority key) \<and>
     (plain_pseudo p \<longrightarrow> get_priority p < get_priority key) \<and>
     (plain_pseudo p \<longrightarrow> get_priority key < get_priority (CHR '':'' # p))"
proof -
  have no_parts: "pseudo_parts s = []" if "CHR '':'' \<notin> set s" for s
    using that by (induction s) auto
  have "\<not> starts_with '':'' key" "\<not> starts_with ''::'' key"
    using assms(1) by (auto simp: starts_with_iff)
  then have key: "get_priority key = (case default_priority key of Some p \<Rightarrow> p | None \<Rightarrow> 300000)"
    using no_parts [OF assms(1)] assms(2)
    by (simp add: get_priority_def compound_pseudo_priority_def pseudo_element_priority_def pseudo_class_priority_def)
  then have tier: "get_priority key \<in> {100000, 200000, 300000, 400000}"
    by (auto simp: default_priority_def)
  have rule: "get_priority rule \<le> 30000" if "at_rule_priority rule = Some n"
    using that by (auto simp: get_priority_def at_rule_priority_def split: if_splits)
  have pseudo: "get_priority p < 100000" "500000 \<le> get_priority (CHR '':'' # p)" if "plain_pseudo p"
  proof -
    from that obtain nm where p: "p = CHR '':'' # nm" "nm \<noteq> []" "list_all is_name nm" by (rule plain_pseudoE)
    have nm: "takeWhile is_name nm = nm" "dropWhile is_name nm = []"
      using takeWhile_all [OF p(3), of "[]"] dropWhile_all [OF p(3), of "[]"] by simp_all
    have hd: "hd nm \<noteq> CHR '':''" using p(2,3) by (cases nm) (auto simp: is_name_def byte_in_def)
    have parts: "pseudo_parts p = [p]" "pseudo_parts (CHR '':'' # p) = [CHR '':'' # p]"
      using p(2) hd by (simp_all add: p(1) pseudo_part_def Let_def nm)
    have "CHR ''('' \<notin> set p" using p by (auto simp: list_all_iff is_name_def byte_in_def)
    then have "hd (split_on CHR ''('' p) = p" by (simp add: split_on_no_sep)
    moreover have "pseudo_or_40 q \<le> 170" for q
      unfolding pseudo_or_40_def pseudo_class_table_def pseudo_class_rows_def by (simp split: option.splits if_splits)
    moreover have "\<not> starts_with '':where('' p"
      using \<open>CHR ''('' \<notin> set p\<close> by (auto simp: starts_with_iff)
    moreover have "\<not> starts_with ''::'' p" "at_rule_priority p = None" "starts_with '':'' p"
      "at_rule_priority (CHR '':'' # p) = None" "starts_with ''::'' (CHR '':'' # p)"
      using p(2) hd by (cases nm; simp add: p(1) starts_with_def at_rule_priority_def)+
    ultimately show "get_priority p < 100000" "500000 \<le> get_priority (CHR '':'' # p)"
      using parts
      by (simp_all add: get_priority_def compound_pseudo_priority_def pseudo_element_priority_def
          pseudo_class_priority_def le_less_trans [of _ "17000"])
  qed
  from tier have "100000 \<le> get_priority key" "get_priority key < 500000" by auto
  with tier rule pseudo show ?thesis by fastforce
qed

theorem priority_bands_witness:
  "get_priority ''@media print'' < get_priority ''color'' \<and> get_priority '':hover'' < get_priority ''color'' \<and>
   get_priority ''color'' < get_priority ''::before''"
proof -
  have "CHR '':'' \<notin> set ''color''" "at_rule_priority ''color'' = None" "at_rule_priority ''@media print'' = Some 20000"
    by (simp_all add: at_rule_priority_def starts_with_def)
  moreover have "plain_pseudo '':hover''" "plain_pseudo '':before''"
    by (simp_all add: plain_pseudo_def is_name_def byte_in_def)
  ultimately show ?thesis
    using priority_bands [of "''color''" "''@media print''" 20000 "'':hover''"]
      priority_bands [of "''color''" "''@media print''" 20000 "'':before''"]
    by simp
qed

end
