(* ===== verification/Css_Chunk.thy ===== *)
theory Css_Chunk
  imports Std_Str
begin

text \<open>
  The finished CSS of a chunk, \<^verbatim>\<open>crates/oj_css/src/chunk.rs\<close>: \<^verbatim>\<open>@import\<close> and \<^verbatim>\<open>@charset\<close> statements are hoisted
  out of a concatenation of stylesheets. Offsets are byte offsets; \<open>str_slice\<close> is \<^verbatim>\<open>&css[a..b]\<close>, whose
  \<open>None\<close> is the panic of a range that is not within the text, so a \<open>None\<close> of \<open>hoist_at_rules\<close> is a
  crash. The minifier is a parameter.
\<close>

section \<open>Definitions\<close>

text \<open>A byte of a comment: newlines stay, anything else is a space.\<close>

definition blank :: "char \<Rightarrow> char" where
  "blank c = (if c = CHR 0x0A then CHR 0x0A else CHR '' '')"

function blank_comments :: "string \<Rightarrow> string" where
  "blank_comments s =
     (case split_once_str ''/*'' s of
        None \<Rightarrow> s
      | Some (before, body) \<Rightarrow>
          before @
          (case split_once_str ''*/'' body of
             None \<Rightarrow> map blank (''/*'' @ body)
           | Some (c, rest) \<Rightarrow> map blank (''/*'' @ c @ ''*/'') @ blank_comments rest))"
  by auto
termination
  by (relation "measure length") (auto dest!: split_once_str_sound)

declare blank_comments.simps [simp del]

text \<open>The scan of one statement from offset \<open>i\<close>: the offset after its semicolon.\<close>

function scan_statement :: "string \<Rightarrow> nat \<Rightarrow> char option \<Rightarrow> nat \<Rightarrow> nat option" where
  "scan_statement [] i quote parens = None"
| "scan_statement (b # bs) i quote parens =
     (case quote of
        Some q \<Rightarrow>
          if b = CHR 0x5C then scan_statement (tl bs) (i + 2) quote parens
          else if b = q then scan_statement bs (i + 1) None parens
          else scan_statement bs (i + 1) quote parens
      | None \<Rightarrow>
          if b = CHR 0x22 \<or> b = CHR 0x27 then scan_statement bs (i + 1) (Some b) parens
          else if b = CHR ''('' then scan_statement bs (i + 1) None (parens + 1)
          else if b = CHR '')'' then scan_statement bs (i + 1) None (parens - 1)
          else if b = CHR '';'' \<and> parens = 0 then Some (i + 1)
          else scan_statement bs (i + 1) None parens)"
  by pat_completeness auto
termination by (relation "measure (\<lambda>(s, i, q, p). length s)") auto

lemma scan_statement_bounds:
  "scan_statement s i q p = Some e \<Longrightarrow> i < e \<and> e \<le> i + length s"
proof (induction s i q p rule: scan_statement.induct)
  case (2 b bs i q p)
  then show ?case
    by (cases bs) (auto split: option.splits if_splits)
qed simp

function statements_from :: "string \<Rightarrow> string \<Rightarrow> nat \<Rightarrow> (nat \<times> nat) list" where
  "statements_from clean kw pos =
     (if length clean < pos then []
      else (case split_once_str kw (drop pos clean) of
        None \<Rightarrow> []
      | Some (a, b) \<Rightarrow>
          (case scan_statement b (pos + length a + length kw) None 0 of
             Some e \<Rightarrow> (pos + length a, e) # statements_from clean kw e
           | None \<Rightarrow> [])))"
  by auto
termination
proof (relation "measure (\<lambda>(clean, kw, pos). Suc (length clean) - pos)", goal_cases)
  case (2 clean kw pos ab a b e)
  then have "pos + length a + length kw < e" using scan_statement_bounds by blast
  with 2 show ?case by simp
qed simp

declare statements_from.simps [simp del]

definition statements :: "string \<Rightarrow> string \<Rightarrow> (nat \<times> nat) list" where
  "statements clean kw = statements_from clean kw 0"

text \<open>The str_slices of a list of spans, and the text between them; \<open>None\<close> for a panic.\<close>

fun span_texts :: "string \<Rightarrow> (nat \<times> nat) list \<Rightarrow> string option" where
  "span_texts css [] = Some []"
| "span_texts css ((s, e) # rest) =
     Option.bind (str_slice css s e) (\<lambda>t. map_option (\<lambda>r. t @ r) (span_texts css rest))"

fun between_texts :: "string \<Rightarrow> nat \<Rightarrow> (nat \<times> nat) list \<Rightarrow> string option" where
  "between_texts css lst [] = str_slice css lst (length css)"
| "between_texts css lst ((s, e) # rest) =
     Option.bind (str_slice css lst s) (\<lambda>t. map_option (\<lambda>r. t @ r) (between_texts css e rest))"

definition import_spans :: "string \<Rightarrow> (nat \<times> nat) list" where
  "import_spans css = statements (blank_comments css) ''@import''"

definition charset_spans :: "string \<Rightarrow> (nat \<times> nat) list" where
  "charset_spans css = statements (blank_comments css) ''@charset''"

definition hoist_at_rules :: "string \<Rightarrow> string option" where
  "hoist_at_rules css =
     (let imps = import_spans css;
          charsets = charset_spans css;
          cut = sort (imps @ charsets)
      in Option.bind (span_texts css (take 1 charsets)) (\<lambda>cs.
           Option.bind (span_texts css imps) (\<lambda>im.
             Option.bind (between_texts css 0 cut) (\<lambda>rest. Some (cs @ im @ rest)))))"

definition finalize_chunk_css ::
  "(string \<Rightarrow> string + string) \<Rightarrow> bool \<Rightarrow> string \<Rightarrow> (string + string) option" where
  "finalize_chunk_css minify_css minify css =
     Option.bind
       (if contains_str ''@import'' css \<or> contains_str ''@charset'' css then hoist_at_rules css else Some css)
       (\<lambda>css1. if \<not> minify then Some (Inr css1)
               else Some (map_sum id (\<lambda>out. out @ [CHR 0x0A]) (minify_css css1)))"

section \<open>Spans\<close>

lemma length_blank_comments: "length (blank_comments s) = length s"
proof (induction s rule: blank_comments.induct)
  case (1 s)
  show ?case
  proof (cases "split_once_str ''/*'' s")
    case None
    then show ?thesis by (simp add: blank_comments.simps [of s])
  next
    case (Some ab)
    obtain a b where ab: "ab = (a, b)" by force
    with Some have s: "length s = length a + 2 + length b" by (auto dest: split_once_str_sound)
    show ?thesis
    proof (cases "split_once_str ''*/'' b")
      case None
      with Some ab s show ?thesis by (simp add: blank_comments.simps [of s])
    next
      case inner: (Some cr)
      obtain c r where cr: "cr = (c, r)" by force
      with inner have "length b = length c + 2 + length r" by (auto dest: split_once_str_sound)
      with "1.IH" [OF Some ab [symmetric] inner cr [symmetric]] Some ab inner cr s show ?thesis
        by (simp add: blank_comments.simps [of s])
    qed
  qed
qed

text \<open>Spans that follow one another from an offset on, within a length.\<close>

fun spans_ok :: "nat \<Rightarrow> nat \<Rightarrow> (nat \<times> nat) list \<Rightarrow> bool" where
  "spans_ok len pos [] \<longleftrightarrow> pos \<le> len"
| "spans_ok len pos ((s, e) # rest) \<longleftrightarrow> pos \<le> s \<and> s < e \<and> spans_ok len e rest"

lemma spans_ok_bounds: "spans_ok len pos sp \<Longrightarrow> pos \<le> len \<and> (\<forall>(s, e) \<in> set sp. pos \<le> s \<and> s < e \<and> e \<le> len)"
  by (induction sp arbitrary: pos) fastforce+

lemma statements_from_ok:
  "pos \<le> length clean \<Longrightarrow> kw \<noteq> [] \<Longrightarrow> spans_ok (length clean) pos (statements_from clean kw pos)"
proof (induction clean kw pos rule: statements_from.induct)
  case (1 clean kw pos)
  show ?case
  proof (cases "split_once_str kw (drop pos clean)")
    case None
    with "1.prems" show ?thesis by (simp add: statements_from.simps [of clean kw pos])
  next
    case (Some ab)
    obtain a b where ab: "ab = (a, b)" by force
    with Some have "drop pos clean = a @ kw @ b" by (auto dest: split_once_str_sound)
    then have "length (drop pos clean) = length a + length kw + length b" by simp
    with "1.prems" have len: "length clean = pos + length a + length kw + length b" by simp
    show ?thesis
    proof (cases "scan_statement b (pos + length a + length kw) None 0")
      case None
      with Some ab "1.prems" show ?thesis by (simp add: statements_from.simps [of clean kw pos])
    next
      case scan: (Some e)
      have e: "pos + length a + length kw < e" "e \<le> length clean"
        using scan_statement_bounds [OF scan] len by auto
      have "\<not> length clean < pos" using "1.prems"(1) by simp
      from "1.IH" [OF this Some ab [symmetric] scan e(2) "1.prems"(2)] e(1) Some ab scan "1.prems"
      show ?thesis by (simp add: statements_from.simps [of clean kw pos])
    qed
  qed
qed

lemma statement_spans_ok:
  "spans_ok (length css) 0 (import_spans css)" "spans_ok (length css) 0 (charset_spans css)"
  using statements_from_ok [of 0 "blank_comments css"]
  by (simp_all add: import_spans_def charset_spans_def statements_def length_blank_comments)

text \<open>Two spans that do not overlap.\<close>

definition apart :: "nat \<times> nat \<Rightarrow> nat \<times> nat \<Rightarrow> bool" where
  "apart x y \<longleftrightarrow> snd x \<le> fst y \<or> snd y \<le> fst x"

lemma spans_ok_apart: "spans_ok len f sp \<Longrightarrow> x \<in> set sp \<Longrightarrow> y \<in> set sp \<Longrightarrow> x \<noteq> y \<Longrightarrow> apart x y"
proof (induction sp arbitrary: f)
  case (Cons z sp)
  obtain s e where z: "z = (s, e)" by force
  with Cons.prems have ok: "spans_ok len e sp" by simp
  have later: "e \<le> fst w" if "w \<in> set sp" for w
    using spans_ok_bounds [OF ok] that by (cases w) auto
  show ?case
  proof (cases "x = z \<or> y = z")
    case True
    with Cons.prems(2-4) consider "x = z" "y \<in> set sp" | "y = z" "x \<in> set sp" by auto
    then show ?thesis by cases (auto simp: z apart_def dest: later)
  next
    case False
    with Cons.IH [OF ok] Cons.prems(2-4) show ?thesis by simp
  qed
qed simp

lemma distinct_spans: "spans_ok len f sp \<Longrightarrow> distinct sp"
proof (induction sp arbitrary: f)
  case (Cons z sp)
  obtain s e where z: "z = (s, e)" by force
  with Cons.prems have "s < e" and ok: "spans_ok len e sp" by auto
  with Cons.IH [OF ok] spans_ok_bounds [OF ok] show ?case by (auto simp: z)
qed simp

lemma sorted_spans_ok:
  assumes "sorted sp" and "distinct sp" and "\<And>s e. (s, e) \<in> set sp \<Longrightarrow> f \<le> s \<and> s < e \<and> e \<le> len"
    and "\<And>x y. x \<in> set sp \<Longrightarrow> y \<in> set sp \<Longrightarrow> x \<noteq> y \<Longrightarrow> apart x y" and "f \<le> len"
  shows "spans_ok len f sp"
  using assms
proof (induction sp arbitrary: f)
  case (Cons z sp)
  obtain s e where z: "z = (s, e)" by force
  have "f \<le> s" "s < e" "e \<le> len" using Cons.prems(3) z by auto
  moreover have "e \<le> s'" if "(s', e') \<in> set sp" for s' e'
  proof -
    have "(s, e) \<le> (s', e')" "(s', e') \<noteq> (s, e)" using Cons.prems(1,2) that z by auto
    then have "s \<le> s'" by (auto simp: less_eq_prod_def)
    moreover have "s' < e'" using Cons.prems(3) that by auto
    ultimately show ?thesis
      using Cons.prems(4) [of "(s, e)" "(s', e')"] that z \<open>(s', e') \<noteq> (s, e)\<close> by (auto simp: apart_def)
  qed
  then have "spans_ok len e sp"
    using Cons.prems \<open>e \<le> len\<close> by (intro Cons.IH) auto
  ultimately show ?case by (simp add: z)
qed simp

text \<open>The spans of both keywords, cut out of the sheet, when no two of them overlap.\<close>

definition no_overlap :: "string \<Rightarrow> bool" where
  "no_overlap css \<longleftrightarrow> list_all (\<lambda>x. list_all (apart x) (charset_spans css)) (import_spans css)"

lemma cut_spans_ok:
  assumes "no_overlap css"
  shows "spans_ok (length css) 0 (sort (import_spans css @ charset_spans css))"
proof (rule sorted_spans_ok)
  note i = statement_spans_ok(1) [of css] and c = statement_spans_ok(2) [of css]
  have sym: "apart x y \<longleftrightarrow> apart y x" for x y by (auto simp: apart_def)
  have cross: "x \<in> set (import_spans css) \<Longrightarrow> y \<in> set (charset_spans css) \<Longrightarrow> apart x y" for x y
    using assms by (auto simp: no_overlap_def list_all_iff)
  have "x \<noteq> y" if "x \<in> set (import_spans css)" "y \<in> set (charset_spans css)" for x y
  proof
    assume eq: "x = y"
    have "fst x < snd x" using spans_ok_bounds [OF i] that(1) by (cases x) auto
    with cross [OF that] eq show False by (auto simp: apart_def)
  qed
  then have disj: "set (import_spans css) \<inter> set (charset_spans css) = {}" by blast
  then show "distinct (sort (import_spans css @ charset_spans css))"
    using distinct_spans [OF i] distinct_spans [OF c] by simp
  show "0 \<le> s \<and> s < e \<and> e \<le> length css" if "(s, e) \<in> set (sort (import_spans css @ charset_spans css))" for s e
    using that spans_ok_bounds [OF i] spans_ok_bounds [OF c] by auto
  show "apart x y"
    if "x \<in> set (sort (import_spans css @ charset_spans css))" "y \<in> set (sort (import_spans css @ charset_spans css))" "x \<noteq> y"
    for x y
    using that cross [of x y] cross [of y x] sym [of x y] spans_ok_apart [OF i, of x y] spans_ok_apart [OF c, of x y] by auto
qed simp_all

section \<open>Texts\<close>

definition span_text :: "string \<Rightarrow> nat \<times> nat \<Rightarrow> string" where
  "span_text css x = map ((!) css) [fst x ..< snd x]"

definition outside :: "(nat \<times> nat) list \<Rightarrow> nat \<Rightarrow> bool" where
  "outside sp i \<longleftrightarrow> list_all (\<lambda>(s, e). i < s \<or> e \<le> i) sp"

lemma span_texts_ok:
  "(\<And>s e. (s, e) \<in> set sp \<Longrightarrow> s < e \<and> e \<le> length css) \<Longrightarrow> span_texts css sp = Some (concat (map (span_text css) sp))"
proof (induction css sp rule: span_texts.induct)
  case (2 css s e rest)
  have "s < e" "e \<le> length css" using "2.prems" [of s e] by auto
  then have "str_slice css s e = Some (span_text css (s, e))"
    by (simp add: str_slice_nth less_imp_le span_text_def)
  moreover have "span_texts css rest = Some (concat (map (span_text css) rest))"
    using "2.prems" by (intro "2.IH" [OF calculation]) auto
  ultimately show ?case by simp
qed simp

lemma between_texts_ok:
  "spans_ok (length css) lst sp \<Longrightarrow>
     between_texts css lst sp = Some (map ((!) css) (filter (outside sp) [lst ..< length css]))"
proof (induction sp arbitrary: lst)
  case Nil
  have "filter (outside []) [lst ..< length css] = [lst ..< length css]"
    by (simp add: outside_def)
  with Nil show ?case by (simp add: str_slice_nth)
next
  case (Cons x sp)
  obtain s e where x: "x = (s, e)" by force
  with Cons.prems have ok: "lst \<le> s" "s < e" "spans_ok (length css) e sp" by auto
  have e: "e \<le> length css" and later: "\<And>s' e'. (s', e') \<in> set sp \<Longrightarrow> e \<le> s'"
    using spans_ok_bounds [OF ok(3)] by auto
  have "[lst ..< length css] = [lst ..< s] @ [s ..< e] @ [e ..< length css]"
    using ok(1,2) e by (metis le_trans less_imp_le upt_add_eq_append le_add_diff_inverse)
  moreover have "filter (outside (x # sp)) [lst ..< s] = [lst ..< s]"
    using later ok(2) by (fastforce simp: outside_def x list_all_iff intro!: filter_True)
  moreover have "filter (outside (x # sp)) [s ..< e] = []"
    by (auto simp: outside_def x)
  moreover have "filter (outside (x # sp)) [e ..< length css] = filter (outside sp) [e ..< length css]"
    by (rule filter_cong) (auto simp: outside_def x)
  ultimately have "filter (outside (x # sp)) [lst ..< length css] =
      [lst ..< s] @ filter (outside sp) [e ..< length css]"
    by (simp only: filter_append append_Nil)
  with Cons.IH [OF ok(3)] ok e show ?case by (simp add: x str_slice_nth)
qed


section \<open>Properties\<close>

text \<open>
  C14: hoisting moves and drops exactly what it says. For a sheet in which no \<^verbatim>\<open>@charset\<close> statement overlaps an
  \<^verbatim>\<open>@import\<close> one, the result is the first \<^verbatim>\<open>@charset\<close>, then every \<^verbatim>\<open>@import\<close> in its original order, then
  the sheet without the bytes of any of these statements, in their order.
\<close>

theorem hoist_at_rules_exact:
  assumes "no_overlap css"
  shows "hoist_at_rules css =
     Some (concat (map (span_text css) (take 1 (charset_spans css)))
       @ concat (map (span_text css) (import_spans css))
       @ map ((!) css) (filter (outside (import_spans css @ charset_spans css)) [0 ..< length css]))"
proof -
  have b: "s < e \<and> e \<le> length css" if "(s, e) \<in> set (import_spans css) \<union> set (charset_spans css)" for s e
    using that spans_ok_bounds [OF statement_spans_ok(1) [of css]] spans_ok_bounds [OF statement_spans_ok(2) [of css]]
    by auto
  have "outside (sort sp) = outside sp" for sp
    by (simp add: outside_def fun_eq_iff list_all_iff)
  then have "between_texts css 0 (sort (import_spans css @ charset_spans css)) =
      Some (map ((!) css) (filter (outside (import_spans css @ charset_spans css)) [0 ..< length css]))"
    using between_texts_ok [OF cut_spans_ok [OF assms]] by simp
  moreover have "span_texts css (import_spans css) = Some (concat (map (span_text css) (import_spans css)))"
    by (rule span_texts_ok) (rule b, simp)
  moreover have "span_texts css (take 1 (charset_spans css)) =
      Some (concat (map (span_text css) (take 1 (charset_spans css))))"
    by (rule span_texts_ok) (rule b, auto dest: in_set_takeD)
  ultimately show ?thesis by (simp only: hoist_at_rules_def Let_def bind.bind_lunit)
qed

theorem hoist_at_rules_exact_witness:
  "hoist_at_rules ''a{}@import b;c{}'' = Some ''@import b;a{}c{}''"
proof -
  have "no_overlap ''a{}@import b;c{}''" by code_simp
  moreover have "charset_spans ''a{}@import b;c{}'' = []" "import_spans ''a{}@import b;c{}'' = [(3, 13)]"
    by code_simp+
  ultimately show ?thesis
    using hoist_at_rules_exact [of "''a{}@import b;c{}''"]
    by (simp add: span_text_def outside_def upt_rec numeral_eq_Suc)
qed


end
