(* ===== verification/Resolve_Alias.thy ===== *)
theory Resolve_Alias
  imports Std_Str
begin

text \<open>
  \<^verbatim>\<open>resolve.alias\<close>, \<^verbatim>\<open>crates/oj_resolver/src/alias.rs\<close>. The regular expression engine is the crate \<^verbatim>\<open>regress\<close>: the record
  \<open>regress\<close> holds the three calls the file makes of it, and \<open>regress_ok\<close> is what its documentation
  promises of them: \<^verbatim>\<open>find\<close> is the first match of \<^verbatim>\<open>find_iter\<close>, matches lie within the text, in
  order and without overlap, and so do their groups. The memo of compiled finds is explicit state.
  Ranges are byte ranges, and an outer \<open>None\<close> of a rewrite is a panic.
\<close>

section \<open>Definitions\<close>

type_synonym range = "nat \<times> nat"

record rmatch =
  m_range :: range
  m_captures :: "range option list"
  m_has_names :: bool
  m_named_group :: "string \<Rightarrow> range option"

record 're regress =
  with_flags :: "string \<Rightarrow> string \<Rightarrow> 're option"
  re_find :: "'re \<Rightarrow> string \<Rightarrow> rmatch option"
  re_find_iter :: "'re \<Rightarrow> string \<Rightarrow> rmatch list"

definition REGEX_FIND :: string where
  "REGEX_FIND = CHR 0x00 # ''regex:''"

definition regex_find :: "string \<Rightarrow> string \<Rightarrow> string" where
  "regex_find source flags = REGEX_FIND @ flags @ '':'' @ source"

definition regex_parts :: "string \<Rightarrow> (string \<times> string) option" where
  "regex_parts pat =
     Option.bind (strip_prefix REGEX_FIND pat) (\<lambda>rest.
       Option.bind (split_once CHR '':'' rest) (\<lambda>(flags, source). Some (source, flags)))"

record 're compiled_re =
  c_re :: 're
  c_global :: bool

type_synonym 're memo = "string \<rightharpoonup> 're compiled_re option"

definition compile_find :: "'re regress \<Rightarrow> string \<Rightarrow> string \<Rightarrow> 're compiled_re option" where
  "compile_find rx source flags =
     (let own = filter (\<lambda>c. c \<in> set ''imsuv'') flags;
          source1 = (if CHR ''y'' \<in> set flags then ''^(?:'' @ source @ '')'' else source)
      in map_option (\<lambda>re. \<lparr>c_re = re, c_global = (CHR ''g'' \<in> set flags)\<rparr>) (with_flags rx source1 own))"

definition compiled :: "'re regress \<Rightarrow> 're memo \<Rightarrow> string \<Rightarrow> 're compiled_re option \<times> 're memo" where
  "compiled rx memo pat =
     (case regex_parts pat of
        None \<Rightarrow> (None, memo)
      | Some (source, flags) \<Rightarrow>
          (case memo pat of
             Some c \<Rightarrow> (c, memo)
           | None \<Rightarrow> (let c = compile_find rx source flags in (c, memo(pat \<mapsto> c)))))"

definition matches :: "'re regress \<Rightarrow> 're memo \<Rightarrow> string \<Rightarrow> string \<Rightarrow> bool \<times> 're memo" where
  "matches rx memo pat id0 =
     (if regex_parts pat \<noteq> None
      then (case compiled rx memo pat of (c, memo1) \<Rightarrow>
        ((case c of None \<Rightarrow> False | Some c \<Rightarrow> re_find rx (c_re c) id0 \<noteq> None), memo1))
      else (id0 = pat \<or> (case strip_prefix pat id0 of None \<Rightarrow> False | Some rest \<Rightarrow> starts_with ''/'' rest), memo))"

definition m_groups :: "rmatch \<Rightarrow> range option list" where
  "m_groups m = Some (m_range m) # m_captures m"

definition push :: "string option \<Rightarrow> string option \<Rightarrow> string option" where
  "push a b = Option.bind a (\<lambda>x. map_option (\<lambda>y. x @ y) b)"

definition slice_range :: "string \<Rightarrow> range option \<Rightarrow> string option" where
  "slice_range s r = (case r of None \<Rightarrow> Some [] | Some (a, b) \<Rightarrow> str_slice s a b)"

definition is_ascii_digit :: "char \<Rightarrow> bool" where
  "is_ascii_digit c \<longleftrightarrow> CHR ''0'' \<le> c \<and> c \<le> CHR ''9''"

definition digit_of :: "char \<Rightarrow> nat" where
  "digit_of c = of_char c - 48"

text \<open>The number after a dollar sign: two digits when they name a group. Its group, and how many digits it took.\<close>

definition group_ref :: "nat \<Rightarrow> char \<Rightarrow> string \<Rightarrow> nat \<times> nat" where
  "group_ref len d rest =
     (let one = digit_of d;
          two = (case rest of
                   c # _ \<Rightarrow> if is_ascii_digit c \<and> 0 < one * 10 + digit_of c \<and> one * 10 + digit_of c < len
                           then Some (one * 10 + digit_of c) else None
                 | [] \<Rightarrow> None)
      in case two of Some n \<Rightarrow> (n, 2) | None \<Rightarrow> (one, 1))"

text \<open>The replacement of one match.\<close>

function expand_match :: "string \<Rightarrow> rmatch \<Rightarrow> string \<Rightarrow> string option" where
  "expand_match id0 m [] = Some []"
| "expand_match id0 m [c] = Some [c]"
| "expand_match id0 m (c # d # rest) =
     (if c \<noteq> CHR ''$'' then push (Some [c]) (expand_match id0 m (d # rest))
      else if d = CHR ''$'' then push (Some ''$'') (expand_match id0 m rest)
      else if d = CHR ''&'' then push (slice_range id0 (Some (m_range m))) (expand_match id0 m rest)
      else if d = CHR 0x60 then push (str_slice id0 0 (fst (m_range m))) (expand_match id0 m rest)
      else if d = CHR 0x27 then push (str_slice id0 (snd (m_range m)) (length id0)) (expand_match id0 m rest)
      else if d = CHR ''<'' then
        (case split_once CHR ''>'' rest of
           Some (name, after) \<Rightarrow>
             if m_has_names m
             then push (slice_range id0 (m_named_group m name)) (expand_match id0 m after)
             else push (Some ''$'') (expand_match id0 m (d # rest))
         | None \<Rightarrow> push (Some ''$'') (expand_match id0 m (d # rest)))
      else if is_ascii_digit d then
        (case group_ref (length (m_groups m)) d rest of (n, len) \<Rightarrow>
           if 0 < n \<and> n < length (m_groups m)
           then push (slice_range id0 (m_groups m ! n)) (expand_match id0 m (drop (len - 1) rest))
           else push (Some ''$'') (expand_match id0 m (d # rest)))
      else push (Some ''$'') (expand_match id0 m (d # rest)))"
  by pat_completeness auto
termination
  by (relation "measure (\<lambda>(id0, m, r). length r)") (auto simp: split_once_iff)

text \<open>The matches in turn, and the text between them.\<close>

fun replace_matches :: "string \<Rightarrow> string \<Rightarrow> nat \<Rightarrow> rmatch list \<Rightarrow> string option" where
  "replace_matches id0 replacement lst [] = str_slice id0 lst (length id0)"
| "replace_matches id0 replacement lst (m # ms) =
     push (push (str_slice id0 lst (fst (m_range m))) (expand_match id0 m replacement))
       (replace_matches id0 replacement (snd (m_range m)) ms)"

definition rewrite_find :: "'re regress \<Rightarrow> 're memo \<Rightarrow> string \<Rightarrow> string \<Rightarrow> string \<Rightarrow> string option option \<times> 're memo" where
  "rewrite_find rx memo pat replacement id0 =
     (if regex_parts pat = None
      then (Some (case strip_prefix pat id0 of
                    None \<Rightarrow> None
                  | Some rest \<Rightarrow> if rest = [] \<or> starts_with ''/'' rest then Some (replacement @ rest) else None), memo)
      else (case compiled rx memo pat of (c, memo1) \<Rightarrow>
        ((case c of
            None \<Rightarrow> Some None
          | Some c \<Rightarrow>
              (case re_find_iter rx (c_re c) id0 of
                 [] \<Rightarrow> Some None
               | m # ms \<Rightarrow> map_option Some (replace_matches id0 replacement 0 (if c_global c then m # ms else [m])))), memo1)))"

fun first_rewrite :: "'re regress \<Rightarrow> 're memo \<Rightarrow> (string \<times> string) list \<Rightarrow> string \<Rightarrow> string option option \<times> 're memo" where
  "first_rewrite rx memo [] id0 = (Some None, memo)"
| "first_rewrite rx memo ((pat, replacement) # entries) id0 =
     (case rewrite_find rx memo pat replacement id0 of
        (Some None, memo1) \<Rightarrow> first_rewrite rx memo1 entries id0
      | (r, memo1) \<Rightarrow> (r, memo1))"

section \<open>What the engine promises\<close>

definition range_ok :: "nat \<Rightarrow> range option \<Rightarrow> bool" where
  "range_ok len r \<longleftrightarrow> (case r of None \<Rightarrow> True | Some (a, b) \<Rightarrow> a \<le> b \<and> b \<le> len)"

definition rmatch_ok :: "nat \<Rightarrow> rmatch \<Rightarrow> bool" where
  "rmatch_ok len m \<longleftrightarrow> list_all (range_ok len) (m_groups m) \<and> (\<forall>name. range_ok len (m_named_group m name))"

fun rmatches_ok :: "nat \<Rightarrow> nat \<Rightarrow> rmatch list \<Rightarrow> bool" where
  "rmatches_ok len pos [] \<longleftrightarrow> pos \<le> len"
| "rmatches_ok len pos (m # ms) \<longleftrightarrow> rmatch_ok len m \<and> pos \<le> fst (m_range m) \<and> rmatches_ok len (snd (m_range m)) ms"

definition regress_ok :: "'re regress \<Rightarrow> bool" where
  "regress_ok rx \<longleftrightarrow>
     (\<forall>re text. re_find rx re text = (case re_find_iter rx re text of [] \<Rightarrow> None | m # _ \<Rightarrow> Some m) \<and>
       rmatches_ok (length text) 0 (re_find_iter rx re text))"

definition memo_ok :: "'re regress \<Rightarrow> 're memo \<Rightarrow> bool" where
  "memo_ok rx memo \<longleftrightarrow>
     (\<forall>pat c. memo pat = Some c \<longrightarrow>
       (\<exists>source flags. regex_parts pat = Some (source, flags) \<and> c = compile_find rx source flags))"

section \<open>Lemmas\<close>

lemma push_None [simp]: "push a b = None \<longleftrightarrow> a = None \<or> b = None"
  by (cases a; cases b) (simp_all add: push_def)

lemma slice_range_ok: "range_ok (length s) r \<Longrightarrow> slice_range s r \<noteq> None"
  by (auto simp: range_ok_def slice_range_def str_slice_def split: option.splits)

lemma rmatch_ok_range: "rmatch_ok len m \<Longrightarrow> fst (m_range m) \<le> snd (m_range m) \<and> snd (m_range m) \<le> len"
  by (cases "m_range m") (auto simp: rmatch_ok_def m_groups_def range_ok_def)

lemma expand_match_total:
  assumes "rmatch_ok (length id0) m"
  shows "expand_match id0 m r \<noteq> None"
proof (induction r rule: length_induct)
  case (1 r)
  then have ih: "expand_match id0 m r1 \<noteq> None" if "length r1 < length r" for r1 using that by blast
  have slices: "slice_range id0 (Some (m_range m)) \<noteq> None" "slice_range id0 (m_named_group m name) \<noteq> None" for name
    by (rule slice_range_ok, use assms in \<open>simp add: rmatch_ok_def m_groups_def\<close>)+
  have groups: "slice_range id0 (m_groups m ! n) \<noteq> None" if "n < length (m_groups m)" for n
    using assms that by (intro slice_range_ok) (simp add: rmatch_ok_def list_all_length)
  have around: "str_slice id0 0 (fst (m_range m)) \<noteq> None" "str_slice id0 (snd (m_range m)) (length id0) \<noteq> None"
    using rmatch_ok_range [OF assms] by (auto simp: str_slice_None_iff)
  show ?case
  proof (cases "(id0, m, r)" rule: expand_match.cases)
    case (3 id1 m1 c d rest)
    then have r: "id1 = id0" "m1 = m" "r = c # d # rest" by auto
    have "length after < length r" if "split_once CHR ''>'' rest = Some (name, after)" for name after
      using that by (auto simp: split_once_iff r(3))
    with slices groups around ih show ?thesis
      unfolding r(3) by (simp del: not_None_eq split: option.split prod.split)
  qed auto
qed

lemma replace_matches_total:
  "rmatches_ok (length id0) pos ms \<Longrightarrow> replace_matches id0 replacement pos ms \<noteq> None"
proof (induction ms arbitrary: pos)
  case (Cons m ms)
  then show ?case
    using rmatch_ok_range [of "length id0" m] expand_match_total [of id0 m]
    by (auto simp: str_slice_None_iff)
qed (simp add: str_slice_None_iff)

lemma rmatches_ok_take: "rmatches_ok len pos (m # ms) \<Longrightarrow> rmatches_ok len pos [m]"
  using rmatch_ok_range by auto

text \<open>The memo changes nothing but the work done.\<close>

lemma compiled_memo:
  assumes "memo_ok rx memo"
  shows "fst (compiled rx memo pat) = fst (compiled rx Map.empty pat) \<and> memo_ok rx (snd (compiled rx memo pat))"
proof (cases "regex_parts pat")
  case (Some sf)
  obtain source flags where sf: "sf = (source, flags)" by force
  show ?thesis
  proof (cases "memo pat")
    case None
    with Some sf assms show ?thesis by (auto simp: compiled_def memo_ok_def Let_def)
  next
    case (Some c)
    with \<open>regex_parts pat = Some sf\<close> sf assms have "c = compile_find rx source flags" by (fastforce simp: memo_ok_def)
    with Some \<open>regex_parts pat = Some sf\<close> sf assms show ?thesis by (simp add: compiled_def Let_def)
  qed
qed (use assms in \<open>simp add: compiled_def\<close>)

lemma matches_memo: "memo_ok rx memo \<Longrightarrow> fst (matches rx memo pat id0) = fst (matches rx Map.empty pat id0)"
  using compiled_memo [of rx memo pat]
  by (cases "compiled rx memo pat"; cases "compiled rx Map.empty pat") (simp add: matches_def)

lemma rewrite_memo:
  assumes "memo_ok rx memo"
  shows "fst (rewrite_find rx memo pat replacement id0) = fst (rewrite_find rx Map.empty pat replacement id0) \<and>
    memo_ok rx (snd (rewrite_find rx memo pat replacement id0))"
  using compiled_memo [OF assms, of pat] assms
  by (cases "compiled rx memo pat"; cases "compiled rx Map.empty pat") (simp add: rewrite_find_def)

text \<open>A find that takes an id rewrites it, and one that does not leaves it.\<close>

lemma string_rewrite:
  assumes "regex_parts pat = None"
  shows "fst (rewrite_find rx memo pat replacement (pat @ rest)) =
      Some (if rest = [] \<or> starts_with ''/'' rest then Some (replacement @ rest) else None)"
    and "fst (matches rx memo pat (pat @ rest)) \<longleftrightarrow> rest = [] \<or> starts_with ''/'' rest"
    and "(\<nexists>rest. id0 = pat @ rest) \<Longrightarrow> fst (rewrite_find rx memo pat replacement id0) = Some None"
    and "(\<nexists>rest. id0 = pat @ rest) \<Longrightarrow> \<not> fst (matches rx memo pat id0)"
proof -
  assume no: "\<nexists>rest. id0 = pat @ rest"
  then have "strip_prefix pat id0 = None" by (simp add: strip_prefix_None_iff)
  moreover have "id0 \<noteq> pat" using no by (metis append_Nil2)
  ultimately show "fst (rewrite_find rx memo pat replacement id0) = Some None" "\<not> fst (matches rx memo pat id0)"
    using assms by (simp_all add: rewrite_find_def matches_def)
qed (use assms in \<open>simp_all add: rewrite_find_def matches_def\<close>)

lemma rewrite_iff_matches:
  assumes "regress_ok rx"
  shows "fst (rewrite_find rx memo pat replacement id0) \<noteq> None \<and>
    (fst (rewrite_find rx memo pat replacement id0) = Some None \<longleftrightarrow> \<not> fst (matches rx memo pat id0))"
proof (cases "regex_parts pat")
  case None
  then show ?thesis
  proof (cases "\<exists>rest. id0 = pat @ rest")
    case True
    then obtain rest where "id0 = pat @ rest" by blast
    then show ?thesis by (simp add: string_rewrite(1,2) [OF None])
  next
    case False
    then show ?thesis by (simp add: string_rewrite(3,4) [OF None])
  qed
next
  case (Some sf)
  obtain c memo1 where c: "compiled rx memo pat = (c, memo1)" by force
  have total: "replace_matches id0 replacement 0 (if g then m # ms else [m]) \<noteq> None"
    if "re_find_iter rx re id0 = m # ms" for re m ms g
  proof -
    have ok: "rmatches_ok (length id0) 0 (m # ms)" using assms that unfolding regress_ok_def by metis
    show ?thesis
      using replace_matches_total [OF ok] replace_matches_total [OF rmatches_ok_take [OF ok]]
      by (cases g) (simp_all only: if_True if_False not_False_eq_True)
  qed
  have first: "re_find rx re id0 = None \<longleftrightarrow> re_find_iter rx re id0 = []" for re
    using assms by (simp add: regress_ok_def split: list.splits)
  show ?thesis
  proof (cases c)
    case None
    with Some c show ?thesis by (simp add: rewrite_find_def matches_def)
  next
    case (Some r)
    with c \<open>regex_parts pat = Some sf\<close> total [of "c_re r" _ _ "c_global r"] first [of "c_re r"] show ?thesis
      by (cases "re_find_iter rx (c_re r) id0") (auto simp: rewrite_find_def matches_def)
  qed
qed

section \<open>Properties\<close>

text \<open>
  C16: an alias list rewrites an id by its first entry that takes it, and only then. With an engine that keeps its
  documentation and any memo built by earlier calls, the result is that of the first matching
  entry, nothing when no entry matches, never a panic, and the memo stays one that changes no answer.
\<close>

theorem first_rewrite_first_match:
  assumes "regress_ok rx" and "memo_ok rx memo"
  shows "fst (first_rewrite rx memo entries id0) \<noteq> None \<and> memo_ok rx (snd (first_rewrite rx memo entries id0)) \<and>
    fst (first_rewrite rx memo entries id0) =
      (case List.find (\<lambda>(pat, _). fst (matches rx Map.empty pat id0)) entries of
         None \<Rightarrow> Some None
       | Some (pat, replacement) \<Rightarrow> fst (rewrite_find rx Map.empty pat replacement id0))"
  using assms(2)
proof (induction entries arbitrary: memo)
  case (Cons e entries)
  obtain pat rep where e: "e = (pat, rep)" by force
  obtain r memo1 where r: "rewrite_find rx memo pat rep id0 = (r, memo1)" by force
  then have empty: "fst (rewrite_find rx Map.empty pat rep id0) = r" and memo: "memo_ok rx memo1"
    using rewrite_memo [OF Cons.prems, of pat rep id0] by simp_all
  note iff = rewrite_iff_matches [OF assms(1), of Map.empty pat rep id0, unfolded empty]
  show ?case
  proof (cases "r = Some None")
    case True
    with r iff have "first_rewrite rx memo (e # entries) id0 = first_rewrite rx memo1 entries id0"
      "List.find (\<lambda>(pat, _). fst (matches rx Map.empty pat id0)) (e # entries) =
        List.find (\<lambda>(pat, _). fst (matches rx Map.empty pat id0)) entries" by (simp_all add: e)
    then show ?thesis using Cons.IH [OF memo] by metis
  next
    case False
    with iff obtain t where "r = Some (Some t)" by (cases r) auto
    with r memo iff empty show ?thesis by (simp add: e)
  qed
qed simp

text \<open>An engine whose expressions are literals that match at the start of a text.\<close>

definition prefix_engine :: "string regress" where
  "prefix_engine =
     (let iter = (\<lambda>re text. if starts_with re text
            then [\<lparr>m_range = (0, length re), m_captures = [], m_has_names = False, m_named_group = (\<lambda>_. None)\<rparr>] else [])
      in \<lparr>with_flags = (\<lambda>source flags. Some source),
          re_find = (\<lambda>re text. case iter re text of [] \<Rightarrow> None | m # _ \<Rightarrow> Some m), re_find_iter = iter\<rparr>)"

lemma prefix_engine_ok: "regress_ok prefix_engine"
  by (auto simp: regress_ok_def prefix_engine_def Let_def rmatch_ok_def m_groups_def range_ok_def starts_with_iff)

theorem first_rewrite_first_match_witness:
  "fst (first_rewrite prefix_engine Map.empty
     [(''react'', ''/r''), (regex_find ''~/'' [], ''/src/[$&]''), (''~'', ''/no'')] ''~/a'') = Some (Some ''/src/[~/]a'')"
proof -
  have "memo_ok prefix_engine Map.empty" by (simp add: memo_ok_def)
  moreover have "List.find (\<lambda>(pat, _). fst (matches prefix_engine Map.empty pat ''~/a''))
      [(''react'', ''/r''), (regex_find ''~/'' [], ''/src/[$&]''), (''~'', ''/no'')] = Some (regex_find ''~/'' [], ''/src/[$&]'')"
    by code_simp
  moreover have "fst (rewrite_find prefix_engine Map.empty (regex_find ''~/'' []) ''/src/[$&]'' ''~/a'') = Some (Some ''/src/[~/]a'')"
    by code_simp
  ultimately show ?thesis
    using first_rewrite_first_match [OF prefix_engine_ok, of Map.empty
        "[(''react'', ''/r''), (regex_find ''~/'' [], ''/src/[$&]''), (''~'', ''/no'')]" "''~/a''"] by simp
qed

text \<open>A regular expression survives its trip through the alias list.\<close>

lemma regex_find_roundtrip: "CHR '':'' \<notin> set flags \<Longrightarrow> regex_parts (regex_find source flags) = Some (source, flags)"
  by (simp add: regex_parts_def regex_find_def split_once_append)

end
