(* ===== verification/Js_Isolate.thy ===== *)
theory Js_Isolate
  imports Oj_Prelude
begin

text \<open>
  The JavaScript engine's isolate and its watchdog, \<^verbatim>\<open>crates/oj_js/src/isolate.rs\<close> and
  \<^verbatim>\<open>crates/oj_js/src/watchdog.rs\<close>. V8 itself is outside: the record keeps the one bit of it these files set and
  clear, \<open>terminating\<close> (between \<^verbatim>\<open>terminate_execution\<close> and \<^verbatim>\<open>cancel_terminate_execution\<close>). Instants and durations are
  natural numbers of milliseconds. The watchdog thread is modelled by the iterations of its loop: the
  instants at which it holds the state lock are an argument, so every interleaving with a job is one
  such list.
\<close>

section \<open>The watchdog\<close>

datatype engine_error = Boot string | Js string | MemoryLimit | Deadline | Closed

type_synonym wd_key = "nat \<times> u64"

text \<open>\<^verbatim>\<open>State\<close>: the ordered set of armed deadlines is its sorted list.\<close>

record watchdog =
  next_id :: "u64"
  armed :: "wd_key list"
  shutdown :: bool

definition new_watchdog :: watchdog where
  "new_watchdog = \<lparr>next_id = 0, armed = [], shutdown = False\<rparr>"

definition drop_watchdog :: "watchdog \<Rightarrow> watchdog" where
  "drop_watchdog w = w\<lparr>shutdown := True\<rparr>"

text \<open>One iteration of \<^verbatim>\<open>run\<close> under the lock: whether it terminates execution.\<close>

definition watchdog_iter :: "nat \<Rightarrow> watchdog \<Rightarrow> bool \<times> watchdog" where
  "watchdog_iter now w =
     (if shutdown w then (False, w)
      else case armed w of
        [] \<Rightarrow> (False, w)
      | (at, i) # rest \<Rightarrow> if at \<le> now then (True, w\<lparr>armed := rest\<rparr>) else (False, w))"

definition guard_arm :: "nat \<Rightarrow> nat \<Rightarrow> watchdog \<Rightarrow> wd_key \<times> watchdog" where
  "guard_arm now d w =
     (let key = (now + d, next_id w)
      in (key, w\<lparr>next_id := next_id w + 1, armed := insort_insert key (armed w)\<rparr>))"

definition guard_disarm :: "wd_key \<Rightarrow> watchdog \<Rightarrow> bool \<times> watchdog" where
  "guard_disarm key w = (key \<notin> set (armed w), w\<lparr>armed := removeAll key (armed w)\<rparr>)"

section \<open>The isolate\<close>

datatype verdict = Clean | DeadlineFired | MemoryLimitFired

fun verdict_apply :: "verdict \<Rightarrow> engine_error + 'v \<Rightarrow> engine_error + 'v" where
  "verdict_apply MemoryLimitFired (Inl e) = Inl MemoryLimit"
| "verdict_apply DeadlineFired (Inl e) = Inl Deadline"
| "verdict_apply v r = r"

fun verdict_cutoff :: "verdict \<Rightarrow> engine_error" where
  "verdict_cutoff MemoryLimitFired = MemoryLimit"
| "verdict_cutoff v = Deadline"

text \<open>\<open>oom\<close> is the flag shared with the heap limit callback, there on a capped isolate only.\<close>

record isolate =
  dog :: watchdog
  oom :: "bool option"
  condemned :: bool
  terminating :: bool

definition isolate_boot :: isolate where
  "isolate_boot = \<lparr>dog = new_watchdog, oom = None, condemned = False, terminating = False\<rparr>"

definition isolate_install :: "bool \<Rightarrow> isolate \<Rightarrow> isolate" where
  "isolate_install capped js = (if capped then js\<lparr>oom := Some False\<rparr> else js)"

text \<open>The near heap limit callback, which only a capped isolate has.\<close>

definition heap_limit_callback :: "isolate \<Rightarrow> isolate" where
  "heap_limit_callback js =
     (if oom js = None then js else js\<lparr>oom := Some True, terminating := True\<rparr>)"

definition isolate_arm :: "nat \<Rightarrow> nat option \<Rightarrow> isolate \<Rightarrow> wd_key option \<times> isolate" where
  "isolate_arm now deadline js =
     (case deadline of
        None \<Rightarrow> (None, js)
      | Some d \<Rightarrow> (case guard_arm now d (dog js) of (key, w) \<Rightarrow> (Some key, js\<lparr>dog := w\<rparr>)))"

definition oom_pending :: "isolate \<Rightarrow> bool" where
  "oom_pending js \<longleftrightarrow> oom js = Some True"

definition take_oom :: "isolate \<Rightarrow> bool \<times> isolate" where
  "take_oom js =
     (let fired = (oom js = Some True);
          js1 = js\<lparr>oom := map_option (\<lambda>_. False) (oom js)\<rparr>
      in (fired, if fired then js1\<lparr>condemned := True\<rparr> else js1))"

definition cancel_termination :: "isolate \<Rightarrow> isolate" where
  "cancel_termination js = js\<lparr>terminating := False\<rparr>"

definition isolate_disarm :: "wd_key option \<Rightarrow> isolate \<Rightarrow> bool \<times> isolate" where
  "isolate_disarm guard js =
     (case guard of
        None \<Rightarrow> (False, js)
      | Some key \<Rightarrow> (case guard_disarm key (dog js) of (fired, w) \<Rightarrow> (fired, js\<lparr>dog := w\<rparr>)))"

definition isolate_settle :: "wd_key option \<Rightarrow> isolate \<Rightarrow> verdict \<times> isolate" where
  "isolate_settle guard js =
     (case isolate_disarm guard js of (deadline_fired, js1) \<Rightarrow>
       (case take_oom js1 of (oom_fired, js2) \<Rightarrow>
         (let js3 = (if deadline_fired \<or> oom_fired then cancel_termination js2 else js2)
          in if oom_fired then (MemoryLimitFired, js3\<lparr>condemned := True\<rparr>)
             else if deadline_fired then (DeadlineFired, js3)
             else (Clean, js3))))"

text \<open>
  The iterations of the watchdog thread while a job runs, at the instants it gets the lock. A firing
  leaves the isolate terminating.
\<close>

definition isolate_watch :: "nat \<Rightarrow> isolate \<Rightarrow> isolate" where
  "isolate_watch now js =
     (case watchdog_iter now (dog js) of (fired, w) \<Rightarrow>
        js\<lparr>dog := w, terminating := terminating js \<or> fired\<rparr>)"

text \<open>Driving the event loop: a pending first poll is repeated.\<close>

datatype 'a poll = Ready 'a | Pending

definition poll_events :: "'a poll \<Rightarrow> 'a poll \<Rightarrow> 'a poll" where
  "poll_events once again = (case once of Pending \<Rightarrow> again | Ready r \<Rightarrow> Ready r)"

section \<open>Lemmas\<close>

text \<open>Outside a job nothing is armed, and a pending termination is one of the heap limit.\<close>

definition quiet :: "isolate \<Rightarrow> bool" where
  "quiet js \<longleftrightarrow> armed (dog js) = [] \<and> (terminating js \<longrightarrow> oom js = Some True)"

text \<open>While a job runs: its own deadline at most, which is armed until it fires.\<close>

definition watched :: "wd_key option \<Rightarrow> isolate \<Rightarrow> bool" where
  "watched guard js \<longleftrightarrow>
     (case guard of
        None \<Rightarrow> quiet js
      | Some key \<Rightarrow> armed (dog js) = [key] \<and> (terminating js \<longrightarrow> oom js = Some True) \<or> armed (dog js) = [])"

lemma quiet_boot: "quiet (isolate_install capped isolate_boot)"
  by (simp add: quiet_def isolate_install_def isolate_boot_def new_watchdog_def)

lemma quiet_heap_limit: "quiet js \<Longrightarrow> quiet (heap_limit_callback js)"
  by (auto simp: quiet_def heap_limit_callback_def)

lemma watched_arm: "quiet js \<Longrightarrow> isolate_arm now d js = (guard, js1) \<Longrightarrow> watched guard js1"
  by (auto simp: quiet_def watched_def isolate_arm_def guard_arm_def Let_def insort_insert_key_def
      split: option.splits prod.splits)

lemma watched_heap_limit: "watched guard js \<Longrightarrow> watched guard (heap_limit_callback js)"
  by (auto simp: watched_def quiet_def heap_limit_callback_def split: option.splits)

lemma watched_watch: "watched guard js \<Longrightarrow> watched guard (isolate_watch now js)"
  by (auto simp: watched_def quiet_def isolate_watch_def watchdog_iter_def split: option.splits list.splits prod.splits)

lemma watched_watches: "watched guard js \<Longrightarrow> watched guard (fold isolate_watch ts js)"
  by (induction ts arbitrary: js) (simp_all add: watched_watch)

lemma settle_quiet: "watched guard js \<Longrightarrow> isolate_settle guard js = (v, js1) \<Longrightarrow> quiet js1"
  by (auto simp: watched_def quiet_def isolate_settle_def isolate_disarm_def guard_disarm_def take_oom_def
      cancel_termination_def Let_def split: option.splits if_splits)

lemma settle_condemned:
  "isolate_settle guard js = (v, js1) \<Longrightarrow> condemned js1 \<longleftrightarrow> condemned js \<or> v = MemoryLimitFired"
  by (auto simp: isolate_settle_def isolate_disarm_def guard_disarm_def take_oom_def cancel_termination_def Let_def
      split: option.splits if_splits)

lemma settle_memory_limit:
  "isolate_settle guard js = (v, js1) \<Longrightarrow> v = MemoryLimitFired \<longleftrightarrow> oom js = Some True"
  by (auto simp: isolate_settle_def isolate_disarm_def guard_disarm_def take_oom_def Let_def
      split: option.splits if_splits)

lemma settle_deadline: "isolate_settle guard js = (DeadlineFired, js1) \<Longrightarrow> guard \<noteq> None"
  by (auto simp: isolate_settle_def isolate_disarm_def take_oom_def Let_def split: option.splits if_splits)

lemma condemned_watch [simp]: "condemned (isolate_watch now js) = condemned js"
  by (simp add: isolate_watch_def split: prod.splits)

lemma condemned_watches [simp]: "condemned (fold isolate_watch ts js) = condemned js"
  by (induction ts arbitrary: js) simp_all

lemma condemned_heap_limit [simp]: "condemned (heap_limit_callback js) = condemned js"
  by (simp add: heap_limit_callback_def)

lemma condemned_arm: "isolate_arm now d js = (guard, js1) \<Longrightarrow> condemned js1 = condemned js"
  by (auto simp: isolate_arm_def split: option.splits prod.splits)

lemma arm_guard: "isolate_arm now d js = (guard, js1) \<Longrightarrow> guard \<noteq> None \<Longrightarrow> d \<noteq> None"
  by (auto simp: isolate_arm_def split: option.splits)

text \<open>Whether the isolate is capped never changes.\<close>

lemma oom_None [simp]:
  "oom (heap_limit_callback js) = None \<longleftrightarrow> oom js = None"
  "oom (cancel_termination js) = None \<longleftrightarrow> oom js = None"
  "oom (isolate_watch t js) = oom js"
  "oom (fold isolate_watch ts js) = oom js"
proof -
  show watch: "oom (isolate_watch t js) = oom js" for t js
    by (simp add: isolate_watch_def split: prod.splits)
  show "oom (fold isolate_watch ts js) = oom js"
    by (induction ts arbitrary: js) (simp_all add: watch)
qed (simp_all add: heap_limit_callback_def cancel_termination_def)

lemma oom_arm: "isolate_arm t d js = (guard, js1) \<Longrightarrow> oom js1 = oom js"
  by (auto simp: isolate_arm_def split: option.splits prod.splits)

lemma oom_settle: "isolate_settle guard js = (v, js1) \<Longrightarrow> oom js1 = None \<longleftrightarrow> oom js = None"
  by (auto simp: isolate_settle_def isolate_disarm_def guard_disarm_def take_oom_def cancel_termination_def Let_def
      split: option.splits if_splits)

text \<open>A deadline that is armed alone fires exactly when the thread runs at or after it.\<close>

lemma watch_alone:
  assumes "armed (dog js) = [key]" and "\<not> shutdown (dog js)"
  shows "armed (dog (fold isolate_watch ts js)) = (if \<exists>t \<in> set ts. fst key \<le> t then [] else [key])"
  using assms
proof (induction ts arbitrary: js)
  case (Cons t ts)
  show ?case
  proof (cases "fst key \<le> t")
    case True
    have "armed (dog (fold isolate_watch us j)) = []" if "armed (dog j) = []" for us j
      using that by (induction us arbitrary: j) (auto simp: isolate_watch_def watchdog_iter_def)
    moreover have "armed (dog (isolate_watch t js)) = []"
      using True Cons.prems by (cases key) (simp add: isolate_watch_def watchdog_iter_def)
    ultimately show ?thesis using True by simp
  next
    case False
    with Cons.prems have "isolate_watch t js = js"
      by (cases key) (simp add: isolate_watch_def watchdog_iter_def)
    with False Cons show ?thesis by simp
  qed
qed simp

end
