(* ===== verification/Js_Scheduler.thy ===== *)
theory Js_Scheduler
  imports Js_Isolate "HOL-Library.Multiset"
begin

text \<open>
  The engine thread, \<^verbatim>\<open>crates/oj_js/src/scheduler.rs\<close> with the jobs of \<^verbatim>\<open>crates/oj_js/src/engine.rs\<close>. A job's reply
  channel is a number, and what is sent on it is appended to a log. What V8, tokio and the clock do
  during one wake of the engine is the record \<open>wake\<close>: whatever they answer, the theorems hold. A
  V8 value is its JSON. \<^verbatim>\<open>tokio::time::timeout_at\<close> is the field \<open>timeout_at\<close> of a wake.
\<close>

section \<open>Jobs and wakes\<close>

datatype 'v eval_input = Source string | Path string

datatype 'v job =
    Eval "'v eval_input" "nat option" nat
  | Gc nat
  | Call string string "'v list" "nat option" nat

fun job_reply :: "'v job \<Rightarrow> nat" where
  "job_reply (Eval input deadline reply) = reply"
| "job_reply (Gc reply) = reply"
| "job_reply (Call module export args deadline reply) = reply"

text \<open>How a parked call left: settled by its promise, or timed out.\<close>

datatype 'v outcome = Settled "string + 'v" | Elapsed

text \<open>A parked call: its future is the promise of the call and the deadline around it.\<close>

record parked =
  reply_of :: nat
  deadline_at :: "nat option"

text \<open>
  One wake: the job channel, the promises of parked calls, the two polls of the event loop, and, for a
  job that is run, what V8 answers, the instants the clock shows and those the watchdog thread runs at.
\<close>

record 'v wake =
  recv :: "'v job option poll"
  promise :: "nat \<Rightarrow> (string + 'v) poll"
  timeout_at :: "nat \<Rightarrow> (string + 'v) poll \<Rightarrow> 'v outcome poll"
  events :: "(string + unit) poll"
  events_again :: "(string + unit) poll"
  events_oom :: bool
  now :: nat
  arm_now :: nat
  watch_at :: "nat list"
  job_oom :: bool
  run_eval :: "string + 'v"
  setup_call :: "string + unit"
  done_at :: nat

datatype 'v tick =
    TJob "'v job"
  | TSettled nat "'v outcome"
  | TBroken string
  | TMemoryExhausted
  | TClosed

record 'v scheduler =
  isolate_of :: isolate
  calls :: "parked list"
  event_loop_idle :: bool
  eval_counter :: u64
  replies :: "(nat \<times> (engine_error + 'v)) list"
  acks :: "nat list"
  stopped :: bool

definition scheduler_boot :: "bool \<Rightarrow> 'v scheduler" where
  "scheduler_boot capped =
     \<lparr>isolate_of = isolate_install capped isolate_boot, calls = [], event_loop_idle = False, eval_counter = 0,
      replies = [], acks = [], stopped = False\<rparr>"

definition send :: "nat \<Rightarrow> engine_error + 'v \<Rightarrow> 'v scheduler \<Rightarrow> 'v scheduler" where
  "send reply r s = s\<lparr>replies := replies s @ [(reply, r)]\<rparr>"

definition ack :: "nat \<Rightarrow> 'v scheduler \<Rightarrow> 'v scheduler" where
  "ack reply s = s\<lparr>acks := acks s @ [reply]\<rparr>"

section \<open>The next tick\<close>

definition poll_parked :: "'v wake \<Rightarrow> parked \<Rightarrow> 'v outcome poll" where
  "poll_parked w c =
     (case deadline_at c of
        Some at \<Rightarrow> timeout_at w at (promise w (reply_of c))
      | None \<Rightarrow> (case promise w (reply_of c) of Ready r \<Rightarrow> Ready (Settled r) | Pending \<Rightarrow> Pending))"

fun poll_calls :: "'v wake \<Rightarrow> nat \<Rightarrow> parked list \<Rightarrow> (nat \<times> 'v outcome) option" where
  "poll_calls w i [] = None"
| "poll_calls w i (c # cs) =
     (case poll_parked w c of Ready out \<Rightarrow> Some (i, out) | Pending \<Rightarrow> poll_calls w (i + 1) cs)"

text \<open>The event loop runs JavaScript, which may reach the heap limit.\<close>

definition events_run :: "'v wake \<Rightarrow> isolate \<Rightarrow> isolate" where
  "events_run w js = (if events_oom w then heap_limit_callback js else js)"

text \<open>One poll of \<^verbatim>\<open>next_tick\<close>; \<open>None\<close> is \<^verbatim>\<open>Poll::Pending\<close>.\<close>

definition poll_tick :: "'v wake \<Rightarrow> 'v scheduler \<Rightarrow> 'v tick option \<times> 'v scheduler" where
  "poll_tick w s =
     (case recv w of
        Ready (Some job) \<Rightarrow> (Some (TJob job), s)
      | Ready None \<Rightarrow> (Some TClosed, s)
      | Pending \<Rightarrow>
          (case poll_calls w 0 (calls s) of
             Some (i, out) \<Rightarrow> (Some (TSettled i out), s)
           | None \<Rightarrow>
               (let s1 = s\<lparr>isolate_of := events_run w (isolate_of s)\<rparr>
                in case poll_events (events w) (events_again w) of
                     Ready (Inl e) \<Rightarrow> (Some (TBroken e), s1)
                   | Ready (Inr u) \<Rightarrow>
                       (if oom_pending (isolate_of s1) then Some TMemoryExhausted else None, s1\<lparr>event_loop_idle := True\<rparr>)
                   | Pending \<Rightarrow>
                       (if oom_pending (isolate_of s1) then Some TMemoryExhausted else None, s1\<lparr>event_loop_idle := False\<rparr>))))"

section \<open>Handlers\<close>

definition fail_all_parked :: "'v scheduler \<Rightarrow> 'v scheduler" where
  "fail_all_parked s =
     (let s1 = fold (\<lambda>c. send (reply_of c) (Inl MemoryLimit)) (calls s) (s\<lparr>calls := []\<rparr>)
      in s1\<lparr>isolate_of := cancel_termination (isolate_of s1)\<rparr>)"

definition settle :: "wd_key option \<Rightarrow> 'v scheduler \<Rightarrow> verdict \<times> 'v scheduler" where
  "settle guard s =
     (case isolate_settle guard (isolate_of s) of (verdict, js) \<Rightarrow>
        (let s1 = s\<lparr>isolate_of := js\<rparr>
         in (verdict, if verdict = MemoryLimitFired then fail_all_parked s1 else s1)))"

definition arm_alone :: "nat \<Rightarrow> nat option \<Rightarrow> 'v scheduler \<Rightarrow> wd_key option \<times> 'v scheduler" where
  "arm_alone t deadline s =
     (if calls s = []
      then (case isolate_arm t deadline (isolate_of s) of (guard, js) \<Rightarrow> (guard, s\<lparr>isolate_of := js\<rparr>))
      else (None, s))"

text \<open>
  V8 at work (running code, collecting garbage, turning a value into JSON) may reach the heap limit; the
  JavaScript of a job also has the watchdog thread beside it.
\<close>

definition v8_run :: "'v wake \<Rightarrow> isolate \<Rightarrow> isolate" where
  "v8_run w js = (if job_oom w then heap_limit_callback js else js)"

definition run_js :: "'v wake \<Rightarrow> 'v scheduler \<Rightarrow> 'v scheduler" where
  "run_js w s =
     s\<lparr>isolate_of := v8_run w (fold isolate_watch (watch_at w) (isolate_of s))\<rparr>"

definition eval_job :: "'v wake \<Rightarrow> nat option \<Rightarrow> nat \<Rightarrow> 'v scheduler \<Rightarrow> 'v scheduler" where
  "eval_job w deadline reply s =
     (case arm_alone (arm_now w) deadline (s\<lparr>eval_counter := eval_counter s + 1\<rparr>) of (guard, s1) \<Rightarrow>
       (case settle guard (run_js w s1) of (verdict, s2) \<Rightarrow>
          send reply (verdict_apply verdict (map_sum Js id (run_eval w))) s2))"

definition call_job :: "'v wake \<Rightarrow> nat option \<Rightarrow> nat \<Rightarrow> 'v scheduler \<Rightarrow> 'v scheduler" where
  "call_job w deadline reply s =
     (let at = map_option (\<lambda>d. now w + d) deadline
      in case arm_alone (arm_now w) deadline s of (guard, s1) \<Rightarrow>
       (case settle guard (run_js w s1) of (verdict, s2) \<Rightarrow>
         (case setup_call w of
            Inr u \<Rightarrow>
              if verdict = Clean \<and> (case at of Some t \<Rightarrow> t \<le> done_at w | None \<Rightarrow> False)
              then send reply (Inl Deadline) s2
              else if verdict = Clean
              then s2\<lparr>calls := calls s2 @ [\<lparr>reply_of = reply, deadline_at = at\<rparr>]\<rparr>
              else send reply (Inl (verdict_cutoff verdict)) s2
          | Inl e \<Rightarrow> send reply (verdict_apply verdict (Inl (Js e))) s2)))"

text \<open>\<^verbatim>\<open>Vec::swap_remove\<close>: the last element takes the place of the removed one.\<close>

definition swap_remove :: "nat \<Rightarrow> 'a list \<Rightarrow> 'a list" where
  "swap_remove i xs = butlast (xs[i := last xs])"

fun settled_to_json :: "string + 'v \<Rightarrow> engine_error + 'v" where
  "settled_to_json (Inr v) = Inr v"
| "settled_to_json (Inl e) = Inl (Js e)"

definition settled :: "'v wake \<Rightarrow> nat \<Rightarrow> 'v outcome \<Rightarrow> 'v scheduler \<Rightarrow> 'v scheduler" where
  "settled w i out s =
     (let call = calls s ! i;
          js = (if out = Elapsed then isolate_of s else v8_run w (isolate_of s))
      in case settle None (s\<lparr>isolate_of := js, calls := swap_remove i (calls s)\<rparr>) of (verdict, s1) \<Rightarrow>
        send (reply_of call)
          (case out of Settled r \<Rightarrow> verdict_apply verdict (settled_to_json r) | Elapsed \<Rightarrow> Inl (verdict_cutoff verdict)) s1)"

definition memory_exhausted :: "'v scheduler \<Rightarrow> 'v scheduler" where
  "memory_exhausted s = fail_all_parked (s\<lparr>isolate_of := snd (take_oom (isolate_of s))\<rparr>)"

definition broken_result :: "'v wake \<Rightarrow> bool \<Rightarrow> string \<Rightarrow> parked \<Rightarrow> engine_error + 'v" where
  "broken_result w oom_fired error c =
     (case poll_parked w c of
        Ready (Settled r) \<Rightarrow> settled_to_json r
      | Ready Elapsed \<Rightarrow> if oom_fired then Inl MemoryLimit else Inl Deadline
      | Pending \<Rightarrow> if oom_fired then Inl MemoryLimit else Inl (Js error))"

definition broken :: "'v wake \<Rightarrow> string \<Rightarrow> 'v scheduler \<Rightarrow> 'v scheduler" where
  "broken w error s =
     (case take_oom (isolate_of s) of (oom_fired, js) \<Rightarrow>
       (let s1 = fold (\<lambda>c. send (reply_of c) (broken_result w oom_fired error c)) (calls s)
                   (s\<lparr>isolate_of := v8_run w js, calls := []\<rparr>)
        in s1\<lparr>isolate_of := cancel_termination (isolate_of s1)\<rparr>))"

definition flush_on_close :: "'v wake \<Rightarrow> 'v scheduler \<Rightarrow> 'v scheduler" where
  "flush_on_close w s =
     (if event_loop_idle s then s
      else case isolate_arm (arm_now w) (Some 250) (isolate_of s) of (guard, js) \<Rightarrow>
        s\<lparr>isolate_of := snd (isolate_disarm guard (events_run w (fold isolate_watch (watch_at w) js)))\<rparr>)"

definition refuse_condemned :: "'v job \<Rightarrow> 'v scheduler \<Rightarrow> 'v scheduler" where
  "refuse_condemned job s =
     (case job of Gc reply \<Rightarrow> ack reply s | _ \<Rightarrow> send (job_reply job) (Inl MemoryLimit) s)"

definition run_job :: "'v wake \<Rightarrow> 'v job \<Rightarrow> 'v scheduler \<Rightarrow> 'v scheduler" where
  "run_job w job s =
     (if condemned (isolate_of s) then refuse_condemned job s
      else case job of
        Eval input deadline reply \<Rightarrow> eval_job w deadline reply s
      | Gc reply \<Rightarrow> ack reply (s\<lparr>isolate_of := v8_run w (isolate_of s)\<rparr>)
      | Call module export args deadline reply \<Rightarrow> call_job w deadline reply s)"

definition handle_tick :: "'v wake \<Rightarrow> 'v tick \<Rightarrow> 'v scheduler \<Rightarrow> 'v scheduler" where
  "handle_tick w t s =
     (case t of
        TJob job \<Rightarrow> run_job w job (s\<lparr>event_loop_idle := False\<rparr>)
      | TSettled i out \<Rightarrow> settled w i out s
      | TMemoryExhausted \<Rightarrow> memory_exhausted s
      | TBroken e \<Rightarrow> broken w e s
      | TClosed \<Rightarrow> (flush_on_close w s)\<lparr>stopped := True\<rparr>)"

text \<open>The loop of \<^verbatim>\<open>run\<close> over a sequence of wakes; it ends when the job channel is closed.\<close>

definition wake_step :: "'v wake \<Rightarrow> 'v scheduler \<Rightarrow> 'v scheduler" where
  "wake_step w s =
     (case poll_tick w s of
        (None, s1) \<Rightarrow> s1
      | (Some t, s1) \<Rightarrow> handle_tick w t s1)"

fun run :: "'v wake list \<Rightarrow> 'v scheduler \<Rightarrow> 'v scheduler" where
  "run [] s = s"
| "run (w # ws) s = (if stopped s then s else run ws (wake_step w s))"

text \<open>
  What a caller of \<^verbatim>\<open>JsEngine::request\<close> sees: the reply sent, or \<^verbatim>\<open>Closed\<close> once the engine thread has dropped the
  channel, and \<open>None\<close> while it waits.
\<close>

definition request_outcome :: "nat \<Rightarrow> 'v scheduler \<Rightarrow> (engine_error + 'v) option" where
  "request_outcome reply s =
     (case map_of (replies s) reply of
        Some r \<Rightarrow> Some r
      | None \<Rightarrow> if stopped s then Some (Inl Closed) else None)"

section \<open>What every wake keeps\<close>

text \<open>The reply channels the engine has answered or still holds.\<close>

definition owed :: "'v scheduler \<Rightarrow> nat multiset" where
  "owed s = mset (map fst (replies s)) + mset (acks s) + mset (map reply_of (calls s))"

lemma owed_send [simp]: "owed (send r x s) = add_mset r (owed s)"
  by (simp add: owed_def send_def)

lemma owed_ack [simp]: "owed (ack r s) = add_mset r (owed s)"
  by (simp add: owed_def ack_def)

lemma owed_isolate [simp]: "owed (s\<lparr>isolate_of := js\<rparr>) = owed s"
  "owed (s\<lparr>event_loop_idle := b\<rparr>) = owed s" "owed (s\<lparr>eval_counter := n\<rparr>) = owed s" "owed (s\<lparr>stopped := b\<rparr>) = owed s"
  by (simp_all add: owed_def)

lemma owed_sends: "owed (fold (\<lambda>c. send (f c) (x c)) cs s) = owed s + mset (map f cs)"
  by (induction cs arbitrary: s) simp_all

lemma owed_no_calls: "owed (s\<lparr>isolate_of := js, calls := []\<rparr>) + image_mset reply_of (mset (calls s)) = owed s"
  "owed (s\<lparr>calls := []\<rparr>) + image_mset reply_of (mset (calls s)) = owed s"
  by (simp_all add: owed_def)

lemma owed_fail_all [simp]: "owed (fail_all_parked s) = owed s"
  by (simp add: fail_all_parked_def Let_def owed_sends owed_no_calls)

lemma owed_settle: "settle guard s = (v, s1) \<Longrightarrow> owed s1 = owed s"
  by (auto simp: settle_def Let_def split: prod.splits if_splits)

lemma owed_arm: "arm_alone t d s = (guard, s1) \<Longrightarrow> owed s1 = owed s"
  by (auto simp: arm_alone_def split: prod.splits if_splits)

lemma owed_run_js [simp]: "owed (run_js w s) = owed s"
  by (simp add: run_js_def)

lemma owed_eval_job: "owed (eval_job w d r s) = add_mset r (owed s)"
  by (auto simp: eval_job_def owed_settle owed_arm split: prod.splits)

lemma owed_park: "owed (s\<lparr>calls := calls s @ [c]\<rparr>) = add_mset (reply_of c) (owed s)"
  by (simp add: owed_def)

lemma owed_call_job: "owed (call_job w d r s) = add_mset r (owed s)"
  by (auto simp: call_job_def Let_def owed_settle owed_arm owed_park split: prod.splits sum.splits)

lemma mset_swap_remove: "i < length xs \<Longrightarrow> add_mset (xs ! i) (mset (swap_remove i xs)) = mset xs"
proof (cases "i = length xs - 1")
  case True
  assume "i < length xs"
  with True have "xs \<noteq> []" by auto
  with True have "xs[i := last xs] = xs" by (simp add: last_conv_nth)
  with \<open>xs \<noteq> []\<close> True show ?thesis
    by (metis append_butlast_last_id last_conv_nth mset_append mset_single_iff_right swap_remove_def union_mset_add_mset_right
        add.right_neutral mset.simps)
next
  case False
  assume i: "i < length xs"
  then have "mset (xs[i := last xs]) = add_mset (last xs) (mset xs - {#xs ! i#})" by (simp add: mset_update)
  moreover have "xs \<noteq> []" using i by auto
  then have "xs[i := last xs] \<noteq> []" "last (xs[i := last xs]) = last xs"
    using False by (simp_all add: last_list_update)
  then have "mset (xs[i := last xs]) = add_mset (last xs) (mset (swap_remove i xs))"
    by (metis append_butlast_last_id mset.simps(1) mset.simps(2) mset_append swap_remove_def add.right_neutral
        union_mset_add_mset_right)
  ultimately show ?thesis using i by simp
qed

lemma owed_settled: "i < length (calls s) \<Longrightarrow> owed (settled w i out s) = owed s"
proof -
  assume i: "i < length (calls s)"
  have "add_mset (reply_of (calls s ! i)) (mset (map reply_of (swap_remove i (calls s)))) = mset (map reply_of (calls s))"
    using mset_swap_remove [OF i] by (metis image_mset_add_mset mset_map)
  then have "add_mset (reply_of (calls s ! i)) (owed (s\<lparr>isolate_of := js, calls := swap_remove i (calls s)\<rparr>)) = owed s"
      "add_mset (reply_of (calls s ! i)) (owed (s\<lparr>calls := swap_remove i (calls s)\<rparr>)) = owed s" for js
    by (simp_all add: owed_def)
  then show ?thesis
    by (auto simp: settled_def Let_def owed_settle split: prod.splits)
qed

lemma owed_broken: "owed (broken w e s) = owed s"
  by (auto simp: broken_def Let_def owed_sends owed_no_calls split: prod.splits)

lemma owed_flush [simp]: "owed (flush_on_close w s) = owed s"
  by (auto simp: flush_on_close_def Let_def split: prod.splits)

lemma poll_calls_ready:
  "poll_calls w i cs = Some (k, out) \<Longrightarrow> i \<le> k \<and> k < i + length cs \<and> poll_parked w (cs ! (k - i)) = Ready out"
proof (induction w i cs rule: poll_calls.induct)
  case (2 w i c cs)
  then show ?case by (cases "poll_parked w c") (auto simp: nth_Cons' Suc_le_eq)
qed simp

definition job_of :: "'v wake \<Rightarrow> 'v job list" where
  "job_of w = (case recv w of Ready (Some job) \<Rightarrow> [job] | _ \<Rightarrow> [])"

lemma owed_wake: "owed (wake_step w s) = owed s + mset (map job_reply (job_of w))"
proof -
  have job: "owed (run_job w job s) = add_mset (job_reply job) (owed s)" for job and s :: "'a scheduler"
    by (auto simp: run_job_def refuse_condemned_def owed_eval_job owed_call_job split: job.splits)
  have "owed (memory_exhausted s) = owed s" for s :: "'a scheduler"
    by (simp add: memory_exhausted_def)
  then show ?thesis
    by (auto simp: wake_step_def poll_tick_def handle_tick_def job_of_def job owed_broken Let_def
        split: poll.splits option.splits sum.splits prod.splits intro!: owed_settled dest!: poll_calls_ready)
qed

text \<open>The jobs received over a sequence of wakes, up to the closing of the channel.\<close>

fun received :: "'v wake list \<Rightarrow> 'v job list" where
  "received [] = []"
| "received (w # ws) = (if recv w = Ready None then [] else job_of w @ received ws)"

lemma run_stopped: "stopped s \<Longrightarrow> run ws s = s"
  by (cases ws) simp_all

lemma stopped_send [simp]: "stopped (send r x s) = stopped s" "stopped (ack r s) = stopped s"
  by (simp_all add: send_def ack_def)

text \<open>Sending on many channels only appends to the log.\<close>

lemma fold_send: "fold (\<lambda>c. send (f c) (x c)) cs s = s\<lparr>replies := replies s @ map (\<lambda>c. (f c, x c)) cs\<rparr>"
  by (induction cs arbitrary: s) (simp_all add: send_def)

lemma fail_all_eq:
  "fail_all_parked s = s\<lparr>isolate_of := cancel_termination (isolate_of s), calls := [],
     replies := replies s @ map (\<lambda>c. (reply_of c, Inl MemoryLimit)) (calls s)\<rparr>"
  by (simp add: fail_all_parked_def fold_send)

lemma settle_eq:
  "settle guard s = (v, s1) \<Longrightarrow>
     \<exists>js. isolate_settle guard (isolate_of s) = (v, js) \<and>
       s1 = (if v = MemoryLimitFired then fail_all_parked (s\<lparr>isolate_of := js\<rparr>) else s\<lparr>isolate_of := js\<rparr>)"
  by (auto simp: settle_def Let_def split: prod.splits)

lemma arm_alone_eq:
  "arm_alone t d s = (guard, s1) \<Longrightarrow>
     \<exists>js. s1 = s\<lparr>isolate_of := js\<rparr> \<and>
       (if calls s = [] then isolate_arm t d (isolate_of s) = (guard, js) else guard = None \<and> js = isolate_of s)"
  by (auto simp: arm_alone_def split: prod.splits if_splits)

lemma stopped_handlers [simp]:
  "stopped (fail_all_parked s) = stopped s" "stopped (run_js w s) = stopped s"
  "stopped (memory_exhausted s) = stopped s" "stopped (broken w e s) = stopped s"
  by (simp_all add: fail_all_eq run_js_def memory_exhausted_def broken_def fold_send Let_def split: prod.splits)

lemma stopped_settle: "settle guard s = (v, s1) \<Longrightarrow> stopped s1 = stopped s"
  by (auto dest!: settle_eq split: if_splits)

lemma stopped_arm: "arm_alone t d s = (guard, s1) \<Longrightarrow> stopped s1 = stopped s"
  by (auto dest!: arm_alone_eq)

lemma stopped_jobs [simp]:
  "stopped (eval_job w d r s) = stopped s" "stopped (call_job w d r s) = stopped s" "stopped (settled w i out s) = stopped s"
  by (auto simp: eval_job_def call_job_def settled_def Let_def stopped_settle stopped_arm split: prod.splits sum.splits)

lemma stopped_run_job [simp]: "stopped (run_job w job s) = stopped s"
  by (simp add: run_job_def refuse_condemned_def split: job.splits)

lemma poll_tick_cases:
  obtains (job) job where "recv w = Ready (Some job)" "poll_tick w s = (Some (TJob job), s)"
  | (closed) "recv w = Ready None" "poll_tick w s = (Some TClosed, s)"
  | (settled) i out where "recv w = Pending" "i < length (calls s)" "poll_parked w (calls s ! i) = Ready out"
      "poll_tick w s = (Some (TSettled i out), s)"
  | (events) t s1 where "recv w = Pending" "poll_tick w s = (t, s1)"
      "t = None \<and> \<not> oom_pending (isolate_of s1) \<or> t = Some TMemoryExhausted \<or> (\<exists>e. t = Some (TBroken e))"
      "\<exists>b. s1 = s\<lparr>isolate_of := events_run w (isolate_of s), event_loop_idle := b\<rparr>"
proof (cases "recv w")
  case (Ready j)
  then show ?thesis using job closed by (cases j) (simp_all add: poll_tick_def)
next
  case Pending
  show ?thesis
  proof (cases "poll_calls w 0 (calls s)")
    case None
    obtain t s1 where p: "poll_tick w s = (t, s1)" by force
    have "(t = None \<and> \<not> oom_pending (isolate_of s1) \<or> t = Some TMemoryExhausted \<or> (\<exists>e. t = Some (TBroken e))) \<and>
        (\<exists>b. s1 = s\<lparr>isolate_of := events_run w (isolate_of s), event_loop_idle := b\<rparr>)"
      using p Pending None by (cases s)
        (auto simp: poll_tick_def Let_def split: poll.splits sum.splits if_splits)
    with p Pending show ?thesis using events by blast
  next
    case (Some r)
    then show ?thesis using Pending settled by (cases r) (auto simp: poll_tick_def dest!: poll_calls_ready)
  qed
qed

lemma stopped_wake: "stopped (wake_step w s) \<longleftrightarrow> stopped s \<or> recv w = Ready None"
  by (cases rule: poll_tick_cases [where w = w and s = s]) (auto simp: wake_step_def handle_tick_def)

lemma owed_run: "\<not> stopped s \<Longrightarrow> owed (run ws s) = owed s + mset (map job_reply (received ws))"
proof (induction ws arbitrary: s)
  case (Cons w ws)
  show ?case
  proof (cases "recv w = Ready None")
    case True
    then have "job_of w = []" by (simp add: job_of_def)
    with True Cons.prems owed_wake [of w s] show ?thesis
      by (simp add: run_stopped stopped_wake)
  next
    case False
    with Cons.IH [of "wake_step w s"] Cons.prems owed_wake [of w s] show ?thesis
      by (simp add: stopped_wake)
  qed
qed simp

section \<open>The health invariant\<close>

definition healthy :: "'v scheduler \<Rightarrow> bool" where
  "healthy s \<longleftrightarrow> quiet (isolate_of s) \<and> (condemned (isolate_of s) \<longrightarrow> calls s = [])"

lemma healthy_send [simp]: "healthy (send r x s) = healthy s" "healthy (ack r s) = healthy s"
  "healthy (s\<lparr>event_loop_idle := b\<rparr>) = healthy s" "healthy (s\<lparr>eval_counter := n\<rparr>) = healthy s"
  by (simp_all add: healthy_def send_def ack_def)

lemma quiet_v8 [simp]: "quiet js \<Longrightarrow> quiet (v8_run w js)"
  by (simp add: v8_run_def quiet_heap_limit)

lemma condemned_v8 [simp]: "condemned (v8_run w js) = condemned js"
  by (simp add: v8_run_def)

lemma events_run_facts [simp]: "quiet js \<Longrightarrow> quiet (events_run w js)"
  "condemned (events_run w js) = condemned js" "oom (events_run w js) = None \<longleftrightarrow> oom js = None"
  by (simp_all add: events_run_def quiet_heap_limit)

lemma oom_v8 [simp]: "oom (v8_run w js) = None \<longleftrightarrow> oom js = None"
  by (simp add: v8_run_def)

lemma quiet_cancel [simp]: "quiet js \<Longrightarrow> quiet (cancel_termination js)"
  by (simp add: quiet_def cancel_termination_def)

lemma condemned_cancel [simp]: "condemned (cancel_termination js) = condemned js"
  by (simp add: cancel_termination_def)

lemma settle_facts:
  assumes "watched guard (isolate_of s)" and "settle guard s = (v, s1)"
  shows "quiet (isolate_of s1)"
    and "condemned (isolate_of s1) \<longleftrightarrow> condemned (isolate_of s) \<or> v = MemoryLimitFired"
    and "calls s1 = (if v = MemoryLimitFired then [] else calls s)"
    and "replies s1 = replies s @ (if v = MemoryLimitFired then map (\<lambda>c. (reply_of c, Inl MemoryLimit)) (calls s) else [])"
    and "oom (isolate_of s1) = None \<longleftrightarrow> oom (isolate_of s) = None" and "v = MemoryLimitFired \<Longrightarrow> oom (isolate_of s) \<noteq> None"
proof -
  obtain js where js: "isolate_settle guard (isolate_of s) = (v, js)"
      "s1 = (if v = MemoryLimitFired then fail_all_parked (s\<lparr>isolate_of := js\<rparr>) else s\<lparr>isolate_of := js\<rparr>)"
    using settle_eq [OF assms(2)] by blast
  note settle_quiet [OF assms(1) js(1)] settle_condemned [OF js(1)] oom_settle [OF js(1)] settle_memory_limit [OF js(1)]
  with js(2) show "quiet (isolate_of s1)"
    and "condemned (isolate_of s1) \<longleftrightarrow> condemned (isolate_of s) \<or> v = MemoryLimitFired"
    and "calls s1 = (if v = MemoryLimitFired then [] else calls s)"
    and "replies s1 = replies s @ (if v = MemoryLimitFired then map (\<lambda>c. (reply_of c, Inl MemoryLimit)) (calls s) else [])"
    and "oom (isolate_of s1) = None \<longleftrightarrow> oom (isolate_of s) = None" and "v = MemoryLimitFired \<Longrightarrow> oom (isolate_of s) \<noteq> None"
    by (simp_all add: fail_all_eq)
qed

lemma watched_run_js: "watched guard (isolate_of s) \<Longrightarrow> watched guard (isolate_of (run_js w s))"
  by (simp add: run_js_def v8_run_def watched_watches watched_heap_limit)

lemma arm_facts:
  assumes "quiet (isolate_of s)" and "arm_alone t d s = (guard, s1)"
  shows "watched guard (isolate_of s1)" and "condemned (isolate_of s1) = condemned (isolate_of s)"
    and "calls s1 = calls s" and "replies s1 = replies s" and "guard \<noteq> None \<Longrightarrow> d \<noteq> None"
    and "oom (isolate_of s1) = oom (isolate_of s)"
proof -
  obtain js where js: "s1 = s\<lparr>isolate_of := js\<rparr>"
      "if calls s = [] then isolate_arm t d (isolate_of s) = (guard, js) else guard = None \<and> js = isolate_of s"
    using arm_alone_eq [OF assms(2)] by blast
  then show "watched guard (isolate_of s1)" and "condemned (isolate_of s1) = condemned (isolate_of s)"
    and "calls s1 = calls s" and "replies s1 = replies s" and "guard \<noteq> None \<Longrightarrow> d \<noteq> None"
    and "oom (isolate_of s1) = oom (isolate_of s)"
    using assms(1) watched_arm condemned_arm arm_guard oom_arm by (auto simp: watched_def split: if_splits)
qed

lemma run_js_frame [simp]: "calls (run_js w s) = calls s" "replies (run_js w s) = replies s"
  "condemned (isolate_of (run_js w s)) = condemned (isolate_of s)"
  "oom (isolate_of (run_js w s)) = None \<longleftrightarrow> oom (isolate_of s) = None"
  by (simp_all add: run_js_def)

text \<open>A job, or a settled call, from its arming to its verdict.\<close>

definition job_ended :: "nat option \<Rightarrow> 'v scheduler \<Rightarrow> verdict \<Rightarrow> 'v scheduler \<Rightarrow> bool" where
  "job_ended d s v s2 \<longleftrightarrow>
     quiet (isolate_of s2) \<and> (condemned (isolate_of s2) \<longleftrightarrow> condemned (isolate_of s) \<or> v = MemoryLimitFired) \<and>
     (oom (isolate_of s2) = None \<longleftrightarrow> oom (isolate_of s) = None) \<and>
     calls s2 = (if v = MemoryLimitFired then [] else calls s) \<and>
     replies s2 = replies s @ (if v = MemoryLimitFired then map (\<lambda>c. (reply_of c, Inl MemoryLimit)) (calls s) else []) \<and>
     (v = DeadlineFired \<longrightarrow> d \<noteq> None) \<and> (v = MemoryLimitFired \<longrightarrow> oom (isolate_of s) \<noteq> None)"

lemma job_ended_run:
  assumes "quiet (isolate_of s)" and "arm_alone t d s = (guard, s1)" and "settle guard (run_js w s1) = (v, s2)"
  shows "job_ended d s v s2"
proof -
  note arm = arm_facts [OF assms(1,2)]
  note fin = settle_facts [OF watched_run_js [OF arm(1)] assms(3)]
  have "d \<noteq> None" if "v = DeadlineFired"
    using settle_eq [OF assms(3)] that settle_deadline arm(5) by blast
  with arm fin show ?thesis by (simp add: job_ended_def)
qed

lemma eval_job_ended:
  assumes "quiet (isolate_of s)"
  obtains v s2 where "eval_job w d r s = send r (verdict_apply v (map_sum Js id (run_eval w))) s2" and "job_ended d s v s2"
proof -
  let ?s = "s\<lparr>eval_counter := eval_counter s + 1\<rparr>"
  obtain guard s1 where arm: "arm_alone (arm_now w) d ?s = (guard, s1)" by force
  obtain v s2 where fin: "settle guard (run_js w s1) = (v, s2)" by force
  have "job_ended d s v s2"
    using job_ended_run [OF _ arm fin] assms by (simp add: job_ended_def)
  with arm fin that show ?thesis by (simp add: eval_job_def)
qed

lemma call_job_ended:
  assumes "quiet (isolate_of s)"
  obtains
    (parked) s2 where "job_ended d s Clean s2"
      "call_job w d r s = s2\<lparr>calls := calls s2 @ [\<lparr>reply_of = r, deadline_at = map_option (\<lambda>d. now w + d) d\<rparr>]\<rparr>"
  | (replied) v s2 e where "job_ended d s v s2" "call_job w d r s = send r (Inl e) s2"
      "e = Deadline \<Longrightarrow> d \<noteq> None" "e = MemoryLimit \<Longrightarrow> v = MemoryLimitFired"
proof -
  obtain guard s1 where arm: "arm_alone (arm_now w) d s = (guard, s1)" by force
  obtain v s2 where fin: "settle guard (run_js w s1) = (v, s2)" by force
  note ended = job_ended_run [OF assms arm fin]
  then have dl: "v = DeadlineFired \<Longrightarrow> d \<noteq> None" by (simp add: job_ended_def)
  show ?thesis
  proof (cases "v = Clean \<and> setup_call w = Inr () \<and> \<not> (case d of Some t \<Rightarrow> now w + t \<le> done_at w | None \<Rightarrow> False)")
    case True
    with arm fin have "call_job w d r s = s2\<lparr>calls := calls s2 @ [\<lparr>reply_of = r, deadline_at = map_option (\<lambda>d. now w + d) d\<rparr>]\<rparr>"
      by (simp add: call_job_def Let_def split: option.splits)
    with parked ended True show ?thesis by blast
  next
    case False
    with arm fin dl have "\<exists>e. call_job w d r s = send r (Inl e) s2 \<and> (e = Deadline \<longrightarrow> d \<noteq> None) \<and> (e = MemoryLimit \<longrightarrow> v = MemoryLimitFired)"
      by (cases v) (auto simp: call_job_def Let_def split: sum.splits option.splits)
    with replied [OF ended] show ?thesis by blast
  qed
qed

lemma settled_ended:
  assumes "quiet (isolate_of s)"
  obtains v s2 where "job_ended None (s\<lparr>calls := swap_remove i (calls s)\<rparr>) v s2"
    and "settled w i out s = send (reply_of (calls s ! i))
      (case out of Settled r \<Rightarrow> verdict_apply v (settled_to_json r) | Elapsed \<Rightarrow> Inl (verdict_cutoff v)) s2"
proof -
  define js where "js = (if out = Elapsed then isolate_of s else v8_run w (isolate_of s))"
  let ?s = "s\<lparr>isolate_of := js, calls := swap_remove i (calls s)\<rparr>"
  have js: "quiet js" "condemned js = condemned (isolate_of s)" "oom js = None \<longleftrightarrow> oom (isolate_of s) = None"
    using assms by (simp_all add: js_def)
  obtain v s2 where fin: "settle None ?s = (v, s2)" by force
  have w: "watched None (isolate_of ?s)" using js(1) by (simp add: watched_def)
  have "v \<noteq> DeadlineFired" using settle_eq [OF fin] settle_deadline by blast
  with settle_facts [OF w fin] have "job_ended None (s\<lparr>calls := swap_remove i (calls s)\<rparr>) v s2"
    using js by (simp add: job_ended_def)
  with that fin show ?thesis by (simp add: settled_def Let_def js_def)
qed

lemma healthy_ended: "healthy s \<Longrightarrow> job_ended d s v s2 \<Longrightarrow> healthy s2"
  by (auto simp: healthy_def job_ended_def)

lemma healthy_run_job: "healthy s \<Longrightarrow> healthy (run_job w job s)"
proof (cases "condemned (isolate_of s)")
  case True
  assume "healthy s"
  with True show ?thesis by (simp add: run_job_def refuse_condemned_def split: job.splits)
next
  case False
  assume h: "healthy s"
  then have q: "quiet (isolate_of s)" by (simp add: healthy_def)
  show ?thesis
  proof (cases job)
    case (Eval inp d r)
    from q obtain v s2 where "eval_job w d r s = send r (verdict_apply v (map_sum Js id (run_eval w))) s2" "job_ended d s v s2"
      by (rule eval_job_ended)
    with Eval False healthy_ended [OF h] show ?thesis by (auto simp: run_job_def)
  next
    case (Gc r)
    with False h show ?thesis by (simp add: run_job_def) (simp add: healthy_def)
  next
    case (Call m e args d r)
    from q show ?thesis
    proof (cases rule: call_job_ended [where d = d and w = w and r = r])
      case (parked s2)
      with Call False show ?thesis by (simp add: run_job_def healthy_def job_ended_def)
    next
      case (replied v s2 e)
      with Call False healthy_ended [OF h] show ?thesis by (auto simp: run_job_def)
    qed
  qed
qed

lemma set_swap_remove: "i < length xs \<Longrightarrow> set (swap_remove i xs) \<subseteq> set xs"
  using mset_swap_remove [of i xs] by (metis set_mset_mset set_mset_mono mset_subset_eq_add_right subset_mset.order_refl
      add_mset_add_single union_commute)

lemma healthy_settled: "healthy s \<Longrightarrow> i < length (calls s) \<Longrightarrow> healthy (settled w i out s)"
  by (rule settled_ended [of s i w out]) (auto simp: healthy_def job_ended_def send_def)

lemma quiet_take_oom: "quiet js \<Longrightarrow> quiet (cancel_termination (v8_run w (snd (take_oom js))))"
  by (simp add: quiet_def cancel_termination_def v8_run_def heap_limit_callback_def take_oom_def Let_def)

lemma healthy_fail_all: "armed (dog (isolate_of s)) = [] \<Longrightarrow> healthy (fail_all_parked s)"
  by (simp add: fail_all_eq healthy_def quiet_def cancel_termination_def)

lemma healthy_broken: "quiet (isolate_of s) \<Longrightarrow> healthy (broken w e s)"
  using quiet_take_oom [of "isolate_of s" w]
  by (cases "take_oom (isolate_of s)") (simp add: broken_def Let_def fold_send healthy_def)

lemma healthy_memory_exhausted: "quiet (isolate_of s) \<Longrightarrow> healthy (memory_exhausted s)"
  by (simp add: memory_exhausted_def healthy_fail_all take_oom_def quiet_def Let_def)

lemma healthy_wake:
  assumes "healthy s" and "recv w \<noteq> Ready None"
  shows "healthy (wake_step w s)"
proof (cases rule: poll_tick_cases [where w = w and s = s])
  case (job job)
  with assms show ?thesis by (simp add: wake_step_def handle_tick_def healthy_run_job)
next
  case closed
  with assms show ?thesis by simp
next
  case (settled i out)
  with assms show ?thesis by (simp add: wake_step_def handle_tick_def healthy_settled)
next
  case (events t s1)
  then have q: "healthy s1" using assms(1) by (auto simp: healthy_def)
  then have "quiet (isolate_of s1)" by (simp add: healthy_def)
  with events(2,3) q healthy_broken [of s1] healthy_memory_exhausted [of s1] show ?thesis
    by (auto simp: wake_step_def handle_tick_def)
qed

lemma healthy_run: "\<not> stopped s \<Longrightarrow> healthy s \<Longrightarrow> stopped (run ws s) \<or> healthy (run ws s)"
proof (induction ws arbitrary: s)
  case (Cons w ws)
  then show ?case
    by (cases "recv w = Ready None") (simp_all add: run_stopped stopped_wake healthy_wake)
qed simp

lemma boot_facts [simp]: "healthy (scheduler_boot capped)" "\<not> stopped (scheduler_boot capped)" "owed (scheduler_boot capped) = {#}"
  "oom (isolate_of (scheduler_boot capped)) = None \<longleftrightarrow> \<not> capped" "calls (scheduler_boot capped) = []" "replies (scheduler_boot capped) = []"
  by (simp_all add: scheduler_boot_def healthy_def quiet_def owed_def isolate_install_def isolate_boot_def new_watchdog_def)

section \<open>Justified cutoffs\<close>

fun job_deadline :: "'v job \<Rightarrow> nat option" where
  "job_deadline (Eval inp d r) = d"
| "job_deadline (Gc r) = None"
| "job_deadline (Call m e args d r) = d"

definition may_expire :: "'v job list \<Rightarrow> nat \<Rightarrow> bool" where
  "may_expire jobs r \<longleftrightarrow> (\<exists>job \<in> set jobs. job_reply job = r \<and> job_deadline job \<noteq> None)"

text \<open>The two errors a job is cut off with, against the jobs received and the engine's cap.\<close>

definition reply_ok :: "'v job list \<Rightarrow> bool \<Rightarrow> nat \<times> (engine_error + 'v) \<Rightarrow> bool" where
  "reply_ok jobs capped x \<longleftrightarrow>
     (snd x = Inl Deadline \<longrightarrow> may_expire jobs (fst x)) \<and> (snd x = Inl MemoryLimit \<longrightarrow> capped)"

definition justified :: "'v job list \<Rightarrow> bool \<Rightarrow> 'v scheduler \<Rightarrow> bool" where
  "justified jobs capped s \<longleftrightarrow>
     (oom (isolate_of s) = None \<longleftrightarrow> \<not> capped) \<and> (condemned (isolate_of s) \<longrightarrow> capped) \<and>
     list_all (reply_ok jobs capped) (replies s) \<and>
     list_all (\<lambda>c. deadline_at c \<noteq> None \<longrightarrow> may_expire jobs (reply_of c)) (calls s)"

lemma verdict_apply_cut:
  "verdict_apply v r = Inl Deadline \<Longrightarrow> v = DeadlineFired \<or> r = Inl Deadline"
  "verdict_apply v r = Inl MemoryLimit \<Longrightarrow> v = MemoryLimitFired \<or> r = Inl MemoryLimit"
  by (cases "(v, r)" rule: verdict_apply.cases; simp)+

lemma js_results [simp]:
  "settled_to_json r \<noteq> Inl Deadline" "settled_to_json r \<noteq> Inl MemoryLimit"
  "map_sum Js id r \<noteq> Inl Deadline" "map_sum Js id r \<noteq> Inl MemoryLimit"
  by (cases r; simp)+

lemma justified_more:
  assumes "justified jobs capped s" and "set jobs \<subseteq> set jobs'"
  shows "justified jobs' capped s"
proof -
  have "may_expire jobs r \<Longrightarrow> may_expire jobs' r" for r using assms(2) by (auto simp: may_expire_def)
  then show ?thesis using assms(1) by (auto simp: justified_def reply_ok_def list_all_iff)
qed

lemma justified_ended:
  "justified jobs capped s \<Longrightarrow> job_ended d s v s2 \<Longrightarrow> justified jobs capped s2"
  by (auto simp: justified_def job_ended_def reply_ok_def list_all_iff)

lemma justified_send:
  "justified jobs capped (send r x s) \<longleftrightarrow> justified jobs capped s \<and> reply_ok jobs capped (r, x)"
  by (auto simp: justified_def send_def)

lemma justified_ack: "justified jobs capped (ack r s) \<longleftrightarrow> justified jobs capped s"
  by (simp add: justified_def ack_def)

lemma justified_run_job:
  assumes "justified jobs capped s" and "healthy s" and "job \<in> set jobs"
  shows "justified jobs capped (run_job w job s)"
proof (cases "condemned (isolate_of s)")
  case True
  with assms(1) have "capped" by (simp add: justified_def)
  with True assms(1) show ?thesis
    by (cases job) (simp_all add: run_job_def refuse_condemned_def justified_send justified_ack reply_ok_def)
next
  case False
  have q: "quiet (isolate_of s)" using assms(2) by (simp add: healthy_def)
  have mem: "job_ended d s MemoryLimitFired s2 \<Longrightarrow> capped" for d s2
    using assms(1) by (auto simp: justified_def job_ended_def)
  have dl: "job_deadline job \<noteq> None \<Longrightarrow> may_expire jobs (job_reply job)"
    using assms(3) by (auto simp: may_expire_def)
  show ?thesis
  proof (cases job)
    case (Eval inp d r)
    from q obtain v s2 where eq: "eval_job w d r s = send r (verdict_apply v (map_sum Js id (run_eval w))) s2"
      and ended: "job_ended d s v s2" by (rule eval_job_ended)
    have "reply_ok jobs capped (r, verdict_apply v (map_sum Js id (run_eval w)))"
      using ended mem [of d s2] dl Eval
      by (auto simp: reply_ok_def job_ended_def dest!: verdict_apply_cut)
    with Eval False eq justified_ended [OF assms(1) ended] show ?thesis by (simp add: run_job_def justified_send)
  next
    case (Gc r)
    with False assms(1) show ?thesis by (simp add: run_job_def justified_ack) (simp add: justified_def)
  next
    case (Call m e args d r)
    from q show ?thesis
    proof (cases rule: call_job_ended [where d = d and w = w and r = r])
      case (parked s2)
      with Call False dl justified_ended [OF assms(1) parked(1)] show ?thesis
        by (auto simp: run_job_def justified_def)
    next
      case (replied v s2 e)
      then have "reply_ok jobs capped (r, Inl e)" using mem dl Call by (auto simp: reply_ok_def)
      with Call False replied(2) justified_ended [OF assms(1) replied(1)] show ?thesis
        by (simp add: run_job_def justified_send)
    qed
  qed
qed

lemma elapsed_deadline: "poll_parked w c = Ready Elapsed \<Longrightarrow> deadline_at c \<noteq> None"
  by (auto simp: poll_parked_def split: option.splits poll.splits)

lemma justified_settled:
  assumes "justified jobs capped s" and "healthy s" and i: "i < length (calls s)" and "poll_parked w (calls s ! i) = Ready out"
  shows "justified jobs capped (settled w i out s)"
proof -
  let ?s = "s\<lparr>calls := swap_remove i (calls s)\<rparr>" and ?c = "calls s ! i"
  have "justified jobs capped ?s"
    using assms(1) set_swap_remove [OF i] by (auto simp: justified_def list_all_iff)
  moreover have "quiet (isolate_of s)" using assms(2) by (simp add: healthy_def)
  then obtain v s2 where ended: "job_ended None ?s v s2"
    and eq: "settled w i out s = send (reply_of ?c)
      (case out of Settled r \<Rightarrow> verdict_apply v (settled_to_json r) | Elapsed \<Rightarrow> Inl (verdict_cutoff v)) s2"
    by (rule settled_ended)
  have "deadline_at ?c \<noteq> None \<Longrightarrow> may_expire jobs (reply_of ?c)"
    using assms(1) i by (auto simp: justified_def list_all_length)
  then have "reply_ok jobs capped (reply_of ?c,
      case out of Settled r \<Rightarrow> verdict_apply v (settled_to_json r) | Elapsed \<Rightarrow> Inl (verdict_cutoff v))"
    using elapsed_deadline [of w ?c] assms(1,4) ended
    by (cases out; cases v) (auto simp: reply_ok_def job_ended_def justified_def dest: verdict_apply_cut)
  ultimately show ?thesis using justified_ended ended by (auto simp: eq justified_send)
qed

lemma justified_broken:
  assumes "justified jobs capped s"
  shows "justified jobs capped (broken w e s)"
proof -
  obtain fired js where t: "take_oom (isolate_of s) = (fired, js)" by force
  have js: "oom js = None \<longleftrightarrow> oom (isolate_of s) = None" "condemned js \<longrightarrow> capped" "fired \<longrightarrow> capped"
    using t assms by (auto simp: take_oom_def Let_def justified_def split: if_splits)
  have "reply_ok jobs capped (reply_of c, broken_result w fired e c)" if "c \<in> set (calls s)" for c
    using that assms js(3) elapsed_deadline [of w c]
    by (auto simp: reply_ok_def broken_result_def justified_def list_all_iff
        split: poll.splits outcome.splits if_splits)
  with t js assms show ?thesis
    by (auto simp: broken_def Let_def fold_send justified_def list_all_iff)
qed

lemma justified_memory_exhausted:
  assumes "justified jobs capped s" and "oom_pending (isolate_of s)"
  shows "justified jobs capped (memory_exhausted s)"
  using assms by (auto simp: memory_exhausted_def fail_all_eq justified_def oom_pending_def take_oom_def reply_ok_def list_all_iff
      cancel_termination_def Let_def)

lemma poll_tick_exhausted: "poll_tick w s = (Some TMemoryExhausted, s1) \<Longrightarrow> oom_pending (isolate_of s1)"
  by (auto simp: poll_tick_def Let_def split: poll.splits option.splits sum.splits if_splits)

lemma justified_wake:
  assumes "justified jobs capped s" and "healthy s" and "recv w \<noteq> Ready None"
  shows "justified (jobs @ job_of w) capped (wake_step w s)"
proof (cases rule: poll_tick_cases [where w = w and s = s])
  case (job job)
  then have "justified (jobs @ job_of w) capped (s\<lparr>event_loop_idle := False\<rparr>)" "job \<in> set (jobs @ job_of w)"
    using justified_more [OF assms(1), of "jobs @ job_of w"] by (auto simp: justified_def job_of_def)
  with job assms(2) show ?thesis by (simp add: wake_step_def handle_tick_def justified_run_job)
next
  case closed
  with assms show ?thesis by simp
next
  case (settled i out)
  then have "job_of w = []" by (simp add: job_of_def)
  with settled assms show ?thesis by (simp add: wake_step_def handle_tick_def justified_settled)
next
  case (events t s1)
  then have "job_of w = []" by (simp add: job_of_def)
  moreover have "justified jobs capped s1" using events(4) assms(1) by (auto simp: justified_def)
  ultimately show ?thesis
    using events(2,3) justified_broken [of jobs capped s1 w] justified_memory_exhausted [of jobs capped s1] poll_tick_exhausted [of w s s1]
    by (auto simp: wake_step_def handle_tick_def)
qed

text \<open>The final flush replies nothing.\<close>

lemma replies_flush [simp]: "replies (flush_on_close w s) = replies s"
  by (simp add: flush_on_close_def split: prod.splits)

lemma reply_ok_run:
  "\<not> stopped s \<Longrightarrow> healthy s \<Longrightarrow> justified jobs capped s \<Longrightarrow>
     list_all (reply_ok (jobs @ received ws) capped) (replies (run ws s))"
proof (induction ws arbitrary: s jobs)
  case Nil
  then show ?case by (simp add: justified_def)
next
  case (Cons w ws)
  show ?case
  proof (cases "recv w = Ready None")
    case True
    then have "wake_step w s = (flush_on_close w s)\<lparr>stopped := True\<rparr>"
      by (simp add: wake_step_def poll_tick_def handle_tick_def)
    with True Cons.prems show ?thesis by (simp add: run_stopped justified_def)
  next
    case False
    with Cons.IH [of "wake_step w s" "jobs @ job_of w"] Cons.prems healthy_wake [of s w] justified_wake [of jobs capped s w]
    show ?thesis by (simp add: stopped_wake)
  qed
qed

lemma justified_boot: "justified [] capped (scheduler_boot capped)"
  by (simp add: justified_def) (simp add: scheduler_boot_def isolate_install_def isolate_boot_def)

text \<open>A failing evaluation that runs alone under a deadline, settled.\<close>

lemma eval_alone:
  assumes "calls s = []" and "quiet (isolate_of s)" and "\<not> shutdown (dog (isolate_of s))"
    and "oom (isolate_of s) \<noteq> Some True" and "\<not> job_oom w" and "run_eval w = Inl e"
  shows "replies (eval_job w (Some d) r s) =
     replies s @ [(r, Inl (if \<exists>t \<in> set (watch_at w). arm_now w + d \<le> t then Deadline else Js e))]"
proof -
  let ?key = "(arm_now w + d, next_id (dog (isolate_of s)))"
  let ?w = "dog (isolate_of s)\<lparr>next_id := next_id (dog (isolate_of s)) + 1, armed := [?key]\<rparr>"
  let ?js = "isolate_of s\<lparr>dog := ?w\<rparr>" and ?s = "s\<lparr>eval_counter := eval_counter s + 1\<rparr>"
  let ?fin = "fold isolate_watch (watch_at w) ?js"
  have arm: "arm_alone (arm_now w) (Some d) ?s = (Some ?key, ?s\<lparr>isolate_of := ?js\<rparr>)"
    using assms(1,2) by (simp add: arm_alone_def isolate_arm_def guard_arm_def insort_insert_key_def quiet_def Let_def)
  have "armed (dog ?fin) = (if \<exists>t \<in> set (watch_at w). arm_now w + d \<le> t then [] else [?key])"
    using watch_alone [of ?js ?key "watch_at w"] assms(3) by simp
  moreover have "oom ?fin \<noteq> Some True" using assms(4) by simp
  ultimately show ?thesis
    using assms(1,5,6)
    by (auto simp: eval_job_def arm run_js_def v8_run_def settle_def isolate_settle_def isolate_disarm_def
        guard_disarm_def take_oom_def send_def Let_def)
qed

section \<open>Properties\<close>

text \<open>
  C17: the engine loses no job and answers none twice. Over every sequence of wakes, whatever V8, the
  clock and the watchdog thread do, the reply channels of the jobs received are, with their
  multiplicities, those answered, those acknowledged and those of the calls still parked.
\<close>

theorem every_job_accounted:
  "mset (map job_reply (received ws)) =
     mset (map fst (replies (run ws (scheduler_boot capped)))) + mset (acks (run ws (scheduler_boot capped)))
     + mset (map reply_of (calls (run ws (scheduler_boot capped))))"
  using owed_run [of "scheduler_boot capped" ws] by (simp add: owed_def [of "run ws (scheduler_boot capped)"])

text \<open>
  C18: no job is cut off by another one's limits. A \<^verbatim>\<open>Deadline\<close> reply goes only to a job that was
  submitted with a deadline, however many calls were parked beside it, and an engine without a heap cap never replies
  \<^verbatim>\<open>MemoryLimit\<close>.
\<close>

theorem cutoffs_are_justified:
  assumes "(r, Inl e) \<in> set (replies (run ws (scheduler_boot capped)))"
  shows "(e = Deadline \<longrightarrow> (\<exists>job \<in> set (received ws). job_reply job = r \<and> job_deadline job \<noteq> None)) \<and>
    (e = MemoryLimit \<longrightarrow> capped)"
proof -
  have "reply_ok ([] @ received ws) capped (r, Inl e)"
    using reply_ok_run [OF boot_facts(2,1) justified_boot] assms unfolding list_all_iff by blast
  then show ?thesis by (auto simp: reply_ok_def may_expire_def)
qed

definition busy_wake :: "nat wake" where
  "busy_wake =
     \<lparr>recv = Ready (Some (Eval (Source ''while (true);'') (Some 50) 7)), promise = (\<lambda>_. Pending),
      timeout_at = (\<lambda>at p. case p of Ready r \<Rightarrow> Ready (Settled r) | Pending \<Rightarrow> Ready Elapsed),
      events = Pending, events_again = Pending, events_oom = False, now = 100, arm_now = 100, watch_at = [120, 151],
      job_oom = False, run_eval = Inl ''terminated'', setup_call = Inr (), done_at = 151\<rparr>"

theorem cutoffs_are_justified_witness:
  "replies (run [busy_wake] (scheduler_boot False)) = [(7, Inl Deadline)] \<and>
   (\<exists>job \<in> set (received [busy_wake]). job_reply job = 7 \<and> job_deadline job \<noteq> None)"
proof -
  have "replies (run [busy_wake] (scheduler_boot False)) = [(7, Inl Deadline)]"
    by code_simp
  then show ?thesis
    using cutoffs_are_justified [of 7 Deadline "[busy_wake]" False] by simp
qed

text \<open>
  Between two ticks of a running engine no deadline is armed, and execution is only being terminated when the heap
  limit was hit: a late firing of the watchdog never reaches the next job. Once the heap limit has
  condemned the isolate no call is parked, and every job from then on is answered at once, with
  \<^verbatim>\<open>MemoryLimit\<close> or, for a garbage collection, its acknowledgement.
\<close>

theorem condemned_engine_refuses:
  assumes "s = run ws (scheduler_boot capped)" and "\<not> stopped s"
  shows "armed (dog (isolate_of s)) = [] \<and> (terminating (isolate_of s) \<longrightarrow> oom (isolate_of s) = Some True) \<and>
    (condemned (isolate_of s) \<longrightarrow> calls s = [] \<and>
      (recv w = Ready (Some job) \<longrightarrow> condemned (isolate_of (wake_step w s)) \<and>
        ((\<exists>r. job = Gc r) \<and> acks (wake_step w s) = acks s @ [job_reply job] \<or>
         replies (wake_step w s) = replies s @ [(job_reply job, Inl MemoryLimit)])))"
proof -
  have "healthy s" using healthy_run [of "scheduler_boot capped" ws] assms by simp
  then show ?thesis
    by (cases job) (simp_all add: healthy_def quiet_def wake_step_def poll_tick_def handle_tick_def run_job_def
        refuse_condemned_def send_def ack_def)
qed

theorem condemned_engine_refuses_witness:
  "condemned (isolate_of (run [busy_wake\<lparr>job_oom := True\<rparr>] (scheduler_boot True))) \<and>
   replies (run [busy_wake\<lparr>job_oom := True\<rparr>] (scheduler_boot True)) = [(7, Inl MemoryLimit)] \<and>
   replies (wake_step busy_wake (run [busy_wake\<lparr>job_oom := True\<rparr>] (scheduler_boot True))) =
     [(7, Inl MemoryLimit), (7, Inl MemoryLimit)]"
proof -
  let ?s = "run [busy_wake\<lparr>job_oom := True\<rparr>] (scheduler_boot True)"
  have "condemned (isolate_of ?s)" "replies ?s = [(7, Inl MemoryLimit)]" "\<not> stopped ?s" by code_simp+
  moreover have "recv busy_wake = Ready (Some (Eval (Source ''while (true);'') (Some 50) 7))" by (simp add: busy_wake_def)
  ultimately show ?thesis
    using condemned_engine_refuses [of ?s "[busy_wake\<lparr>job_oom := True\<rparr>]" True busy_wake
        "Eval (Source ''while (true);'') (Some 50) 7"] by simp
qed

text \<open>
  The watchdog cuts a wedged evaluation exactly at its deadline. For a failing evaluation that runs
  with no call parked and no heap trouble, the reply is \<^verbatim>\<open>Deadline\<close> when the watchdog thread got to run at or after
  the deadline, and the JavaScript error otherwise.
\<close>

theorem eval_deadline_exact:
  assumes "s = run ws (scheduler_boot capped)" and "\<not> stopped s" and "calls s = []" and "\<not> shutdown (dog (isolate_of s))"
    and "\<not> oom_pending (isolate_of s)" and "\<not> condemned (isolate_of s)"
    and "recv w = Ready (Some (Eval inp (Some d) r))" and "\<not> job_oom w" and "run_eval w = Inl e"
  shows "replies (wake_step w s) =
     replies s @ [(r, Inl (if \<exists>t \<in> set (watch_at w). arm_now w + d \<le> t then Deadline else Js e))]"
proof -
  have "healthy s" using healthy_run [of "scheduler_boot capped" ws] assms(1,2) by simp
  with assms(3-9) eval_alone [of "s\<lparr>event_loop_idle := False\<rparr>" w e d r] show ?thesis
    by (simp add: wake_step_def poll_tick_def handle_tick_def run_job_def healthy_def oom_pending_def)
qed

theorem eval_deadline_exact_witness:
  "replies (wake_step (busy_wake\<lparr>watch_at := [149]\<rparr>) (run [busy_wake] (scheduler_boot False))) =
     [(7, Inl Deadline), (7, Inl (Js ''terminated''))]"
proof -
  let ?s = "run [busy_wake] (scheduler_boot False)" and ?w = "busy_wake\<lparr>watch_at := [149]\<rparr>"
  have s: "replies ?s = [(7, Inl Deadline)]" "\<not> stopped ?s" "calls ?s = []" "\<not> shutdown (dog (isolate_of ?s))"
    "\<not> oom_pending (isolate_of ?s)" "\<not> condemned (isolate_of ?s)" by code_simp+
  have w: "recv ?w = Ready (Some (Eval (Source ''while (true);'') (Some 50) 7))" "\<not> job_oom ?w" "run_eval ?w = Inl ''terminated''"
    "watch_at ?w = [149]" "arm_now ?w = 100" by (simp_all add: busy_wake_def)
  show ?thesis
    using eval_deadline_exact [OF refl s(2-6) w(1-3)] s(1) w(4,5) by simp
qed

end
