(* ===== verification/Media_Rule.thy ===== *)
theory Media_Rule
  imports Std_Str
begin

text \<open>
  Media queries as data, the first half of \<^verbatim>\<open>crates/oj_stylex/src/shared/media_query.rs\<close>: the rules, their printed form, and
  \<^verbatim>\<open>normalize\<close> with its interval arithmetic. Floating point is a parameter: \<open>f64_ops\<close> holds the
  operations on \<^verbatim>\<open>f64\<close> the file uses, over a type \<open>'f\<close> of numbers that are not NaN (the tokenizer only reads
  literals), and \<open>f64_order\<close> is what IEEE 754 says of its comparisons.
\<close>

section \<open>Numbers\<close>

record 'f f64_ops =
  f_lt :: "'f \<Rightarrow> 'f \<Rightarrow> bool"
  f_eq :: "'f \<Rightarrow> 'f \<Rightarrow> bool"
  f_add :: "'f \<Rightarrow> 'f \<Rightarrow> 'f"
  f_sub :: "'f \<Rightarrow> 'f \<Rightarrow> 'f"
  f_inf :: 'f
  f_neg_inf :: 'f
  f_eps :: 'f
  f_parse :: "string \<Rightarrow> 'f"
  f_show :: "'f \<Rightarrow> string"

definition f64_order :: "'f f64_ops \<Rightarrow> bool" where
  "f64_order F \<longleftrightarrow>
     (\<forall>x y. f_lt F x y \<longrightarrow> \<not> f_lt F y x) \<and> (\<forall>x y z. f_lt F x z \<longrightarrow> f_lt F x y \<or> f_lt F y z) \<and>
     (\<forall>x y. f_eq F x y \<longleftrightarrow> \<not> f_lt F x y \<and> \<not> f_lt F y x) \<and>
     (\<forall>x. \<not> f_lt F x (f_neg_inf F)) \<and> (\<forall>x. \<not> f_lt F (f_inf F) x)"

section \<open>Rules\<close>

datatype 'f media_value =
    Length 'f string
  | Number 'f
  | Str string
  | Fraction 'f 'f

datatype 'f rule =
    Keyword string bool bool
  | WordRule string
  | RPair string "'f media_value"
  | RNot "'f rule"
  | RAnd "'f rule list"
  | ROr "'f rule list"

fun is_empty_or :: "'f rule \<Rightarrow> bool" where
  "is_empty_or (ROr []) \<longleftrightarrow> True"
| "is_empty_or r \<longleftrightarrow> False"

fun is_and_or :: "'f rule \<Rightarrow> bool" where
  "is_and_or (RAnd rs) \<longleftrightarrow> True"
| "is_and_or (ROr rs) \<longleftrightarrow> True"
| "is_and_or r \<longleftrightarrow> False"

fun value_to_string :: "'f f64_ops \<Rightarrow> 'f media_value \<Rightarrow> string" where
  "value_to_string F (Fraction a b) = f_show F a @ '' / '' @ f_show F b"
| "value_to_string F (Str s) = s"
| "value_to_string F (Length v u) = f_show F v @ u"
| "value_to_string F (Number n) = f_show F n"

lemma size_elem: "r \<in> set rs \<Longrightarrow> size r < Suc (size_list size rs)"
  by (induction rs) auto

function rule_to_string :: "'f f64_ops \<Rightarrow> 'f rule \<Rightarrow> bool \<Rightarrow> string" where
  "rule_to_string F (Keyword key n only) is_top =
     (let prefix = (if n then ''not '' else if only then ''only '' else [])
      in if is_top \<or> n \<or> only then prefix @ key else ''('' @ key @ '')'')"
| "rule_to_string F (WordRule key) is_top = ''('' @ key @ '')''"
| "rule_to_string F (RPair key v) is_top = ''('' @ key @ '': '' @ value_to_string F v @ '')''"
| "rule_to_string F (RNot r) is_top =
     (if is_and_or r \<or> (case r of RNot _ \<Rightarrow> True | _ \<Rightarrow> False)
      then ''(not ('' @ rule_to_string F r False @ ''))''
      else ''(not '' @ rule_to_string F r False @ '')'')"
| "rule_to_string F (RAnd rs) is_top = join_with '' and '' (map (\<lambda>r. rule_to_string F r False) rs)"
| "rule_to_string F (ROr rs) is_top =
     (let valid = filter (\<lambda>r. \<not> is_empty_or r) rs
      in if valid = [] then ''not all''
         else if length valid = 1 then rule_to_string F (hd valid) is_top
         else join_with (if is_top then '', '' else '' or '')
           (map (\<lambda>r. if is_and_or r \<and> \<not> is_top then ''('' @ rule_to_string F r False @ '')''
                     else rule_to_string F r False) valid))"
  by pat_completeness auto
termination
proof (relation "measure (\<lambda>(F, r, is_top). size r)", goal_cases)
  case (5 F rs is_top valid)
  then have "hd valid \<in> set valid" by (intro hd_in_set)
  with 5 have "hd valid \<in> set rs" by (metis filter_is_subset subsetD)
  then show ?case by (simp add: size_elem)
next
  case (6 F rs is_top valid r)
  then have "r \<in> set rs" by simp
  then show ?case by (simp add: size_elem)
next
  case (7 F rs is_top valid r)
  then have "r \<in> set rs" by simp
  then show ?case by (simp add: size_elem)
qed (simp_all add: size_elem)

section \<open>Merging intervals\<close>

text \<open>A numeric bound: its key, value and unit.\<close>

fun as_numeric_minmax :: "'f rule \<Rightarrow> (string \<times> 'f \<times> string) option" where
  "as_numeric_minmax (RPair key (Length v u)) =
     (if key \<in> {''min-width'', ''max-width'', ''min-height'', ''max-height''} then Some (key, v, u) else None)"
| "as_numeric_minmax r = None"

text \<open>The two dimensions; a bound's key names one of them, as a minimum or a maximum.\<close>

datatype dim = Width | Height

definition key_dim :: "string \<Rightarrow> dim" where
  "key_dim key = (if key = ''min-width'' \<or> key = ''max-width'' then Width else Height)"

definition is_min :: "string \<Rightarrow> bool" where
  "is_min key \<longleftrightarrow> key = ''min-width'' \<or> key = ''min-height''"

fun dim_name :: "dim \<Rightarrow> string" where
  "dim_name Width = ''width''"
| "dim_name Height = ''height''"

definition interval_of :: "'f f64_ops \<Rightarrow> 'f rule \<Rightarrow> (dim \<times> ('f \<times> 'f) \<times> string) option" where
  "interval_of F r =
     (case as_numeric_minmax r of
        Some (key, v, u) \<Rightarrow> Some (key_dim key, if is_min key then (v, f_inf F) else (f_neg_inf F, v), u)
      | None \<Rightarrow>
          (case r of
             RNot inner \<Rightarrow>
               (case as_numeric_minmax inner of
                  Some (key, v, u) \<Rightarrow>
                    Some (key_dim key,
                      if is_min key then (f_neg_inf F, f_sub F v (f_eps F)) else (f_add F v (f_eps F), f_inf F), u)
                | None \<Rightarrow> None)
           | _ \<Rightarrow> None))"

record 'f dim_state =
  intervals :: "('f \<times> 'f) list"
  unit_of :: "string option"

definition add_interval :: "('f \<times> 'f) \<Rightarrow> string \<Rightarrow> 'f dim_state \<Rightarrow> 'f dim_state \<times> bool" where
  "add_interval iv u st =
     (let unit1 = (if unit_of st = None \<and> intervals st = [] then Some u else unit_of st);
          conflict = (case unit_of st of Some u1 \<Rightarrow> u1 \<noteq> u | None \<Rightarrow> False)
      in (\<lparr>intervals = intervals st @ [iv], unit_of = unit1\<rparr>, conflict))"

text \<open>\<open>None\<close> for a rule that is no bound.\<close>

fun scan_rules ::
  "'f f64_ops \<Rightarrow> 'f rule list \<Rightarrow> 'f dim_state \<times> 'f dim_state \<times> bool \<Rightarrow> ('f dim_state \<times> 'f dim_state \<times> bool) option" where
  "scan_rules F [] st = Some st"
| "scan_rules F (r # rs) (w, h, c) =
     (case interval_of F r of
        None \<Rightarrow> None
      | Some (Width, iv, u) \<Rightarrow> (case add_interval iv u w of (w1, c1) \<Rightarrow> scan_rules F rs (w1, h, c \<or> c1))
      | Some (Height, iv, u) \<Rightarrow> (case add_interval iv u h of (h1, c1) \<Rightarrow> scan_rules F rs (w, h1, c \<or> c1)))"

fun tighten :: "'f f64_ops \<Rightarrow> ('f \<times> 'f) list \<Rightarrow> 'f \<times> 'f \<Rightarrow> 'f \<times> 'f" where
  "tighten F [] b = b"
| "tighten F ((l, u) # ivs) (lower, upper) =
     tighten F ivs (if f_lt F lower l then l else lower, if f_lt F u upper then u else upper)"

text \<open>The merged bounds of one dimension, \<open>None\<close> when they contradict each other.\<close>

definition dim_rules :: "'f f64_ops \<Rightarrow> dim \<Rightarrow> 'f dim_state \<Rightarrow> 'f rule list option" where
  "dim_rules F d st =
     (if intervals st = [] then Some []
      else case tighten F (intervals st) (f_neg_inf F, f_inf F) of (lower, upper) \<Rightarrow>
        (if f_lt F upper lower then None
         else let u = (case unit_of st of Some u \<Rightarrow> u | None \<Rightarrow> [])
              in Some ((if f_eq F lower (f_neg_inf F) then [] else [RPair (''min-'' @ dim_name d) (Length lower u)])
                     @ (if f_eq F upper (f_inf F) then [] else [RPair (''max-'' @ dim_name d) (Length upper u)]))))"

definition merge_bounds :: "'f f64_ops \<Rightarrow> 'f rule list \<Rightarrow> 'f rule list" where
  "merge_bounds F rules =
     (case scan_rules F rules (\<lparr>intervals = [], unit_of = None\<rparr>, \<lparr>intervals = [], unit_of = None\<rparr>, False) of
        None \<Rightarrow> rules
      | Some (w, h, conflict) \<Rightarrow>
          if conflict then rules
          else (case (dim_rules F Width w, dim_rules F Height h) of
                  (Some a, Some b) \<Rightarrow> if a @ b = [] then rules else a @ b
                | _ \<Rightarrow> []))"

text \<open>The first negated conjunction of two rules: the other rules and its two operands.\<close>

fun take_not_pair :: "'f rule list \<Rightarrow> ('f rule list \<times> 'f rule \<times> 'f rule) option" where
  "take_not_pair [] = None"
| "take_not_pair (r # rs) =
     (case r of
        RNot (RAnd [a, b]) \<Rightarrow> Some (rs, a, b)
      | _ \<Rightarrow> map_option (\<lambda>(others, a, b). (r # others, a, b)) (take_not_pair rs))"

lemma take_not_pair_size:
  "take_not_pair rs = Some (others, a, b) \<Longrightarrow>
     size_list size (others @ [RNot a]) < size_list size rs \<and> size_list size (others @ [RNot b]) < size_list size rs"
proof (induction rs arbitrary: others)
  case (Cons r rs)
  show ?case
  proof (cases "\<exists>x y. r = RNot (RAnd [x, y])")
    case True
    with Cons.prems show ?thesis by (auto simp: size_list_append)
  next
    case False
    then have "take_not_pair (r # rs) = map_option (\<lambda>(others, a, b). (r # others, a, b)) (take_not_pair rs)"
      by (auto split: rule.splits list.splits)
    with Cons.prems obtain others1 where "others = r # others1" "take_not_pair rs = Some (others1, a, b)"
      by (auto simp del: take_not_pair.simps)
    with Cons.IH [of others1] show ?thesis by simp
  qed
qed simp

definition branch_rule :: "'f rule list \<Rightarrow> 'f rule" where
  "branch_rule branch = (if length branch = 1 then hd branch else RAnd branch)"

function merge_intervals_for_and :: "'f f64_ops \<Rightarrow> 'f rule list \<Rightarrow> 'f rule list" where
  "merge_intervals_for_and F rules =
     (case take_not_pair rules of
        Some (others, a, b) \<Rightarrow>
          [ROr (map branch_rule (filter (\<lambda>branch. branch \<noteq> [])
            [merge_intervals_for_and F (others @ [RNot a]), merge_intervals_for_and F (others @ [RNot b])]))]
      | None \<Rightarrow> merge_bounds F rules)"
  by auto
termination
  by (relation "measure (\<lambda>(F, rs). size_list size rs)") (auto dest: take_not_pair_size)

declare merge_intervals_for_and.simps [simp del]

section \<open>Normalization\<close>

text \<open>
  \<^verbatim>\<open>normalize\<close> calls itself on its own result under a double negation, which is no smaller in size: it ends
  because normalizing never makes negations nest deeper.
\<close>

fun not_depth :: "'f rule \<Rightarrow> nat" where
  "not_depth (RNot r) = Suc (not_depth r)"
| "not_depth (RAnd rs) = fold max (map not_depth rs) 0"
| "not_depth (ROr rs) = fold max (map not_depth rs) 0"
| "not_depth _ = 0"

fun flatten_and :: "'f rule \<Rightarrow> 'f rule list" where
  "flatten_and (RAnd rs) = rs"
| "flatten_and r = [r]"

function normalize_rule :: "'f f64_ops \<Rightarrow> 'f rule \<Rightarrow> 'f rule" where
  "normalize_rule F (RAnd rs) =
     (let merged = merge_intervals_for_and F (concat (map (\<lambda>r. flatten_and (normalize_rule F r)) rs))
      in if merged = [] then Keyword ''all'' True False else RAnd merged)"
| "normalize_rule F (ROr rs) = ROr (map (normalize_rule F) rs)"
| "normalize_rule F (RNot inner) =
     (let operand = normalize_rule F inner
      in if (case operand of Keyword key n only \<Rightarrow> n \<and> key = ''all'' | _ \<Rightarrow> False) then Keyword ''all'' False False
         else case operand of RNot inner2 \<Rightarrow> normalize_rule F inner2 | _ \<Rightarrow> RNot operand)"
| "normalize_rule F (Keyword key n only) = Keyword key n only"
| "normalize_rule F (WordRule key) = WordRule key"
| "normalize_rule F (RPair key v) = RPair key v"
  by pat_completeness auto

lemma fold_max_le: "fold max xs (m :: nat) \<le> n \<longleftrightarrow> m \<le> n \<and> (\<forall>x \<in> set xs. x \<le> n)"
  by (induction xs arbitrary: m) auto

text \<open>Rules whose negations nest at most so deep.\<close>

definition depth_le :: "nat \<Rightarrow> 'f rule list \<Rightarrow> bool" where
  "depth_le n rs \<longleftrightarrow> list_all (\<lambda>r. not_depth r \<le> n) rs"

lemma depth_le_simps [simp]:
  "depth_le n []" "depth_le n (r # rs) \<longleftrightarrow> not_depth r \<le> n \<and> depth_le n rs"
  "depth_le n (rs @ ss) \<longleftrightarrow> depth_le n rs \<and> depth_le n ss"
  by (simp_all add: depth_le_def)

lemma not_depth_lists [simp]:
  "not_depth (RAnd rs) \<le> n \<longleftrightarrow> depth_le n rs" "not_depth (ROr rs) \<le> n \<longleftrightarrow> depth_le n rs"
  by (auto simp: depth_le_def fold_max_le list_all_iff)

declare not_depth.simps(2,3) [simp del]

lemma depth_le_mono: "depth_le m rs \<Longrightarrow> m \<le> n \<Longrightarrow> depth_le n rs"
  by (auto simp: depth_le_def list_all_iff)

lemma depth_take_not_pair:
  "take_not_pair rs = Some (others, a, b) \<Longrightarrow> depth_le n rs \<Longrightarrow> depth_le n (others @ [RNot a]) \<and> depth_le n (others @ [RNot b])"
proof (induction rs arbitrary: others)
  case (Cons r rs)
  show ?case
  proof (cases "\<exists>x y. r = RNot (RAnd [x, y])")
    case True
    then obtain x y where r: "r = RNot (RAnd [x, y])" by blast
    obtain m where n: "n = Suc m" using Cons.prems(2) r by (cases n) auto
    from Cons.prems r n show ?thesis by auto
  next
    case False
    then have "take_not_pair (r # rs) = map_option (\<lambda>(others, a, b). (r # others, a, b)) (take_not_pair rs)"
      by (auto split: rule.splits list.splits)
    with Cons.prems obtain others1 where "others = r # others1" "take_not_pair rs = Some (others1, a, b)"
      by (auto simp del: take_not_pair.simps)
    with Cons.IH [of others1] Cons.prems(2) show ?thesis by simp
  qed
qed simp

lemma depth_dim_rules: "dim_rules F d st = Some rs \<Longrightarrow> depth_le n rs"
  by (auto simp: dim_rules_def Let_def split: if_splits prod.splits)

lemma depth_merge_bounds: "depth_le n rs \<Longrightarrow> depth_le n (merge_bounds F rs)"
  by (auto simp: merge_bounds_def depth_dim_rules split: option.splits prod.splits)

lemma depth_branch: "depth_le n rs \<Longrightarrow> rs \<noteq> [] \<Longrightarrow> not_depth (branch_rule rs) \<le> n"
  by (cases rs) (auto simp: branch_rule_def)

lemma depth_merge: "depth_le n rs \<Longrightarrow> depth_le n (merge_intervals_for_and F rs)"
proof (induction F rs rule: merge_intervals_for_and.induct)
  case (1 F rs)
  show ?case
  proof (cases "take_not_pair rs")
    case None
    with "1.prems" show ?thesis by (simp add: merge_intervals_for_and.simps [of F rs] depth_merge_bounds)
  next
    case (Some oab)
    obtain others a b where oab: "oab = (others, a, b)" by (cases oab) auto
    have "depth_le n (others @ [RNot a])" "depth_le n (others @ [RNot b])"
      using depth_take_not_pair [of rs others a b n] Some oab "1.prems" by simp_all
    with 1 Some oab have "depth_le n (merge_intervals_for_and F (others @ [RNot a]))"
      "depth_le n (merge_intervals_for_and F (others @ [RNot b]))" by auto
    with Some oab show ?thesis by (simp add: merge_intervals_for_and.simps [of F rs] depth_branch)
  qed
qed

lemma depth_normalize_dom: "normalize_rule_dom (F, r) \<Longrightarrow> not_depth (normalize_rule F r) \<le> not_depth r"
proof (induction F r rule: normalize_rule.pinduct)
  case (1 F rs)
  have "depth_le (not_depth (RAnd rs)) (flatten_and (normalize_rule F r))" if "r \<in> set rs" for r
  proof -
    have "not_depth r \<le> not_depth (RAnd rs)"
      using that not_depth_lists(1) [of rs "not_depth (RAnd rs)"] by (simp add: depth_le_def list_all_iff)
    with "1.IH" [OF that] show ?thesis
      by (cases "normalize_rule F r") (auto intro: order_trans depth_le_mono)
  qed
  then have "depth_le (not_depth (RAnd rs)) (concat (map (\<lambda>r. flatten_and (normalize_rule F r)) rs))"
    by (auto simp: depth_le_def list_all_iff)
  then show ?case
    using "1.hyps" depth_merge by (auto simp: normalize_rule.psimps Let_def)
next
  case (2 F rs)
  have "not_depth (normalize_rule F r) \<le> not_depth (ROr rs)" if "r \<in> set rs" for r
    using "2.IH" [OF that] that not_depth_lists(2) [of rs "not_depth (ROr rs)"]
    by (fastforce simp: depth_le_def list_all_iff)
  with "2.hyps" show ?case by (auto simp: normalize_rule.psimps depth_le_def list_all_iff)
next
  case (3 F inner)
  show ?case
  proof (cases "normalize_rule F inner")
    case (RNot inner2)
    with "3.IH" have "not_depth (normalize_rule F inner2) \<le> not_depth inner2" "Suc (not_depth inner2) \<le> not_depth inner" by auto
    with RNot "3.hyps" show ?thesis by (simp add: normalize_rule.psimps Let_def)
  qed (use 3 in \<open>simp_all add: normalize_rule.psimps Let_def\<close>)
qed (simp_all add: normalize_rule.psimps)

termination normalize_rule
proof (relation "inv_image (less_than <*lex*> less_than) (\<lambda>(F, r). (not_depth r, size r))", goal_cases)
  case (2 F rs r)
  then have "not_depth r \<le> not_depth (RAnd rs)"
    using not_depth_lists(1) [of rs "not_depth (RAnd rs)"] by (simp add: depth_le_def list_all_iff)
  with 2 show ?case by (auto simp: size_elem)
next
  case (3 F rs r)
  then have "not_depth r \<le> not_depth (ROr rs)"
    using not_depth_lists(2) [of rs "not_depth (ROr rs)"] by (simp add: depth_le_def list_all_iff)
  with 3 show ?case by (auto simp: size_elem)
next
  case (5 F inner operand inner2)
  then have "normalize_rule F inner = RNot inner2" by simp
  then show ?case using depth_normalize_dom [of F inner] 5 by simp
qed auto

end
