(* ===== verification/Media_Meaning.thy ===== *)
theory Media_Meaning
  imports Media_Rule
begin

text \<open>
  What a media query says of a page: \<open>holds\<close> evaluates a rule in an environment (the viewport's width and height in a
  unit, the media type, the other features). The rewriting of negated bounds by a hundredth, \<^verbatim>\<open>not (min-width: v)\<close>
  to \<^verbatim>\<open>max-width: v - 0.01\<close>, is exact for viewports that lie in no such gap: \<open>no_gaps\<close> says so for a
  set of numbers closed under the two shifts, which every number of the queries is taken from.
\<close>

section \<open>Evaluation\<close>

record 'f media_env =
  size_in :: "dim \<Rightarrow> string \<Rightarrow> 'f"
  media_type :: "string \<Rightarrow> bool"
  has_word :: "string \<Rightarrow> bool"
  feature :: "string \<Rightarrow> 'f media_value \<Rightarrow> bool"

definition bound_holds :: "'f f64_ops \<Rightarrow> 'f media_env \<Rightarrow> string \<Rightarrow> 'f \<Rightarrow> string \<Rightarrow> bool" where
  "bound_holds F env key v u =
     (if is_min key then \<not> f_lt F (size_in env (key_dim key) u) v else \<not> f_lt F v (size_in env (key_dim key) u))"

fun holds :: "'f f64_ops \<Rightarrow> 'f media_env \<Rightarrow> 'f rule \<Rightarrow> bool" where
  "holds F env (Keyword key n only) \<longleftrightarrow> (key = ''all'' \<or> media_type env key) \<noteq> n"
| "holds F env (WordRule key) \<longleftrightarrow> has_word env key"
| "holds F env (RPair key v) \<longleftrightarrow>
     (case as_numeric_minmax (RPair key v) of
        Some (key, v, u) \<Rightarrow> bound_holds F env key v u
      | None \<Rightarrow> feature env key v)"
| "holds F env (RNot r) \<longleftrightarrow> \<not> holds F env r"
| "holds F env (RAnd rs) \<longleftrightarrow> (\<forall>r \<in> set rs. holds F env r)"
| "holds F env (ROr rs) \<longleftrightarrow> (\<exists>r \<in> set rs. holds F env r)"

definition no_gaps :: "'f f64_ops \<Rightarrow> 'f media_env \<Rightarrow> 'f set \<Rightarrow> bool" where
  "no_gaps F env V \<longleftrightarrow>
     (\<forall>v \<in> V. f_sub F v (f_eps F) \<in> V \<and> f_add F v (f_eps F) \<in> V \<and>
       (\<forall>d u. (f_lt F (size_in env d u) v \<longleftrightarrow> \<not> f_lt F (f_sub F v (f_eps F)) (size_in env d u)) \<and>
              (f_lt F v (size_in env d u) \<longleftrightarrow> \<not> f_lt F (size_in env d u) (f_add F v (f_eps F)))))"

text \<open>Rules as the parser makes them: no empty conjunction, and every bound a number of the set.\<close>

fun rule_ok :: "'f set \<Rightarrow> 'f rule \<Rightarrow> bool" where
  "rule_ok V (RPair key v) \<longleftrightarrow> (case v of Length x u \<Rightarrow> x \<in> V | _ \<Rightarrow> True)"
| "rule_ok V (RNot r) \<longleftrightarrow> rule_ok V r"
| "rule_ok V (RAnd rs) \<longleftrightarrow> rs \<noteq> [] \<and> (\<forall>r \<in> set rs. rule_ok V r)"
| "rule_ok V (ROr rs) \<longleftrightarrow> (\<forall>r \<in> set rs. rule_ok V r)"
| "rule_ok V r \<longleftrightarrow> True"

abbreviation all_hold :: "'f f64_ops \<Rightarrow> 'f media_env \<Rightarrow> 'f rule list \<Rightarrow> bool" where
  "all_hold F env rs \<equiv> \<forall>r \<in> set rs. holds F env r"

abbreviation all_ok :: "'f set \<Rightarrow> 'f rule list \<Rightarrow> bool" where
  "all_ok V rs \<equiv> \<forall>r \<in> set rs. rule_ok V r"

section \<open>Bounds and intervals\<close>

definition inside :: "'f f64_ops \<Rightarrow> 'f \<Rightarrow> 'f \<times> 'f \<Rightarrow> bool" where
  "inside F x iv \<longleftrightarrow> \<not> f_lt F x (fst iv) \<and> \<not> f_lt F (snd iv) x"

lemma minmax_cases:
  assumes "as_numeric_minmax r = Some (key, v, u)"
  shows "r = RPair key (Length v u)" and "key \<in> {''min-width'', ''max-width'', ''min-height'', ''max-height''}"
  using assms by (cases r rule: as_numeric_minmax.cases; auto split: if_splits)+

lemma holds_minmax:
  assumes "as_numeric_minmax r = Some (key, v, u)"
  shows "holds F env r \<longleftrightarrow> bound_holds F env key v u" and "rule_ok V r \<longleftrightarrow> v \<in> V"
proof -
  note r = minmax_cases(1) [OF assms]
  show "holds F env r \<longleftrightarrow> bound_holds F env key v u"
    unfolding r holds.simps assms [unfolded r] by simp
  show "rule_ok V r \<longleftrightarrow> v \<in> V" by (simp add: r)
qed

lemma interval_of_holds:
  assumes "f64_order F" and "no_gaps F env V" and "rule_ok V r" and "interval_of F r = Some (d, iv, u)"
  shows "holds F env r \<longleftrightarrow> inside F (size_in env d u) iv"
    and "fst iv \<in> insert (f_neg_inf F) V" and "snd iv \<in> insert (f_inf F) V"
proof -
  have inf: "\<not> f_lt F x (f_neg_inf F)" "\<not> f_lt F (f_inf F) x" for x
    using assms(1) by (auto simp: f64_order_def)
  have "(holds F env r \<longleftrightarrow> inside F (size_in env d u) iv) \<and> fst iv \<in> insert (f_neg_inf F) V \<and> snd iv \<in> insert (f_inf F) V"
  proof (cases "as_numeric_minmax r")
    case (Some kvu)
    obtain key v u1 where k: "kvu = (key, v, u1)" by (cases kvu) auto
    with Some have num: "as_numeric_minmax r = Some (key, v, u1)" by simp
    then have "d = key_dim key" "u = u1" "iv = (if is_min key then (v, f_inf F) else (f_neg_inf F, v))"
      using assms(4) by (simp_all add: interval_of_def)
    with holds_minmax [OF num] assms(3) inf show ?thesis
      by (simp add: bound_holds_def inside_def)
  next
    case None
    then obtain inner key v where r: "r = RNot inner" and k: "as_numeric_minmax inner = Some (key, v, u)"
      using assms(4) by (auto simp: interval_of_def split: rule.splits option.splits)
    have "v \<in> V" using holds_minmax(2) [OF k] r assms(3) by simp
    with assms(2) have gap: "f_sub F v (f_eps F) \<in> V" "f_add F v (f_eps F) \<in> V"
      "f_lt F (size_in env d u) v \<longleftrightarrow> \<not> f_lt F (f_sub F v (f_eps F)) (size_in env d u)"
      "f_lt F v (size_in env d u) \<longleftrightarrow> \<not> f_lt F (size_in env d u) (f_add F v (f_eps F))"
      by (auto simp: no_gaps_def)
    have "d = key_dim key"
      "iv = (if is_min key then (f_neg_inf F, f_sub F v (f_eps F)) else (f_add F v (f_eps F), f_inf F))"
      using assms(4) None by (simp_all add: interval_of_def r k)
    with holds_minmax(1) [OF k] gap inf show ?thesis
      by (simp add: r bound_holds_def inside_def)
  qed
  then show "holds F env r \<longleftrightarrow> inside F (size_in env d u) iv"
    and "fst iv \<in> insert (f_neg_inf F) V" and "snd iv \<in> insert (f_inf F) V" by auto
qed

text \<open>Tightening keeps what all intervals have in common.\<close>

lemma tighten_inside:
  assumes "f64_order F"
  shows "inside F x (tighten F ivs b) \<longleftrightarrow> inside F x b \<and> (\<forall>iv \<in> set ivs. inside F x iv)"
proof (induction ivs arbitrary: b)
  case (Cons iv ivs)
  obtain l u lower upper where iv: "iv = (l, u)" and b: "b = (lower, upper)" by (cases iv; cases b) auto
  have trans: "f_lt F x z \<Longrightarrow> f_lt F x y \<or> f_lt F y z" for x y z
    using assms unfolding f64_order_def by blast
  have asym: "f_lt F x y \<Longrightarrow> \<not> f_lt F y x" for x y
    using assms unfolding f64_order_def by blast
  have "inside F x (if f_lt F lower l then l else lower, if f_lt F u upper then u else upper) \<longleftrightarrow>
      inside F x (lower, upper) \<and> inside F x (l, u)"
    using trans [of x l lower] trans [of x lower l] trans [of upper x u] trans [of u x upper] asym [of l lower] asym [of u upper]
    by (auto simp: inside_def)
  with Cons.IH show ?case by (auto simp: iv b)
qed simp

lemma tighten_in:
  "fst b \<in> A \<Longrightarrow> snd b \<in> B \<Longrightarrow> \<forall>iv \<in> set ivs. fst iv \<in> A \<and> snd iv \<in> B \<Longrightarrow>
     fst (tighten F ivs b) \<in> A \<and> snd (tighten F ivs b) \<in> B"
  by (induction F ivs b rule: tighten.induct) auto

section \<open>One dimension\<close>

text \<open>A dimension's state against the bounds scanned into it.\<close>

definition dim_ok :: "'f f64_ops \<Rightarrow> 'f set \<Rightarrow> 'f dim_state \<Rightarrow> bool" where
  "dim_ok F V st \<longleftrightarrow>
     (intervals st = [] \<longleftrightarrow> unit_of st = None) \<and>
     (\<forall>iv \<in> set (intervals st). fst iv \<in> insert (f_neg_inf F) V \<and> snd iv \<in> insert (f_inf F) V)"

definition dim_holds :: "'f f64_ops \<Rightarrow> 'f media_env \<Rightarrow> dim \<Rightarrow> 'f dim_state \<Rightarrow> bool" where
  "dim_holds F env d st \<longleftrightarrow> (\<forall>iv \<in> set (intervals st). \<forall>u. unit_of st = Some u \<longrightarrow> inside F (size_in env d u) iv)"

lemma dim_rules_holds:
  assumes "f64_order F" and "dim_ok F V st"
  shows "dim_rules F d st = None \<Longrightarrow> \<not> dim_holds F env d st"
    and "dim_rules F d st = Some rs \<Longrightarrow> (all_hold F env rs \<longleftrightarrow> dim_holds F env d st) \<and> all_ok V rs"
proof -
  have order: "f_lt F x z \<Longrightarrow> f_lt F x y \<or> f_lt F y z" "\<not> f_lt F x (f_neg_inf F)" "\<not> f_lt F (f_inf F) x"
    "f_eq F x y \<longleftrightarrow> \<not> f_lt F x y \<and> \<not> f_lt F y x" for x y z
    using assms(1) unfolding f64_order_def by blast+
  obtain lower upper where t: "tighten F (intervals st) (f_neg_inf F, f_inf F) = (lower, upper)" by force
  have all: "inside F x (lower, upper) \<longleftrightarrow> (\<forall>iv \<in> set (intervals st). inside F x iv)" for x
    using tighten_inside [OF assms(1), of x "intervals st" "(f_neg_inf F, f_inf F)"] t order(2,3)
    by (simp add: inside_def)
  have ends: "lower \<in> insert (f_neg_inf F) V" "upper \<in> insert (f_inf F) V"
    using tighten_in [of "(f_neg_inf F, f_inf F)" "insert (f_neg_inf F) V" "insert (f_inf F) V" "intervals st" F] assms(2) t
    by (auto simp: dim_ok_def)
  have dim: "dim_holds F env d st \<longleftrightarrow> inside F (size_in env d u) (lower, upper)" if "unit_of st = Some u" for u
    using that all by (auto simp: dim_holds_def)
  have key: "key_dim (''min-'' @ dim_name d) = d" "key_dim (''max-'' @ dim_name d) = d"
    "is_min (''min-'' @ dim_name d)" "\<not> is_min (''max-'' @ dim_name d)"
    "as_numeric_minmax (RPair (''min-'' @ dim_name d) (Length v u)) = Some (''min-'' @ dim_name d, v, u)"
    "as_numeric_minmax (RPair (''max-'' @ dim_name d) (Length v u)) = Some (''max-'' @ dim_name d, v, u)" for v u
    by (cases d; simp add: key_dim_def is_min_def)+
  show "\<not> dim_holds F env d st" if "dim_rules F d st = None"
  proof -
    from that t obtain u where "unit_of st = Some u" "f_lt F upper lower"
      using assms(2) by (auto simp: dim_rules_def dim_ok_def Let_def split: if_splits option.splits)
    with dim order(1) [of upper lower "size_in env d u"] show ?thesis by (auto simp: inside_def)
  qed
  show "(all_hold F env rs \<longleftrightarrow> dim_holds F env d st) \<and> all_ok V rs" if "dim_rules F d st = Some rs"
  proof (cases "unit_of st")
    case None
    with that assms(2) show ?thesis by (auto simp: dim_rules_def dim_ok_def dim_holds_def)
  next
    case (Some u)
    then have rs: "rs = (if f_eq F lower (f_neg_inf F) then [] else [RPair (''min-'' @ dim_name d) (Length lower u)])
        @ (if f_eq F upper (f_inf F) then [] else [RPair (''max-'' @ dim_name d) (Length upper u)])"
      using that t assms(2) by (auto simp: dim_rules_def dim_ok_def Let_def split: if_splits)
    let ?x = "size_in env d u"
    have "\<not> f_lt F ?x lower" if "f_eq F lower (f_neg_inf F)"
      using that order(1) [of ?x lower "f_neg_inf F"] order(2,4) by blast
    moreover have "\<not> f_lt F upper ?x" if "f_eq F upper (f_inf F)"
      using that order(1) [of upper ?x "f_inf F"] order(3,4) by blast
    moreover have "lower \<in> V" if "\<not> f_eq F lower (f_neg_inf F)"
      using that ends(1) order(4) order(2) by auto
    moreover have "upper \<in> V" if "\<not> f_eq F upper (f_inf F)"
      using that ends(2) order(4) order(3) by auto
    ultimately show ?thesis
      using dim [OF Some] key by (auto simp: rs inside_def bound_holds_def)
  qed
qed

section \<open>Merging\<close>

lemma add_interval_holds:
  assumes "dim_ok F V st" and "fst iv \<in> insert (f_neg_inf F) V" and "snd iv \<in> insert (f_inf F) V"
    and "add_interval iv u st = (st1, False)"
  shows "dim_ok F V st1" and "dim_holds F env d st1 \<longleftrightarrow> dim_holds F env d st \<and> inside F (size_in env d u) iv"
  using assms by (cases "unit_of st"; auto simp: add_interval_def dim_ok_def dim_holds_def Let_def)+

lemma scan_rules_conflict: "scan_rules F rs (w, h, c) = Some (w1, h1, False) \<Longrightarrow> \<not> c"
proof (induction rs arbitrary: w h c)
  case (Cons r rs)
  then show ?case by (fastforce split: option.splits prod.splits dim.splits)
qed simp

lemma scan_rules_holds:
  assumes "f64_order F" and "no_gaps F env V"
  shows "scan_rules F rs (w, h, c) = Some (w1, h1, False) \<Longrightarrow> all_ok V rs \<Longrightarrow> dim_ok F V w \<Longrightarrow> dim_ok F V h \<Longrightarrow>
    dim_ok F V w1 \<and> dim_ok F V h1 \<and>
    (dim_holds F env Width w1 \<and> dim_holds F env Height h1 \<longleftrightarrow>
      dim_holds F env Width w \<and> dim_holds F env Height h \<and> all_hold F env rs)"
proof (induction rs arbitrary: w h c)
  case (Cons r rs)
  from Cons.prems(1) obtain d iv u where i: "interval_of F r = Some (d, iv, u)"
    by (auto split: option.splits)
  have "rule_ok V r" using Cons.prems(2) by simp
  note r = interval_of_holds [OF assms this i]
  show ?case
  proof (cases d)
    case Width
    obtain w2 c1 where a: "add_interval iv u w = (w2, c1)" by force
    with Cons.prems(1) i Width have s: "scan_rules F rs (w2, h, c \<or> c1) = Some (w1, h1, False)" by simp
    with scan_rules_conflict have "\<not> c1" by blast
    with a have a1: "add_interval iv u w = (w2, False)" by simp
    note st = add_interval_holds(1) [OF Cons.prems(3) r(2,3) a1] add_interval_holds(2) [OF Cons.prems(3) r(2,3) a1, of env Width]
    show ?thesis using Cons.IH [OF s _ st(1) Cons.prems(4)] Cons.prems(2) st(2) r(1) Width by auto
  next
    case Height
    obtain h2 c1 where a: "add_interval iv u h = (h2, c1)" by force
    with Cons.prems(1) i Height have s: "scan_rules F rs (w, h2, c \<or> c1) = Some (w1, h1, False)" by simp
    with scan_rules_conflict have "\<not> c1" by blast
    with a have a1: "add_interval iv u h = (h2, False)" by simp
    note st = add_interval_holds(1) [OF Cons.prems(4) r(2,3) a1] add_interval_holds(2) [OF Cons.prems(4) r(2,3) a1, of env Height]
    show ?thesis using Cons.IH [OF s _ Cons.prems(3) st(1)] Cons.prems(2) st(2) r(1) Height by auto
  qed
qed simp

text \<open>An empty result stands for a contradiction.\<close>

definition merged_ok :: "'f f64_ops \<Rightarrow> 'f media_env \<Rightarrow> 'f set \<Rightarrow> 'f rule list \<Rightarrow> 'f rule list \<Rightarrow> bool" where
  "merged_ok F env V rs out \<longleftrightarrow> all_ok V out \<and> (all_hold F env rs \<longleftrightarrow> out \<noteq> [] \<and> all_hold F env out)"

lemma merge_bounds_ok:
  assumes "f64_order F" and "no_gaps F env V" and "all_ok V rs" and "rs \<noteq> []"
  shows "merged_ok F env V rs (merge_bounds F rs)"
proof (cases "scan_rules F rs (\<lparr>intervals = [], unit_of = None\<rparr>, \<lparr>intervals = [], unit_of = None\<rparr>, False)")
  case None
  with assms(3,4) show ?thesis by (simp add: merge_bounds_def merged_ok_def)
next
  case (Some whc)
  obtain w h c where whc: "whc = (w, h, c)" by (cases whc) auto
  show ?thesis
  proof (cases c)
    case True
    with Some whc assms(3,4) show ?thesis by (simp add: merge_bounds_def merged_ok_def)
  next
    case False
    have init: "dim_ok F V \<lparr>intervals = [], unit_of = None\<rparr>" "dim_holds F env d \<lparr>intervals = [], unit_of = None\<rparr>" for d
      by (simp_all add: dim_ok_def dim_holds_def)
    have st: "dim_ok F V w" "dim_ok F V h"
      "dim_holds F env Width w \<and> dim_holds F env Height h \<longleftrightarrow> all_hold F env rs"
      using scan_rules_holds [OF assms(1,2) _ assms(3) init(1) init(1)] Some whc False init(2) by auto
    note W = dim_rules_holds [OF assms(1) st(1)] and H = dim_rules_holds [OF assms(1) st(2)]
    show ?thesis
    proof (cases "dim_rules F Width w = None \<or> dim_rules F Height h = None")
      case True
      then have "merge_bounds F rs = []" using Some whc False by (auto simp: merge_bounds_def split: option.splits)
      with True W(1) H(1) st(3) show ?thesis by (auto simp: merged_ok_def)
    next
      case both: False
      then obtain a b where ab: "dim_rules F Width w = Some a" "dim_rules F Height h = Some b" by auto
      with Some whc False have "merge_bounds F rs = (if a @ b = [] then rs else a @ b)" by (simp add: merge_bounds_def)
      with W(2) [OF ab(1), of env] H(2) [OF ab(2), of env] st(3) assms(3,4) show ?thesis by (auto simp: merged_ok_def)
    qed
  qed
qed

lemma take_not_pair_holds:
  "take_not_pair rs = Some (others, a, b) \<Longrightarrow>
     (all_hold F env rs \<longleftrightarrow> all_hold F env others \<and> \<not> (holds F env a \<and> holds F env b)) \<and>
     (all_ok V rs \<longrightarrow> all_ok V others \<and> rule_ok V a \<and> rule_ok V b)"
proof (induction rs arbitrary: others)
  case (Cons r rs)
  show ?case
  proof (cases "\<exists>x y. r = RNot (RAnd [x, y])")
    case True
    with Cons.prems show ?thesis by auto
  next
    case False
    then have "take_not_pair (r # rs) = map_option (\<lambda>(others, a, b). (r # others, a, b)) (take_not_pair rs)"
      by (auto split: rule.splits list.splits)
    with Cons.prems obtain others1 where "others = r # others1" "take_not_pair rs = Some (others1, a, b)"
      by (auto simp del: take_not_pair.simps)
    with Cons.IH [of others1] show ?thesis by auto
  qed
qed simp

lemma branch_rule_holds:
  "rs \<noteq> [] \<Longrightarrow> (holds F env (branch_rule rs) \<longleftrightarrow> all_hold F env rs) \<and> (all_ok V rs \<longrightarrow> rule_ok V (branch_rule rs))"
  by (cases rs; cases "tl rs") (auto simp: branch_rule_def)

lemma merge_ok:
  assumes "f64_order F" and "no_gaps F env V"
  shows "all_ok V rs \<Longrightarrow> rs \<noteq> [] \<Longrightarrow> merged_ok F env V rs (merge_intervals_for_and F rs)"
proof (induction F\<equiv>F rs rule: merge_intervals_for_and.induct)
  case (1 rs)
  show ?case
  proof (cases "take_not_pair rs")
    case None
    with merge_bounds_ok [OF assms "1.prems"] show ?thesis by (simp add: merge_intervals_for_and.simps [of F rs])
  next
    case (Some oab)
    obtain others a b where oab: "oab = (others, a, b)" by (cases oab) auto
    note t = take_not_pair_holds [of rs others a b F env V, folded oab, OF Some]
    let ?a = "merge_intervals_for_and F (others @ [RNot a])" and ?b = "merge_intervals_for_and F (others @ [RNot b])"
    have "merged_ok F env V (others @ [RNot a]) ?a" "merged_ok F env V (others @ [RNot b]) ?b"
      using "1.hyps" [OF Some oab [symmetric] refl] t "1.prems"(1) by auto
    then have "all_hold F env others \<and> \<not> holds F env a \<longleftrightarrow> ?a \<noteq> [] \<and> all_hold F env ?a" "all_ok V ?a"
      "all_hold F env others \<and> \<not> holds F env b \<longleftrightarrow> ?b \<noteq> [] \<and> all_hold F env ?b" "all_ok V ?b"
      by (auto simp: merged_ok_def)
    moreover have "merge_intervals_for_and F rs = [ROr (map branch_rule (filter (\<lambda>branch. branch \<noteq> []) [?a, ?b]))]"
      using Some oab by (simp add: merge_intervals_for_and.simps [of F rs])
    ultimately show ?thesis
      using t branch_rule_holds [of ?a F env V] branch_rule_holds [of ?b F env V] by (auto simp: merged_ok_def)
  qed
qed

section \<open>Normalization keeps the meaning\<close>

lemma flatten_and_holds:
  "rule_ok V r \<Longrightarrow> flatten_and r \<noteq> [] \<and> all_ok V (flatten_and r) \<and> (all_hold F env (flatten_and r) \<longleftrightarrow> holds F env r)"
  by (cases r) auto

lemma normalize_ok:
  assumes "f64_order F" and "no_gaps F env V"
  shows "rule_ok V r \<Longrightarrow> rule_ok V (normalize_rule F r) \<and> (holds F env (normalize_rule F r) \<longleftrightarrow> holds F env r)"
proof (induction F\<equiv>F r rule: normalize_rule.induct)
  case (1 rs)
  let ?fl = "concat (map (\<lambda>r. flatten_and (normalize_rule F r)) rs)"
  have ih: "rule_ok V (normalize_rule F r)" "holds F env (normalize_rule F r) \<longleftrightarrow> holds F env r" if "r \<in> set rs" for r
    using "1.hyps" [OF that] "1.prems" that by auto
  note flat = flatten_and_holds [OF ih(1)]
  have "all_ok V ?fl" using flat by fastforce
  moreover have "?fl \<noteq> []" using flat "1.prems" by (cases rs) auto
  ultimately have "merged_ok F env V ?fl (merge_intervals_for_and F ?fl)" using merge_ok [OF assms] by blast
  moreover have "all_hold F env ?fl \<longleftrightarrow> all_hold F env rs" using flat ih(2) by auto
  ultimately show ?case by (auto simp: merged_ok_def Let_def)
next
  case (3 inner)
  have inner: "rule_ok V (normalize_rule F inner)" "holds F env (normalize_rule F inner) \<longleftrightarrow> holds F env inner"
    using 3 by auto
  show ?case
  proof (cases "normalize_rule F inner")
    case (RNot inner2)
    with "3.hyps"(2) [OF refl _ RNot] inner show ?thesis by (auto simp: Let_def)
  qed (use inner in \<open>auto simp: Let_def\<close>)
qed auto

end
