(* ===== verification/Media_Parse.thy ===== *)
theory Media_Parse
  imports Media_Rule "HOL-Library.Monad_Syntax"
begin

text \<open>
  The second half of \<^verbatim>\<open>crates/oj_stylex/src/shared/media_query.rs\<close>: the tokenizer and the recursive descent parser. The
  parser's position is the list of tokens that is left; a method that returns \<^verbatim>\<open>None\<close> has put the position
  back, so a failed parse is \<open>None\<close>. The loops and the mutual recursion carry a guard that the
  rest is shorter, which always holds: every parser consumes a token.
\<close>

section \<open>Tokens\<close>

datatype 'f tok =
    TWhitespace
  | TIdent string
  | TAtKeyword string
  | TFunction string
  | TNumber 'f
  | TPercentage 'f
  | TDimension 'f string
  | TColon
  | TComma
  | TOpenParen
  | TCloseParen
  | TDelim char
  | TUnsupported

definition is_ws :: "char \<Rightarrow> bool" where
  "is_ws b \<longleftrightarrow> b \<in> {CHR '' '', CHR 0x09, CHR 0x0A, CHR 0x0D, CHR 0x0C}"

definition is_digit :: "char \<Rightarrow> bool" where
  "is_digit b \<longleftrightarrow> byte_in 48 57 b"

definition is_ident_start :: "char \<Rightarrow> bool" where
  "is_ident_start b \<longleftrightarrow> byte_in 97 122 b \<or> byte_in 65 90 b \<or> b = CHR ''_''"

definition is_ident_char :: "char \<Rightarrow> bool" where
  "is_ident_char b \<longleftrightarrow> is_ident_start b \<or> is_digit b \<or> b = CHR ''-''"

fun would_start_ident :: "string \<Rightarrow> bool" where
  "would_start_ident [] \<longleftrightarrow> False"
| "would_start_ident (b # bs) \<longleftrightarrow>
     (if b = CHR ''-'' then (case bs of [] \<Rightarrow> False | c # _ \<Rightarrow> is_ident_start c \<or> c = CHR ''-'') else is_ident_start b)"

definition starts_digit :: "string \<Rightarrow> bool" where
  "starts_digit s \<longleftrightarrow> (case s of [] \<Rightarrow> False | b # _ \<Rightarrow> is_digit b)"

fun would_start_number :: "string \<Rightarrow> bool" where
  "would_start_number [] \<longleftrightarrow> False"
| "would_start_number (b # bs) \<longleftrightarrow>
     (if b = CHR ''+'' \<or> b = CHR ''-''
      then (case bs of [] \<Rightarrow> False | c # cs \<Rightarrow> if c = CHR ''.'' then starts_digit cs else is_digit c)
      else if b = CHR ''.'' then starts_digit bs else is_digit b)"

definition consume_ident :: "string \<Rightarrow> string \<times> string" where
  "consume_ident s = (takeWhile is_ident_char s, dropWhile is_ident_char s)"

text \<open>The parts of a number: its sign, digits, fraction and exponent.\<close>

definition number_sign :: "string \<Rightarrow> string \<times> string" where
  "number_sign s = (case s of b # bs \<Rightarrow> if b = CHR ''+'' \<or> b = CHR ''-'' then ([b], bs) else ([], s) | [] \<Rightarrow> ([], s))"

definition number_digits :: "string \<Rightarrow> string \<times> string" where
  "number_digits s = (takeWhile is_digit s, dropWhile is_digit s)"

definition number_fraction :: "string \<Rightarrow> string \<times> string" where
  "number_fraction s =
     (case s of
        b # bs \<Rightarrow> if b = CHR ''.'' \<and> starts_digit bs then (case number_digits bs of (d, r) \<Rightarrow> (b # d, r)) else ([], s)
      | [] \<Rightarrow> ([], s))"

definition number_exponent :: "string \<Rightarrow> string \<times> string" where
  "number_exponent s =
     (case s of
        b # bs \<Rightarrow>
          if b = CHR ''e'' \<or> b = CHR ''E''
          then (case number_sign bs of (sg, r) \<Rightarrow>
                  if starts_digit r then (case number_digits r of (d, r1) \<Rightarrow> (b # sg @ d, r1)) else ([], s))
          else ([], s)
      | [] \<Rightarrow> ([], s))"

definition consume_number :: "'f f64_ops \<Rightarrow> string \<Rightarrow> 'f \<times> string" where
  "consume_number F s =
     (case number_sign s of (a, s1) \<Rightarrow> case number_digits s1 of (b, s2) \<Rightarrow>
      case number_fraction s2 of (c, s3) \<Rightarrow> case number_exponent s3 of (d, s4) \<Rightarrow>
        (f_parse F (a @ b @ c @ d), s4))"

lemma number_parts_length:
  "length (snd (number_sign s)) \<le> length s" "length (snd (number_digits s)) \<le> length s"
  "length (snd (number_fraction s)) \<le> length s" "length (snd (number_exponent s)) \<le> length s"
proof -
  show sign: "length (snd (number_sign s)) \<le> length s" for s by (auto simp: number_sign_def split: list.splits)
  show digits: "length (snd (number_digits s)) \<le> length s" for s by (simp add: number_digits_def length_dropWhile_le)
  show "length (snd (number_fraction s)) \<le> length s"
    using digits by (auto simp: number_fraction_def le_SucI split: list.splits prod.splits) (metis le_SucI snd_conv)
  show "length (snd (number_exponent s)) \<le> length s"
    using digits sign by (auto simp: number_exponent_def split: list.splits prod.splits) (metis le_SucI le_trans snd_conv)+
qed

lemma digits_consume: "starts_digit s \<Longrightarrow> length (snd (number_digits s)) < length s"
  by (cases s) (auto simp: starts_digit_def number_digits_def length_dropWhile_le le_imp_less_Suc)

lemma consume_number_length:
  assumes "would_start_number s"
  shows "length (snd (consume_number F s)) < length s"
proof -
  obtain a s1 where 1: "number_sign s = (a, s1)" by force
  obtain b s2 where 2: "number_digits s1 = (b, s2)" by force
  obtain c s3 where 3: "number_fraction s2 = (c, s3)" by force
  obtain d s4 where 4: "number_exponent s3 = (d, s4)" by force
  have le: "length s1 \<le> length s" "length s2 \<le> length s1" "length s3 \<le> length s2" "length s4 \<le> length s3"
    using number_parts_length(1) [of s] number_parts_length(2) [of s1] number_parts_length(3) [of s2]
      number_parts_length(4) [of s3] 1 2 3 4 by simp_all
  have "length s3 < length s"
  proof (cases "starts_digit s1")
    case True
    with digits_consume [OF True] 2 le show ?thesis by simp
  next
    case False
    then have s2: "s2 = s1" using 2 by (cases s1) (auto simp: number_digits_def starts_digit_def)
    have "length s1 < length s \<or> (\<exists>cs. s1 = CHR ''.'' # cs \<and> starts_digit cs)"
      using assms 1 False by (cases s) (auto simp: number_sign_def starts_digit_def split: if_splits)
    then show ?thesis
    proof
      assume "\<exists>cs. s1 = CHR ''.'' # cs \<and> starts_digit cs"
      then obtain cs where "s1 = CHR ''.'' # cs" "starts_digit cs" by blast
      with 3 s2 digits_consume [of cs] le(1) show ?thesis
        by (auto simp: number_fraction_def split: prod.splits)
    qed (use le in simp)
  qed
  with 1 2 3 4 le show ?thesis by (simp add: consume_number_def)
qed

lemma consume_ident_length: "would_start_ident s \<Longrightarrow> length (snd (consume_ident s)) < length s"
  by (cases s) (auto simp: consume_ident_def is_ident_char_def length_dropWhile_le le_imp_less_Suc split: if_splits)

definition punct_token :: "char \<Rightarrow> 'f tok" where
  "punct_token b =
     (if b = CHR ''('' then TOpenParen else if b = CHR '')'' then TCloseParen
      else if b = CHR '':'' then TColon else if b = CHR '','' then TComma
      else if b \<in> {CHR 0x22, CHR 0x27, CHR ''['', CHR '']'', CHR ''{'', CHR ''}'', CHR '';''} then TUnsupported
      else TDelim b)"

function tokenize :: "'f f64_ops \<Rightarrow> string \<Rightarrow> 'f tok list" where
  "tokenize F [] = []"
| "tokenize F (b # bs) =
     (if is_ws b then TWhitespace # tokenize F (dropWhile is_ws bs)
      else if starts_with ''/*'' (b # bs) then
        TUnsupported # tokenize F (case split_once_str ''*/'' (tl bs) of None \<Rightarrow> [] | Some (c, r) \<Rightarrow> r)
      else if would_start_number (b # bs) then
        (case consume_number F (b # bs) of (v, r) \<Rightarrow>
           if would_start_ident r then (case consume_ident r of (u, r1) \<Rightarrow> TDimension v u # tokenize F r1)
           else if starts_with ''%'' r then TPercentage v # tokenize F (tl r)
           else TNumber v # tokenize F r)
      else if starts_with ''-->'' (b # bs) then TUnsupported # tokenize F (drop 2 bs)
      else if starts_with ''<!--'' (b # bs) then TUnsupported # tokenize F (drop 3 bs)
      else if would_start_ident (b # bs) then
        (case consume_ident (b # bs) of (name, r) \<Rightarrow>
           if starts_with ''('' r then TFunction name # tokenize F (tl r) else TIdent name # tokenize F r)
      else if b = CHR ''@'' \<and> would_start_ident bs then
        (case consume_ident bs of (name, r) \<Rightarrow> TAtKeyword name # tokenize F r)
      else punct_token b # tokenize F bs)"
  by pat_completeness auto
termination
proof (relation "measure (\<lambda>(F, s). length s)", goal_cases)
  case (2 F b bs)
  then show ?case by (simp add: length_dropWhile_le le_imp_less_Suc)
next
  case (3 F b bs)
  then show ?case
    by (cases bs) (auto split: option.splits dest!: split_once_str_sound)
next
  case (4 F b bs v r u r1)
  with consume_number_length [OF 4(3), of F] consume_ident_length [OF 4(5)] show ?case
    unfolding 4(4,6) [symmetric] by simp
next
  case (5 F b bs v r)
  with consume_number_length [OF 5(3), of F] show ?case unfolding 5(4) [symmetric] by simp
next
  case (6 F b bs v r)
  with consume_number_length [OF 6(3), of F] show ?case unfolding 6(4) [symmetric] by simp
next
  case (9 F b bs name r)
  with consume_ident_length [OF 9(6)] show ?case unfolding 9(7) [symmetric] by simp
next
  case (10 F b bs name r)
  with consume_ident_length [OF 10(6)] show ?case unfolding 10(7) [symmetric] by simp
next
  case (11 F b bs name r)
  then have "would_start_ident bs" by simp
  from consume_ident_length [OF this] show ?case unfolding 11(8) [symmetric] by simp
qed auto

section \<open>Token parsers\<close>

type_synonym ('f, 'a) parse = "('a \<times> 'f tok list) option"

fun ws :: "'f tok list \<Rightarrow> 'f tok list option" where
  "ws (TWhitespace # ts) = Some ts"
| "ws ts = None"

fun ws_opt :: "'f tok list \<Rightarrow> 'f tok list" where
  "ws_opt (TWhitespace # ts) = ts"
| "ws_opt ts = ts"

fun ident :: "'f tok list \<Rightarrow> ('f, string) parse" where
  "ident (TIdent name # ts) = Some (name, ts)"
| "ident ts = None"

definition ident_eq :: "string \<Rightarrow> 'f tok list \<Rightarrow> 'f tok list option" where
  "ident_eq expected ts = (case ident ts of Some (name, r) \<Rightarrow> if name = expected then Some r else None | None \<Rightarrow> None)"

fun delim_in :: "string \<Rightarrow> 'f tok list \<Rightarrow> ('f, char) parse" where
  "delim_in cs (TDelim b # ts) = (if b \<in> set cs then Some (b, ts) else None)"
| "delim_in cs ts = None"

definition delim :: "char \<Rightarrow> 'f tok list \<Rightarrow> 'f tok list option" where
  "delim b ts = map_option snd (delim_in [b] ts)"

fun open_paren :: "'f tok list \<Rightarrow> 'f tok list option" where
  "open_paren (TOpenParen # ts) = Some ts"
| "open_paren ts = None"

fun close_paren :: "'f tok list \<Rightarrow> 'f tok list option" where
  "close_paren (TCloseParen # ts) = Some ts"
| "close_paren ts = None"

fun colon :: "'f tok list \<Rightarrow> 'f tok list option" where
  "colon (TColon # ts) = Some ts"
| "colon ts = None"

fun comma :: "'f tok list \<Rightarrow> 'f tok list option" where
  "comma (TComma # ts) = Some ts"
| "comma ts = None"

fun number :: "'f tok list \<Rightarrow> ('f, 'f) parse" where
  "number (TNumber v # ts) = Some (v, ts)"
| "number ts = None"

fun percentage :: "'f tok list \<Rightarrow> ('f, 'f) parse" where
  "percentage (TPercentage v # ts) = Some (v, ts)"
| "percentage ts = None"

fun dimension :: "'f tok list \<Rightarrow> ('f, 'f \<times> string) parse" where
  "dimension (TDimension v u # ts) = Some ((v, u), ts)"
| "dimension ts = None"

fun function_eq :: "string \<Rightarrow> 'f tok list \<Rightarrow> 'f tok list option" where
  "function_eq expected (TFunction name # ts) = (if name = expected then Some ts else None)"
| "function_eq expected ts = None"

definition or_else :: "'a option \<Rightarrow> 'a option \<Rightarrow> 'a option" where
  "or_else a b = (case a of Some x \<Rightarrow> Some x | None \<Rightarrow> b)"

section \<open>Rules without recursion\<close>

definition basic_media_type :: "'f tok list \<Rightarrow> ('f, string) parse" where
  "basic_media_type ts = do {
     (name, r) \<leftarrow> ident ts;
     if name \<in> {''screen'', ''print'', ''all''} then Some (name, r) else None
   }"

definition media_keyword :: "'f tok list \<Rightarrow> ('f, 'f rule) parse" where
  "media_keyword ts =
     (let (n, t1) = (case ident_eq ''not'' ts of Some r \<Rightarrow> (True, r) | None \<Rightarrow> (False, ts));
          (only, t2) =
            (case (if n then Option.bind (ws t1) (ident_eq ''only'') else ident_eq ''only'' t1) of
               Some r \<Rightarrow> (True, r) | None \<Rightarrow> (False, t1))
      in do {
        t3 \<leftarrow> (if n \<or> only then ws t2 else Some t2);
        (key, r) \<leftarrow> basic_media_type t3;
        Some (Keyword key n only, r)
      })"

definition word_rule :: "'f tok list \<Rightarrow> ('f, 'f rule) parse" where
  "word_rule ts = do {
     t1 \<leftarrow> open_paren ts;
     (key, t2) \<leftarrow> ident t1;
     t3 \<leftarrow> close_paren t2;
     if key \<in> {''color'', ''monochrome'', ''grid'', ''color-index''} then Some (WordRule key, t3) else None
   }"

definition calc_value :: "'f f64_ops \<Rightarrow> 'f tok list \<Rightarrow> ('f, string) parse" where
  "calc_value F ts =
     or_else (case ident ts of
                Some (name, r) \<Rightarrow>
                  if name \<in> {''pi'', ''e'', ''infinity'', ''-infinity'', ''NaN''} then Some (name, r) else None
              | None \<Rightarrow> None)
     (or_else (map_option (\<lambda>(n, r). (f_show F n, r)) (number ts))
     (or_else (map_option (\<lambda>((v, u), r). (f_show F v @ u, r)) (dimension ts))
       (map_option (\<lambda>(p, r). (f_show F p @ ''%'', r)) (percentage ts))))"

lemma calc_value_length: "calc_value F ts = Some (x, r) \<Longrightarrow> length r < length ts"
  by (cases ts) (auto simp: calc_value_def or_else_def split: option.splits if_splits tok.splits elim!: ident.elims number.elims
      dimension.elims percentage.elims)

lemma ws_opt_length [simp]: "length (ws_opt ts) \<le> length ts"
  by (cases ts rule: ws_opt.cases) auto

lemma ws_opt_less: "length ts < n \<Longrightarrow> length (ws_opt ts) < n"
  by (meson ws_opt_length le_less_trans)

lemma token_lengths:
  "ws ts = Some r \<Longrightarrow> length r < length ts" "open_paren ts = Some r \<Longrightarrow> length r < length ts"
  "close_paren ts = Some r \<Longrightarrow> length r < length ts" "ident ts = Some (x, r) \<Longrightarrow> length r < length ts"
  "delim_in cs ts = Some (b, r) \<Longrightarrow> length r < length ts" "colon ts = Some r \<Longrightarrow> length r < length ts"
  "dimension ts = Some (d, r) \<Longrightarrow> length r < length ts" "comma ts = Some r \<Longrightarrow> length r < length ts"
  "number ts = Some (v, r) \<Longrightarrow> length r < length ts" "function_eq name ts = Some r \<Longrightarrow> length r < length ts"
  by (auto elim: ws.elims open_paren.elims close_paren.elims ident.elims delim_in.elims colon.elims dimension.elims comma.elims
      number.elims function_eq.elims split: if_splits)

lemma ident_eq_length: "ident_eq name ts = Some r \<Longrightarrow> length r < length ts"
  by (auto simp: ident_eq_def dest: token_lengths split: option.splits if_splits)

function calc_operand :: "'f f64_ops \<Rightarrow> 'f tok list \<Rightarrow> ('f, string) parse"
  and calc_group :: "'f f64_ops \<Rightarrow> 'f tok list \<Rightarrow> ('f, string) parse"
  and calc_operations :: "'f f64_ops \<Rightarrow> 'f tok list \<Rightarrow> ('f, string) parse"
  and calc_loop :: "'f f64_ops \<Rightarrow> bool \<Rightarrow> 'f tok list \<Rightarrow> string list \<Rightarrow> string list \<times> 'f tok list" where
  "calc_operand F ts = (case calc_value F ts of Some r \<Rightarrow> Some r | None \<Rightarrow> calc_group F ts)"
| "calc_group F ts =
     (case open_paren ts of
        None \<Rightarrow> None
      | Some t1 \<Rightarrow>
          (case calc_operations F (ws_opt t1) of
             None \<Rightarrow> None
           | Some (inner, t2) \<Rightarrow>
               map_option (\<lambda>t3. (''('' @ inner @ '')'', t3)) (close_paren (ws_opt t2))))"
| "calc_operations F ts =
     (case calc_operand F ts of
        None \<Rightarrow> None
      | Some (first, t1) \<Rightarrow>
          if length t1 < length ts
          then (case calc_loop F True (ws_opt t1) [first] of (parts, r) \<Rightarrow> Some (join_with '' '' parts, r))
          else None)"
| "calc_loop F first_item ts parts =
     (case delim_in ''*/+-'' (if first_item then ts else ws_opt ts) of
        None \<Rightarrow> (parts, ts)
      | Some (op, t1) \<Rightarrow>
          (case calc_operand F (ws_opt t1) of
             None \<Rightarrow> (parts, ts)
           | Some (operand, t2) \<Rightarrow>
               if length t2 < length ts then calc_loop F False t2 (parts @ [[op], operand]) else (parts, ts)))"
  by pat_completeness auto
termination
proof (relation "measure (case_sum
    (case_sum (\<lambda>(F, ts). 3 * length ts + 1) (\<lambda>(F, ts). 3 * length ts))
    (case_sum (\<lambda>(F, ts). 3 * length ts + 2) (\<lambda>(F, fi, ts, p). 3 * length ts)))", goal_cases)
  case (3 F ts t1)
  then have "length (ws_opt t1) < length ts" by (rule ws_opt_less [OF token_lengths(2)])
  then show ?case by simp
next
  case (5 F ts ft first t1)
  then have "length (ws_opt t1) < length ts" by (simp add: ws_opt_less)
  then show ?case by simp
next
  case (6 F fi ts parts ot op t1)
  then have t1: "length t1 < length (if fi then ts else ws_opt ts)" by (auto dest: token_lengths)
  have "length t1 < length ts"
    by (rule order_less_le_trans [OF t1]) (cases fi; simp)
  from ws_opt_less [OF this] show ?case by simp
qed auto

declare calc_operand.simps [simp del] calc_group.simps [simp del] calc_operations.simps [simp del] calc_loop.simps [simp del]

definition calc :: "'f f64_ops \<Rightarrow> 'f tok list \<Rightarrow> ('f, string) parse" where
  "calc F ts = do {
     t1 \<leftarrow> function_eq ''calc'' ts;
     (body, t2) \<leftarrow> calc_operations F (ws_opt t1);
     t3 \<leftarrow> close_paren (ws_opt t2);
     Some (''calc('' @ body @ '')'', t3)
   }"

definition fraction :: "'f tok list \<Rightarrow> ('f, 'f media_value) parse" where
  "fraction ts = do {
     (a, t1) \<leftarrow> number ts;
     t2 \<leftarrow> delim CHR ''/'' (ws_opt t1);
     (b, t3) \<leftarrow> number (ws_opt t2);
     Some (Fraction a b, t3)
   }"

definition media_rule_value :: "'f f64_ops \<Rightarrow> 'f tok list \<Rightarrow> ('f, 'f media_value) parse" where
  "media_rule_value F ts =
     or_else (map_option (\<lambda>(s, r). (Str s, r)) (calc F ts))
     (or_else (map_option (\<lambda>((v, u), r). (Length v u, r)) (dimension ts))
     (or_else (map_option (\<lambda>(name, r). (Str name, r)) (ident ts))
     (or_else (fraction ts)
       (map_option (\<lambda>(n, r). (Number n, r)) (number ts)))))"

definition simple_pair :: "'f f64_ops \<Rightarrow> 'f tok list \<Rightarrow> ('f, 'f rule) parse" where
  "simple_pair F ts = do {
     t1 \<leftarrow> open_paren ts;
     (key, t2) \<leftarrow> ident (ws_opt t1);
     t3 \<leftarrow> colon (ws_opt t2);
     (v, t4) \<leftarrow> media_rule_value F (ws_opt t3);
     t5 \<leftarrow> close_paren (ws_opt t4);
     Some (RPair key v, t5)
   }"

definition width_or_height :: "'f tok list \<Rightarrow> ('f, string) parse" where
  "width_or_height ts = do {
     (name, r) \<leftarrow> ident ts;
     if name = ''width'' \<or> name = ''height'' then Some (name, r) else None
   }"

definition ineq_op :: "'f tok list \<Rightarrow> ('f, char) parse" where
  "ineq_op ts = delim_in ''><'' ts"

definition ineq_eq :: "'f tok list \<Rightarrow> bool \<times> 'f tok list" where
  "ineq_eq ts = (case delim CHR ''='' (ws_opt ts) of Some r \<Rightarrow> (True, r) | None \<Rightarrow> (False, ts))"

definition adjust :: "'f f64_ops \<Rightarrow> 'f \<Rightarrow> bool \<Rightarrow> bool \<Rightarrow> 'f" where
  "adjust F v eq is_max = (if eq then v else if is_max then f_sub F v (f_eps F) else f_add F v (f_eps F))"

text \<open>A bound from an inequality: its key, and its value moved by a hundredth when it is strict.\<close>

definition ineq_rule :: "'f f64_ops \<Rightarrow> string \<Rightarrow> bool \<Rightarrow> 'f \<Rightarrow> string \<Rightarrow> 'f rule" where
  "ineq_rule F key eq v u = RPair key (Length (adjust F v eq (starts_with ''max-'' key)) u)"

definition ineq_forward :: "'f f64_ops \<Rightarrow> 'f tok list \<Rightarrow> ('f, 'f rule) parse" where
  "ineq_forward F ts = do {
     t1 \<leftarrow> open_paren ts;
     (key, t2) \<leftarrow> width_or_height (ws_opt t1);
     (op, t3) \<leftarrow> ineq_op (ws_opt t2);
     (eq, t4) \<leftarrow> Some (ineq_eq t3);
     ((v, u), t5) \<leftarrow> dimension (ws_opt t4);
     t6 \<leftarrow> close_paren (ws_opt t5);
     Some (ineq_rule F ((if op = CHR ''>'' then ''min-'' else ''max-'') @ key) eq v u, t6)
   }"

definition ineq_reversed :: "'f f64_ops \<Rightarrow> 'f tok list \<Rightarrow> ('f, 'f rule) parse" where
  "ineq_reversed F ts = do {
     t1 \<leftarrow> open_paren ts;
     ((v, u), t2) \<leftarrow> dimension (ws_opt t1);
     (op, t3) \<leftarrow> ineq_op (ws_opt t2);
     (eq, t4) \<leftarrow> Some (ineq_eq t3);
     (key, t5) \<leftarrow> width_or_height (ws_opt t4);
     t6 \<leftarrow> close_paren (ws_opt t5);
     Some (ineq_rule F ((if op = CHR ''>'' then ''max-'' else ''min-'') @ key) eq v u, t6)
   }"

definition combined_inequality :: "'f f64_ops \<Rightarrow> 'f tok list \<Rightarrow> ('f, 'f rule) parse" where
  "combined_inequality F ts = or_else (ineq_forward F ts) (ineq_reversed F ts)"

definition double_inequality :: "'f f64_ops \<Rightarrow> 'f tok list \<Rightarrow> ('f, 'f rule) parse" where
  "double_inequality F ts = do {
     t1 \<leftarrow> open_paren ts;
     ((lower, lower_unit), t2) \<leftarrow> dimension (ws_opt t1);
     (op, t3) \<leftarrow> ineq_op (ws_opt t2);
     (eq, t4) \<leftarrow> Some (ineq_eq t3);
     (key, t5) \<leftarrow> width_or_height (ws_opt t4);
     (op2, t6) \<leftarrow> ineq_op (ws_opt t5);
     (eq2, t7) \<leftarrow> Some (ineq_eq t6);
     ((upper, upper_unit), t8) \<leftarrow> dimension (ws_opt t7);
     t9 \<leftarrow> close_paren (ws_opt t8);
     Some (RAnd [ineq_rule F ((if op = CHR ''>'' then ''max-'' else ''min-'') @ key) eq lower lower_unit,
                 ineq_rule F ((if op2 = CHR ''>'' then ''min-'' else ''max-'') @ key) eq2 upper upper_unit], t9)
   }"

definition paren_keyword :: "'f tok list \<Rightarrow> ('f, 'f rule) parse" where
  "paren_keyword ts = do {
     t1 \<leftarrow> open_paren ts;
     (key, t2) \<leftarrow> basic_media_type t1;
     t3 \<leftarrow> close_paren t2;
     Some (Keyword key False False, t3)
   }"

section \<open>The recursive grammar\<close>

definition separator :: "string \<Rightarrow> 'f tok list \<Rightarrow> 'f tok list option" where
  "separator word ts = do { t1 \<leftarrow> ws ts; t2 \<leftarrow> ident_eq word t1; ws t2 }"

lemma separator_length: "separator word ts = Some r \<Longrightarrow> length r < length ts"
  by (force simp: separator_def dest: token_lengths ident_eq_length split: bind_splits)

lemma not_ws_length: "Option.bind (ident_eq word ts) ws = Some r \<Longrightarrow> length r < length ts"
  by (force dest: token_lengths ident_eq_length split: bind_splits)

definition map_rule :: "('a \<Rightarrow> 'b) \<Rightarrow> ('f, 'a) parse \<Rightarrow> ('f, 'b) parse" where
  "map_rule f p = map_option (\<lambda>(x, r). (f x, r)) p"

definition close_after :: "('f, 'a) parse \<Rightarrow> ('f, 'a) parse" where
  "close_after p = Option.bind p (\<lambda>(x, r). map_option (\<lambda>r1. (x, r1)) (close_paren r))"

function and_or_element :: "'f f64_ops \<Rightarrow> 'f tok list \<Rightarrow> ('f, 'f rule) parse"
  and in_parens :: "'f f64_ops \<Rightarrow> string \<Rightarrow> 'f tok list \<Rightarrow> ('f, 'f rule list) parse"
  and combinator_rules :: "'f f64_ops \<Rightarrow> string \<Rightarrow> 'f tok list \<Rightarrow> ('f, 'f rule list) parse"
  and combinator_loop :: "'f f64_ops \<Rightarrow> string \<Rightarrow> 'f tok list \<Rightarrow> 'f rule list \<Rightarrow> 'f rule list \<times> 'f tok list"
  and normal_rule_for_not :: "'f f64_ops \<Rightarrow> 'f tok list \<Rightarrow> ('f, 'f rule) parse"
  and not_parser :: "'f f64_ops \<Rightarrow> 'f tok list \<Rightarrow> ('f, 'f rule) parse" where
  "and_or_element F ts =
     or_else (media_keyword ts)
     (or_else (map_rule ROr (in_parens F ''or'' ts))
     (or_else (map_rule RAnd (in_parens F ''and'' ts))
     (or_else (not_parser F ts)
     (or_else (double_inequality F ts)
     (or_else (combined_inequality F ts)
     (or_else (simple_pair F ts)
       (word_rule ts)))))))"
| "in_parens F word ts =
     (case open_paren ts of None \<Rightarrow> None | Some t1 \<Rightarrow> close_after (combinator_rules F word t1))"
| "combinator_rules F word ts =
     (case and_or_element F ts of
        None \<Rightarrow> None
      | Some (first, t1) \<Rightarrow>
          if length t1 < length ts
          then (case combinator_loop F word t1 [first] of (items, r) \<Rightarrow> if 1 < length items then Some (items, r) else None)
          else None)"
| "combinator_loop F word ts items =
     (case separator word ts of
        None \<Rightarrow> (items, ts)
      | Some t1 \<Rightarrow>
          (case and_or_element F t1 of
             None \<Rightarrow> (items, t1)
           | Some (r, t2) \<Rightarrow>
               if length t2 < length ts then combinator_loop F word t2 (items @ [r]) else (items, t1)))"
| "normal_rule_for_not F ts =
     map_option (\<lambda>(r, t1). (r, ws_opt t1))
       (or_else (paren_keyword ts)
       (or_else (map_rule RAnd (combinator_rules F ''and'' ts))
       (or_else (map_rule ROr (combinator_rules F ''or'' ts))
       (or_else (simple_pair F ts)
       (or_else (word_rule ts)
       (or_else (not_parser F ts)
       (or_else (map_rule ROr (in_parens F ''or'' ts))
         (map_rule RAnd (in_parens F ''and'' ts)))))))))"
| "not_parser F ts =
     (case open_paren ts of
        None \<Rightarrow> None
      | Some t1 \<Rightarrow>
          (case Option.bind (ident_eq ''not'' t1) ws of
             None \<Rightarrow> None
           | Some t2 \<Rightarrow> close_after (map_rule RNot (normal_rule_for_not F t2))))"
  by pat_completeness auto
termination
  by (relation "measure (case_sum
    (case_sum (\<lambda>(F, ts). 6 * length ts + 3) (case_sum (\<lambda>(F, w, ts). 6 * length ts + 2) (\<lambda>(F, w, ts). 6 * length ts + 4)))
    (case_sum (\<lambda>(F, w, ts, i). 6 * length ts) (case_sum (\<lambda>(F, ts). 6 * length ts + 5) (\<lambda>(F, ts). 6 * length ts + 2))))")
    (auto dest!: token_lengths(2) separator_length not_ws_length)

declare and_or_element.simps [simp del] in_parens.simps [simp del] combinator_rules.simps [simp del]
  combinator_loop.simps [simp del] normal_rule_for_not.simps [simp del] not_parser.simps [simp del]

definition leading_not :: "'f f64_ops \<Rightarrow> 'f tok list \<Rightarrow> ('f, 'f rule) parse" where
  "leading_not F ts = do {
     t1 \<leftarrow> ident_eq ''not'' ts;
     t2 \<leftarrow> ws t1;
     map_rule RNot
       (or_else (map_rule ROr (in_parens F ''or'' t2))
       (or_else (map_rule RAnd (in_parens F ''and'' t2))
       (or_else (not_parser F t2)
       (or_else (combined_inequality F t2)
       (or_else (simple_pair F t2)
         (word_rule t2))))))
   }"

definition normal_rule :: "'f f64_ops \<Rightarrow> 'f tok list \<Rightarrow> ('f, 'f rule) parse" where
  "normal_rule F ts =
     or_else (map_rule RAnd (combinator_rules F ''and'' ts))
     (or_else (map_rule ROr (combinator_rules F ''or'' ts))
     (or_else (media_keyword ts)
     (or_else (not_parser F ts)
     (or_else (double_inequality F ts)
     (or_else (combined_inequality F ts)
     (or_else (simple_pair F ts)
     (or_else (word_rule ts)
     (or_else (map_rule ROr (in_parens F ''or'' ts))
       (map_rule RAnd (in_parens F ''and'' ts))))))))))"

definition query :: "'f f64_ops \<Rightarrow> 'f tok list \<Rightarrow> ('f, 'f rule) parse" where
  "query F ts = or_else (leading_not F ts) (normal_rule F ts)"

text \<open>The comma separated queries after the first; a comma stays consumed when no query follows it.\<close>

function query_loop :: "'f f64_ops \<Rightarrow> 'f tok list \<Rightarrow> 'f rule list \<Rightarrow> 'f rule list \<times> 'f tok list" where
  "query_loop F ts sets =
     (case comma (ws_opt ts) of
        None \<Rightarrow> (sets, ts)
      | Some t1 \<Rightarrow>
          (case query F (ws_opt t1) of
             None \<Rightarrow> (sets, ws_opt t1)
           | Some (q, t2) \<Rightarrow> if length t2 < length ts then query_loop F t2 (sets @ [q]) else (sets, ws_opt t1)))"
  by auto
termination by (relation "measure (\<lambda>(F, ts, s). length ts)") auto

declare query_loop.simps [simp del]

definition media_query :: "'f f64_ops \<Rightarrow> 'f tok list \<Rightarrow> ('f, 'f rule) parse" where
  "media_query F ts =
     (case ts of
        TAtKeyword name # t1 \<Rightarrow>
          if name = ''media'' then do {
            t2 \<leftarrow> ws t1;
            (q, t3) \<leftarrow> query F t2;
            let (sets, r) = query_loop F t3 [q];
            Some (if 1 < length sets then ROr sets else last sets, r)
          } else None
      | _ \<Rightarrow> None)"

section \<open>Parsing a query\<close>

datatype media_query_error = Syntax | Unverified string

definition verified_form :: "string \<Rightarrow> bool" where
  "verified_form input \<longleftrightarrow> list_all (\<lambda>b. (of_char b :: nat) < 128 \<and> b \<noteq> CHR 0x5C \<and> b \<noteq> CHR 0x00) input"

definition parse_query :: "'f f64_ops \<Rightarrow> string \<Rightarrow> media_query_error + 'f rule" where
  "parse_query F input =
     (if \<not> verified_form input then Inl (Unverified input)
      else case media_query F (tokenize F input) of
        None \<Rightarrow> Inl Syntax
      | Some (rule, rest) \<Rightarrow> if rest \<noteq> [] then Inl Syntax else Inr (normalize_rule F rule))"

definition query_to_string :: "'f f64_ops \<Rightarrow> 'f rule \<Rightarrow> string" where
  "query_to_string F q = ''@media '' @ rule_to_string F q True"

end
