(* ===== verification/Media_Wf.thy ===== *)
theory Media_Wf
  imports Media_Meaning Media_Parse
begin

text \<open>
  What the parser returns: rules with no empty conjunction, whose bounds are numbers of the input (or
  such a number moved by a hundredth), and a rest that is shorter than the input. The last shows
  that the guards of the recursive parsers never fail.
\<close>

section \<open>Advancing over tokens\<close>

definition dims_in :: "'f set \<Rightarrow> 'f tok list \<Rightarrow> bool" where
  "dims_in V ts \<longleftrightarrow> (\<forall>t \<in> set ts. case t of TDimension v u \<Rightarrow> v \<in> V | _ \<Rightarrow> True)"

definition shifts_in :: "'f f64_ops \<Rightarrow> 'f set \<Rightarrow> bool" where
  "shifts_in F V \<longleftrightarrow> (\<forall>v \<in> V. f_sub F v (f_eps F) \<in> V \<and> f_add F v (f_eps F) \<in> V)"

definition adv :: "'f set \<Rightarrow> 'f tok list \<Rightarrow> 'f tok list \<Rightarrow> bool" where
  "adv V ts r \<longleftrightarrow> length r < length ts \<and> (dims_in V ts \<longrightarrow> dims_in V r)"

lemma adv_Cons [simp]: "adv V (t # ts) ts"
  by (simp add: adv_def dims_in_def)

lemma adv_trans: "adv V ts r \<Longrightarrow> adv V r q \<Longrightarrow> adv V ts q"
  by (simp add: adv_def)

lemma dims_in_adv: "adv V ts r \<Longrightarrow> dims_in V ts \<Longrightarrow> dims_in V r"
  by (simp add: adv_def)

lemma adv_ws_opt: "adv V (ws_opt ts) r \<Longrightarrow> adv V ts r" "adv V ts r \<Longrightarrow> adv V ts (ws_opt r)"
proof -
  have "length (ws_opt ts) \<le> length ts" "dims_in V ts \<Longrightarrow> dims_in V (ws_opt ts)" for ts :: "'a tok list"
    by (cases ts rule: ws_opt.cases; simp add: dims_in_def)+
  then show "adv V (ws_opt ts) r \<Longrightarrow> adv V ts r" "adv V ts r \<Longrightarrow> adv V ts (ws_opt r)"
    by (auto simp: adv_def ws_opt_less intro: order_less_le_trans)
qed

lemma token_adv:
  "ws ts = Some r \<Longrightarrow> adv V ts r" "open_paren ts = Some r \<Longrightarrow> adv V ts r" "close_paren ts = Some r \<Longrightarrow> adv V ts r"
  "ident ts = Some (x, r) \<Longrightarrow> adv V ts r" "delim_in cs ts = Some (b, r) \<Longrightarrow> adv V ts r" "colon ts = Some r \<Longrightarrow> adv V ts r"
  "dimension ts = Some (d, r) \<Longrightarrow> adv V ts r" "comma ts = Some r \<Longrightarrow> adv V ts r" "number ts = Some (v, r) \<Longrightarrow> adv V ts r"
  "percentage ts = Some (v, r) \<Longrightarrow> adv V ts r" "function_eq name ts = Some r \<Longrightarrow> adv V ts r"
  by (cases ts; cases "hd ts"; auto split: if_splits)+

lemma derived_adv:
  "ident_eq name ts = Some r \<Longrightarrow> adv V ts r" "delim b ts = Some r \<Longrightarrow> adv V ts r" "ineq_op ts = Some (op, r) \<Longrightarrow> adv V ts r"
  "width_or_height ts = Some (k, r) \<Longrightarrow> adv V ts r" "basic_media_type ts = Some (n, r) \<Longrightarrow> adv V ts r"
  by (auto simp: ident_eq_def delim_def ineq_op_def width_or_height_def basic_media_type_def bind_eq_Some_conv
      split: option.splits if_splits dest: token_adv)

lemma separator_adv: "separator word ts = Some r \<Longrightarrow> adv V ts r"
  by (auto simp: separator_def bind_eq_Some_conv dest!: token_adv(1) [where V = V] derived_adv(1) [where V = V] intro: adv_trans)

lemma dimension_in: "dimension ts = Some ((v, u), r) \<Longrightarrow> dims_in V ts \<Longrightarrow> v \<in> V"
  by (cases ts; cases "hd ts") (auto simp: dims_in_def)

lemma dims_in_ws_opt: "dims_in V ts \<Longrightarrow> dims_in V (ws_opt ts)"
  by (cases ts rule: ws_opt.cases) (auto simp: dims_in_def)

lemma ineq_eq_adv: "adv V ts t3 \<Longrightarrow> adv V ts (snd (ineq_eq t3))"
  by (auto simp: ineq_eq_def split: option.splits dest!: derived_adv(2) [where V = V] adv_ws_opt(1) intro: adv_trans)

section \<open>Rules without recursion\<close>

definition parse_ok :: "'f set \<Rightarrow> 'f tok list \<Rightarrow> ('f, 'f rule) parse \<Rightarrow> bool" where
  "parse_ok V ts p \<longleftrightarrow> (\<forall>r t. p = Some (r, t) \<longrightarrow> adv V ts t \<and> (dims_in V ts \<longrightarrow> rule_ok V r))"

lemma parse_okI: "(\<And>r t. p = Some (r, t) \<Longrightarrow> adv V ts t \<and> (dims_in V ts \<longrightarrow> rule_ok V r)) \<Longrightarrow> parse_ok V ts p"
  by (simp add: parse_ok_def)

lemma parse_ok_or_else: "parse_ok V ts p \<Longrightarrow> parse_ok V ts q \<Longrightarrow> parse_ok V ts (or_else p q)"
  by (simp add: parse_ok_def or_else_def split: option.splits)

lemma media_keyword_ok: "parse_ok V ts (media_keyword ts)"
  by (rule parse_okI) (auto simp: media_keyword_def Let_def bind_eq_Some_conv split: option.splits if_splits
      dest!: derived_adv(1,5) [where V = V] token_adv(1) [where V = V], simp_all add: adv_def)

lemma word_rule_ok: "parse_ok V ts (word_rule ts)"
  by (rule parse_okI) (auto simp: word_rule_def bind_eq_Some_conv split: if_splits
      dest!: token_adv(2,3,4) [where V = V] intro: adv_trans)

lemma paren_keyword_ok: "parse_ok V ts (paren_keyword ts)"
  by (rule parse_okI) (auto simp: paren_keyword_def bind_eq_Some_conv split: if_splits
      dest!: token_adv(2,3) [where V = V] derived_adv(5) [where V = V] intro: adv_trans)

lemma calc_value_adv: "calc_value F ts = Some (x, r) \<Longrightarrow> adv V ts r"
  by (auto simp: calc_value_def or_else_def split: option.splits if_splits dest: token_adv)

lemma calc_adv:
  "calc_operand F ts = Some (x, r) \<Longrightarrow> adv V ts r"
  "calc_group F ts = Some (x, r) \<Longrightarrow> adv V ts r"
  "calc_operations F ts = Some (x, r) \<Longrightarrow> adv V ts r"
  "calc_loop F fi ts parts = (out, r) \<Longrightarrow> r = ts \<or> adv V ts r"
proof (induction F ts and F ts and F ts and F fi ts parts
    arbitrary: x r and x r and x r and out r rule: calc_operand_calc_group_calc_operations_calc_loop.induct)
  case (1 F ts)
  show ?case
  proof (cases "calc_value F ts")
    case None
    with 1 show ?thesis by (simp add: calc_operand.simps)
  next
    case (Some p)
    with "1.prems" show ?thesis by (simp add: calc_operand.simps calc_value_adv)
  qed
next
  case (2 F ts)
  from "2.prems" obtain t1 inner t2 where p: "open_paren ts = Some t1" "calc_operations F (ws_opt t1) = Some (inner, t2)"
      "close_paren (ws_opt t2) = Some r"
    by (auto simp: calc_group.simps split: option.splits)
  note t2 = adv_ws_opt(1) [OF "2.IH" [OF p(1,2)]]
  from adv_trans [OF adv_trans [OF token_adv(2) [OF p(1)] t2] adv_ws_opt(1) [OF token_adv(3) [OF p(3)]]]
  show ?case .
next
  case (3 F ts)
  from "3.prems" obtain first t1 parts where p: "calc_operand F ts = Some (first, t1)" "length t1 < length ts"
      "calc_loop F True (ws_opt t1) [first] = (parts, r)"
    by (auto simp: calc_operations.simps [of F ts] split: option.splits if_splits prod.splits)
  have t1: "adv V ts t1" by (rule "3.IH"(1) [OF p(1)])
  have "r = ws_opt t1 \<or> adv V (ws_opt t1) r" by (rule "3.IH"(2) [OF p(1) refl p(2,3)])
  then show ?case using t1 adv_ws_opt adv_trans by blast
next
  case (4 F fi ts parts)
  show ?case
  proof (cases "r = ts")
    case False
    with "4.prems" obtain op t1 operand t2 where p: "delim_in ''*/+-'' (if fi then ts else ws_opt ts) = Some (op, t1)"
        "calc_operand F (ws_opt t1) = Some (operand, t2)" "length t2 < length ts"
        "calc_loop F False t2 (parts @ [[op], operand]) = (out, r)"
      by (auto simp: calc_loop.simps [of F fi ts parts] split: option.splits if_splits prod.splits)
    have "adv V ts t1"
      using token_adv(5) [OF p(1), of V] adv_ws_opt(1) by (cases fi) auto
    moreover have "adv V t1 t2" using adv_ws_opt(1) [OF "4.IH"(1) [OF p(1) refl p(2)]] by simp
    moreover have "r = t2 \<or> adv V t2 r" by (rule "4.IH"(2) [OF p(1) refl p(2) refl p(3,4)])
    ultimately show ?thesis using adv_trans by blast
  qed simp
qed

lemma media_rule_value_adv:
  assumes "media_rule_value F ts = Some (v, r)"
  shows "adv V ts r" and "v = Length x u \<Longrightarrow> dims_in V ts \<Longrightarrow> x \<in> V"
proof -
  have calc: "adv V ts r" if "calc F ts = Some (s, r)" for s r
  proof -
    from that obtain t1 body t2 where p: "function_eq ''calc'' ts = Some t1" "calc_operations F (ws_opt t1) = Some (body, t2)"
        "close_paren (ws_opt t2) = Some r"
      by (auto simp: calc_def bind_eq_Some_conv)
    from adv_trans [OF adv_trans [OF token_adv(11) [OF p(1)] adv_ws_opt(1) [OF calc_adv(3) [OF p(2)]]]
        adv_ws_opt(1) [OF token_adv(3) [OF p(3)]]]
    show ?thesis .
  qed
  have frac: "adv V ts r \<and> (\<exists>a b. v = Fraction a b)" if "fraction ts = Some (v, r)" for v r
  proof -
    from that obtain a t1 t2 b where p: "number ts = Some (a, t1)" "delim CHR ''/'' (ws_opt t1) = Some t2"
        "number (ws_opt t2) = Some (b, r)" "v = Fraction a b"
      by (auto simp: fraction_def bind_eq_Some_conv)
    from adv_trans [OF adv_trans [OF token_adv(9) [OF p(1)] adv_ws_opt(1) [OF derived_adv(2) [OF p(2)]]]
        adv_ws_opt(1) [OF token_adv(9) [OF p(3)]]] p(4)
    show ?thesis by blast
  qed
  show "adv V ts r"
    using assms calc frac by (auto simp: media_rule_value_def or_else_def split: option.splits dest: token_adv)
  show "x \<in> V" if "v = Length x u" "dims_in V ts"
    using assms that frac by (fastforce simp: media_rule_value_def or_else_def split: option.splits dest: dimension_in)
qed

lemma simple_pair_ok:
  assumes "shifts_in F V"
  shows "parse_ok V ts (simple_pair F ts)"
proof (rule parse_okI)
  fix r t assume "simple_pair F ts = Some (r, t)"
  then obtain t1 key t2 t3 v t4 where p: "open_paren ts = Some t1" "ident (ws_opt t1) = Some (key, t2)" "colon (ws_opt t2) = Some t3"
      "media_rule_value F (ws_opt t3) = Some (v, t4)" "close_paren (ws_opt t4) = Some t" "r = RPair key v"
    by (auto simp: simple_pair_def bind_eq_Some_conv)
  have t3: "adv V ts t3"
    using token_adv(2) [OF p(1)] adv_ws_opt(1) [OF token_adv(4) [OF p(2)]] adv_ws_opt(1) [OF token_adv(6) [OF p(3)]]
    by (blast intro: adv_trans)
  note val = media_rule_value_adv [OF p(4)]
  have "adv V ts t"
    using t3 adv_ws_opt(1) [OF val(1)] adv_ws_opt(1) [OF token_adv(3) [OF p(5)]] by (blast intro: adv_trans)
  moreover have "rule_ok V r" if "dims_in V ts"
    using val(2) dims_in_ws_opt [of V t3] t3 that by (cases v) (auto simp: p(6) adv_def)
  ultimately show "adv V ts t \<and> (dims_in V ts \<longrightarrow> rule_ok V r)" by simp
qed

lemma ineq_rule_ok: "shifts_in F V \<Longrightarrow> v \<in> V \<Longrightarrow> rule_ok V (ineq_rule F key eq v u)"
  by (simp add: ineq_rule_def adjust_def shifts_in_def)

lemma ineq_forward_ok:
  assumes "shifts_in F V"
  shows "parse_ok V ts (ineq_forward F ts)"
proof (rule parse_okI)
  fix r t assume "ineq_forward F ts = Some (r, t)"
  then obtain t1 key t2 op t3 t4 v u t5 k eq where p: "open_paren ts = Some t1" "width_or_height (ws_opt t1) = Some (key, t2)"
      "ineq_op (ws_opt t2) = Some (op, t3)" "t4 = snd (ineq_eq t3)" "dimension (ws_opt t4) = Some ((v, u), t5)"
      "close_paren (ws_opt t5) = Some t" and r: "r = ineq_rule F k eq v u"
    by (auto simp: ineq_forward_def bind_eq_Some_conv case_prod_unfold)
  have "adv V ts t3"
    using token_adv(2) [OF p(1)] adv_ws_opt(1) [OF derived_adv(4) [OF p(2)]] adv_ws_opt(1) [OF derived_adv(3) [OF p(3)]]
    by (blast intro: adv_trans)
  then have t4: "adv V ts t4" unfolding p(4) by (rule ineq_eq_adv)
  then have "adv V ts t"
    using adv_ws_opt(1) [OF token_adv(7) [OF p(5)]] adv_ws_opt(1) [OF token_adv(3) [OF p(6)]] by (blast intro: adv_trans)
  moreover have "rule_ok V r" if "dims_in V ts"
    using dimension_in [OF p(5) dims_in_ws_opt] t4 that r ineq_rule_ok [OF assms] by (auto simp: adv_def)
  ultimately show "adv V ts t \<and> (dims_in V ts \<longrightarrow> rule_ok V r)" by simp
qed

lemma ineq_reversed_ok:
  assumes "shifts_in F V"
  shows "parse_ok V ts (ineq_reversed F ts)"
proof (rule parse_okI)
  fix r t assume "ineq_reversed F ts = Some (r, t)"
  then obtain t1 key t2 op t3 t4 v u t5 k eq where p: "open_paren ts = Some t1" "dimension (ws_opt t1) = Some ((v, u), t2)"
      "ineq_op (ws_opt t2) = Some (op, t3)" "t4 = snd (ineq_eq t3)" "width_or_height (ws_opt t4) = Some (key, t5)"
      "close_paren (ws_opt t5) = Some t" and r: "r = ineq_rule F k eq v u"
    by (auto simp: ineq_reversed_def bind_eq_Some_conv case_prod_unfold)
  have t1: "adv V ts t1" using token_adv(2) [OF p(1)] .
  then have "adv V ts t3"
    using adv_ws_opt(1) [OF token_adv(7) [OF p(2)]] adv_ws_opt(1) [OF derived_adv(3) [OF p(3)]] by (blast intro: adv_trans)
  then have "adv V ts t4" unfolding p(4) by (rule ineq_eq_adv)
  then have "adv V ts t"
    using adv_ws_opt(1) [OF derived_adv(4) [OF p(5)]] adv_ws_opt(1) [OF token_adv(3) [OF p(6)]] by (blast intro: adv_trans)
  moreover have "rule_ok V r" if "dims_in V ts"
    using dimension_in [OF p(2) dims_in_ws_opt] t1 that r ineq_rule_ok [OF assms] by (auto simp: adv_def)
  ultimately show "adv V ts t \<and> (dims_in V ts \<longrightarrow> rule_ok V r)" by simp
qed

lemma double_inequality_ok:
  assumes "shifts_in F V"
  shows "parse_ok V ts (double_inequality F ts)"
proof (rule parse_okI)
  fix r t assume "double_inequality F ts = Some (r, t)"
  then obtain t1 lo lu t2 op t3 t4 key t5 op2 t6 t7 up uu t8 k1 eq1 k2 eq2
    where p: "open_paren ts = Some t1" "dimension (ws_opt t1) = Some ((lo, lu), t2)" "ineq_op (ws_opt t2) = Some (op, t3)"
      "t4 = snd (ineq_eq t3)" "width_or_height (ws_opt t4) = Some (key, t5)" "ineq_op (ws_opt t5) = Some (op2, t6)"
      "t7 = snd (ineq_eq t6)" "dimension (ws_opt t7) = Some ((up, uu), t8)" "close_paren (ws_opt t8) = Some t"
      and r: "r = RAnd [ineq_rule F k1 eq1 lo lu, ineq_rule F k2 eq2 up uu]"
    by (auto simp: double_inequality_def bind_eq_Some_conv case_prod_unfold)
  have t1: "adv V ts t1" using token_adv(2) [OF p(1)] .
  then have "adv V ts t3"
    using adv_ws_opt(1) [OF token_adv(7) [OF p(2)]] adv_ws_opt(1) [OF derived_adv(3) [OF p(3)]] by (blast intro: adv_trans)
  then have "adv V ts t4" unfolding p(4) by (rule ineq_eq_adv)
  then have "adv V ts t6"
    using adv_ws_opt(1) [OF derived_adv(4) [OF p(5)]] adv_ws_opt(1) [OF derived_adv(3) [OF p(6)]] by (blast intro: adv_trans)
  then have t7: "adv V ts t7" unfolding p(7) by (rule ineq_eq_adv)
  then have "adv V ts t"
    using adv_ws_opt(1) [OF token_adv(7) [OF p(8)]] adv_ws_opt(1) [OF token_adv(3) [OF p(9)]] by (blast intro: adv_trans)
  moreover have "rule_ok V r" if "dims_in V ts"
    using dimension_in [OF p(2) dims_in_ws_opt] dimension_in [OF p(8) dims_in_ws_opt] t1 t7 that r ineq_rule_ok [OF assms]
    by (auto simp: adv_def)
  ultimately show "adv V ts t \<and> (dims_in V ts \<longrightarrow> rule_ok V r)" by simp
qed

lemma combined_inequality_ok: "shifts_in F V \<Longrightarrow> parse_ok V ts (combined_inequality F ts)"
  by (simp add: combined_inequality_def parse_ok_or_else ineq_forward_ok ineq_reversed_ok)

section \<open>The recursive grammar\<close>

definition list_ok :: "'f set \<Rightarrow> 'f tok list \<Rightarrow> ('f, 'f rule list) parse \<Rightarrow> bool" where
  "list_ok V ts p \<longleftrightarrow> (\<forall>rs t. p = Some (rs, t) \<longrightarrow> adv V ts t \<and> rs \<noteq> [] \<and> (dims_in V ts \<longrightarrow> all_ok V rs))"

lemma list_okI: "(\<And>rs t. p = Some (rs, t) \<Longrightarrow> adv V ts t \<and> rs \<noteq> [] \<and> (dims_in V ts \<longrightarrow> all_ok V rs)) \<Longrightarrow> list_ok V ts p"
  by (simp add: list_ok_def)

lemma map_rule_ok:
  "list_ok V ts q \<Longrightarrow> parse_ok V ts (map_rule RAnd q)" "list_ok V ts q \<Longrightarrow> parse_ok V ts (map_rule ROr q)"
  "parse_ok V ts p \<Longrightarrow> parse_ok V ts (map_rule RNot p)"
  by (auto simp: list_ok_def parse_ok_def map_rule_def)

lemma ok_after:
  "adv V ts t \<Longrightarrow> parse_ok V t p \<Longrightarrow> parse_ok V ts p" "adv V ts t \<Longrightarrow> list_ok V t q \<Longrightarrow> list_ok V ts q"
  by (auto simp: list_ok_def parse_ok_def adv_def)

lemma close_after_ok: "parse_ok V ts p \<Longrightarrow> parse_ok V ts (close_after p)" "list_ok V ts q \<Longrightarrow> list_ok V ts (close_after q)"
  by (auto simp: list_ok_def parse_ok_def close_after_def bind_eq_Some_conv dest!: token_adv(3) [where V = V] intro: adv_trans)

lemmas simple_rules_ok = media_keyword_ok word_rule_ok paren_keyword_ok simple_pair_ok combined_inequality_ok double_inequality_ok

lemma not_ws_adv: "Option.bind (ident_eq word ts) ws = Some r \<Longrightarrow> adv V ts r"
  by (auto simp: bind_eq_Some_conv dest!: derived_adv(1) [where V = V] token_adv(1) [where V = V] intro: adv_trans)

lemma grammar_ok:
  "shifts_in F V \<Longrightarrow> parse_ok V ts (and_or_element F ts)"
  "shifts_in F V \<Longrightarrow> list_ok V ts (in_parens F word ts)"
  "shifts_in F V \<Longrightarrow> list_ok V ts (combinator_rules F word ts)"
  "shifts_in F V \<Longrightarrow> combinator_loop F word ts items = (out, r) \<Longrightarrow>
     (r = ts \<or> adv V ts r) \<and> (\<exists>more. out = items @ more) \<and> (dims_in V ts \<longrightarrow> all_ok V items \<longrightarrow> all_ok V out)"
  "shifts_in F V \<Longrightarrow> parse_ok V ts (normal_rule_for_not F ts)"
  "shifts_in F V \<Longrightarrow> parse_ok V ts (not_parser F ts)"
proof (induction F ts and F word ts and F word ts and F word ts items and F ts and F ts
    arbitrary: and and and out r and and
    rule: and_or_element_in_parens_combinator_rules_combinator_loop_normal_rule_for_not_not_parser.induct)
  case (1 F ts)
  then show ?case
    by (simp add: and_or_element.simps [of F ts] parse_ok_or_else simple_rules_ok map_rule_ok)
next
  case (2 F word ts)
  show ?case
  proof (cases "open_paren ts")
    case None
    then show ?thesis by (simp add: in_parens.simps [of F word ts] list_ok_def)
  next
    case (Some t1)
    from ok_after(2) [OF token_adv(2) [OF Some] close_after_ok(2) [OF "2.IH" [OF Some "2.prems"]]] Some
    show ?thesis by (simp add: in_parens.simps [of F word ts])
  qed
next
  case (3 F word ts)
  show ?case
  proof (rule list_okI)
    fix rs t assume "combinator_rules F word ts = Some (rs, t)"
    then obtain x t1 where p: "and_or_element F ts = Some (x, t1)" "length t1 < length ts" "combinator_loop F word t1 [x] = (rs, t)"
      by (auto simp: combinator_rules.simps [of F word ts] split: option.splits if_splits prod.splits)
    have x: "adv V ts t1" "dims_in V ts \<Longrightarrow> rule_ok V x"
      using "3.IH"(1) "3.prems" p(1) by (auto simp: parse_ok_def)
    have "(t = t1 \<or> adv V t1 t) \<and> (\<exists>more. rs = [x] @ more) \<and> (dims_in V t1 \<longrightarrow> all_ok V [x] \<longrightarrow> all_ok V rs)"
      by (rule "3.IH"(2) [OF p(1) refl p(2) "3.prems" p(3)])
    then obtain more where "t = t1 \<or> adv V t1 t" "rs = [x] @ more" "dims_in V t1 \<longrightarrow> all_ok V [x] \<longrightarrow> all_ok V rs" by blast
    moreover from this(2) have "rs \<noteq> []" by simp
    moreover have "dims_in V ts \<Longrightarrow> all_ok V [x]" using x(2) by simp
    ultimately show "adv V ts t \<and> rs \<noteq> [] \<and> (dims_in V ts \<longrightarrow> all_ok V rs)"
      using x(1) adv_trans dims_in_adv by blast
  qed
next
  case (4 F word ts items)
  show ?case
  proof (cases "separator word ts")
    case None
    with "4.prems" show ?thesis by (simp add: combinator_loop.simps [of F word ts items])
  next
    case sep: (Some t1)
    have t1: "adv V ts t1" by (rule separator_adv [OF sep])
    show ?thesis
    proof (cases "and_or_element F t1")
      case None
      with "4.prems" sep t1 show ?thesis by (simp add: combinator_loop.simps [of F word ts items])
    next
      case (Some p)
      then obtain x t2 where x: "and_or_element F t1 = Some (x, t2)" by (cases p) auto
      from "4.IH"(1) [OF sep "4.prems"(1)] x have x_ok: "adv V t1 t2" "dims_in V t1 \<Longrightarrow> rule_ok V x"
        by (auto simp: parse_ok_def)
      show ?thesis
      proof (cases "length t2 < length ts")
        case True
        with "4.prems"(2) sep x have "combinator_loop F word t2 (items @ [x]) = (out, r)"
          by (simp add: combinator_loop.simps [of F word ts items])
        from "4.IH"(2) [OF sep x refl True "4.prems"(1) this] obtain more
          where "r = t2 \<or> adv V t2 r" "out = items @ [x] @ more" "dims_in V t2 \<longrightarrow> all_ok V (items @ [x]) \<longrightarrow> all_ok V out"
          unfolding append_assoc by blast
        moreover have "adv V ts t2" using t1 x_ok(1) by (rule adv_trans)
        moreover have "dims_in V ts \<Longrightarrow> all_ok V items \<Longrightarrow> all_ok V (items @ [x])"
          using x_ok(2) dims_in_adv [OF t1] by auto
        ultimately show ?thesis using adv_trans dims_in_adv by blast
      next
        case False
        with "4.prems"(2) sep x t1 show ?thesis by (auto simp: combinator_loop.simps [of F word ts items])
      qed
    qed
  qed
next
  case (5 F ts)
  have ws: "parse_ok V ts p \<Longrightarrow> parse_ok V ts (map_option (\<lambda>(r, t1). (r, ws_opt t1)) p)" for p
    by (auto simp: parse_ok_def intro: adv_ws_opt(2))
  show ?case
    unfolding normal_rule_for_not.simps [of F ts]
    by (intro ws) (simp add: "5.IH" "5.prems" parse_ok_or_else simple_rules_ok map_rule_ok)
next
  case (6 F ts)
  show ?case
  proof (rule parse_okI)
    fix r t assume "not_parser F ts = Some (r, t)"
    then obtain t1 t2 where p: "open_paren ts = Some t1" "Option.bind (ident_eq ''not'' t1) ws = Some t2"
        "close_after (map_rule RNot (normal_rule_for_not F t2)) = Some (r, t)"
      by (auto simp: not_parser.simps [of F ts] split: option.splits)
    have "parse_ok V ts (close_after (map_rule RNot (normal_rule_for_not F t2)))"
      by (rule ok_after(1) [OF adv_trans [OF token_adv(2) [OF p(1)] not_ws_adv [OF p(2)]]
            close_after_ok(1) [OF map_rule_ok(3) [OF "6.IH" [OF p(1,2) "6.prems"]]]])
    with p(3) show "adv V ts t \<and> (dims_in V ts \<longrightarrow> rule_ok V r)" by (simp add: parse_ok_def)
  qed
qed

section \<open>Whole queries\<close>

lemma query_ok:
  assumes "shifts_in F V"
  shows "parse_ok V ts (query F ts)"
proof -
  note ok = parse_ok_or_else simple_rules_ok map_rule_ok grammar_ok assms
  have "parse_ok V ts (leading_not F ts)"
  proof (rule parse_okI)
    fix r t assume "leading_not F ts = Some (r, t)"
    then obtain t2 where p: "Option.bind (ident_eq ''not'' ts) ws = Some t2"
      "map_rule RNot (or_else (map_rule ROr (in_parens F ''or'' t2)) (or_else (map_rule RAnd (in_parens F ''and'' t2))
        (or_else (not_parser F t2) (or_else (combined_inequality F t2) (or_else (simple_pair F t2) (word_rule t2)))))) = Some (r, t)"
      unfolding leading_not_def bind_eq_Some_conv by blast
    have "parse_ok V t2 (Some (r, t))" unfolding p(2) [symmetric] by (simp add: ok)
    from ok_after(1) [OF not_ws_adv [OF p(1)] this] show "adv V ts t \<and> (dims_in V ts \<longrightarrow> rule_ok V r)"
      by (simp add: parse_ok_def)
  qed
  then show ?thesis by (simp add: query_def normal_rule_def ok)
qed

lemma query_loop_ok:
  "shifts_in F V \<Longrightarrow> query_loop F ts sets = (out, r) \<Longrightarrow>
     (\<exists>more. out = sets @ more) \<and> (dims_in V ts \<longrightarrow> all_ok V sets \<longrightarrow> all_ok V out)"
proof (induction F ts sets arbitrary: out r rule: query_loop.induct)
  case (1 F ts sets)
  show ?case
  proof (cases "comma (ws_opt ts)")
    case None
    with "1.prems" show ?thesis by (simp add: query_loop.simps [of F ts])
  next
    case com: (Some t1)
    show ?thesis
    proof (cases "query F (ws_opt t1)")
      case None
      with "1.prems" com show ?thesis by (simp add: query_loop.simps [of F ts])
    next
      case (Some p)
      then obtain q t2 where q: "query F (ws_opt t1) = Some (q, t2)" by (cases p) auto
      have t1: "adv V ts t1" by (rule adv_ws_opt(1) [OF token_adv(8) [OF com]])
      from query_ok [OF "1.prems"(1), of "ws_opt t1"] q
      have q_ok: "adv V (ws_opt t1) t2" "dims_in V (ws_opt t1) \<Longrightarrow> rule_ok V q" by (auto simp: parse_ok_def)
      from adv_trans [OF t1 adv_ws_opt(1) [OF q_ok(1)]] have t2: "adv V ts t2" .
      then have less: "length t2 < length ts" by (simp add: adv_def)
      with "1.prems"(2) com q have "query_loop F t2 (sets @ [q]) = (out, r)" by (simp add: query_loop.simps [of F ts])
      from "1.IH" [OF com q refl less "1.prems"(1) this] obtain more
        where "out = sets @ [q] @ more" "dims_in V t2 \<longrightarrow> all_ok V (sets @ [q]) \<longrightarrow> all_ok V out"
        unfolding append_assoc by blast
      moreover have "dims_in V ts \<Longrightarrow> all_ok V sets \<Longrightarrow> all_ok V (sets @ [q])"
        using q_ok(2) dims_in_ws_opt dims_in_adv [OF t1] by auto
      ultimately show ?thesis using dims_in_adv [OF t2] by blast
    qed
  qed
qed

lemma media_query_ok:
  assumes "shifts_in F V" and "media_query F ts = Some (r, t)" and "dims_in V ts"
  shows "rule_ok V r"
proof -
  from assms(2) obtain name t1 where ts: "ts = TAtKeyword name # t1" by (auto simp: media_query_def split: list.splits tok.splits)
  with assms(2) obtain t2 q t3 sets where p: "ws t1 = Some t2" "query F t2 = Some (q, t3)" "query_loop F t3 [q] = (sets, t)"
      "r = (if 1 < length sets then ROr sets else last sets)"
    by (auto simp: media_query_def bind_eq_Some_conv case_prod_unfold Let_def prod_eq_iff split: if_splits)
  have t2: "dims_in V t2" using dims_in_adv [OF adv_trans [OF adv_Cons token_adv(1) [OF p(1)]]] assms(3) by (simp add: ts)
  with query_ok [OF assms(1), of t2] p(2) have "dims_in V t3" "rule_ok V q"
    by (auto simp: parse_ok_def dest: dims_in_adv)
  with query_loop_ok [OF assms(1) p(3)] have "sets \<noteq> []" "all_ok V sets" by auto
  then show ?thesis by (simp add: p(4))
qed

section \<open>The loops without their guards\<close>

lemma shifts_UNIV: "shifts_in F UNIV"
  by (simp add: shifts_in_def)

lemma combinator_guard:
  "and_or_element F ts = Some (r, t) \<Longrightarrow> length t < length ts"
  "separator word ts = Some t1 \<Longrightarrow> and_or_element F t1 = Some (r, t) \<Longrightarrow> length t < length ts"
  using grammar_ok(1) [OF shifts_UNIV, of ts F] grammar_ok(1) [OF shifts_UNIV, of t1 F] separator_adv [of word ts t1 UNIV]
  by (auto simp: parse_ok_def adv_def)

lemma query_guard:
  assumes "comma (ws_opt ts) = Some t1" and "query F (ws_opt t1) = Some (q, t)"
  shows "length t < length ts"
proof -
  have "adv UNIV ts t1" by (rule adv_ws_opt(1) [OF token_adv(8) [OF assms(1)]])
  moreover have "adv UNIV t1 t"
    using query_ok [OF shifts_UNIV, of "ws_opt t1" F] assms(2) by (auto simp: parse_ok_def intro: adv_ws_opt(1))
  ultimately show ?thesis by (auto simp: adv_def)
qed

lemma calc_guard:
  "calc_operand F ts = Some (x, t) \<Longrightarrow> length t < length ts"
  "delim_in cs (if fi then ts else ws_opt ts) = Some (op, t1) \<Longrightarrow> calc_operand F (ws_opt t1) = Some (x, t) \<Longrightarrow> length t < length ts"
proof -
  show less: "calc_operand F ts = Some (x, t) \<Longrightarrow> length t < length ts" for ts
    using calc_adv(1) [of F ts x t UNIV] by (simp add: adv_def)
  show "length t < length ts" if "delim_in cs (if fi then ts else ws_opt ts) = Some (op, t1)" "calc_operand F (ws_opt t1) = Some (x, t)"
  proof -
    have "length t < length t1" using less [OF that(2)] ws_opt_length [of t1] by linarith
    also have "\<dots> < length (if fi then ts else ws_opt ts)" by (rule token_lengths(5) [OF that(1)])
    also have "\<dots> \<le> length ts" by simp
    finally show ?thesis .
  qed
qed


end
