(* ===== verification/Media_Transform.thy ===== *)
theory Media_Transform
  imports Media_Wf "HOL-Library.Finite_Map"
begin

text \<open>
  \<^verbatim>\<open>last_media_query_wins_transform\<close> of \<^verbatim>\<open>crates/oj_stylex/src/shared/media_query.rs\<close>: among sibling media queries the last
  one that matches wins, so each earlier one is rewritten to exclude the later ones. The memo of
  rewrites is explicit state.
\<close>

section \<open>Definitions\<close>

definition is_media_key :: "string \<Rightarrow> bool" where
  "is_media_key key \<longleftrightarrow> starts_with ''@media '' key"

definition combine :: "'f rule \<Rightarrow> 'f rule list \<Rightarrow> 'f rule" where
  "combine current negations =
     (case current of
        ROr rules \<Rightarrow> ROr (map (\<lambda>rule. RAnd (rule # negations)) rules)
      | other \<Rightarrow> RAnd (other # negations))"

definition rewritten :: "'f f64_ops \<Rightarrow> 'f rule \<Rightarrow> 'f rule list \<Rightarrow> 'f rule" where
  "rewritten F current later =
     (if later = [] then current else normalize_rule F (combine current (map RNot later)))"

fun rewrite_queries :: "'f f64_ops \<Rightarrow> 'f rule list \<Rightarrow> 'f rule list" where
  "rewrite_queries F [] = []"
| "rewrite_queries F (q # qs) = rewritten F q qs # rewrite_queries F qs"

fun parse_all :: "'f f64_ops \<Rightarrow> string list \<Rightarrow> media_query_error + 'f rule list" where
  "parse_all F [] = Inr []"
| "parse_all F (key # keys) =
     (case parse_query F key of
        Inl e \<Rightarrow> Inl e
      | Inr q \<Rightarrow> map_sum id (\<lambda>qs. q # qs) (parse_all F keys))"

definition transform_uncached :: "'f f64_ops \<Rightarrow> string list \<Rightarrow> media_query_error + string list" where
  "transform_uncached F keys =
     map_sum id (\<lambda>qs. map (query_to_string F) (rewrite_queries F qs)) (parse_all F keys)"

definition transform_memo_cap :: nat where
  "transform_memo_cap = 65536"

type_synonym transform_memo = "(string list, string list) fmap"

definition last_media_query_wins_transform ::
  "'f f64_ops \<Rightarrow> transform_memo \<Rightarrow> string list \<Rightarrow> (media_query_error + string list) \<times> transform_memo" where
  "last_media_query_wins_transform F memo keys =
     (case fmlookup memo keys of
        Some hit \<Rightarrow> (Inr hit, memo)
      | None \<Rightarrow>
          (case transform_uncached F keys of
             Inl e \<Rightarrow> (Inl e, memo)
           | Inr out \<Rightarrow>
               (let memo1 = (if transform_memo_cap \<le> fcard (fmdom memo) then fmempty else memo)
                in (Inr out, fmupd keys out memo1))))"

section \<open>What a parsed query means\<close>

lemma no_gaps_shifts: "no_gaps F env V \<Longrightarrow> shifts_in F V"
  by (simp add: no_gaps_def shifts_in_def)

lemma parse_query_raw:
  assumes "parse_query F input = Inr q"
  obtains raw where "media_query F (tokenize F input) = Some (raw, [])" and "q = normalize_rule F raw"
  using assms by (auto simp: parse_query_def split: if_splits option.splits)

lemma parse_query_ok:
  assumes "f64_order F" and "no_gaps F env V" and "dims_in V (tokenize F input)" and "parse_query F input = Inr q"
  shows "rule_ok V q"
proof -
  obtain raw where raw: "media_query F (tokenize F input) = Some (raw, [])" "q = normalize_rule F raw"
    using assms(4) by (rule parse_query_raw)
  have "rule_ok V raw" by (rule media_query_ok [OF no_gaps_shifts [OF assms(2)] raw(1) assms(3)])
  with normalize_ok [OF assms(1,2)] raw(2) show ?thesis by simp
qed

lemma parse_all_Inr:
  "parse_all F keys = Inr qs \<Longrightarrow> list_all2 (\<lambda>key q. parse_query F key = Inr q) keys qs"
proof (induction keys arbitrary: qs)
  case (Cons key keys)
  from Cons.prems obtain q qs1 where "parse_query F key = Inr q" "parse_all F keys = Inr qs1" "qs = q # qs1"
    by (cases "parse_query F key"; cases "parse_all F keys") auto
  with Cons.IH show ?case by simp
qed simp

lemma parse_all_ok:
  assumes "f64_order F" and "no_gaps F env V"
  shows "list_all2 (\<lambda>key q. parse_query F key = Inr q) keys qs \<Longrightarrow> \<forall>key \<in> set keys. dims_in V (tokenize F key) \<Longrightarrow> all_ok V qs"
  by (induction keys qs rule: list_all2_induct) (auto intro: parse_query_ok [OF assms])

section \<open>The rewriting\<close>

lemma combine_ok:
  "rule_ok V q \<Longrightarrow> all_ok V ns \<Longrightarrow> rule_ok V (combine q ns) \<and> (holds F env (combine q ns) \<longleftrightarrow> holds F env q \<and> all_hold F env ns)"
  by (auto simp: combine_def split: rule.split)

lemma rewritten_holds:
  assumes "f64_order F" and "no_gaps F env V" and "rule_ok V q" and "all_ok V later"
  shows "holds F env (rewritten F q later) \<longleftrightarrow> holds F env q \<and> (\<forall>r \<in> set later. \<not> holds F env r)"
proof -
  have "all_ok V (map RNot later)" using assms(4) by simp
  note c = combine_ok [OF assms(3) this, of F env]
  then have "holds F env (normalize_rule F (combine q (map RNot later))) \<longleftrightarrow> holds F env (combine q (map RNot later))"
    using normalize_ok [OF assms(1,2)] by blast
  with c show ?thesis by (simp add: rewritten_def)
qed

lemma rewrite_queries_nth: "i < length qs \<Longrightarrow> rewrite_queries F qs ! i = rewritten F (qs ! i) (drop (Suc i) qs)"
  by (induction F qs arbitrary: i rule: rewrite_queries.induct) (auto simp: nth_Cons split: nat.split)

lemma rewrite_queries_length [simp]: "length (rewrite_queries F qs) = length qs"
  by (induction qs) auto

lemma rewrite_queries_holds:
  assumes "f64_order F" and "no_gaps F env V" and "all_ok V qs" and "i < length qs"
  shows "holds F env (rewrite_queries F qs ! i) \<longleftrightarrow>
    holds F env (qs ! i) \<and> (\<forall>j. i < j \<longrightarrow> j < length qs \<longrightarrow> \<not> holds F env (qs ! j))"
proof -
  have "(\<forall>r \<in> set (drop (Suc i) qs). \<not> holds F env r) \<longleftrightarrow> (\<forall>j. i < j \<longrightarrow> j < length qs \<longrightarrow> \<not> holds F env (qs ! j))"
    unfolding all_set_conv_all_nth by (auto simp: less_diff_conv) (metis add_diff_inverse_nat add_Suc add.commute less_Suc_eq_le not_less)
  moreover have "all_ok V (drop (Suc i) qs)" using assms(3) in_set_dropD by fastforce
  ultimately show ?thesis
    using assms rewritten_holds [OF assms(1,2)] by (simp add: rewrite_queries_nth)
qed

text \<open>Exact numbers in hundredths, at which the hypotheses hold.\<close>

datatype cents = NegInf | Fin int | PosInf

fun cents_lt :: "cents \<Rightarrow> cents \<Rightarrow> bool" where
  "cents_lt NegInf y \<longleftrightarrow> y \<noteq> NegInf"
| "cents_lt (Fin a) y \<longleftrightarrow> (case y of NegInf \<Rightarrow> False | Fin b \<Rightarrow> a < b | PosInf \<Rightarrow> True)"
| "cents_lt PosInf y \<longleftrightarrow> False"

fun cents_plus :: "cents \<Rightarrow> int \<Rightarrow> cents" where
  "cents_plus (Fin a) k = Fin (a + k)"
| "cents_plus x k = x"

definition cents_ops :: "cents f64_ops" where
  "cents_ops =
     \<lparr>f_lt = cents_lt, f_eq = (=), f_add = (\<lambda>x y. cents_plus x (case y of Fin k \<Rightarrow> k | _ \<Rightarrow> 0)),
      f_sub = (\<lambda>x y. cents_plus x (case y of Fin k \<Rightarrow> - k | _ \<Rightarrow> 0)), f_inf = PosInf, f_neg_inf = NegInf, f_eps = Fin 1,
      f_parse = (\<lambda>s. Fin (100 * foldl (\<lambda>n b. 10 * n + (of_char b - 48)) 0 s)),
      f_show = (\<lambda>x. case x of NegInf \<Rightarrow> ''-inf'' | PosInf \<Rightarrow> ''inf''
                 | Fin n \<Rightarrow> if n mod 100 = 0 then [char_of (48 + n div 100)]
                           else [char_of (48 + n div 100), CHR ''.'', char_of (48 + n div 10 mod 10), char_of (48 + n mod 10)])\<rparr>"

definition cents_env :: "int \<Rightarrow> cents media_env" where
  "cents_env w = \<lparr>size_in = (\<lambda>d u. Fin w), media_type = (\<lambda>t. t = ''screen''), has_word = (\<lambda>w. w = ''color''), feature = (\<lambda>k v. False)\<rparr>"

lemma cents_order: "f64_order cents_ops"
  unfolding f64_order_def cents_ops_def
  by (auto elim!: cents_lt.elims split: cents.splits)

lemma cents_no_gaps: "no_gaps cents_ops (cents_env w) (range Fin)"
  by (auto simp: no_gaps_def cents_ops_def cents_env_def)

section \<open>Properties\<close>


lemma cents_dims: "dims_in (range Fin) ts \<longleftrightarrow> list_all (\<lambda>t. case t of TDimension v u \<Rightarrow> v \<noteq> NegInf \<and> v \<noteq> PosInf | _ \<Rightarrow> True) ts"
proof -
  have "v \<in> range Fin \<longleftrightarrow> v \<noteq> NegInf \<and> v \<noteq> PosInf" for v by (cases v) auto
  then show ?thesis by (simp add: dims_in_def list_all_iff cong: tok.case_cong)
qed




text \<open>
  Rewriting fails on the first key that does not parse, with that key's error, and on no other input; a key
  with a backslash, a NUL or a byte outside ASCII is refused as unverified before it is tokenized.
\<close>

theorem transform_error_first:
  "(transform_uncached F keys = Inl e) =
     (\<exists>before key after. keys = before @ key # after \<and> list_all (\<lambda>k. \<exists>q. parse_query F k = Inr q) before \<and>
        parse_query F key = Inl e) \<and>
   (parse_query F input = Inl (Unverified s)) = (s = input \<and> \<not> verified_form input)"
proof (intro conjI)
  have "parse_all F keys = Inl e \<longleftrightarrow> (\<exists>before key after. keys = before @ key # after \<and>
      list_all (\<lambda>k. \<exists>q. parse_query F k = Inr q) before \<and> parse_query F key = Inl e)"
  proof (induction keys)
    case (Cons key keys)
    show ?case
    proof (cases "parse_query F key")
      case (Inl e1)
      then show ?thesis by (force simp: Cons_eq_append_conv)
    next
      case (Inr q)
      let ?err = "\<lambda>before key. list_all (\<lambda>k. \<exists>q. parse_query F k = Inr q) before \<and> parse_query F key = Inl e"
      have "(\<exists>before k after. key # keys = before @ k # after \<and> ?err before k) \<longleftrightarrow>
          (\<exists>before k after. keys = before @ k # after \<and> ?err before k)" (is "?l = ?r")
      proof
        assume ?l
        then obtain before k after where "key # keys = before @ k # after" "?err before k" by blast
        then show ?r using Inr by (cases before) auto
      next
        assume ?r
        then obtain before k after where "key # keys = (key # before) @ k # after" "?err (key # before) k" using Inr by auto
        then show ?l by blast
      qed
      with Cons.IH Inr show ?thesis by (cases "parse_all F keys") auto
    qed
  qed simp
  then show "(transform_uncached F keys = Inl e) = (\<exists>before key after. keys = before @ key # after \<and>
      list_all (\<lambda>k. \<exists>q. parse_query F k = Inr q) before \<and> parse_query F key = Inl e)"
    by (cases "parse_all F keys") (auto simp: transform_uncached_def)
  show "(parse_query F input = Inl (Unverified s)) = (s = input \<and> \<not> verified_form input)"
    by (auto simp: parse_query_def split: option.split)
qed

section \<open>The memo\<close>

text \<open>A thread's calls in order, each with the memo the previous one left.\<close>

fun transform_calls :: "'f f64_ops \<Rightarrow> transform_memo \<Rightarrow> string list list \<Rightarrow> (media_query_error + string list) list \<times> transform_memo" where
  "transform_calls F memo [] = ([], memo)"
| "transform_calls F memo (keys # rest) =
     (case last_media_query_wins_transform F memo keys of (out, memo1) \<Rightarrow>
      case transform_calls F memo1 rest of (outs, memo2) \<Rightarrow> (out # outs, memo2))"

definition memo_ok :: "'f f64_ops \<Rightarrow> transform_memo \<Rightarrow> bool" where
  "memo_ok F memo \<longleftrightarrow>
     (\<forall>keys out. fmlookup memo keys = Some out \<longrightarrow> transform_uncached F keys = Inr out) \<and> fcard (fmdom memo) \<le> transform_memo_cap"

lemma fcard_insert_le: "fcard A < n \<Longrightarrow> fcard (finsert x A) \<le> n"
  using fcard_finsert [of x A] fcard_mono by (cases "x |\<in>| A") (auto simp: finsert_absorb fcard_finsert_disjoint)

lemma memo_step:
  assumes "memo_ok F memo" and "last_media_query_wins_transform F memo keys = (out, memo1)"
  shows "out = transform_uncached F keys \<and> memo_ok F memo1"
proof (cases "fmlookup memo keys")
  case (Some hit)
  with assms show ?thesis by (auto simp: last_media_query_wins_transform_def memo_ok_def)
next
  case None
  show ?thesis
  proof (cases "transform_uncached F keys")
    case (Inr res)
    have "fcard (fmdom (fmupd keys res memo)) \<le> transform_memo_cap" if "fcard (fmdom memo) < transform_memo_cap"
      using fcard_insert_le [OF that] by simp
    with assms None Inr show ?thesis
      by (auto simp: last_media_query_wins_transform_def memo_ok_def Let_def transform_memo_cap_def fcard_finsert_disjoint fcard_fempty
          split: if_splits)
  qed (use assms None in \<open>simp add: last_media_query_wins_transform_def\<close>)
qed

lemma transform_calls_ok: "memo_ok F memo \<Longrightarrow> transform_calls F memo calls = (outs, memo1) \<Longrightarrow>
   outs = map (transform_uncached F) calls \<and> memo_ok F memo1"
proof (induction calls arbitrary: memo outs memo1)
  case (Cons keys rest)
  from Cons.prems(2) obtain out memo2 outs1 where c: "last_media_query_wins_transform F memo keys = (out, memo2)"
      "transform_calls F memo2 rest = (outs1, memo1)" "outs = out # outs1"
    by (auto split: prod.splits)
  from memo_step [OF Cons.prems(1) c(1)] Cons.IH [OF _ c(2)] c(3) show ?case by simp
qed simp

text \<open>
  The memo is invisible. A thread that starts with the empty memo answers any sequence of calls as if each were
  computed afresh, errors included, and its memo never has more than \<^verbatim>\<open>TRANSFORM_MEMO_CAP\<close> entries.
\<close>

theorem memo_transparent:
  "fst (transform_calls F fmempty calls) = map (transform_uncached F) calls \<and>
   fcard (fmdom (snd (transform_calls F fmempty calls))) \<le> transform_memo_cap"
proof -
  have "memo_ok F fmempty" by (simp add: memo_ok_def fcard_fempty)
  then show ?thesis
    using transform_calls_ok [of F fmempty calls] by (cases "transform_calls F fmempty calls") (auto simp: memo_ok_def)
qed


end
