(* ===== verification/Bundle_Fs.thy ===== *)
theory Bundle_Fs
  imports Std_Path
begin

text \<open>
  The files the Start bundle store works on, and the parts of \<^verbatim>\<open>std::fs\<close> it uses. The world has the store's directory
  (the files \<^verbatim>\<open>current\<close> and \<^verbatim>\<open>latest\<close> and one directory per generation, temporary copy and for the blobs), the build directory
  with its chunks, and the sources of the application;
  \<open>sweeps\<close> are the eviction passes that were started and have not run. A file has its bytes and its time of modification in
  nanoseconds since the epoch; a path of the code is a \<open>loc\<close>.

  Every operation on a file may fail: \<open>fails\<close> says which operations of a call do. A read also fails when the
  file is not there. The time stands still during a call, and the temporary file of an atomic write is
  not part of the world, since it is renamed or removed before the call returns.
\<close>

section \<open>Files, directories and locations\<close>

type_synonym bytes = string

record fs_file =
  contents :: bytes
  modified :: int

record directory =
  dir_files :: "(string, fs_file) fmap"
  dir_modified :: int

record world =
  store_files :: "(string, fs_file) fmap"
  store_dirs :: "(string, directory) fmap"
  start_files :: "(string, fs_file) fmap"
  chunk_files :: "(string, fs_file) fmap"
  sources :: "(string, fs_file) fmap"
  clock :: int
  sweeps :: "nat list"

datatype loc =
    Store_File string
  | Store_Dir string
  | Entry_File string string
  | Start_File string
  | Chunk_File string
  | Source_File string

datatype io_op = Reading loc | Statting loc | Listing loc | Writing loc | Renaming loc | Removing loc | Making loc

type_synonym io = "io_op \<Rightarrow> bool"

definition no_dir :: "int \<Rightarrow> directory" where
  "no_dir t = \<lparr>dir_files = fmempty, dir_modified = t\<rparr>"

definition dir_file :: "world \<Rightarrow> string \<Rightarrow> string \<Rightarrow> fs_file option" where
  "dir_file w d name = Option.bind (fmlookup (store_dirs w) d) (\<lambda>dir. fmlookup (dir_files dir) name)"

fun file_at :: "world \<Rightarrow> loc \<Rightarrow> fs_file option" where
  "file_at w (Store_File name) = fmlookup (store_files w) name"
| "file_at w (Store_Dir name) = None"
| "file_at w (Entry_File d name) = dir_file w d name"
| "file_at w (Start_File name) = fmlookup (start_files w) name"
| "file_at w (Chunk_File name) = fmlookup (chunk_files w) name"
| "file_at w (Source_File name) = fmlookup (sources w) name"

definition is_dir :: "world \<Rightarrow> string \<Rightarrow> bool" where
  "is_dir w d \<longleftrightarrow> d |\<in>| fmdom (store_dirs w)"

definition is_file :: "world \<Rightarrow> loc \<Rightarrow> bool" where
  "is_file w l \<longleftrightarrow> file_at w l \<noteq> None"

section \<open>Operations\<close>

text \<open>\<^verbatim>\<open>fs::read\<close> and \<^verbatim>\<open>fs::metadata\<close>.\<close>

definition fs_read :: "io \<Rightarrow> world \<Rightarrow> loc \<Rightarrow> bytes option" where
  "fs_read fails w l = (if fails (Reading l) then None else map_option contents (file_at w l))"

definition fs_metadata :: "io \<Rightarrow> world \<Rightarrow> loc \<Rightarrow> (nat \<times> int) option" where
  "fs_metadata fails w l =
     (if fails (Statting l) then None else map_option (\<lambda>f. (length (contents f), modified f)) (file_at w l))"

text \<open>Entries of a directory of the store. Adding or removing an entry sets the directory's time.\<close>

definition on_dir :: "string \<Rightarrow> ((string, fs_file) fmap \<Rightarrow> (string, fs_file) fmap) \<Rightarrow> world \<Rightarrow> world" where
  "on_dir d f w =
     (case fmlookup (store_dirs w) d of
        None \<Rightarrow> w
      | Some dir \<Rightarrow> w\<lparr>store_dirs := fmupd d \<lparr>dir_files = f (dir_files dir), dir_modified = clock w\<rparr> (store_dirs w)\<rparr>)"

fun put_file :: "world \<Rightarrow> loc \<Rightarrow> bytes \<Rightarrow> world" where
  "put_file w (Store_File name) b = w\<lparr>store_files := fmupd name \<lparr>contents = b, modified = clock w\<rparr> (store_files w)\<rparr>"
| "put_file w (Store_Dir name) b = w"
| "put_file w (Entry_File d name) b = on_dir d (fmupd name \<lparr>contents = b, modified = clock w\<rparr>) w"
| "put_file w (Start_File name) b = w\<lparr>start_files := fmupd name \<lparr>contents = b, modified = clock w\<rparr> (start_files w)\<rparr>"
| "put_file w (Chunk_File name) b = w\<lparr>chunk_files := fmupd name \<lparr>contents = b, modified = clock w\<rparr> (chunk_files w)\<rparr>"
| "put_file w (Source_File name) b = w\<lparr>sources := fmupd name \<lparr>contents = b, modified = clock w\<rparr> (sources w)\<rparr>"

text \<open>A file of the store's directory can only be written when its directory is there.\<close>

fun parent_ok :: "world \<Rightarrow> loc \<Rightarrow> bool" where
  "parent_ok w (Entry_File d name) = is_dir w d"
| "parent_ok w l = True"

text \<open>\<^verbatim>\<open>fs::write\<close> and \<^verbatim>\<open>integrity::atomic_write\<close>: on an error the old file is left.\<close>

definition fs_write :: "io \<Rightarrow> world \<Rightarrow> loc \<Rightarrow> bytes \<Rightarrow> bool \<times> world" where
  "fs_write fails w l b =
     (if fails (Writing l) \<or> \<not> parent_ok w l then (False, w) else (True, put_file w l b))"

fun fs_remove_file :: "io \<Rightarrow> world \<Rightarrow> loc \<Rightarrow> world" where
  "fs_remove_file fails w (Store_File name) =
     (if fails (Removing (Store_File name)) then w else w\<lparr>store_files := fmdrop name (store_files w)\<rparr>)"
| "fs_remove_file fails w (Entry_File d name) =
     (if fails (Removing (Entry_File d name)) \<or> dir_file w d name = None then w else on_dir d (fmdrop name) w)"
| "fs_remove_file fails w l = w"

definition fs_remove_dir_all :: "io \<Rightarrow> world \<Rightarrow> string \<Rightarrow> world" where
  "fs_remove_dir_all fails w d =
     (if fails (Removing (Store_Dir d)) then w else w\<lparr>store_dirs := fmdrop d (store_dirs w)\<rparr>)"

definition fs_create_dir_all :: "io \<Rightarrow> world \<Rightarrow> string \<Rightarrow> bool \<times> world" where
  "fs_create_dir_all fails w d =
     (if is_dir w d then (True, w)
      else if fails (Making (Store_Dir d)) then (False, w)
      else (True, w\<lparr>store_dirs := fmupd d (no_dir (clock w)) (store_dirs w)\<rparr>))"

text \<open>Renaming a directory: refused on a missing source or a target that has entries.\<close>

definition fs_rename_dir :: "io \<Rightarrow> world \<Rightarrow> string \<Rightarrow> string \<Rightarrow> bool \<times> world" where
  "fs_rename_dir fails w a b =
     (case fmlookup (store_dirs w) a of
        None \<Rightarrow> (False, w)
      | Some dir \<Rightarrow>
          if fails (Renaming (Store_Dir b)) \<or>
            (case fmlookup (store_dirs w) b of None \<Rightarrow> False | Some old \<Rightarrow> dir_files old \<noteq> fmempty)
          then (False, w)
          else (True, w\<lparr>store_dirs := fmupd b dir (fmdrop a (store_dirs w))\<rparr>))"

text \<open>Renaming a file inside a directory replaces the target.\<close>

definition fs_rename_file :: "io \<Rightarrow> world \<Rightarrow> string \<Rightarrow> string \<Rightarrow> string \<Rightarrow> bool \<times> world" where
  "fs_rename_file fails w d a b =
     (case dir_file w d a of
        None \<Rightarrow> (False, w)
      | Some f \<Rightarrow>
          if fails (Renaming (Entry_File d b)) then (False, w)
          else (True, on_dir d (\<lambda>fs. fmupd b f (fmdrop a fs)) w))"

text \<open>\<^verbatim>\<open>fs::copy\<close>: the copy has a time of its own.\<close>

definition fs_copy :: "io \<Rightarrow> world \<Rightarrow> loc \<Rightarrow> loc \<Rightarrow> bool \<times> world" where
  "fs_copy fails w src dst = (case fs_read fails w src of None \<Rightarrow> (False, w) | Some b \<Rightarrow> fs_write fails w dst b)"

text \<open>\<^verbatim>\<open>str::get(..16)\<close>: a prefix that ends between two characters.\<close>

definition get16 :: "string \<Rightarrow> string option" where
  "get16 s = (if length s = 16 \<or> (16 < length s \<and> \<not> byte_in 128 191 (s ! 16)) then Some (take 16 s) else None)"

section \<open>Laws\<close>

lemma dir_file_on_dir:
  "dir_file (on_dir d f w) e name =
     (case fmlookup (store_dirs w) e of
        None \<Rightarrow> None | Some dir \<Rightarrow> if e = d then fmlookup (f (dir_files dir)) name else fmlookup (dir_files dir) name)"
  by (auto simp: on_dir_def dir_file_def split: option.split)

lemma on_dir_fields [simp]:
  "store_files (on_dir d f w) = store_files w" "start_files (on_dir d f w) = start_files w"
  "chunk_files (on_dir d f w) = chunk_files w" "sources (on_dir d f w) = sources w" "clock (on_dir d f w) = clock w"
  "fmdom (store_dirs (on_dir d f w)) = fmdom (store_dirs w)"
  by (auto simp: on_dir_def fmdom'I split: option.split dest: fmdomI)

lemma fmdrop_fmempty_iff: "fmlookup m k = None \<Longrightarrow> fmdrop k m = m"
  by (rule fmap_ext) auto

text \<open>What no operation on the store changes: the sources, the build directory and the time.\<close>

definition inputs :: "world \<Rightarrow> (string, fs_file) fmap \<times> (string, fs_file) fmap \<times> (string, fs_file) fmap \<times> int" where
  "inputs w = (sources w, start_files w, chunk_files w, clock w)"

lemma inputs_ops [simp]:
  "inputs (on_dir d f w) = inputs w" "inputs (fs_remove_dir_all fails w d) = inputs w"
  "inputs (fs_remove_file fails w l) = inputs w"
  "inputs (snd (fs_create_dir_all fails w d)) = inputs w" "inputs (snd (fs_rename_dir fails w a b)) = inputs w"
  "inputs (snd (fs_rename_file fails w d a b)) = inputs w"
  "inputs (snd (fs_write fails w (Entry_File d n) c)) = inputs w" "inputs (snd (fs_write fails w (Store_File n) c)) = inputs w"
  "inputs (snd (fs_copy fails w src (Entry_File d n))) = inputs w"
  by (cases l; auto simp: inputs_def fs_remove_dir_all_def fs_create_dir_all_def fs_rename_dir_def fs_rename_file_def
      fs_write_def fs_copy_def split: option.split)+

lemma inputs_results:
  "fs_write fails w (Entry_File d n) b = (ok, v) \<Longrightarrow> inputs v = inputs w"
  "fs_copy fails w src (Entry_File d n) = (ok, v) \<Longrightarrow> inputs v = inputs w"
  "fs_rename_file fails w d n1 n2 = (ok, v) \<Longrightarrow> inputs v = inputs w"
  "fs_rename_dir fails w d1 d2 = (ok, v) \<Longrightarrow> inputs v = inputs w"
  "fs_create_dir_all fails w d = (ok, v) \<Longrightarrow> inputs v = inputs w"
  using inputs_ops by (metis snd_conv)+

lemma inputs_reads:
  "inputs v = inputs w \<Longrightarrow> file_at v (Chunk_File n) = file_at w (Chunk_File n)"
  "inputs v = inputs w \<Longrightarrow> fs_read fails v (Start_File n) = fs_read fails w (Start_File n)"
  "inputs v = inputs w \<Longrightarrow> fs_read fails v (Chunk_File n) = fs_read fails w (Chunk_File n)"
  "inputs v = inputs w \<Longrightarrow> fs_metadata fails v (Chunk_File n) = fs_metadata fails w (Chunk_File n)"
  by (simp_all add: fs_read_def fs_metadata_def inputs_def)

end
