(* ===== verification/Bundle_Store.thy ===== *)
theory Bundle_Store
  imports Bundle_Fs
begin

text \<open>
  The Start client-bundle store, \<^verbatim>\<open>crates/oj_cache/src/start_bundle\<close>: its generations, the memo of digests, the key of a closure,
  \<^verbatim>\<open>restore\<close> and \<^verbatim>\<open>persist\<close>. blake3 and serde_json are not part of the sources: \<open>codecs\<close> holds their
  functions. A path of the closure is its bytes; \<open>path_new\<close> gives its components where the code compares paths.
\<close>

section \<open>Data\<close>

datatype verify_mode = Standard | Full

record expected_file =
  ef_size :: nat
  ef_hash :: string

datatype verify_error = Io | WrongSize nat nat | WrongHash string string

record manifest_file =
  mf_hash :: string
  mf_size :: nat

record generation_manifest =
  gm_format :: nat
  gm_entry :: string
  gm_css_urls :: "string list"
  gm_files :: "(string, manifest_file) fmap"

record chunk_index_file =
  ci_name :: string
  ci_size :: nat

record chunk_index =
  ci_entry :: string
  ci_files :: "chunk_index_file list"

record memo_file =
  me_size :: nat
  me_mtime_ns :: int
  me_digest :: string

record memo =
  written_at_ns :: int
  memo_files :: "(string, memo_file) fmap"

record codecs =
  blake3 :: "bytes \<Rightarrow> bytes"
  to_hex :: "bytes \<Rightarrow> string"
  from_hex :: "string \<Rightarrow> bytes option"
  closure_of_json :: "bytes \<Rightarrow> string list option"
  manifest_of_json :: "bytes \<Rightarrow> generation_manifest option"
  manifest_to_json :: "generation_manifest \<Rightarrow> bytes option"
  memo_of_json :: "bytes \<Rightarrow> memo option"
  memo_to_json :: "memo \<Rightarrow> bytes option"
  index_of_json :: "bytes \<Rightarrow> chunk_index option"
  urls_of_json :: "bytes \<Rightarrow> string list option"
  urls_to_json :: "string list \<Rightarrow> bytes option"

record pinned_chunk =
  pc_path :: loc
  pc_size :: nat
  pc_hash :: "string option"

record pinned_bundle =
  pb_entry :: string
  pb_chunks :: "(string, pinned_chunk) fmap"

record restore_stats =
  rs_key :: string
  rs_files :: nat
  rs_chunks :: nat
  rs_rehashed :: nat

datatype miss =
    NoPreviousBuild
  | ClosureUnreadable
  | ClosureFileUnreadable string
  | NoEntryForKey string
  | EntryCorrupt string
  | ChunkCorrupt string string verify_error
  | ArtifactWriteFailed string
  | GlobGrew string

record bundle_store =
  salt :: string
  verify :: verify_mode

definition start_bundle_format :: nat where
  "start_bundle_format = 5"

definition keep_generations :: nat where
  "keep_generations = 8"

definition glob_scopes_file :: string where "glob_scopes_file = ''glob-scopes.json''"
definition closure_file :: string where "closure_file = ''closure.json''"
definition memo_file_name :: string where "memo_file_name = ''memo.json''"
definition manifest_file_name :: string where "manifest_file_name = ''manifest.json''"
definition current_file :: string where "current_file = ''current''"
definition legacy_pointer_file :: string where "legacy_pointer_file = ''latest''"
definition touch_file :: string where "touch_file = ''last-used''"
definition blobs_dir :: string where "blobs_dir = ''blobs''"
definition chunk_index_name :: string where "chunk_index_name = ''client-chunks.json''"
definition css_urls_file :: string where "css_urls_file = ''css-urls.json''"

definition artifacts :: "string list" where
  "artifacts = [''client-entry.modules'', ''manifest.ts'', glob_scopes_file]"

lemmas file_names = glob_scopes_file_def closure_file_def memo_file_name_def manifest_file_name_def current_file_def
  legacy_pointer_file_def touch_file_def blobs_dir_def chunk_index_name_def css_urls_file_def artifacts_def

section \<open>Verification of a file\<close>

definition verified_read ::
  "codecs \<Rightarrow> io \<Rightarrow> world \<Rightarrow> loc \<Rightarrow> expected_file \<Rightarrow> verify_mode \<Rightarrow> verify_error + bytes" where
  "verified_read C fails w l expected mode =
     (case fs_read fails w l of
        None \<Rightarrow> Inl Io
      | Some b \<Rightarrow>
          if length b \<noteq> ef_size expected then Inl (WrongSize (ef_size expected) (length b))
          else if mode = Full \<and> to_hex C (blake3 C b) \<noteq> ef_hash expected
          then Inl (WrongHash (ef_hash expected) (to_hex C (blake3 C b)))
          else Inr b)"

definition verify_file ::
  "codecs \<Rightarrow> io \<Rightarrow> world \<Rightarrow> loc \<Rightarrow> expected_file \<Rightarrow> verify_mode \<Rightarrow> verify_error + unit" where
  "verify_file C fails w l expected mode =
     (case mode of
        Standard \<Rightarrow>
          (case fs_metadata fails w l of
             None \<Rightarrow> Inl Io
           | Some (len, t) \<Rightarrow>
               if len \<noteq> ef_size expected then Inl (WrongSize (ef_size expected) len) else Inr ())
      | Full \<Rightarrow> map_sum id (\<lambda>_. ()) (verified_read C fails w l expected mode))"

section \<open>Reading the store\<close>

definition read_current :: "io \<Rightarrow> world \<Rightarrow> string option" where
  "read_current fails w =
     (case fs_read fails w (Store_File current_file) of
        None \<Rightarrow> None
      | Some b \<Rightarrow> if utf8_valid b then Some (trim b) else None)"

fun dedup_paths :: "string list \<Rightarrow> string list" where
  "dedup_paths (a # b # ps) = (if path_new a = path_new b then dedup_paths (a # ps) else a # dedup_paths (b # ps))"
| "dedup_paths ps = ps"

definition read_closure :: "codecs \<Rightarrow> io \<Rightarrow> world \<Rightarrow> loc \<Rightarrow> string list option" where
  "read_closure C fails w l =
     (case Option.bind (fs_read fails w l) (closure_of_json C) of
        None \<Rightarrow> None
      | Some files \<Rightarrow> if files = [] then None else Some (dedup_paths (sort_key path_new files)))"

definition read_manifest :: "codecs \<Rightarrow> io \<Rightarrow> world \<Rightarrow> string \<Rightarrow> generation_manifest option" where
  "read_manifest C fails w entry =
     (case Option.bind (fs_read fails w (Entry_File entry manifest_file_name)) (manifest_of_json C) of
        None \<Rightarrow> None
      | Some m \<Rightarrow> if gm_format m \<noteq> start_bundle_format \<or> gm_files m = fmempty then None else Some m)"

definition read_chunk_index :: "codecs \<Rightarrow> io \<Rightarrow> world \<Rightarrow> chunk_index option" where
  "read_chunk_index C fails w =
     (case Option.bind (fs_read fails w (Start_File chunk_index_name)) (index_of_json C) of
        None \<Rightarrow> None
      | Some i \<Rightarrow> if ci_files i = [] then None else Some i)"

definition read_css_urls :: "codecs \<Rightarrow> io \<Rightarrow> world \<Rightarrow> string list" where
  "read_css_urls C fails w =
     (case Option.bind (fs_read fails w (Start_File css_urls_file)) (urls_of_json C) of None \<Rightarrow> [] | Some us \<Rightarrow> us)"

definition hash_file :: "codecs \<Rightarrow> io \<Rightarrow> world \<Rightarrow> loc \<Rightarrow> bytes option" where
  "hash_file C fails w l = map_option (blake3 C) (fs_read fails w l)"

definition mtime_ns :: "int \<Rightarrow> int option" where
  "mtime_ns t = (if 0 \<le> t \<and> t < 2 ^ 64 then Some t else None)"

definition now_ns :: "world \<Rightarrow> int" where
  "now_ns w = (case mtime_ns (clock w) of None \<Rightarrow> 0 | Some t \<Rightarrow> t)"

definition touch :: "io \<Rightarrow> string \<Rightarrow> world \<Rightarrow> world" where
  "touch fails entry w = snd (fs_write fails w (Entry_File entry touch_file) [])"

definition entry_size :: "io \<Rightarrow> world \<Rightarrow> string \<Rightarrow> nat" where
  "entry_size fails w d =
     (if fails (Listing (Store_Dir d)) then 0
      else case fmlookup (store_dirs w) d of
        None \<Rightarrow> 0
      | Some dir \<Rightarrow>
          sum_list (map (\<lambda>(name, f). length (contents f))
            (filter (\<lambda>(name, f). \<not> fails (Statting (Entry_File d name))) (sorted_entries (dir_files dir)))))"

definition write_current :: "io \<Rightarrow> string \<Rightarrow> world \<Rightarrow> world" where
  "write_current fails key w = snd (fs_write fails w (Store_File current_file) key)"

section \<open>The memo of digests\<close>

definition memo_freshness_slack_ns :: int where
  "memo_freshness_slack_ns = 2000000000"

definition u64_max :: int where
  "u64_max = 2 ^ 64 - 1"

record digests =
  hashes :: "bytes option list"
  stats :: "(nat \<times> int) option list"
  statted_at_ns :: int
  rehashed :: nat

definition read_memo :: "codecs \<Rightarrow> io \<Rightarrow> string \<Rightarrow> world \<Rightarrow> memo option \<times> world" where
  "read_memo C fails entry w =
     (let l = Entry_File entry memo_file_name in
      case fs_read fails w l of
        None \<Rightarrow> (None, w)
      | Some b \<Rightarrow>
          (case memo_of_json C b of
             Some m \<Rightarrow> (Some m, w)
           | None \<Rightarrow> (None, fs_remove_file fails w l)))"

definition write_memo :: "codecs \<Rightarrow> io \<Rightarrow> string \<Rightarrow> memo \<Rightarrow> world \<Rightarrow> world" where
  "write_memo C fails entry m w =
     (case memo_to_json C m of
        None \<Rightarrow> w
      | Some b \<Rightarrow> snd (fs_write fails w (Entry_File entry memo_file_name) b))"

fun memo_add ::
  "codecs \<Rightarrow> int \<Rightarrow> string \<times> bytes option \<times> (nat \<times> int) option \<Rightarrow> (string, memo_file) fmap \<Rightarrow> (string, memo_file) fmap" where
  "memo_add C at (path, Some digest, Some (len, mtime)) m =
     (if utf8_valid path \<and> min u64_max (mtime + memo_freshness_slack_ns) \<le> at
      then fmupd path \<lparr>me_size = len, me_mtime_ns = mtime, me_digest = to_hex C digest\<rparr> m
      else m)"
| "memo_add C at (path, hash, stat) m = m"

definition build_memo :: "codecs \<Rightarrow> string list \<Rightarrow> digests \<Rightarrow> memo" where
  "build_memo C files ds =
     \<lparr>written_at_ns = statted_at_ns ds,
      memo_files = fold (memo_add C (statted_at_ns ds)) (zip files (zip (hashes ds) (stats ds))) fmempty\<rparr>"

definition memoized_digest :: "codecs \<Rightarrow> memo \<Rightarrow> string \<Rightarrow> nat \<times> int \<Rightarrow> bytes option" where
  "memoized_digest C m p st =
     (if \<not> utf8_valid p then None
      else case fmlookup (memo_files m) p of
        None \<Rightarrow> None
      | Some known \<Rightarrow>
          if fst st \<noteq> me_size known \<or> snd st \<noteq> me_mtime_ns known then None else from_hex C (me_digest known))"

definition stat_of :: "io \<Rightarrow> world \<Rightarrow> string \<Rightarrow> (nat \<times> int) option" where
  "stat_of fails w p =
     Option.bind (fs_metadata fails w (Source_File p)) (\<lambda>(len, t). map_option (\<lambda>ns. (len, ns)) (mtime_ns t))"

text \<open>A file's stat, its digest, and whether it was read for it.\<close>

definition digest_of :: "codecs \<Rightarrow> io \<Rightarrow> world \<Rightarrow> memo option \<Rightarrow> string \<Rightarrow> (nat \<times> int) option \<times> bytes option \<times> bool" where
  "digest_of C fails w m p =
     (let st = stat_of fails w p in
      case Option.bind m (\<lambda>m. Option.bind st (memoized_digest C m p)) of
        Some d \<Rightarrow> (st, Some d, False)
      | None \<Rightarrow> (st, hash_file C fails w (Source_File p), True))"

definition verified_digests :: "codecs \<Rightarrow> io \<Rightarrow> world \<Rightarrow> string list \<Rightarrow> memo option \<Rightarrow> digests" where
  "verified_digests C fails w files m =
     (let rs = map (digest_of C fails w m) files in
      \<lparr>hashes = map (\<lambda>(st, d, r). d) rs, stats = map (\<lambda>(st, d, r). st) rs, statted_at_ns = now_ns w,
       rehashed = length (filter (\<lambda>(st, d, r). r) rs)\<rparr>)"

section \<open>The key of a closure\<close>

fun key_fields :: "(string \<times> bytes option) list \<Rightarrow> string + bytes" where
  "key_fields [] = Inr []"
| "key_fields ((path, digest) # rest) =
     (case digest of
        None \<Rightarrow> Inl path
      | Some d \<Rightarrow> map_sum id (\<lambda>b. CHR 0x00 # path @ CHR 0x00 # d @ b) (key_fields rest))"

definition key_from :: "codecs \<Rightarrow> bundle_store \<Rightarrow> string list \<Rightarrow> bytes option list \<Rightarrow> miss + string" where
  "key_from C st files ds =
     (case key_fields (zip files ds) of
        Inl path \<Rightarrow> Inl (ClosureFileUnreadable path)
      | Inr b \<Rightarrow> Inr (to_hex C (blake3 C (salt st @ b))))"

section \<open>Pinned bundles\<close>

definition pin :: "generation_manifest \<Rightarrow> pinned_bundle" where
  "pin m =
     \<lparr>pb_entry = gm_entry m,
      pb_chunks = fmmap (\<lambda>f. \<lparr>pc_path = Entry_File blobs_dir (mf_hash f), pc_size = mf_size f, pc_hash = Some (mf_hash f)\<rparr>)
        (gm_files m)\<rparr>"

definition chunk :: "pinned_bundle \<Rightarrow> string \<Rightarrow> pinned_chunk option" where
  "chunk b name =
     (case fmlookup (pb_chunks b) name of
        Some c \<Rightarrow> Some c
      | None \<Rightarrow> if name = ''client-entry.js'' then fmlookup (pb_chunks b) (pb_entry b) else None)"

definition is_entry :: "pinned_bundle \<Rightarrow> string \<Rightarrow> bool" where
  "is_entry b name \<longleftrightarrow> name = pb_entry b \<or> name = ''client-entry.js''"

definition has_hash :: "pinned_bundle \<Rightarrow> string \<Rightarrow> bool" where
  "has_hash b h \<longleftrightarrow> list_ex (\<lambda>(name, c). pc_hash c = Some h) (sorted_entries (pb_chunks b))"

definition empty_bundle :: pinned_bundle where
  "empty_bundle = \<lparr>pb_entry = [], pb_chunks = fmempty\<rparr>"

fun pin_build :: "io \<Rightarrow> world \<Rightarrow> chunk_index_file list \<Rightarrow> (string, pinned_chunk) fmap \<Rightarrow> (string, pinned_chunk) fmap option" where
  "pin_build fails w [] acc = Some acc"
| "pin_build fails w (f # fs) acc =
     (case fs_metadata fails w (Chunk_File (ci_name f)) of
        None \<Rightarrow> None
      | Some (len, t) \<Rightarrow>
          pin_build fails w fs (fmupd (ci_name f) \<lparr>pc_path = Chunk_File (ci_name f), pc_size = len, pc_hash = None\<rparr> acc))"

definition from_build_dir :: "codecs \<Rightarrow> io \<Rightarrow> world \<Rightarrow> pinned_bundle option" where
  "from_build_dir C fails w =
     (case read_chunk_index C fails w of
        None \<Rightarrow> None
      | Some i \<Rightarrow>
          map_option (\<lambda>cs. \<lparr>pb_entry = ci_entry i, pb_chunks = cs\<rparr>) (pin_build fails w (ci_files i) fmempty))"

section \<open>Restoring a generation\<close>

text \<open>The blobs of a manifest in the order of their names; a blob of the wrong size or hash is deleted.\<close>

fun verify_blobs ::
  "codecs \<Rightarrow> io \<Rightarrow> verify_mode \<Rightarrow> (string \<times> manifest_file) list \<Rightarrow> world \<Rightarrow> (string \<times> verify_error) list \<times> world" where
  "verify_blobs C fails mode [] w = ([], w)"
| "verify_blobs C fails mode ((name, f) # fs) w =
     (let l = Entry_File blobs_dir (mf_hash f) in
      case verify_file C fails w l \<lparr>ef_size = mf_size f, ef_hash = mf_hash f\<rparr> mode of
        Inr u \<Rightarrow> verify_blobs C fails mode fs w
      | Inl e \<Rightarrow>
          (case verify_blobs C fails mode fs (if e = Io then w else fs_remove_file fails w l) of
             (es, w1) \<Rightarrow> ((name, e) # es, w1)))"

definition verify_members ::
  "codecs \<Rightarrow> io \<Rightarrow> bundle_store \<Rightarrow> generation_manifest \<Rightarrow> world \<Rightarrow> (string \<times> verify_error) option \<times> world" where
  "verify_members C fails st m w =
     (case verify_blobs C fails (verify st) (sorted_entries (gm_files m)) w of
        ([], w1) \<Rightarrow> (None, w1)
      | (e # es, w1) \<Rightarrow> (Some e, w1))"

fun copy_artifacts :: "io \<Rightarrow> string \<Rightarrow> string \<Rightarrow> string list \<Rightarrow> world \<Rightarrow> miss option \<times> world" where
  "copy_artifacts fails entry key [] w = (None, w)"
| "copy_artifacts fails entry key (name # names) w =
     (case fs_read fails w (Entry_File entry name) of
        None \<Rightarrow> (Some (EntryCorrupt key), fs_remove_dir_all fails w entry)
      | Some b \<Rightarrow>
          (case fs_write fails w (Start_File name) b of
             (ok, w1) \<Rightarrow>
               if \<not> ok then (Some (ArtifactWriteFailed name), w1) else copy_artifacts fails entry key names w1))"

definition restore_artifacts :: "codecs \<Rightarrow> io \<Rightarrow> string \<Rightarrow> generation_manifest \<Rightarrow> string \<Rightarrow> world \<Rightarrow> miss option \<times> world" where
  "restore_artifacts C fails entry m key w =
     (case copy_artifacts fails entry key artifacts w of
        (Some e, w1) \<Rightarrow> (Some e, w1)
      | (None, w1) \<Rightarrow>
          (let css = (case urls_to_json C (gm_css_urls m) of None \<Rightarrow> ''[]'' | Some b \<Rightarrow> b) in
           case fs_write fails w1 (Start_File css_urls_file) css of
             (ok, w2) \<Rightarrow> (if ok then None else Some (ArtifactWriteFailed css_urls_file), w2)))"

definition in_closure :: "string list \<Rightarrow> string \<Rightarrow> bool" where
  "in_closure files f \<longleftrightarrow> list_ex (\<lambda>p. path_new p = path_new f) files"

definition glob_added :: "(string \<Rightarrow> string option) \<Rightarrow> string list \<Rightarrow> string list \<Rightarrow> string option" where
  "glob_added canonicalize files members =
     find (\<lambda>f. \<not> in_closure files f \<and> (case canonicalize f of None \<Rightarrow> True | Some real \<Rightarrow> \<not> in_closure files real)) members"

text \<open>The part of \<^verbatim>\<open>restore\<close> after the key is known.\<close>

definition restore_entry ::
  "codecs \<Rightarrow> io \<Rightarrow> bundle_store \<Rightarrow> string \<Rightarrow> string list \<Rightarrow> digests \<Rightarrow> string \<Rightarrow> world \<Rightarrow>
   (miss + restore_stats \<times> pinned_bundle) \<times> world" where
  "restore_entry C fails st current files ds key w =
     (if \<not> is_dir w key then (Inl (NoEntryForKey key), w)
      else case read_manifest C fails w key of
        None \<Rightarrow> (Inl (EntryCorrupt key), fs_remove_dir_all fails w key)
      | Some m \<Rightarrow>
          (case verify_members C fails st m w of
             (Some (name, detail), w1) \<Rightarrow> (Inl (ChunkCorrupt key name detail), fs_remove_dir_all fails w1 key)
           | (None, w1) \<Rightarrow>
               (case restore_artifacts C fails key m key w1 of
                  (Some e, w2) \<Rightarrow> (Inl e, w2)
                | (None, w2) \<Rightarrow>
                    (let w3 = (if 0 < rehashed ds \<or> \<not> is_file w2 (Entry_File key memo_file_name)
                               then write_memo C fails key (build_memo C files ds) w2 else w2);
                         w4 = touch fails key w3;
                         w5 = (if key \<noteq> current then write_current fails key w4 else w4)
                     in (Inr (\<lparr>rs_key = key, rs_files = length files, rs_chunks = fcard (fmdom (gm_files m)),
                              rs_rehashed = rehashed ds\<rparr>, pin m), w5)))))"

definition restore ::
  "codecs \<Rightarrow> io \<Rightarrow> (string \<Rightarrow> string option) \<Rightarrow> (string \<Rightarrow> string list) \<Rightarrow> bundle_store \<Rightarrow> world \<Rightarrow>
   (miss + restore_stats \<times> pinned_bundle) \<times> world" where
  "restore C fails canonicalize glob_members st w =
     (case read_current fails w of
        None \<Rightarrow> (Inl NoPreviousBuild, w)
      | Some current \<Rightarrow>
          (case read_closure C fails w (Entry_File current closure_file) of
             None \<Rightarrow> (Inl ClosureUnreadable, fs_remove_dir_all fails w current)
           | Some files \<Rightarrow>
               (case glob_added canonicalize files (glob_members current) of
                  Some added \<Rightarrow> (Inl (GlobGrew added), w)
                | None \<Rightarrow>
                    (case read_memo C fails current w of
                       (m, w1) \<Rightarrow>
                         (let ds = verified_digests C fails w1 files m in
                          case key_from C st files (hashes ds) of
                            Inl e \<Rightarrow> (Inl e, w1)
                          | Inr key \<Rightarrow> restore_entry C fails st current files ds key w1)))))"

end
