(* ===== verification/Bundle_Persist.thy ===== *)
theory Bundle_Persist
  imports Bundle_Store
begin

text \<open>
  Writing to the bundle store: \<^verbatim>\<open>persist\<close> (\<^verbatim>\<open>start_bundle/persist.rs\<close>) and eviction, the pass behind every persist and the prune at
  boot (\<^verbatim>\<open>start_bundle/prune.rs\<close>). \<open>pid\<close> is the process id in the names of temporary files, \<open>iter\<close> the order in which the
  store's directory is listed. The pass behind a persist runs on a thread of its own: \<open>enforce_window\<close> queues it, and
  \<open>join_eviction\<close> runs what is queued.
\<close>

section \<open>Persisting a build\<close>

definition blob_tmp :: "string \<Rightarrow> string \<Rightarrow> string" where
  "blob_tmp pid hash = ''.tmp-'' @ (case get16 hash of None \<Rightarrow> hash | Some s \<Rightarrow> s) @ ''-'' @ pid"

definition write_blob :: "io \<Rightarrow> string \<Rightarrow> loc \<Rightarrow> string \<Rightarrow> world \<Rightarrow> bool \<times> world" where
  "write_blob fails pid src hash w =
     (let blob = Entry_File blobs_dir hash;
          name = blob_tmp pid hash;
          tmp = Entry_File blobs_dir name in
      case fs_copy fails w src tmp of
        (False, w1) \<Rightarrow> (False, fs_remove_file fails w1 tmp)
      | (True, w1) \<Rightarrow>
          (case fs_rename_file fails w1 blobs_dir name hash of
             (False, w2) \<Rightarrow> (let w3 = fs_remove_file fails w2 tmp in (is_file w3 blob, w3))
           | (True, w2) \<Rightarrow> (True, w2)))"

fun store_blobs ::
  "codecs \<Rightarrow> io \<Rightarrow> string \<Rightarrow> (chunk_index_file \<times> bytes option) list \<Rightarrow> (string, manifest_file) fmap \<Rightarrow> world \<Rightarrow>
   (string, manifest_file) fmap option \<times> world" where
  "store_blobs C fails pid [] acc w = (Some acc, w)"
| "store_blobs C fails pid ((f, hash) # fs) acc w =
     (case hash of
        None \<Rightarrow> (None, w)
      | Some digest \<Rightarrow>
          (let hex = to_hex C digest; src = Chunk_File (ci_name f) in
           case fs_metadata fails w src of
             None \<Rightarrow> (None, w)
           | Some (len, t) \<Rightarrow>
               (case (if is_file w (Entry_File blobs_dir hex) then (True, w) else write_blob fails pid src hex w) of
                  (False, w1) \<Rightarrow> (None, w1)
                | (True, w1) \<Rightarrow> store_blobs C fails pid fs (fmupd (ci_name f) \<lparr>mf_hash = hex, mf_size = len\<rparr> acc) w1)))"

definition store_chunk_blobs ::
  "codecs \<Rightarrow> io \<Rightarrow> string \<Rightarrow> chunk_index_file list \<Rightarrow> world \<Rightarrow> (string, manifest_file) fmap option \<times> world" where
  "store_chunk_blobs C fails pid chunks w =
     (let chunk_hashes = map (\<lambda>f. hash_file C fails w (Chunk_File (ci_name f))) chunks in
      case fs_create_dir_all fails w blobs_dir of
        (False, w1) \<Rightarrow> (None, w1)
      | (True, w1) \<Rightarrow> store_blobs C fails pid (zip chunks chunk_hashes) fmempty w1)"

fun copy_into :: "io \<Rightarrow> string \<Rightarrow> string list \<Rightarrow> world \<Rightarrow> bool \<times> world" where
  "copy_into fails d [] w = (True, w)"
| "copy_into fails d (name # names) w =
     (case fs_copy fails w (Start_File name) (Entry_File d name) of
        (False, w1) \<Rightarrow> (False, w1)
      | (True, w1) \<Rightarrow> copy_into fails d names w1)"

definition commit_generation ::
  "codecs \<Rightarrow> io \<Rightarrow> string \<Rightarrow> string \<Rightarrow> generation_manifest \<Rightarrow> world \<Rightarrow> bool \<times> world" where
  "commit_generation C fails pid key m w =
     (case get16 key of
        None \<Rightarrow> (False, w)
      | Some s \<Rightarrow>
          (let tmp = ''.tmp-'' @ s @ ''-'' @ pid;
               w1 = fs_remove_dir_all fails w tmp in
           case fs_create_dir_all fails w1 tmp of
             (False, w2) \<Rightarrow> (False, w2)
           | (True, w2) \<Rightarrow>
               (case copy_into fails tmp (artifacts @ [closure_file]) w2 of
                  (False, w3) \<Rightarrow> (False, fs_remove_dir_all fails w3 tmp)
                | (True, w3) \<Rightarrow>
                    (case manifest_to_json C m of
                       None \<Rightarrow> (False, w3)
                     | Some b \<Rightarrow>
                         (case fs_write fails w3 (Entry_File tmp manifest_file_name) b of
                            (False, w4) \<Rightarrow> (False, fs_remove_dir_all fails w4 tmp)
                          | (True, w4) \<Rightarrow>
                              (case fs_rename_dir fails w4 tmp key of
                                 (True, w5) \<Rightarrow> (True, w5)
                               | (False, w5) \<Rightarrow>
                                   (let w6 = fs_remove_dir_all fails w5 tmp in (is_dir w6 key, w6))))))))"

text \<open>Queueing an eviction pass: the thread runs later.\<close>

definition enforce_window :: "nat \<Rightarrow> world \<Rightarrow> world" where
  "enforce_window max_generations w = w\<lparr>sweeps := sweeps w @ [max_generations]\<rparr>"

text \<open>\<^verbatim>\<open>persist\<close> up to the start of the eviction thread, and the check of the blobs after it.\<close>

definition persist_commit ::
  "codecs \<Rightarrow> io \<Rightarrow> string \<Rightarrow> bundle_store \<Rightarrow> world \<Rightarrow> (string \<times> generation_manifest) option \<times> world" where
  "persist_commit C fails pid st w =
     (case read_closure C fails w (Start_File closure_file) of
        None \<Rightarrow> (None, w)
      | Some files \<Rightarrow>
          (case (case read_current fails w of None \<Rightarrow> (None, w) | Some key \<Rightarrow> read_memo C fails key w) of
             (m, w1) \<Rightarrow>
               (let ds = verified_digests C fails w1 files m in
                case key_from C st files (hashes ds) of
                  Inl e \<Rightarrow> (None, w1)
                | Inr key \<Rightarrow>
                    (case read_chunk_index C fails w1 of
                       None \<Rightarrow> (None, w1)
                     | Some index \<Rightarrow>
                         (let css_urls = read_css_urls C fails w1 in
                          case store_chunk_blobs C fails pid (ci_files index) w1 of
                            (None, w2) \<Rightarrow> (None, w2)
                          | (Some fs, w2) \<Rightarrow>
                              (let manifest = \<lparr>gm_format = start_bundle_format, gm_entry = ci_entry index, gm_css_urls = css_urls, gm_files = fs\<rparr> in
                               case (if is_dir w2 key then (True, w2) else commit_generation C fails pid key manifest w2) of
                                 (False, w3) \<Rightarrow> (None, w3)
                               | (True, w3) \<Rightarrow>
                                   (let w4 = write_memo C fails key (build_memo C files ds) w3;
                                        w5 = touch fails key w4;
                                        w6 = write_current fails key w5
                                    in (Some (key, manifest), enforce_window keep_generations w6))))))))"

fun persist_recheck :: "io \<Rightarrow> string \<Rightarrow> (string \<times> manifest_file) list \<Rightarrow> world \<Rightarrow> bool \<times> world" where
  "persist_recheck fails pid [] w = (True, w)"
| "persist_recheck fails pid ((name, f) # fs) w =
     (let blob = Entry_File blobs_dir (mf_hash f) in
      if is_file w blob then persist_recheck fails pid fs w
      else case write_blob fails pid (Chunk_File name) (mf_hash f) w of
        (ok, w1) \<Rightarrow> if \<not> ok \<and> \<not> is_file w1 blob then (False, w1) else persist_recheck fails pid fs w1)"

definition persist_finish ::
  "io \<Rightarrow> string \<Rightarrow> string \<times> generation_manifest \<Rightarrow> world \<Rightarrow> (string \<times> pinned_bundle) option \<times> world" where
  "persist_finish fails pid km w =
     (case persist_recheck fails pid (sorted_entries (gm_files (snd km))) w of
        (ok, w1) \<Rightarrow> (if ok then Some (fst km, pin (snd km)) else None, w1))"

definition persist ::
  "codecs \<Rightarrow> io \<Rightarrow> string \<Rightarrow> bundle_store \<Rightarrow> world \<Rightarrow> (string \<times> pinned_bundle) option \<times> world" where
  "persist C fails pid st w =
     (case persist_commit C fails pid st w of
        (None, w1) \<Rightarrow> (None, w1)
      | (Some km, w1) \<Rightarrow> persist_finish fails pid km w1)"

section \<open>Eviction\<close>

definition tmp_sweep_min_age :: int where
  "tmp_sweep_min_age = 600 * 10 ^ 9"

definition dir_time :: "io \<Rightarrow> world \<Rightarrow> string \<Rightarrow> int option" where
  "dir_time fails w d =
     (if fails (Statting (Store_Dir d)) then None else map_option dir_modified (fmlookup (store_dirs w) d))"

text \<open>Stale: old enough, of unknown age, or modified in the future.\<close>

definition tmp_is_stale :: "world \<Rightarrow> int option \<Rightarrow> bool" where
  "tmp_is_stale w t =
     (case t of None \<Rightarrow> True | Some m \<Rightarrow> clock w < m \<or> tmp_sweep_min_age \<le> clock w - m)"

definition generation_stamp :: "io \<Rightarrow> world \<Rightarrow> string \<Rightarrow> int" where
  "generation_stamp fails w d =
     (case fs_metadata fails w (Entry_File d touch_file) of
        Some (len, t) \<Rightarrow> t
      | None \<Rightarrow> (case dir_time fails w d of Some t \<Rightarrow> t | None \<Rightarrow> 0))"

definition manifest_hashes :: "codecs \<Rightarrow> io \<Rightarrow> world \<Rightarrow> string \<Rightarrow> string list" where
  "manifest_hashes C fails w entry =
     (case read_manifest C fails w entry of
        None \<Rightarrow> []
      | Some m \<Rightarrow> map (\<lambda>(name, f). mf_hash f) (sorted_entries (gm_files m)))"

record generation =
  g_name :: string
  g_stamp :: int
  g_own_size :: nat
  g_refs :: "string list"
  g_current :: bool

fun scan_generations ::
  "codecs \<Rightarrow> io \<Rightarrow> string \<Rightarrow> (string \<times> directory) list \<Rightarrow> world \<Rightarrow> generation list \<times> world" where
  "scan_generations C fails keep [] w = ([], w)"
| "scan_generations C fails keep ((name, d) # ds) w =
     (if name = blobs_dir then scan_generations C fails keep ds w
      else if starts_with ''.tmp-'' name
      then scan_generations C fails keep ds
             (if tmp_is_stale w (dir_time fails w name) then fs_remove_dir_all fails w name else w)
      else case scan_generations C fails keep ds w of
        (gs, w1) \<Rightarrow>
          (\<lparr>g_name = name, g_stamp = generation_stamp fails w name, g_own_size = entry_size fails w name,
            g_refs = manifest_hashes C fails w name, g_current = (name = keep)\<rparr> # gs, w1))"

fun scan_blob_files :: "io \<Rightarrow> (string \<times> fs_file) list \<Rightarrow> world \<Rightarrow> (string, nat) fmap \<times> world" where
  "scan_blob_files fails [] w = (fmempty, w)"
| "scan_blob_files fails ((name, f) # fs) w =
     (let l = Entry_File blobs_dir name in
      if starts_with ''.tmp-'' name
      then scan_blob_files fails fs
             (if tmp_is_stale w (map_option snd (fs_metadata fails w l)) then fs_remove_file fails w l else w)
      else case scan_blob_files fails fs w of
        (m, w1) \<Rightarrow> (case fs_metadata fails w l of None \<Rightarrow> m | Some (len, t) \<Rightarrow> fmupd name len m, w1))"

definition scan_blobs :: "io \<Rightarrow> world \<Rightarrow> (string, nat) fmap \<times> world" where
  "scan_blobs fails w =
     (case fmlookup (store_dirs w) blobs_dir of
        None \<Rightarrow> (fmempty, w)
      | Some d \<Rightarrow>
          if fails (Listing (Store_Dir blobs_dir)) then (fmempty, w)
          else scan_blob_files fails (sorted_entries (dir_files d)) w)"

definition count_of :: "(string, nat) fmap \<Rightarrow> string \<Rightarrow> nat" where
  "count_of m h = (case fmlookup m h of None \<Rightarrow> 0 | Some n \<Rightarrow> n)"

definition count_refs :: "generation list \<Rightarrow> (string, nat) fmap" where
  "count_refs gens = fold (\<lambda>h m. fmupd h (count_of m h + 1) m) (concat (map g_refs gens)) fmempty"

text \<open>An evicted generation gives its blobs back; a blob without references leaves the total.\<close>

fun drop_refs :: "(string, nat) fmap \<Rightarrow> string list \<Rightarrow> nat \<times> (string, nat) fmap \<Rightarrow> nat \<times> (string, nat) fmap" where
  "drop_refs sizes [] (tot, rc) = (tot, rc)"
| "drop_refs sizes (h # hs) (tot, rc) =
     (case fmlookup rc h of
        None \<Rightarrow> drop_refs sizes hs (tot, rc)
      | Some c \<Rightarrow>
          drop_refs sizes hs (if c - 1 = 0 then tot - count_of sizes h else tot, fmupd h (c - 1) rc))"

fun evict_loop ::
  "io \<Rightarrow> (string, nat) fmap \<Rightarrow> nat \<Rightarrow> nat \<Rightarrow> generation list \<Rightarrow> nat \<Rightarrow> nat \<Rightarrow> (string, nat) fmap \<Rightarrow> world \<Rightarrow>
   (string, nat) fmap \<times> world" where
  "evict_loop fails sizes budget max_gens [] tot kept rc w = (rc, w)"
| "evict_loop fails sizes budget max_gens (g # gs) tot kept rc w =
     (if tot \<le> budget \<and> kept \<le> max_gens then (rc, w)
      else if g_current g then evict_loop fails sizes budget max_gens gs tot kept rc w
      else if is_dir w (g_name g) \<and> fails (Removing (Store_Dir (g_name g)))
      then evict_loop fails sizes budget max_gens gs tot kept rc w
      else case drop_refs sizes (g_refs g) (tot - g_own_size g, rc) of
        (tot1, rc1) \<Rightarrow>
          evict_loop fails sizes budget max_gens gs tot1 (kept - 1) rc1 (fs_remove_dir_all fails w (g_name g)))"

definition evict_oldest ::
  "io \<Rightarrow> generation list \<Rightarrow> (string, nat) fmap \<Rightarrow> (string, nat) fmap \<Rightarrow> nat \<Rightarrow> nat \<Rightarrow> world \<Rightarrow> (string, nat) fmap \<times> world" where
  "evict_oldest fails gens rc sizes budget max_gens w =
     (let tot = sum_list (map g_own_size gens) +
            sum_list (map (\<lambda>(h, c). if 0 < c then count_of sizes h else 0) (sorted_entries rc))
      in evict_loop fails sizes budget max_gens (sort_key g_stamp gens) tot (length gens) rc w)"

fun remove_blobs :: "io \<Rightarrow> string list \<Rightarrow> string list \<Rightarrow> world \<Rightarrow> world" where
  "remove_blobs fails live [] w = w"
| "remove_blobs fails live (h # hs) w =
     remove_blobs fails live hs (if h \<in> set live then w else fs_remove_file fails w (Entry_File blobs_dir h))"

definition prune_with ::
  "codecs \<Rightarrow> io \<Rightarrow> ((string, directory) fmap \<Rightarrow> (string \<times> directory) list) \<Rightarrow> nat \<Rightarrow> nat \<Rightarrow> world \<Rightarrow> world" where
  "prune_with C fails iter budget max_gens w =
     (let w0 = fs_remove_file fails w (Store_File legacy_pointer_file) in
      if fails (Listing (Store_Dir [])) then w0
      else let keep = (case read_current fails w0 of None \<Rightarrow> [] | Some k \<Rightarrow> k) in
      case scan_generations C fails keep (iter (store_dirs w0)) w0 of
        (gens, w1) \<Rightarrow>
          (case scan_blobs fails w1 of
             (blob_sizes, w2) \<Rightarrow>
               (case evict_oldest fails gens (count_refs gens) blob_sizes budget max_gens w2 of
                  (rc, w3) \<Rightarrow>
                    (let live = map fst (filter (\<lambda>(h, c). 0 < c) (sorted_entries rc)) @
                           (case read_current fails w3 of None \<Rightarrow> [] | Some k \<Rightarrow> manifest_hashes C fails w3 k)
                     in remove_blobs fails live (map fst (sorted_entries blob_sizes)) w3))))"

definition prune ::
  "codecs \<Rightarrow> io \<Rightarrow> ((string, directory) fmap \<Rightarrow> (string \<times> directory) list) \<Rightarrow> nat \<Rightarrow> world \<Rightarrow> world" where
  "prune C fails iter budget w = prune_with C fails iter budget keep_generations w"

section \<open>The pass behind a persist\<close>

fun rename_aside :: "io \<Rightarrow> string \<Rightarrow> string list \<Rightarrow> world \<Rightarrow> string list \<times> world" where
  "rename_aside fails pid [] w = ([], w)"
| "rename_aside fails pid (name # names) w =
     (let aside = ''.tmp-evict-'' @ (case get16 name of None \<Rightarrow> name | Some s \<Rightarrow> s) @ ''-'' @ pid in
      case fs_rename_dir fails w name aside of
        (ok, w1) \<Rightarrow>
          (case rename_aside fails pid names w1 of (evicted, w2) \<Rightarrow> (if ok then aside # evicted else evicted, w2)))"

definition rename_aside_overflow ::
  "io \<Rightarrow> ((string, directory) fmap \<Rightarrow> (string \<times> directory) list) \<Rightarrow> string \<Rightarrow> string \<Rightarrow> nat \<Rightarrow> world \<Rightarrow> string list \<times> world" where
  "rename_aside_overflow fails iter pid keep max_gens w =
     (if fails (Listing (Store_Dir [])) then ([], w)
      else let gens = map (\<lambda>(name, d). (generation_stamp fails w name, name))
                 (filter (\<lambda>(name, d). name \<noteq> blobs_dir \<and> name \<noteq> keep \<and> \<not> starts_with ''.tmp-'' name) (iter (store_dirs w)));
               overflow = length gens + 1 - max_gens
           in if overflow = 0 then ([], w) else rename_aside fails pid (map snd (take overflow (sort_key fst gens))) w)"

definition live_blob_hashes ::
  "codecs \<Rightarrow> io \<Rightarrow> ((string, directory) fmap \<Rightarrow> (string \<times> directory) list) \<Rightarrow> world \<Rightarrow> string list" where
  "live_blob_hashes C fails iter w =
     (if fails (Listing (Store_Dir [])) then []
      else concat (map (\<lambda>(name, d). manifest_hashes C fails w name)
             (filter (\<lambda>(name, d). name \<noteq> blobs_dir \<and> \<not> starts_with ''.tmp-'' name) (iter (store_dirs w)))))"

fun sweep_delete :: "codecs \<Rightarrow> io \<Rightarrow> string list \<Rightarrow> string list \<Rightarrow> world \<Rightarrow> world" where
  "sweep_delete C fails live [] w = w"
| "sweep_delete C fails live (aside # asides) w =
     sweep_delete C fails live asides
       (fs_remove_dir_all fails (remove_blobs fails live (manifest_hashes C fails w aside) w) aside)"

text \<open>The pass in its two halves: what goes and what is referenced, then the deletions.\<close>

definition sweep_scan ::
  "codecs \<Rightarrow> io \<Rightarrow> ((string, directory) fmap \<Rightarrow> (string \<times> directory) list) \<Rightarrow> string \<Rightarrow> nat \<Rightarrow> world \<Rightarrow>
   string list \<times> string list \<times> world" where
  "sweep_scan C fails iter pid max_gens w =
     (let keep = (case read_current fails w of None \<Rightarrow> [] | Some k \<Rightarrow> k) in
      case rename_aside_overflow fails iter pid keep max_gens w of
        (evicted, w1) \<Rightarrow> (evicted, live_blob_hashes C fails iter w1, w1))"

definition enforce_window_blocking ::
  "codecs \<Rightarrow> io \<Rightarrow> ((string, directory) fmap \<Rightarrow> (string \<times> directory) list) \<Rightarrow> string \<Rightarrow> nat \<Rightarrow> world \<Rightarrow> world" where
  "enforce_window_blocking C fails iter pid max_gens w =
     (case sweep_scan C fails iter pid max_gens w of (evicted, live, w1) \<Rightarrow> sweep_delete C fails live evicted w1)"

fun join_eviction ::
  "codecs \<Rightarrow> io \<Rightarrow> ((string, directory) fmap \<Rightarrow> (string \<times> directory) list) \<Rightarrow> string \<Rightarrow> nat list \<Rightarrow> world \<Rightarrow> world" where
  "join_eviction C fails iter pid [] w = w\<lparr>sweeps := []\<rparr>"
| "join_eviction C fails iter pid (n # ns) w = join_eviction C fails iter pid ns (enforce_window_blocking C fails iter pid n w)"

section \<open>Persisting only writes to the store\<close>

lemma write_blob_inputs: "write_blob fails pid src hash w = (ok, v) \<Longrightarrow> inputs v = inputs w"
  unfolding write_blob_def Let_def
  by (auto split: prod.splits bool.splits simp del: fs_remove_file.simps dest!: inputs_results)

lemma store_blobs_inputs: "store_blobs C fails pid fs acc w = (r, v) \<Longrightarrow> inputs v = inputs w"
proof (induction C fails pid fs acc w rule: store_blobs.induct)
  case (2 C fails pid f hash fs acc w)
  then show ?case
    by (fastforce simp: Let_def split: option.splits prod.splits if_splits bool.splits dest: write_blob_inputs)
qed simp

lemma store_chunk_blobs_inputs: "store_chunk_blobs C fails pid fs w = (r, v) \<Longrightarrow> inputs v = inputs w"
  unfolding store_chunk_blobs_def Let_def
  by (auto split: prod.splits bool.splits dest!: inputs_results store_blobs_inputs)

lemma copy_into_inputs: "copy_into fails d ns w = (ok, v) \<Longrightarrow> inputs v = inputs w"
proof (induction fails d ns w rule: copy_into.induct)
  case (2 fails d n ns w)
  then show ?case by (fastforce split: prod.splits bool.splits dest: inputs_results(2))
qed simp

lemma commit_inputs: "commit_generation C fails pid key m w = (ok, v) \<Longrightarrow> inputs v = inputs w"
  unfolding commit_generation_def Let_def
  by (auto split: prod.splits bool.splits option.splits dest!: inputs_results copy_into_inputs)

lemma memo_inputs: "read_memo C fails key w = (m, v) \<Longrightarrow> inputs v = inputs w"
  by (auto simp: read_memo_def Let_def simp del: fs_remove_file.simps split: option.splits)

lemma write_inputs [simp]:
  "inputs (write_memo C fails key m w) = inputs w" "inputs (touch fails key w) = inputs w"
  "inputs (write_current fails key w) = inputs w" "inputs (enforce_window n w) = inputs w"
  by (auto simp: write_memo_def touch_def write_current_def enforce_window_def split: option.split) (simp add: inputs_def)

lemma persist_commit_inputs:
  assumes "persist_commit C fails pid st w = (r, v)"
  shows "inputs v = inputs w"
proof -
  obtain m w1 where m: "(case read_current fails w of None \<Rightarrow> (None, w) | Some key \<Rightarrow> read_memo C fails key w) = (m, w1)" by fastforce
  then have "inputs w1 = inputs w" using memo_inputs by (auto split: option.splits)
  with assms m show ?thesis
    unfolding persist_commit_def Let_def
    by (auto split: option.splits prod.splits sum.splits if_splits bool.splits dest!: store_chunk_blobs_inputs commit_inputs)
qed

lemma persist_recheck_inputs: "persist_recheck fails pid fs w = (ok, v) \<Longrightarrow> inputs v = inputs w"
proof (induction fails pid fs w rule: persist_recheck.induct)
  case (2 fails pid name f fs w)
  then show ?case by (fastforce simp: Let_def split: prod.splits if_splits dest: write_blob_inputs)
qed simp

lemma persist_inputs: "inputs (snd (persist C fails pid st w)) = inputs w"
  unfolding persist_def persist_finish_def
  by (auto split: prod.split option.split dest!: persist_commit_inputs persist_recheck_inputs)

end
