(* ===== verification/Bundle_Memo.thy ===== *)
theory Bundle_Memo
  imports Bundle_Persist
begin

text \<open>
  What the digests and the key of the bundle store say: a digest taken from the memo is that of the file as
  it is now, and equal keys mean equal closures.
\<close>

section \<open>The memo is never stale\<close>

text \<open>
  \<open>later w v\<close>: the sources of \<open>v\<close> are those of \<open>w\<close> after some time. A file that was written since carries a time of
  modification at most the granularity of two seconds before the moment of \<open>w\<close>.
\<close>

definition later :: "world \<Rightarrow> world \<Rightarrow> bool" where
  "later w v \<longleftrightarrow> clock w \<le> clock v \<and>
     (\<forall>p f. fmlookup (sources v) p = Some f \<longrightarrow>
       fmlookup (sources w) p = Some f \<or> clock w < modified f + memo_freshness_slack_ns)"

text \<open>The memos a store can hold at a world: written by a pass that itself used such a memo, or lost.\<close>

inductive pass_history :: "codecs \<Rightarrow> world \<Rightarrow> memo option \<Rightarrow> bool" for C where
  no_memo: "pass_history C w None"
| pass: "pass_history C w m \<Longrightarrow> clock w \<noteq> 2 ^ 64 - 1 \<Longrightarrow>
    pass_history C w (Some (build_memo C files (verified_digests C fails w files m)))"
| time: "pass_history C w m \<Longrightarrow> later w v \<Longrightarrow> pass_history C v m"

definition memo_ok :: "codecs \<Rightarrow> world \<Rightarrow> memo \<Rightarrow> bool" where
  "memo_ok C w m \<longleftrightarrow>
     (\<forall>p e. fmlookup (memo_files m) p = Some e \<longrightarrow>
        me_mtime_ns e + memo_freshness_slack_ns \<le> clock w \<and>
        (\<forall>f. fmlookup (sources w) p = Some f \<longrightarrow> length (contents f) = me_size e \<longrightarrow> modified f = me_mtime_ns e \<longrightarrow>
           from_hex C (me_digest e) = Some (blake3 C (contents f))))"

lemma memo_ok_later: "memo_ok C w m \<Longrightarrow> later w v \<Longrightarrow> memo_ok C v m"
  unfolding memo_ok_def later_def by fastforce

lemma mtime_ns_Some: "mtime_ns t = Some n \<longleftrightarrow> t = n \<and> 0 \<le> n \<and> n < 2 ^ 64"
  by (auto simp: mtime_ns_def)

lemma stat_of_Some:
  "stat_of fails w p = Some (len, ns) \<Longrightarrow>
     \<exists>f. fmlookup (sources w) p = Some f \<and> len = length (contents f) \<and> modified f = ns \<and> 0 \<le> ns"
  by (auto simp: stat_of_def fs_metadata_def bind_eq_Some_conv mtime_ns_Some split: if_splits)

lemma digest_of_sound:
  assumes "case m of None \<Rightarrow> True | Some m \<Rightarrow> memo_ok C w m" and "digest_of C fails w m p = (st, Some d, r)"
  shows "\<exists>f. fmlookup (sources w) p = Some f \<and> d = blake3 C (contents f)"
proof (cases r)
  case False
  with assms(2) obtain m0 len ns where m: "m = Some m0" "stat_of fails w p = Some (len, ns)" "memoized_digest C m0 p (len, ns) = Some d"
    by (auto simp: digest_of_def Let_def bind_eq_Some_conv split: option.splits)
  then obtain e where e: "fmlookup (memo_files m0) p = Some e" "len = me_size e" "ns = me_mtime_ns e" "from_hex C (me_digest e) = Some d"
    by (auto simp: memoized_digest_def split: if_splits option.splits)
  from stat_of_Some [OF m(2)] obtain f
    where f: "fmlookup (sources w) p = Some f" "len = length (contents f)" "modified f = ns" by blast
  with assms(1) m(1) e have "from_hex C (me_digest e) = Some (blake3 C (contents f))" by (auto simp: memo_ok_def)
  with e(4) f(1) show ?thesis by simp
next
  case True
  with assms(2) have "hash_file C fails w (Source_File p) = Some d"
    by (auto simp: digest_of_def Let_def split: option.splits)
  then show ?thesis by (auto simp: hash_file_def fs_read_def split: if_splits)
qed

lemma digest_of_stat: "digest_of C fails w m p = (st, d, r) \<Longrightarrow> st = stat_of fails w p"
  by (auto simp: digest_of_def Let_def split: option.splits)

lemma memo_fold_lookup:
  "fmlookup (fold (memo_add C at) xs m) p = Some e \<Longrightarrow>
     fmlookup m p = Some e \<or>
     (\<exists>d len ns. (p, Some d, Some (len, ns)) \<in> set xs \<and> min u64_max (ns + memo_freshness_slack_ns) \<le> at \<and>
        e = \<lparr>me_size = len, me_mtime_ns = ns, me_digest = to_hex C d\<rparr>)"
proof (induction xs arbitrary: m)
  case (Cons x xs)
  from Cons.IH [of "memo_add C at x m"] Cons.prems
  have "fmlookup (memo_add C at x m) p = Some e \<or> (\<exists>d len ns. (p, Some d, Some (len, ns)) \<in> set xs \<and>
      min u64_max (ns + memo_freshness_slack_ns) \<le> at \<and> e = \<lparr>me_size = len, me_mtime_ns = ns, me_digest = to_hex C d\<rparr>)" by simp
  then show ?case by (cases "(C, at, x, m)" rule: memo_add.cases) (auto split: if_splits)
qed simp

lemma build_memo_lookup:
  assumes "fmlookup (memo_files (build_memo C files (verified_digests C fails w files m))) p = Some e"
  obtains d len ns r where "digest_of C fails w m p = (Some (len, ns), Some d, r)"
    and "min u64_max (ns + memo_freshness_slack_ns) \<le> now_ns w" and "e = \<lparr>me_size = len, me_mtime_ns = ns, me_digest = to_hex C d\<rparr>"
proof -
  have "zip files (zip (hashes (verified_digests C fails w files m)) (stats (verified_digests C fails w files m))) =
      map (\<lambda>p. case digest_of C fails w m p of (st, d, r) \<Rightarrow> (p, d, st)) files"
    by (rule nth_equalityI) (auto simp: verified_digests_def Let_def split: prod.split)
  then obtain d len ns where "(p, Some d, Some (len, ns)) \<in> set (map (\<lambda>p. case digest_of C fails w m p of (st, d, r) \<Rightarrow> (p, d, st)) files)"
      and *: "min u64_max (ns + memo_freshness_slack_ns) \<le> now_ns w" "e = \<lparr>me_size = len, me_mtime_ns = ns, me_digest = to_hex C d\<rparr>"
    using assms memo_fold_lookup [of C "now_ns w" _ fmempty p e] by (fastforce simp: build_memo_def verified_digests_def Let_def)
  then obtain r where "digest_of C fails w m p = (Some (len, ns), Some d, r)"
    by (auto split: prod.splits)
  with * that show ?thesis by blast
qed

lemma build_memo_ok:
  assumes hex: "\<And>b. from_hex C (to_hex C (blake3 C b)) = Some (blake3 C b)"
    and m: "case m of None \<Rightarrow> True | Some m \<Rightarrow> memo_ok C w m" and t: "clock w \<noteq> 2 ^ 64 - 1"
  shows "memo_ok C w (build_memo C files (verified_digests C fails w files m))"
  unfolding memo_ok_def
proof (intro allI impI conjI)
  fix p e assume "fmlookup (memo_files (build_memo C files (verified_digests C fails w files m))) p = Some e"
  then obtain d len ns r where d: "digest_of C fails w m p = (Some (len, ns), Some d, r)"
    and fresh: "min u64_max (ns + memo_freshness_slack_ns) \<le> now_ns w" and e: "e = \<lparr>me_size = len, me_mtime_ns = ns, me_digest = to_hex C d\<rparr>"
    by (rule build_memo_lookup)
  show "me_mtime_ns e + memo_freshness_slack_ns \<le> clock w"
  proof (cases "mtime_ns (clock w)")
    case None
    moreover have "0 \<le> ns" using stat_of_Some [of fails w p len ns] digest_of_stat [OF d] by auto
    ultimately show ?thesis using fresh by (simp add: now_ns_def u64_max_def memo_freshness_slack_ns_def e)
  next
    case (Some n)
    then have "clock w = n" "n \<noteq> 2 ^ 64 - 1" "n < 2 ^ 64" using t by (auto simp: mtime_ns_Some)
    with fresh Some show ?thesis by (auto simp: now_ns_def u64_max_def e min_le_iff_disj)
  qed
  obtain f0 where f0: "fmlookup (sources w) p = Some f0" "d = blake3 C (contents f0)"
    using digest_of_sound [OF m d] by blast
  fix f assume "fmlookup (sources w) p = Some f"
  with f0 hex show "from_hex C (me_digest e) = Some (blake3 C (contents f))" by (simp add: e)
qed

lemma pass_history_ok:
  assumes "\<And>b. from_hex C (to_hex C (blake3 C b)) = Some (blake3 C b)"
  shows "pass_history C w m \<Longrightarrow> case m of None \<Rightarrow> True | Some m \<Rightarrow> memo_ok C w m"
proof (induction rule: pass_history.induct)
  case (pass w m files fails)
  with build_memo_ok [OF assms] show ?case by simp
next
  case (time w m v)
  then show ?case by (cases m) (auto intro: memo_ok_later)
qed simp

lemma digests_sound:
  assumes "\<forall>b. from_hex C (to_hex C (blake3 C b)) = Some (blake3 C b)" and "pass_history C w m"
    and "i < length files" and "hashes (verified_digests C fails w files m) ! i = Some d"
  shows "\<exists>f. fmlookup (sources w) (files ! i) = Some f \<and> d = blake3 C (contents f)"
proof -
  have "case m of None \<Rightarrow> True | Some m \<Rightarrow> memo_ok C w m"
    using assms(1) pass_history_ok [OF _ assms(2)] by blast
  moreover obtain st r where "digest_of C fails w m (files ! i) = (st, Some d, r)"
    using assms(3,4) by (auto simp: verified_digests_def Let_def split: prod.splits)
  ultimately show ?thesis by (rule digest_of_sound)
qed


section \<open>Equal keys, equal closures\<close>

definition key_input :: "bundle_store \<Rightarrow> string list \<Rightarrow> bytes option list \<Rightarrow> bytes" where
  "key_input st files ds = salt st @ (case key_fields (zip files ds) of Inl p \<Rightarrow> [] | Inr b \<Rightarrow> b)"

lemma key_fields_Inr:
  "key_fields xs = Inr b \<Longrightarrow> \<exists>ys. xs = map (\<lambda>(p, d). (p, Some d)) ys \<and> b = concat (map (\<lambda>(p, d). CHR 0x00 # p @ CHR 0x00 # d) ys)"
proof (induction xs arbitrary: b)
  case (Cons x xs)
  obtain p d where x: "x = (p, d)" by (cases x)
  with Cons.prems obtain d1 b1 where "d = Some d1" "key_fields xs = Inr b1" "b = CHR 0x00 # p @ CHR 0x00 # d1 @ b1"
    by (cases d; cases "key_fields xs") auto
  moreover from Cons.IH [OF this(2)] obtain ys where "xs = map (\<lambda>(p, d). (p, Some d)) ys"
      "b1 = concat (map (\<lambda>(p, d). CHR 0x00 # p @ CHR 0x00 # d) ys)" by blast
  ultimately show ?case by (intro exI [of _ "(p, d1) # ys"]) (simp add: x)
qed simp

lemma prefix_to_char: "c \<notin> set a \<Longrightarrow> c \<notin> set b \<Longrightarrow> a @ c # x = b @ c # y \<Longrightarrow> a = b \<and> x = y"
proof (induction a arbitrary: b)
  case Nil
  then show ?case by (cases b) auto
next
  case (Cons x a)
  then show ?case by (cases b) auto
qed

lemma fields_inject:
  assumes "\<forall>(p, d) \<in> set xs \<union> set ys. CHR 0x00 \<notin> set p \<and> length d = 32"
    and "concat (map (\<lambda>(p, d). CHR 0x00 # p @ CHR 0x00 # d) xs) = concat (map (\<lambda>(p, d). CHR 0x00 # p @ CHR 0x00 # d) ys)"
  shows "xs = ys"
  using assms
proof (induction xs arbitrary: ys)
  case Nil
  then show ?case by (cases ys) auto
next
  case (Cons x xs)
  obtain p d where x: "x = (p, d)" by (cases x)
  from Cons.prems(2) obtain q e ys1 where ys: "ys = (q, e) # ys1" by (cases ys) (auto simp: x)
  have "p @ CHR 0x00 # (d @ concat (map (\<lambda>(p, d). CHR 0x00 # p @ CHR 0x00 # d) xs)) =
      q @ CHR 0x00 # (e @ concat (map (\<lambda>(p, d). CHR 0x00 # p @ CHR 0x00 # d) ys1))"
    using Cons.prems(2) by (simp add: x ys)
  moreover have "CHR 0x00 \<notin> set p" "CHR 0x00 \<notin> set q" "length d = length e" using Cons.prems(1) by (auto simp: x ys)
  ultimately have "p = q" "d = e"
      "concat (map (\<lambda>(p, d). CHR 0x00 # p @ CHR 0x00 # d) xs) = concat (map (\<lambda>(p, d). CHR 0x00 # p @ CHR 0x00 # d) ys1)"
    using prefix_to_char [of "CHR 0x00" p q] append_eq_append_conv by blast+
  moreover have "\<forall>(p, d) \<in> set xs \<union> set ys1. CHR 0x00 \<notin> set p \<and> length d = 32" using Cons.prems(1) by (auto simp: ys)
  ultimately show ?case using Cons.IH [of ys1] by (simp add: x ys)
qed

lemma key_inject:
  assumes "key_from C st files ds = Inr key" and "key_from C st' files' ds' = Inr key"
    and "length ds = length files" and "length ds' = length files'"
    and "inj_on (\<lambda>b. to_hex C (blake3 C b)) {key_input st files ds, key_input st' files' ds'}"
    and nul: "\<forall>s \<in> {salt st, salt st'} \<union> set files \<union> set files'. CHR 0x00 \<notin> set s"
    and len: "\<forall>d. Some d \<in> set ds \<union> set ds' \<longrightarrow> length d = 32"
  shows "salt st = salt st' \<and> files = files' \<and> ds = ds'"
proof -
  let ?f = "\<lambda>(p, d). CHR 0x00 # p @ CHR 0x00 # (d :: string)"
  obtain b b' where b: "key_fields (zip files ds) = Inr b" "key_fields (zip files' ds') = Inr b'"
    using assms(1,2) by (auto simp: key_from_def split: sum.splits)
  with assms(1,2,5) have eq: "salt st @ b = salt st' @ b'"
    by (auto simp: key_from_def key_input_def dest: inj_onD)
  obtain xs ys where xs: "zip files ds = map (\<lambda>(p, d). (p, Some d)) xs" "b = concat (map ?f xs)"
    and ys: "zip files' ds' = map (\<lambda>(p, d). (p, Some d)) ys" "b' = concat (map ?f ys)"
    using key_fields_Inr [OF b(1)] key_fields_Inr [OF b(2)] by blast
  have starts: "b = [] \<or> (\<exists>r. b = CHR 0x00 # r)" "b' = [] \<or> (\<exists>r. b' = CHR 0x00 # r)"
    by (cases xs; auto simp: xs; fail) (cases ys; auto simp: ys)
  have "salt st = salt st' \<and> b = b'"
    using starts
  proof (elim disjE exE)
    fix r r' assume "b = CHR 0x00 # r" "b' = CHR 0x00 # r'"
    with eq nul prefix_to_char [of "CHR 0x00" "salt st" "salt st'" r r'] show ?thesis by simp
  next
    fix r assume bs: "b = []" "b' = CHR 0x00 # r"
    with eq have "CHR 0x00 \<in> set (salt st)" by simp
    with nul show ?thesis by simp
  next
    fix r assume bs: "b = CHR 0x00 # r" "b' = []"
    with eq have "CHR 0x00 \<in> set (salt st')" by (metis append_Nil2 in_set_conv_decomp)
    with nul show ?thesis by simp
  qed (use eq in simp)
  moreover have "(p, Some d) \<in> set (zip files ds) \<union> set (zip files' ds')" if "(p, d) \<in> set xs \<union> set ys" for p d
    using that unfolding xs ys by force
  then have "\<forall>(p, d) \<in> set xs \<union> set ys. CHR 0x00 \<notin> set p \<and> length d = 32"
    using nul len by (fastforce dest: set_zip_leftD set_zip_rightD)
  ultimately have "xs = ys" using fields_inject [of xs ys] xs ys by blast
  then have "zip files ds = zip files' ds'" using xs ys by simp
  then have "map fst (zip files ds) = map fst (zip files' ds')" "map snd (zip files ds) = map snd (zip files' ds')" by simp_all
  with \<open>salt st = salt st' \<and> b = b'\<close> assms(3,4) show ?thesis by simp
qed

section \<open>A restored bundle is that of the present sources\<close>

definition source_digests :: "codecs \<Rightarrow> world \<Rightarrow> string list \<Rightarrow> bytes option list" where
  "source_digests C w files = map (\<lambda>p. map_option (\<lambda>f. blake3 C (contents f)) (fmlookup (sources w) p)) files"

definition memos_ok :: "codecs \<Rightarrow> world \<Rightarrow> bool" where
  "memos_ok C w \<longleftrightarrow>
     (\<forall>entry f m. dir_file w entry memo_file_name = Some f \<longrightarrow> memo_of_json C (contents f) = Some m \<longrightarrow> pass_history C w (Some m))"

lemma pass_history_inputs: "inputs v = inputs w \<Longrightarrow> pass_history C w m \<Longrightarrow> pass_history C v m"
  by (rule pass_history.time) (auto simp: later_def inputs_def)

lemma read_memo_sound:
  assumes "read_memo C fails entry w = (m, w1)"
  shows "inputs w1 = inputs w" and "memos_ok C w \<Longrightarrow> pass_history C w1 m"
proof -
  show same: "inputs w1 = inputs w" using assms by (rule memo_inputs)
  show "pass_history C w1 m" if "memos_ok C w"
  proof (rule pass_history_inputs [OF same])
    show "pass_history C w m"
      using assms that
      by (cases m) (auto simp: read_memo_def Let_def memos_ok_def fs_read_def no_memo split: option.splits if_splits)
  qed
qed

lemma digests_are_source_digests:
  assumes "\<forall>b. from_hex C (to_hex C (blake3 C b)) = Some (blake3 C b)" and "pass_history C w m"
    and "key_from C st files (hashes (verified_digests C fails w files m)) = Inr key"
  shows "hashes (verified_digests C fails w files m) = source_digests C w files"
proof (rule nth_equalityI)
  let ?h = "hashes (verified_digests C fails w files m)"
  show len: "length ?h = length (source_digests C w files)" by (simp add: verified_digests_def source_digests_def Let_def)
  obtain b where "key_fields (zip files ?h) = Inr b" using assms(3) by (auto simp: key_from_def split: sum.splits)
  from key_fields_Inr [OF this] obtain ys where ys: "zip files ?h = map (\<lambda>(p, d). (p, Some d)) ys" by blast
  fix i assume "i < length ?h"
  then have i: "i < length files" "i < length (zip files ?h)" by (simp_all add: verified_digests_def Let_def)
  then have "zip files ?h ! i = (\<lambda>(p, d). (p, Some d)) (ys ! i)" unfolding ys by simp
  then obtain d where d: "?h ! i = Some d" using i by (auto split: prod.splits)
  from digests_sound [OF assms(1,2) i(1) d] d i show "?h ! i = source_digests C w files ! i"
    by (auto simp: source_digests_def)
qed

lemma persist_key:
  assumes "persist_commit C fails pid st w = (Some (key, man), w1)" and "memos_ok C w"
    and files: "read_closure C fails w (Start_File closure_file) = Some files"
  obtains m v where "inputs v = inputs w"
    and "pass_history C v m" and "key_from C st files (hashes (verified_digests C fails v files m)) = Inr key"
proof -
  obtain m v where mv: "(case read_current fails w of None \<Rightarrow> (None, w) | Some key \<Rightarrow> read_memo C fails key w) = (m, v)" by fastforce
  have "inputs v = inputs w" "pass_history C v m"
    using mv read_memo_sound assms(2) by (auto simp: no_memo split: option.splits)
  moreover have "key_from C st files (hashes (verified_digests C fails v files m)) = Inr key"
    using assms(1) files mv
    by (auto simp: persist_commit_def Let_def split: option.splits sum.splits if_splits prod.splits bool.splits)
  ultimately show ?thesis using that by blast
qed

lemma restore_key:
  assumes "restore C fails canonicalize globs st w = (Inr (s, b), w1)" and "memos_ok C w"
    and files: "read_current fails w = Some current" "read_closure C fails w (Entry_File current closure_file) = Some files"
  obtains m v where "inputs v = inputs w"
    and "pass_history C v m" and "key_from C st files (hashes (verified_digests C fails v files m)) = Inr (rs_key s)"
proof -
  obtain m v where mv: "read_memo C fails current w = (m, v)" by fastforce
  then have "inputs v = inputs w" "pass_history C v m" using read_memo_sound assms(2) by blast+
  moreover have "key_from C st files (hashes (verified_digests C fails v files m)) = Inr (rs_key s)"
    using assms(1) files mv
    by (auto simp: restore_def restore_entry_def Let_def split: option.splits sum.splits if_splits prod.splits)
  ultimately show ?thesis using that by blast
qed


section \<open>A concrete store\<close>

text \<open>
  Codecs and a build for which the hypotheses hold: a digest is the first bytes of a file, with other characters than
  lowercase letters and digits masked, and is its own printed form.
\<close>

definition demo_char :: "char \<Rightarrow> char" where
  "demo_char c = (if byte_in 97 122 c \<or> byte_in 48 57 c then c else CHR ''_'')"

definition demo_hash :: "bytes \<Rightarrow> bytes" where
  "demo_hash b = map demo_char (take 32 (b @ replicate 32 CHR ''_''))"

definition demo_manifest :: generation_manifest where
  "demo_manifest =
     \<lparr>gm_format = 5, gm_entry = ''e.js'', gm_css_urls = [],
      gm_files = fmap_of_list [(''e.js'', \<lparr>mf_hash = demo_hash ''run()'', mf_size = 5\<rparr>)]\<rparr>"

definition demo_codecs :: codecs where
  "demo_codecs =
     \<lparr>blake3 = demo_hash, to_hex = id, from_hex = Some,
      closure_of_json = (\<lambda>b. Some (split_on CHR '','' b)),
      manifest_of_json = (\<lambda>b. if b = ''M'' then Some demo_manifest else None),
      manifest_to_json = (\<lambda>m. if m = demo_manifest then Some ''M'' else None),
      memo_of_json = (\<lambda>b. None), memo_to_json = (\<lambda>m. None),
      index_of_json = (\<lambda>b. Some \<lparr>ci_entry = b, ci_files = [\<lparr>ci_name = b, ci_size = 5\<rparr>]\<rparr>),
      urls_of_json = (\<lambda>b. None), urls_to_json = (\<lambda>us. None)\<rparr>"

definition demo_file :: "string \<Rightarrow> fs_file" where
  "demo_file b = \<lparr>contents = b, modified = 0\<rparr>"

definition demo_world :: world where
  "demo_world =
     \<lparr>store_files = fmempty, store_dirs = fmempty,
      start_files = fmap_of_list [(closure_file, demo_file ''/a.ts''), (chunk_index_name, demo_file ''e.js''),
        (''client-entry.modules'', demo_file ''m''), (''manifest.ts'', demo_file ''t''), (glob_scopes_file, demo_file ''g'')],
      chunk_files = fmap_of_list [(''e.js'', demo_file ''run()'')],
      sources = fmap_of_list [(''/a.ts'', demo_file ''let a'')], clock = 10000000000, sweeps = []\<rparr>"

definition demo_store :: bundle_store where
  "demo_store = \<lparr>salt = ''1:5'', verify = Full\<rparr>"

lemma demo_hash_ok: "length (blake3 demo_codecs b) = 32 \<and> from_hex demo_codecs (to_hex demo_codecs (blake3 demo_codecs b)) = Some (blake3 demo_codecs b)"
  by (simp add: demo_codecs_def demo_hash_def)

definition all_works :: io where
  "all_works = (\<lambda>_. False)"

definition demo_built :: world where
  "demo_built = snd (persist demo_codecs all_works ''1'' demo_store demo_world)"


definition demo_key :: string where
  "demo_key = demo_hash (''1:5'' @ CHR 0x00 # ''/a.ts'' @ CHR 0x00 # demo_hash ''let a'')"

lemma demo_runs:
  "case persist demo_codecs all_works ''1'' demo_store demo_world of (p, w) \<Rightarrow>
     map_option fst p = Some demo_key \<and> read_current all_works w = Some demo_key \<and>
     read_closure demo_codecs all_works w (Entry_File demo_key closure_file) = Some [''/a.ts''] \<and>
     (case fst (restore demo_codecs all_works (\<lambda>_. None) (\<lambda>_. []) demo_store w) of
        Inr (s, b) \<Rightarrow> rs_key s = demo_key | Inl e \<Rightarrow> False)"
  by code_simp


end
