(* ===== verification/Bundle_Evict.thy ===== *)
theory Bundle_Evict
  imports Bundle_Memo "HOL-Library.Multiset"
begin

text \<open>
  Eviction of the bundle store: what the prune at boot and the pass behind a persist remove, and what they keep.
\<close>

section \<open>Single removals\<close>

lemma lookup_remove_dir [simp]:
  "fmlookup (store_dirs (fs_remove_dir_all fails w d)) e =
     (if e = d \<and> \<not> fails (Removing (Store_Dir d)) then None else fmlookup (store_dirs w) e)"
  by (simp add: fs_remove_dir_all_def)

lemma remove_dir_fields [simp]: "store_files (fs_remove_dir_all fails w d) = store_files w"
  by (simp add: fs_remove_dir_all_def)

lemma dir_file_remove_dir: "e \<noteq> d \<Longrightarrow> dir_file (fs_remove_dir_all fails w d) e name = dir_file w e name"
  by (simp add: dir_file_def)

text \<open>Removing a blob touches no other file and no other directory.\<close>

lemma remove_blob_other:
  "e \<noteq> blobs_dir \<Longrightarrow> fmlookup (store_dirs (fs_remove_file fails w (Entry_File blobs_dir h))) e = fmlookup (store_dirs w) e"
  "h \<noteq> k \<Longrightarrow> dir_file (fs_remove_file fails w (Entry_File blobs_dir h)) blobs_dir k = dir_file w blobs_dir k"
  "store_files (fs_remove_file fails w (Entry_File blobs_dir h)) = store_files w"
  by (auto simp: on_dir_def dir_file_def split: option.split)

lemma remove_blobs_other:
  "e \<noteq> blobs_dir \<Longrightarrow> fmlookup (store_dirs (remove_blobs fails live hs w)) e = fmlookup (store_dirs w) e"
  "k \<in> set live \<or> k \<notin> set hs \<Longrightarrow> dir_file (remove_blobs fails live hs w) blobs_dir k = dir_file w blobs_dir k"
  "store_files (remove_blobs fails live hs w) = store_files w"
proof (induction hs arbitrary: w)
  case (Cons h hs)
  {
    case 1 then show ?case using Cons.IH(1) by (simp add: remove_blob_other del: fs_remove_file.simps)
  next
    case 2
    then have k: "k \<in> set live \<or> k \<notin> set hs" "h \<notin> set live \<Longrightarrow> h \<noteq> k" by auto
    then show ?case by (cases "h \<in> set live") (simp_all add: Cons.IH(2) remove_blob_other del: fs_remove_file.simps)
  next
    case 3 then show ?case using Cons.IH(3) by (simp add: remove_blob_other del: fs_remove_file.simps)
  }
qed simp_all

text \<open>A generation's manifest, stamp and size depend on its directory alone.\<close>

lemma dir_reads:
  assumes "fmlookup (store_dirs v) d = fmlookup (store_dirs w) d"
  shows "manifest_hashes C fails v d = manifest_hashes C fails w d" and "generation_stamp fails v d = generation_stamp fails w d"
    and "entry_size fails v d = entry_size fails w d" and "dir_file v d n = dir_file w d n"
proof -
  show dir: "dir_file v d n = dir_file w d n" for n by (simp add: dir_file_def assms)
  show "manifest_hashes C fails v d = manifest_hashes C fails w d"
    by (simp add: manifest_hashes_def read_manifest_def fs_read_def dir)
  show "generation_stamp fails v d = generation_stamp fails w d"
  proof -
    have "dir_time fails v d = dir_time fails w d" by (simp add: dir_time_def assms)
    then show ?thesis by (simp add: generation_stamp_def fs_metadata_def dir cong: option.case_cong)
  qed
  show "entry_size fails v d = entry_size fails w d" by (simp add: entry_size_def assms)
qed

section \<open>Scanning\<close>

definition is_gen :: "string \<Rightarrow> bool" where
  "is_gen name \<longleftrightarrow> name \<noteq> blobs_dir \<and> \<not> starts_with ''.tmp-'' name"

lemma blobs_not_tmp: "\<not> starts_with ''.tmp-'' blobs_dir"
  by (simp add: blobs_dir_def starts_with_iff)

definition gen_of :: "codecs \<Rightarrow> io \<Rightarrow> string \<Rightarrow> world \<Rightarrow> string \<Rightarrow> generation" where
  "gen_of C fails keep w name =
     \<lparr>g_name = name, g_stamp = generation_stamp fails w name, g_own_size = entry_size fails w name,
      g_refs = manifest_hashes C fails w name, g_current = (name = keep)\<rparr>"

lemma gen_of_cong: "fmlookup (store_dirs v) d = fmlookup (store_dirs w) d \<Longrightarrow> gen_of C fails keep v d = gen_of C fails keep w d"
  by (simp add: gen_of_def dir_reads [of v d w])

lemma scan_generations_spec:
  assumes "scan_generations C fails keep ds w = (gens, v)"
  shows "gens = map (gen_of C fails keep w) (filter is_gen (map fst ds))"
    and "\<not> starts_with ''.tmp-'' e \<Longrightarrow> fmlookup (store_dirs v) e = fmlookup (store_dirs w) e" and "store_files v = store_files w"
  using assms
proof (induction C fails keep ds w arbitrary: gens rule: scan_generations.induct)
  case (2 C fails keep name d ds w)
  let ?u = "if tmp_is_stale w (dir_time fails w name) then fs_remove_dir_all fails w name else w"
  have u: "fmlookup (store_dirs ?u) e = fmlookup (store_dirs w) e" if "\<not> starts_with ''.tmp-'' e" "starts_with ''.tmp-'' name" for e
    using that by auto
  have tmp: "map (gen_of C fails keep ?u) (filter is_gen ns) = map (gen_of C fails keep w) (filter is_gen ns)"
    if "starts_with ''.tmp-'' name" for ns
    by (rule map_cong [OF refl]) (use u that in \<open>auto simp: is_gen_def intro: gen_of_cong\<close>)
  consider "name = blobs_dir" | "name \<noteq> blobs_dir" "starts_with ''.tmp-'' name" | "is_gen name"
    by (auto simp: is_gen_def)
  note kinds = this
  {
    case 1
    from kinds show ?case
    proof cases
      case a: 1
      with 1 "2.IH"(1) show ?thesis by (simp add: is_gen_def)
    next
      case a: 2
      then have "\<not> is_gen name" by (simp add: is_gen_def)
      with 1 a "2.IH"(4) [OF a] tmp [OF a(2)] show ?thesis by simp
    next
      case a: 3
      then have n: "name \<noteq> blobs_dir" "\<not> starts_with ''.tmp-'' name" by (auto simp: is_gen_def)
      with 1 a "2.IH"(7) [OF n] show ?thesis by (auto simp: gen_of_def split: prod.splits)
    qed
  next
    case 2
    from kinds show ?case
    proof cases
      case a: 1
      with 2 "2.IH"(2) show ?thesis by simp
    next
      case a: 2
      then have "scan_generations C fails keep ds ?u = (gens, v)" using 2(2) by simp
      from "2.IH"(5) [OF a 2(1) this] u [OF 2(1) a(2)] show ?thesis by simp
    next
      case a: 3
      then have n: "name \<noteq> blobs_dir" "\<not> starts_with ''.tmp-'' name" by (auto simp: is_gen_def)
      obtain gs where "scan_generations C fails keep ds w = (gs, v)" using 2(2) n by (auto split: prod.splits)
      from "2.IH"(8) [OF n 2(1) this] show ?thesis .
    qed
  next
    case 3
    from kinds show ?case
    proof cases
      case a: 1
      with 3 "2.IH"(3) show ?thesis by simp
    next
      case a: 2
      then have "scan_generations C fails keep ds ?u = (gens, v)" using 3 by simp
      from "2.IH"(6) [OF a this] show ?thesis by simp
    next
      case a: 3
      then have n: "name \<noteq> blobs_dir" "\<not> starts_with ''.tmp-'' name" by (auto simp: is_gen_def)
      obtain gs where "scan_generations C fails keep ds w = (gs, v)" using 3 n by (auto split: prod.splits)
      from "2.IH"(9) [OF n this] show ?thesis .
    qed
  }
qed auto

definition blob_size :: "io \<Rightarrow> world \<Rightarrow> string \<Rightarrow> nat option" where
  "blob_size fails w h = map_option fst (fs_metadata fails w (Entry_File blobs_dir h))"

lemma blob_size_cong: "dir_file v blobs_dir h = dir_file w blobs_dir h \<Longrightarrow> blob_size fails v h = blob_size fails w h"
  by (simp add: blob_size_def fs_metadata_def)

lemma scan_blob_files_spec:
  assumes "scan_blob_files fails fs w = (m, v)"
  shows "e \<noteq> blobs_dir \<Longrightarrow> fmlookup (store_dirs v) e = fmlookup (store_dirs w) e"
    and "\<not> starts_with ''.tmp-'' k \<Longrightarrow> dir_file v blobs_dir k = dir_file w blobs_dir k"
    and "store_files v = store_files w"
    and "fmlookup m k = (if k \<in> fst ` set fs \<and> \<not> starts_with ''.tmp-'' k then blob_size fails w k else None)"
  using assms
proof (induction fails fs w arbitrary: m rule: scan_blob_files.induct)
  case (2 fails name f fs w)
  let ?l = "Entry_File blobs_dir name"
  let ?u = "if tmp_is_stale w (map_option snd (fs_metadata fails w ?l)) then fs_remove_file fails w ?l else w"
  have u: "e \<noteq> blobs_dir \<Longrightarrow> fmlookup (store_dirs ?u) e = fmlookup (store_dirs w) e"
      "\<not> starts_with ''.tmp-'' k \<Longrightarrow> starts_with ''.tmp-'' name \<Longrightarrow> dir_file ?u blobs_dir k = dir_file w blobs_dir k"
      "store_files ?u = store_files w" for e k
    using remove_blob_other(2) [of name k fails w] by (auto simp: remove_blob_other(1,3) simp del: fs_remove_file.simps)
  {
    case 1
    with "2.IH"(1) [OF refl] "2.IH"(5) [OF refl] u(1) show ?case
      by (auto simp: Let_def simp del: fs_remove_file.simps split: if_splits prod.splits)
  next
    case 2
    with "2.IH"(2) [OF refl] "2.IH"(6) [OF refl] u(2) show ?case
      by (auto simp: Let_def simp del: fs_remove_file.simps split: if_splits prod.splits)
  next
    case 3
    with "2.IH"(3) [OF refl] "2.IH"(7) [OF refl] u(3) show ?case
      by (auto simp: Let_def simp del: fs_remove_file.simps split: if_splits prod.splits)
  next
    case scan: 4
    show ?case
  proof (cases "starts_with ''.tmp-'' name")
    case True
    with scan have "scan_blob_files fails fs ?u = (m, v)" by (simp add: Let_def)
    from "2.IH"(4) [OF refl True this] True u(2) [of k] show ?thesis by (auto intro: blob_size_cong)
  next
    case False
    with scan obtain m1 where m1: "scan_blob_files fails fs w = (m1, v)"
        "m = (case fs_metadata fails w ?l of None \<Rightarrow> m1 | Some (len, t) \<Rightarrow> fmupd name len m1)"
      by (auto simp: Let_def split: prod.splits)
    from "2.IH"(8) [OF refl False m1(1)] False show ?thesis
      by (auto simp: m1(2) blob_size_def split: option.splits)
  qed
  }
qed auto

lemma scan_blobs_spec:
  assumes "scan_blobs fails w = (m, v)"
  shows "e \<noteq> blobs_dir \<Longrightarrow> fmlookup (store_dirs v) e = fmlookup (store_dirs w) e"
    and "\<not> starts_with ''.tmp-'' k \<Longrightarrow> dir_file v blobs_dir k = dir_file w blobs_dir k"
    and "store_files v = store_files w"
    and "fmlookup m k = (if starts_with ''.tmp-'' k \<or> fails (Listing (Store_Dir blobs_dir)) then None else blob_size fails w k)"
proof -
  have "(\<forall>e. e \<noteq> blobs_dir \<longrightarrow> fmlookup (store_dirs v) e = fmlookup (store_dirs w) e) \<and>
      (\<forall>k. \<not> starts_with ''.tmp-'' k \<longrightarrow> dir_file v blobs_dir k = dir_file w blobs_dir k) \<and> store_files v = store_files w \<and>
      (\<forall>k. fmlookup m k = (if starts_with ''.tmp-'' k \<or> fails (Listing (Store_Dir blobs_dir)) then None else blob_size fails w k))"
  proof (cases "fmlookup (store_dirs w) blobs_dir")
    case None
    with assms show ?thesis by (auto simp: scan_blobs_def blob_size_def fs_metadata_def dir_file_def)
  next
    case (Some d)
    show ?thesis
    proof (cases "fails (Listing (Store_Dir blobs_dir))")
      case False
      with assms Some have scan: "scan_blob_files fails (sorted_entries (dir_files d)) w = (m, v)" by (simp add: scan_blobs_def)
      have "fst ` set (sorted_entries (dir_files d)) = fset (fmdom (dir_files d))" by (rule sorted_map.keys_iter)
      then have "k \<notin> fst ` set (sorted_entries (dir_files d)) \<Longrightarrow> blob_size fails w k = None" for k
        using Some by (auto simp: blob_size_def fs_metadata_def dir_file_def fmlookup_dom_iff)
      with scan_blob_files_spec [OF scan] False show ?thesis by auto
    qed (use assms Some in \<open>auto simp: scan_blobs_def\<close>)
  qed
  then show "e \<noteq> blobs_dir \<Longrightarrow> fmlookup (store_dirs v) e = fmlookup (store_dirs w) e"
    and "\<not> starts_with ''.tmp-'' k \<Longrightarrow> dir_file v blobs_dir k = dir_file w blobs_dir k"
    and "store_files v = store_files w"
    and "fmlookup m k = (if starts_with ''.tmp-'' k \<or> fails (Listing (Store_Dir blobs_dir)) then None else blob_size fails w k)"
    by auto
qed

section \<open>Reference counts\<close>

definition refs :: "generation list \<Rightarrow> string list" where
  "refs gs = concat (map g_refs gs)"

lemma refs_simps [simp]: "refs [] = []" "refs (g # gs) = g_refs g @ refs gs" "refs (gs @ hs) = refs gs @ refs hs"
  by (simp_all add: refs_def)

text \<open>What generations take: their directories, and each blob they name once.\<close>

definition usage :: "(string, nat) fmap \<Rightarrow> generation list \<Rightarrow> nat" where
  "usage sizes gs = sum_list (map g_own_size gs) + (\<Sum>h \<in> set (refs gs). count_of sizes h)"

lemma count_of_upd [simp]: "count_of (fmupd h n m) k = (if k = h then n else count_of m k)"
  by (simp add: count_of_def)

lemma count_refs_count: "count_of (count_refs gens) h = count_list (refs gens) h"
proof -
  have "count_of (fold (\<lambda>h m. fmupd h (count_of m h + 1) m) hs m) h = count_of m h + count_list hs h" for hs m
    by (induction hs arbitrary: m) auto
  from this [of "refs gens" fmempty] show ?thesis by (simp add: count_refs_def refs_def) (simp add: count_of_def)
qed

lemma drop_refs_spec:
  "\<forall>h. count_of rc h = count_list hs h + c h \<Longrightarrow> drop_refs sizes hs (t, rc) = (t1, rc1) \<Longrightarrow>
     (\<forall>h. count_of rc1 h = c h) \<and> t1 = t - (\<Sum>h \<in> {h \<in> set hs. c h = 0}. count_of sizes h)"
proof (induction hs arbitrary: t rc)
  case (Cons h hs)
  have "count_of rc h = Suc (count_list hs h + c h)" using Cons.prems(1) by simp
  then have look: "fmlookup rc h = Some (Suc (count_list hs h + c h))" by (auto simp: count_of_def split: option.splits)
  let ?rc = "fmupd h (count_list hs h + c h) rc"
  let ?t = "if count_list hs h + c h = 0 then t - count_of sizes h else t"
  have rec: "drop_refs sizes hs (?t, ?rc) = (t1, rc1)" using Cons.prems(2) look by simp
  have "\<forall>k. count_of ?rc k = count_list hs k + c k" using Cons.prems(1) by auto
  from Cons.IH [OF this rec] have ih: "\<forall>h. count_of rc1 h = c h" "t1 = ?t - (\<Sum>h \<in> {h \<in> set hs. c h = 0}. count_of sizes h)" by auto
  have "{k \<in> set (h # hs). c k = 0} = (if count_list hs h + c h = 0 then insert h {k \<in> set hs. c k = 0} else {k \<in> set hs. c k = 0})"
    by (auto simp: count_list_0_iff)
  moreover have "h \<notin> set hs" if "count_list hs h + c h = 0" using that by (simp add: count_list_0_iff)
  ultimately have "?t - (\<Sum>h \<in> {h \<in> set hs. c h = 0}. count_of sizes h) = t - (\<Sum>h \<in> {k \<in> set (h # hs). c k = 0}. count_of sizes h)"
    by (auto simp: diff_diff_left)
  with ih show ?case by simp
qed simp

lemma usage_remove:
  "usage sizes (k @ g # gs) - g_own_size g - (\<Sum>h \<in> {h \<in> set (g_refs g). count_list (refs (k @ gs)) h = 0}. count_of sizes h) =
     usage sizes (k @ gs)"
proof -
  let ?S = "set (refs (k @ gs))" and ?N = "{h \<in> set (g_refs g). count_list (refs (k @ gs)) h = 0}"
  have "set (refs (k @ g # gs)) = ?S \<union> ?N" by (auto simp: count_list_0_iff)
  moreover have "?S \<inter> ?N = {}" by (auto simp: count_list_0_iff)
  ultimately have "(\<Sum>h \<in> set (refs (k @ g # gs)). count_of sizes h) = (\<Sum>h \<in> ?S. count_of sizes h) + (\<Sum>h \<in> ?N. count_of sizes h)"
    by (simp add: sum.union_disjoint)
  then show ?thesis by (simp add: usage_def)
qed

section \<open>The eviction loop\<close>

definition stays :: "io \<Rightarrow> generation \<Rightarrow> bool" where
  "stays fails g \<longleftrightarrow> g_current g \<or> fails (Removing (Store_Dir (g_name g)))"

definition remove_gens :: "io \<Rightarrow> generation list \<Rightarrow> world \<Rightarrow> world" where
  "remove_gens fails gs w = fold (\<lambda>g w. fs_remove_dir_all fails w (g_name g)) gs w"

lemma remove_gens_lookup:
  "\<forall>g \<in> set gs. \<not> fails (Removing (Store_Dir (g_name g))) \<Longrightarrow>
     fmlookup (store_dirs (remove_gens fails gs w)) e = (if e \<in> g_name ` set gs then None else fmlookup (store_dirs w) e)"
  "store_files (remove_gens fails gs w) = store_files w"
  unfolding remove_gens_def by (induction gs arbitrary: w) auto

lemma evict_loop_spec:
  assumes "\<forall>h. count_of rc h = count_list (refs (k @ gs)) h" and "tot = usage sizes (k @ gs)" and "kept = length (k @ gs)"
    and "\<forall>g \<in> set gs. is_dir w (g_name g)" and "distinct (map g_name gs)"
    and "evict_loop fails sizes budget max_gens gs tot kept rc w = (rc1, w1)"
  shows "\<exists>pre post. gs = pre @ post \<and> w1 = remove_gens fails (filter (\<lambda>g. \<not> stays fails g) pre) w \<and>
    (let S = k @ filter (stays fails) pre @ post in
     (\<forall>h. count_of rc1 h = count_list (refs S) h) \<and> (post = [] \<or> usage sizes S \<le> budget \<and> length S \<le> max_gens))"
  using assms
proof (induction gs arbitrary: k tot kept rc w)
  case Nil
  then show ?case by (simp add: remove_gens_def)
next
  case (Cons g gs)
  consider (stop) "tot \<le> budget" "kept \<le> max_gens" | (stay) "\<not> (tot \<le> budget \<and> kept \<le> max_gens)" "stays fails g"
    | (go) "\<not> (tot \<le> budget \<and> kept \<le> max_gens)" "\<not> stays fails g" by blast
  then show ?case
  proof cases
    case stop
    with Cons.prems show ?thesis by (intro exI [of _ "[]"] exI [of _ "g # gs"]) (simp add: remove_gens_def)
  next
    case stay
    with Cons.prems(4,6) have loop: "evict_loop fails sizes budget max_gens gs tot kept rc w = (rc1, w1)"
      by (auto simp: stays_def split: if_splits)
    obtain pre post where "gs = pre @ post" "w1 = remove_gens fails (filter (\<lambda>g. \<not> stays fails g) pre) w"
        "let S = (k @ [g]) @ filter (stays fails) pre @ post in
         (\<forall>h. count_of rc1 h = count_list (refs S) h) \<and> (post = [] \<or> usage sizes S \<le> budget \<and> length S \<le> max_gens)"
      using Cons.IH [of rc "k @ [g]" tot kept w] Cons.prems loop by auto
    with stay show ?thesis by (intro exI [of _ "g # pre"] exI [of _ post]) simp
  next
    case go
    let ?w = "fs_remove_dir_all fails w (g_name g)"
    obtain t1 rc2 where dr: "drop_refs sizes (g_refs g) (tot - g_own_size g, rc) = (t1, rc2)" by fastforce
    with go Cons.prems(6) have loop: "evict_loop fails sizes budget max_gens gs t1 (kept - 1) rc2 ?w = (rc1, w1)"
      by (auto simp: stays_def split: if_splits)
    have "\<forall>h. count_of rc h = count_list (g_refs g) h + count_list (refs (k @ gs)) h" using Cons.prems(1) by simp
    from drop_refs_spec [OF this dr] usage_remove [of sizes k g gs] Cons.prems(2)
    have inv: "\<forall>h. count_of rc2 h = count_list (refs (k @ gs)) h" "t1 = usage sizes (k @ gs)" by auto
    have "g_name g' \<noteq> g_name g" if "g' \<in> set gs" for g' using Cons.prems(5) that by (auto simp: image_iff)
    then have "\<forall>g' \<in> set gs. is_dir ?w (g_name g')"
      using Cons.prems(4) by (simp add: is_dir_def fmlookup_dom_iff)
    with Cons.IH [OF inv _ _ _ loop] Cons.prems(3,5) obtain pre post
      where "gs = pre @ post" "w1 = remove_gens fails (filter (\<lambda>g. \<not> stays fails g) pre) ?w"
        "let S = k @ filter (stays fails) pre @ post in
         (\<forall>h. count_of rc1 h = count_list (refs S) h) \<and> (post = [] \<or> usage sizes S \<le> budget \<and> length S \<le> max_gens)" by auto
    with go show ?thesis by (intro exI [of _ "g # pre"] exI [of _ post]) (simp add: remove_gens_def)
  qed
qed

section \<open>The prune\<close>

definition gens_of :: "codecs \<Rightarrow> io \<Rightarrow> string \<Rightarrow> world \<Rightarrow> string list \<Rightarrow> generation list" where
  "gens_of C fails keep w names = map (gen_of C fails keep w) names"

lemma gens_of_fields [simp]:
  "map g_name (gens_of C fails keep w names) = names" "refs (gens_of C fails keep w names) = concat (map (manifest_hashes C fails w) names)"
  by (simp_all add: gens_of_def gen_of_def refs_def comp_def)

lemma sort_key_map: "sort_key f (map g xs) = map g (sort_key (\<lambda>x. f (g x)) xs)"
proof (induction xs)
  case (Cons x xs)
  have "insort_key f (g y) (map g ys) = map g (insort_key (\<lambda>x. f (g x)) y ys)" for y ys by (induction ys) auto
  with Cons show ?case by simp
qed simp

lemma sort_key_gens: "sort_key g_stamp (gens_of C fails keep w names) = gens_of C fails keep w (sort_key (generation_stamp fails w) names)"
  by (simp add: gens_of_def sort_key_map gen_of_def)

lemma total_usage:
  "sum_list (map (\<lambda>(h, c). if 0 < c then count_of sizes h else 0) (sorted_entries (count_refs gens))) =
     (\<Sum>h \<in> set (refs gens). count_of sizes h)"
proof -
  let ?rc = "count_refs gens"
  have "sum_list (map (\<lambda>(h, c). if 0 < c then count_of sizes h else 0) (sorted_entries ?rc)) =
      (\<Sum>(h, c) \<in> set (sorted_entries ?rc). if 0 < c then count_of sizes h else 0)"
    using sorted_map.distinct_iter [of ?rc] by (simp add: sum_list_distinct_conv_sum_set distinct_map)
  also have "\<dots> = (\<Sum>h \<in> fset (fmdom ?rc). if 0 < count_of ?rc h then count_of sizes h else 0)"
    by (rule sum.reindex_bij_witness [where i = "\<lambda>h. (h, count_of ?rc h)" and j = fst])
      (auto simp: count_of_def fmlookup_dom_iff)
  also have "\<dots> = (\<Sum>h \<in> {h \<in> fset (fmdom ?rc). 0 < count_of ?rc h}. count_of sizes h)"
    by (simp add: sum.inter_filter)
  also have "{h \<in> fset (fmdom ?rc). 0 < count_of ?rc h} = set (refs gens)"
  proof -
    have "h \<in> fset (fmdom ?rc)" if "0 < count_of ?rc h" for h
      using that by (auto simp: count_of_def fmlookup_dom_iff split: option.splits)
    moreover have "0 < count_of ?rc h \<longleftrightarrow> h \<in> set (refs gens)" for h
      using count_list_0_iff [of "refs gens" h] by (simp add: count_refs_count zero_less_iff_neq_zero)
    ultimately show ?thesis by blast
  qed
  finally show ?thesis .
qed

lemma refs_perm: "mset gs = mset hs \<Longrightarrow> count_list (refs gs) h = count_list (refs hs) h"
proof -
  have "count_list (refs gs) h = sum_mset (image_mset (\<lambda>g. count_list (g_refs g) h) (mset gs))" for gs
    by (induction gs) auto
  then show "mset gs = mset hs \<Longrightarrow> ?thesis" by simp
qed

lemma usage_perm:
  assumes "mset gs = mset hs"
  shows "usage sizes gs = usage sizes hs"
proof -
  have "sum_list (map g_own_size gs) = sum_mset (image_mset g_own_size (mset gs))" for gs by (induction gs) auto
  then have "sum_list (map g_own_size gs) = sum_list (map g_own_size hs)" using assms by metis
  moreover have "set (refs gs) = set (refs hs)" using mset_eq_setD [OF assms] by (simp add: refs_def)
  ultimately show ?thesis by (simp add: usage_def)
qed

definition current_key :: "io \<Rightarrow> world \<Rightarrow> string" where
  "current_key fails w = (case read_current fails w of None \<Rightarrow> [] | Some k \<Rightarrow> k)"

definition gen_names :: "((string, directory) fmap \<Rightarrow> (string \<times> directory) list) \<Rightarrow> world \<Rightarrow> string list" where
  "gen_names iter w = filter is_gen (map fst (iter (store_dirs w)))"

lemma gen_names_props:
  assumes "map_iter iter"
  shows "set (gen_names iter w) = {d. is_gen d \<and> is_dir w d}" and "distinct (gen_names iter w)"
  using map_iter.keys_iter [OF assms, of "store_dirs w"] map_iter.distinct_iter [OF assms, of "store_dirs w"]
  by (auto simp: gen_names_def is_dir_def)

text \<open>
  The prune in one statement: the generations sorted by last use split into those looked at and the rest; of the
  first, those that do not stay are removed, and the blobs that a generation left names are kept.
\<close>

lemma prune_with_spec:
  assumes iter: "map_iter iter" and list: "\<not> fails (Listing (Store_Dir []))" and v: "v = prune_with C fails iter budget max_gens w"
  obtains pre post sizes where
    "pre @ post = gens_of C fails (current_key fails w) w (sort_key (generation_stamp fails w) (gen_names iter w))"
    and "\<And>e. is_gen e \<Longrightarrow> fmlookup (store_dirs v) e =
      (if e \<in> g_name ` set (filter (\<lambda>g. \<not> stays fails g) pre) then None else fmlookup (store_dirs w) e)"
    and "\<And>h. \<not> starts_with ''.tmp-'' h \<Longrightarrow> h \<in> set (refs (filter (stays fails) pre @ post)) \<Longrightarrow>
      dir_file v blobs_dir h = dir_file w blobs_dir h"
    and "\<And>h. fmlookup sizes h = (if starts_with ''.tmp-'' h \<or> fails (Listing (Store_Dir blobs_dir)) then None else blob_size fails w h)"
    and "post = [] \<or> usage sizes (filter (stays fails) pre @ post) \<le> budget \<and> length (filter (stays fails) pre @ post) \<le> max_gens"
    and "\<And>n. n \<noteq> legacy_pointer_file \<Longrightarrow> fmlookup (store_files v) n = fmlookup (store_files w) n"
proof -
  define w0 where "w0 = fs_remove_file fails w (Store_File legacy_pointer_file)"
  have w0: "store_dirs w0 = store_dirs w" "n \<noteq> legacy_pointer_file \<Longrightarrow> fmlookup (store_files w0) n = fmlookup (store_files w) n" for n
    by (auto simp: w0_def)
  have cur: "read_current fails w0 = read_current fails w"
    by (simp add: read_current_def fs_read_def w0(2) current_file_def legacy_pointer_file_def)
  obtain gens w1 where g: "scan_generations C fails (current_key fails w) (iter (store_dirs w)) w0 = (gens, w1)" by fastforce
  obtain sizes w2 where b: "scan_blobs fails w1 = (sizes, w2)" by fastforce
  obtain rc w3 where e: "evict_oldest fails gens (count_refs gens) sizes budget max_gens w2 = (rc, w3)" by fastforce
  let ?live = "map fst (filter (\<lambda>(h, c). 0 < c) (sorted_entries rc)) @
      (case read_current fails w3 of None \<Rightarrow> [] | Some k \<Rightarrow> manifest_hashes C fails w3 k)"
  have v': "v = remove_blobs fails ?live (map fst (sorted_entries sizes)) w3"
    using list g b e cur w0(1)
    by (simp add: v prune_with_def Let_def w0_def [symmetric] current_key_def del: fs_remove_file.simps)
  note scan = scan_generations_spec [OF g] and blobs = scan_blobs_spec [OF b]
  let ?names = "sort_key (generation_stamp fails w) (gen_names iter w)"
  have gen_cong: "gen_of C fails k w0 = gen_of C fails k w" for k by (rule ext) (rule gen_of_cong, simp add: w0)
  have gens: "gens = gens_of C fails (current_key fails w) w (gen_names iter w)"
    using scan(1) by (simp add: gens_of_def gen_names_def gen_cong)
  have sorted: "sort_key g_stamp gens = gens_of C fails (current_key fails w) w ?names" by (simp add: gens sort_key_gens)
  have perm: "mset (sort_key g_stamp gens) = mset gens" by simp
  have look: "fmlookup (store_dirs w2) d = fmlookup (store_dirs w) d" if "is_gen d" for d
    using that blobs(1) scan(2) by (simp add: is_gen_def w0)
  have "\<exists>pre post. sort_key g_stamp gens = pre @ post \<and> w3 = remove_gens fails (filter (\<lambda>g. \<not> stays fails g) pre) w2 \<and>
    (let S = [] @ filter (stays fails) pre @ post in
     (\<forall>h. count_of rc h = count_list (refs S) h) \<and> (post = [] \<or> usage sizes S \<le> budget \<and> length S \<le> max_gens))"
  proof (rule evict_loop_spec)
    show "\<forall>h. count_of (count_refs gens) h = count_list (refs ([] @ sort_key g_stamp gens)) h"
      using refs_perm [OF perm] by (simp add: count_refs_count)
    show "usage sizes (sort_key g_stamp gens) = usage sizes ([] @ sort_key g_stamp gens)" by simp
    show "length gens = length ([] @ sort_key g_stamp gens)" by simp
    show "\<forall>g \<in> set (sort_key g_stamp gens). is_dir w2 (g_name g)"
    proof
      fix g assume "g \<in> set (sort_key g_stamp gens)"
      then have "g_name g \<in> set (gen_names iter w)" by (auto simp: gens gens_of_def gen_of_def)
      with gen_names_props(1) [OF iter, of w] look show "is_dir w2 (g_name g)" by (simp add: is_dir_def fmlookup_dom_iff)
    qed
    show "distinct (map g_name (sort_key g_stamp gens))" using gen_names_props(2) [OF iter] by (simp add: sorted)
    show "evict_loop fails sizes budget max_gens (sort_key g_stamp gens) (usage sizes (sort_key g_stamp gens)) (length gens)
        (count_refs gens) w2 = (rc, w3)"
      using e usage_perm [OF perm] by (simp add: evict_oldest_def total_usage usage_def)
  qed
  then obtain pre post where pp: "sort_key g_stamp gens = pre @ post" "w3 = remove_gens fails (filter (\<lambda>g. \<not> stays fails g) pre) w2"
      "\<forall>h. count_of rc h = count_list (refs (filter (stays fails) pre @ post)) h"
      "post = [] \<or> usage sizes (filter (stays fails) pre @ post) \<le> budget \<and> length (filter (stays fails) pre @ post) \<le> max_gens"
    by (auto simp: Let_def)
  have rem: "fmlookup (store_dirs w3) d =
      (if d \<in> g_name ` set (filter (\<lambda>g. \<not> stays fails g) pre) then None else fmlookup (store_dirs w2) d)" for d
    unfolding pp(2) by (rule remove_gens_lookup(1)) (simp add: stays_def)
  have "g_name g \<noteq> blobs_dir" if "g \<in> set pre" for g
  proof -
    have "g \<in> set (sort_key g_stamp gens)" using that by (simp add: pp(1))
    then show ?thesis by (auto simp: gens gens_of_def gen_of_def gen_names_def is_gen_def)
  qed
  then have "blobs_dir \<notin> g_name ` set (filter (\<lambda>g. \<not> stays fails g) pre)"
    by (metis (no_types, lifting) filter_is_subset imageE subsetD)
  then have w3_blobs: "dir_file w3 blobs_dir h = dir_file w2 blobs_dir h" for h
    by (simp add: dir_file_def rem)
  show ?thesis
  proof
    show "pre @ post = gens_of C fails (current_key fails w) w ?names" using pp(1) sorted by simp
    show "fmlookup (store_dirs v) d =
        (if d \<in> g_name ` set (filter (\<lambda>g. \<not> stays fails g) pre) then None else fmlookup (store_dirs w) d)" if "is_gen d" for d
      using that rem [of d] look [OF that] by (simp add: v' remove_blobs_other(1) is_gen_def)
    show "dir_file v blobs_dir h = dir_file w blobs_dir h"
      if "\<not> starts_with ''.tmp-'' h" "h \<in> set (refs (filter (stays fails) pre @ post))" for h
    proof -
      have "0 < count_of rc h" using pp(3) that(2) by (simp add: count_list_0_iff flip: neq0_conv)
      then obtain c where "fmlookup rc h = Some c" "0 < c" by (auto simp: count_of_def split: option.splits)
      then have "h \<in> set ?live" by force
      then have "dir_file v blobs_dir h = dir_file w3 blobs_dir h" unfolding v' by (intro remove_blobs_other(2)) blast
      also have "\<dots> = dir_file w1 blobs_dir h" using blobs(2) that(1) by (simp add: w3_blobs)
      also have "\<dots> = dir_file w blobs_dir h" using scan(2) [OF blobs_not_tmp] by (simp add: dir_file_def w0)
      finally show ?thesis .
    qed
    show "fmlookup sizes h = (if starts_with ''.tmp-'' h \<or> fails (Listing (Store_Dir blobs_dir)) then None else blob_size fails w h)" for h
      using blobs(4) scan(2) [OF blobs_not_tmp] by (simp add: blob_size_def fs_metadata_def dir_file_def w0)
    show "post = [] \<or> usage sizes (filter (stays fails) pre @ post) \<le> budget \<and> length (filter (stays fails) pre @ post) \<le> max_gens"
      by (rule pp(4))
    show "fmlookup (store_files v) n = fmlookup (store_files w) n" if "n \<noteq> legacy_pointer_file" for n
      using that w0(2) by (simp add: v' remove_blobs_other(3) pp(2) remove_gens_lookup(2) blobs(3) scan(3))
  qed
qed

section \<open>The pass behind a persist\<close>

lemma rename_dir_lookup:
  assumes "fs_rename_dir fails w a b = (ok, v)" and "e \<noteq> b"
  shows "fmlookup (store_dirs v) e = (if e = a \<and> ok then None else fmlookup (store_dirs w) e)" and "store_files v = store_files w"
  using assms by (auto simp: fs_rename_dir_def split: option.splits if_splits)

lemma rename_aside_spec:
  assumes "rename_aside fails pid names w = (asides, v)" and "\<not> starts_with ''.tmp-'' e"
  shows "fmlookup (store_dirs v) e \<in> {None, fmlookup (store_dirs w) e}"
    and "e \<notin> set names \<Longrightarrow> fmlookup (store_dirs v) e = fmlookup (store_dirs w) e"
    and "store_files v = store_files w" and "\<forall>a \<in> set asides. starts_with ''.tmp-'' a"
  using assms
proof (induction fails pid names w arbitrary: asides v rule: rename_aside.induct)
  case (2 fails pid name names w)
  let ?aside = "''.tmp-evict-'' @ (case get16 name of None \<Rightarrow> name | Some s \<Rightarrow> s) @ ''-'' @ pid"
  obtain ok w1 where r: "fs_rename_dir fails w name ?aside = (ok, w1)" by fastforce
  obtain asides1 w2 where rec: "rename_aside fails pid names w1 = (asides1, w2)" by fastforce
  have tmp: "starts_with ''.tmp-'' ?aside" by (simp add: starts_with_iff)
  have ih: "\<not> starts_with ''.tmp-'' e \<Longrightarrow> fmlookup (store_dirs w2) e \<in> {None, fmlookup (store_dirs w1) e}"
      "\<not> starts_with ''.tmp-'' e \<Longrightarrow> e \<notin> set names \<Longrightarrow> fmlookup (store_dirs w2) e = fmlookup (store_dirs w1) e"
      "\<not> starts_with ''.tmp-'' e \<Longrightarrow> store_files w2 = store_files w1" "\<not> starts_with ''.tmp-'' e \<Longrightarrow> \<forall>a \<in> set asides1. starts_with ''.tmp-'' a"
    using "2.IH"(1,3,4) [OF refl r [symmetric] rec] "2.IH"(2) [OF refl r [symmetric] _ rec] by auto
  have eq: "rename_aside fails pid (name # names) w = (if ok then ?aside # asides1 else asides1, w2)"
    using r rec by (simp add: Let_def)
  have ne: "\<not> starts_with ''.tmp-'' e \<Longrightarrow> e \<noteq> ?aside" using tmp by blast
  note look = rename_dir_lookup [OF r ne]
  {
    case 1 then show ?case using ih(1) look(1) eq by auto
  next
    case 2 then show ?case using ih(2) look(1) eq by auto
  next
    case 3 then show ?case using ih(3) look(2) eq by auto
  next
    case 4 then show ?case using ih(4) tmp eq by auto
  }
qed auto

lemma sweep_delete_spec:
  "\<forall>a \<in> set asides. starts_with ''.tmp-'' a \<Longrightarrow> \<not> starts_with ''.tmp-'' e \<Longrightarrow> e \<noteq> blobs_dir \<Longrightarrow>
     fmlookup (store_dirs (sweep_delete C fails live asides w)) e = fmlookup (store_dirs w) e"
  "\<forall>a \<in> set asides. starts_with ''.tmp-'' a \<Longrightarrow> h \<in> set live \<Longrightarrow>
     dir_file (sweep_delete C fails live asides w) blobs_dir h = dir_file w blobs_dir h"
  "store_files (sweep_delete C fails live asides w) = store_files w"
proof (induction C fails live asides w rule: sweep_delete.induct)
  case (2 C fails live aside asides w)
  have ne: "starts_with ''.tmp-'' aside \<Longrightarrow> aside \<noteq> blobs_dir" using blobs_not_tmp by blast
  {
    case 1
    then have "e \<noteq> aside" by auto
    with 1 "2.IH"(1) show ?case by (simp add: remove_blobs_other(1))
  next
    case 2
    with "2.IH"(2) ne show ?case by (simp add: dir_file_remove_dir remove_blobs_other(2))
  next
    case 3
    with "2.IH"(3) show ?case by (simp add: remove_blobs_other(3))
  }
qed simp_all

section \<open>The contract of an eviction\<close>

text \<open>
  What a client of the store relies on: an eviction keeps the pointer and the generation it names, leaves the
  directories of other generations as they are or removes them, and keeps the blobs of every generation it leaves.
\<close>

locale evictor =
  fixes C :: codecs and fails :: io and evict :: "world \<Rightarrow> world"
  assumes keeps_pointer: "fmlookup (store_files (evict w)) current_file = fmlookup (store_files w) current_file"
    and keeps_current: "is_gen (current_key fails w) \<Longrightarrow>
      fmlookup (store_dirs (evict w)) (current_key fails w) = fmlookup (store_dirs w) (current_key fails w)"
    and keeps_or_removes: "is_gen d \<Longrightarrow> fmlookup (store_dirs (evict w)) d \<in> {None, fmlookup (store_dirs w) d}"
    and keeps_blobs: "is_gen d \<Longrightarrow> is_dir (evict w) d \<Longrightarrow> h \<in> set (manifest_hashes C fails w d) \<Longrightarrow> \<not> starts_with ''.tmp-'' h \<Longrightarrow>
      dir_file (evict w) blobs_dir h = dir_file w blobs_dir h"
begin

text \<open>A generation whose every blob is there stays so, with the same bytes.\<close>

lemma current_stable: "current_key fails (evict w) = current_key fails w"
  by (simp add: current_key_def read_current_def fs_read_def keeps_pointer)

lemma left_unchanged:
  assumes "is_gen d" and "is_dir (evict w) d"
  shows "fmlookup (store_dirs (evict w)) d = fmlookup (store_dirs w) d"
    and "manifest_hashes C fails (evict w) d = manifest_hashes C fails w d"
proof -
  show eq: "fmlookup (store_dirs (evict w)) d = fmlookup (store_dirs w) d"
    using keeps_or_removes [OF assms(1), of w] assms(2) by (auto simp: is_dir_def fmlookup_dom_iff)
  show "manifest_hashes C fails (evict w) d = manifest_hashes C fails w d" by (rule dir_reads(1) [OF eq])
qed

lemma served_survives:
  assumes "is_gen (current_key fails w)" and "is_dir w (current_key fails w)"
    and "h \<in> set (manifest_hashes C fails w (current_key fails w))" and "\<not> starts_with ''.tmp-'' h"
  shows "is_dir (evict w) (current_key fails (evict w))"
    and "h \<in> set (manifest_hashes C fails (evict w) (current_key fails (evict w)))"
    and "dir_file (evict w) blobs_dir h = dir_file w blobs_dir h"
proof -
  have d: "is_dir (evict w) (current_key fails w)"
    using keeps_current [OF assms(1)] assms(2) by (simp add: is_dir_def fmlookup_dom_iff)
  then show "is_dir (evict w) (current_key fails (evict w))" by (simp add: current_stable)
  show "h \<in> set (manifest_hashes C fails (evict w) (current_key fails (evict w)))"
    using assms(3) left_unchanged(2) [OF assms(1) d] by (simp add: current_stable)
  show "dir_file (evict w) blobs_dir h = dir_file w blobs_dir h" by (rule keeps_blobs [OF assms(1) d assms(3,4)])
qed

text \<open>So it survives any number of evictions.\<close>

lemma served_survives_all:
  assumes "is_gen (current_key fails w)" and "is_dir w (current_key fails w)"
    and "h \<in> set (manifest_hashes C fails w (current_key fails w))" and "\<not> starts_with ''.tmp-'' h"
  shows "dir_file ((evict ^^ n) w) blobs_dir h = dir_file w blobs_dir h \<and>
    is_dir ((evict ^^ n) w) (current_key fails w) \<and> current_key fails ((evict ^^ n) w) = current_key fails w \<and>
    h \<in> set (manifest_hashes C fails ((evict ^^ n) w) (current_key fails w))"
proof (induction n)
  case (Suc n)
  let ?v = "(evict ^^ n) w"
  from Suc served_survives [of ?v h] assms(1,4) current_stable [of ?v] show ?case by simp
qed (use assms in simp)

end

lemma read_current_files: "fmlookup (store_files v) current_file = fmlookup (store_files w) current_file \<Longrightarrow> read_current fails v = read_current fails w"
  by (simp add: read_current_def fs_read_def)

lemma prune_evictor:
  assumes iter: "map_iter iter"
  shows "evictor C fails (prune_with C fails iter budget max_gens)"
proof (cases "fails (Listing (Store_Dir []))")
  case True
  have "store_dirs (prune_with C fails iter budget max_gens w) = store_dirs w \<and>
      fmlookup (store_files (prune_with C fails iter budget max_gens w)) current_file = fmlookup (store_files w) current_file" for w
    using True by (simp add: prune_with_def Let_def current_file_def legacy_pointer_file_def)
  then show ?thesis by unfold_locales (auto simp: dir_file_def)
next
  case list: False
  show ?thesis
  proof
    fix w
    let ?v = "prune_with C fails iter budget max_gens w"
    obtain pre post sizes where
      split: "pre @ post = gens_of C fails (current_key fails w) w (sort_key (generation_stamp fails w) (gen_names iter w))"
      and dirs: "\<And>e. is_gen e \<Longrightarrow> fmlookup (store_dirs ?v) e =
        (if e \<in> g_name ` set (filter (\<lambda>g. \<not> stays fails g) pre) then None else fmlookup (store_dirs w) e)"
      and blobs: "\<And>h. \<not> starts_with ''.tmp-'' h \<Longrightarrow> h \<in> set (refs (filter (stays fails) pre @ post)) \<Longrightarrow>
        dir_file ?v blobs_dir h = dir_file w blobs_dir h"
      and files: "\<And>n. n \<noteq> legacy_pointer_file \<Longrightarrow> fmlookup (store_files ?v) n = fmlookup (store_files w) n"
      by (rule prune_with_spec [where iter = iter and fails = fails and C = C and w = w, OF iter list refl]) blast
    have gen: "g = gen_of C fails (current_key fails w) w (g_name g)" if "g \<in> set (pre @ post)" for g
      using that unfolding split by (auto simp: gens_of_def gen_of_def)
    show "fmlookup (store_files ?v) current_file = fmlookup (store_files w) current_file"
      by (rule files) (simp add: current_file_def legacy_pointer_file_def)
    show "fmlookup (store_dirs ?v) (current_key fails w) = fmlookup (store_dirs w) (current_key fails w)"
      if "is_gen (current_key fails w)"
    proof -
      have "stays fails g" if "g \<in> set pre" "g_name g = current_key fails w" for g
      proof -
        have "g_current g" using gen [of g] that by (metis UnCI gen_of_def generation.select_convs(5) set_append)
        then show ?thesis by (simp add: stays_def)
      qed
      then have "current_key fails w \<notin> g_name ` set (filter (\<lambda>g. \<not> stays fails g) pre)" by auto
      with dirs [OF that] show ?thesis by simp
    qed
    show "fmlookup (store_dirs ?v) d \<in> {None, fmlookup (store_dirs w) d}" if "is_gen d" for d
      using dirs [OF that] by simp
    show "dir_file ?v blobs_dir h = dir_file w blobs_dir h"
      if "is_gen d" "is_dir ?v d" "h \<in> set (manifest_hashes C fails w d)" "\<not> starts_with ''.tmp-'' h" for d h
    proof (rule blobs [OF that(4)])
      have here: "is_dir w d" "d \<notin> g_name ` set (filter (\<lambda>g. \<not> stays fails g) pre)"
        using that(2) dirs [OF that(1)] by (auto simp: is_dir_def fmlookup_dom_iff split: if_splits)
      then have "d \<in> set (gen_names iter w)" using gen_names_props(1) [OF iter] that(1) by blast
      then have "gen_of C fails (current_key fails w) w d \<in> set (pre @ post)" unfolding split by (simp add: gens_of_def)
      moreover have "g_name (gen_of C fails (current_key fails w) w d) = d" by (simp add: gen_of_def)
      ultimately have "gen_of C fails (current_key fails w) w d \<in> set (filter (stays fails) pre @ post)"
        using here(2) by force
      moreover have "h \<in> set (g_refs (gen_of C fails (current_key fails w) w d))" using that(3) by (simp add: gen_of_def)
      ultimately show "h \<in> set (refs (filter (stays fails) pre @ post))" unfolding refs_def by fastforce
    qed
  qed
qed

lemma sweep_evictor:
  assumes iter: "map_iter iter"
  shows "evictor C fails (enforce_window_blocking C fails iter pid max_gens)"
proof
  fix w
  let ?v = "enforce_window_blocking C fails iter pid max_gens w"
  obtain evicted w1 where r: "rename_aside_overflow fails iter pid (current_key fails w) max_gens w = (evicted, w1)" by fastforce
  let ?live = "live_blob_hashes C fails iter w1"
  have v: "?v = sweep_delete C fails ?live evicted w1"
    using r by (simp add: enforce_window_blocking_def sweep_scan_def current_key_def)
  obtain names where names: "rename_aside fails pid names w = (evicted, w1)" "current_key fails w \<notin> set names"
      "blobs_dir \<notin> set names" "fails (Listing (Store_Dir [])) \<Longrightarrow> names = []"
  proof -
    have "\<exists>names. rename_aside fails pid names w = (evicted, w1) \<and> current_key fails w \<notin> set names \<and> blobs_dir \<notin> set names \<and>
        (fails (Listing (Store_Dir [])) \<longrightarrow> names = [])"
    proof (cases "fails (Listing (Store_Dir [])) \<or> (evicted, w1) = ([], w)")
      case True
      with r show ?thesis by (intro exI [of _ "[]"]) (auto simp: rename_aside_overflow_def split: if_splits)
    next
      case False
      with r show ?thesis
        by (auto simp: rename_aside_overflow_def Let_def simp del: rename_aside.simps dest!: in_set_takeD split: if_splits intro!: exI)
    qed
    with that show ?thesis by blast
  qed
  note spec = rename_aside_spec [OF names(1)]
  have asides: "\<forall>a \<in> set evicted. starts_with ''.tmp-'' a" using spec(4) [of "[]"] by (simp add: starts_with_iff)
  have files: "store_files w1 = store_files w" using spec(3) [of "[]"] by (simp add: starts_with_iff)
  show "fmlookup (store_files ?v) current_file = fmlookup (store_files w) current_file"
    by (simp add: v sweep_delete_spec(3) files)
  have dirs: "fmlookup (store_dirs ?v) d = fmlookup (store_dirs w1) d" if "is_gen d" for d
    using that sweep_delete_spec(1) [OF asides] by (simp add: v is_gen_def)
  show "fmlookup (store_dirs ?v) (current_key fails w) = fmlookup (store_dirs w) (current_key fails w)"
    if "is_gen (current_key fails w)"
    using that dirs [OF that] spec(2) [OF _ names(2)] by (simp add: is_gen_def)
  show "fmlookup (store_dirs ?v) d \<in> {None, fmlookup (store_dirs w) d}" if "is_gen d" for d
    using that dirs [OF that] spec(1) [of d] by (simp add: is_gen_def)
  show "dir_file ?v blobs_dir h = dir_file w blobs_dir h"
    if "is_gen d" "is_dir ?v d" "h \<in> set (manifest_hashes C fails w d)" "\<not> starts_with ''.tmp-'' h" for d h
  proof -
    have w1: "dir_file w1 blobs_dir h = dir_file w blobs_dir h"
      using spec(2) [OF blobs_not_tmp names(3)] by (simp add: dir_file_def)
    show ?thesis
    proof (cases "fails (Listing (Store_Dir []))")
      case True
      with names(1,4) have "evicted = []" by simp
      with w1 show ?thesis by (simp add: v)
    next
      case False
      have d1: "fmlookup (store_dirs w1) d = fmlookup (store_dirs w) d" "is_dir w1 d"
        using that(1,2) dirs [OF that(1)] spec(1) [of d] by (auto simp: is_dir_def is_gen_def fmlookup_dom_iff)
      then have "h \<in> set (manifest_hashes C fails w1 d)" using that(3) dir_reads(1) [OF d1(1)] by simp
      moreover from d1(2) obtain dir where "(d, dir) \<in> set (iter (store_dirs w1))"
        by (auto simp: is_dir_def fmlookup_dom_iff map_iter.in_set_iter [OF iter])
      ultimately have "h \<in> set ?live" using False that(1) by (force simp: live_blob_hashes_def is_gen_def)
      from sweep_delete_spec(2) [OF asides this] w1 show ?thesis by (simp add: v)
    qed
  qed
qed

interpretation prune_pass: evictor C fails "prune C fails sorted_entries budget"
  unfolding prune_def by (rule prune_evictor [OF sorted_map.map_iter_axioms])

interpretation window_pass: evictor C fails "enforce_window_blocking C fails sorted_entries pid max_gens"
  by (rule sweep_evictor [OF sorted_map.map_iter_axioms])

section \<open>Properties\<close>


definition demo_pruned :: world where
  "demo_pruned = prune demo_codecs all_works sorted_entries 0 demo_built"


definition store_usage :: "codecs \<Rightarrow> io \<Rightarrow> world \<Rightarrow> string set \<Rightarrow> nat" where
  "store_usage C fails w ds =
     (\<Sum>d \<in> ds. entry_size fails w d) +
     (\<Sum>h \<in> (\<Union>d \<in> ds. set (manifest_hashes C fails w d)). case blob_size fails w h of None \<Rightarrow> 0 | Some n \<Rightarrow> n)"

definition gens_left :: "world \<Rightarrow> string set" where
  "gens_left w = {d. is_gen d \<and> is_dir w d}"

lemma usage_store_usage:
  assumes "distinct (map g_name gs)" and "\<And>g. g \<in> set gs \<Longrightarrow> g = gen_of C fails keep w (g_name g)"
    and "\<And>d. d \<in> g_name ` set gs \<Longrightarrow> fmlookup (store_dirs v) d = fmlookup (store_dirs w) d"
    and "\<And>h. h \<in> set (refs gs) \<Longrightarrow> count_of sizes h = (case blob_size fails v h of None \<Rightarrow> 0 | Some n \<Rightarrow> n)"
  shows "usage sizes gs = store_usage C fails v (g_name ` set gs)"
proof -
  have own: "g_own_size g = entry_size fails v (g_name g)" "g_refs g = manifest_hashes C fails v (g_name g)" if "g \<in> set gs" for g
    using assms(2) [OF that] dir_reads [of v "g_name g" w] assms(3) [of "g_name g"] that
    by (metis gen_of_def generation.select_convs(3,4) imageI)+
  have "sum_list (map g_own_size gs) = sum_list (map (entry_size fails v) (map g_name gs))"
    by (simp add: own(1) cong: map_cong)
  also have "\<dots> = (\<Sum>d \<in> g_name ` set gs. entry_size fails v d)"
    using assms(1) by (subst sum_list_distinct_conv_sum_set) simp_all
  finally have "sum_list (map g_own_size gs) = (\<Sum>d \<in> g_name ` set gs. entry_size fails v d)" .
  moreover have "set (refs gs) = (\<Union>d \<in> g_name ` set gs. set (manifest_hashes C fails v d))"
    by (auto simp: refs_def own(2))
  ultimately show ?thesis using assms(4) by (simp add: usage_def store_usage_def)
qed

text \<open>
  C25: the prune meets its bounds. When directories can be listed and removed, either the generations left fit the
  window and their directories and blobs the byte budget, or nothing but the current generation is left; and no
  generation is removed while an older one, the current one aside, is kept.
\<close>

theorem prune_fits_budget:
  assumes iter: "map_iter iter" and io: "\<forall>l. \<not> fails (Listing l) \<and> \<not> fails (Removing l)"
    and plain: "\<forall>d \<in> gens_left w. \<forall>h \<in> set (manifest_hashes C fails w d). \<not> starts_with ''.tmp-'' h"
    and v: "v = prune_with C fails iter budget max_gens w"
  shows "(store_usage C fails v (gens_left v) \<le> budget \<and> card (gens_left v) \<le> max_gens \<or> gens_left v \<subseteq> {current_key fails w}) \<and>
    gens_left v \<subseteq> gens_left w \<and>
    (\<forall>d \<in> gens_left w - gens_left v. \<forall>e \<in> gens_left v - {current_key fails w}. generation_stamp fails w d \<le> generation_stamp fails w e)"
proof -
  let ?cur = "current_key fails w" and ?left = "\<lambda>pre post. filter (stays fails) pre @ post"
  obtain pre post sizes where
    split: "pre @ post = gens_of C fails ?cur w (sort_key (generation_stamp fails w) (gen_names iter w))"
    and dirs: "\<And>e. is_gen e \<Longrightarrow> fmlookup (store_dirs v) e =
      (if e \<in> g_name ` set (filter (\<lambda>g. \<not> stays fails g) pre) then None else fmlookup (store_dirs w) e)"
    and blobs: "\<And>h. \<not> starts_with ''.tmp-'' h \<Longrightarrow> h \<in> set (refs (?left pre post)) \<Longrightarrow> dir_file v blobs_dir h = dir_file w blobs_dir h"
    and sizes: "\<And>h. fmlookup sizes h = (if starts_with ''.tmp-'' h \<or> fails (Listing (Store_Dir blobs_dir)) then None else blob_size fails w h)"
    and bound: "post = [] \<or> usage sizes (?left pre post) \<le> budget \<and> length (?left pre post) \<le> max_gens"
    using io by (rule_tac prune_with_spec [where iter = iter and fails = fails and C = C and w = w, OF iter _ v]) blast+
  have names: "map g_name (pre @ post) = sort_key (generation_stamp fails w) (gen_names iter w)" unfolding split by simp
  then have dist: "distinct (map g_name (pre @ post))" using gen_names_props(2) [OF iter] by simp
  have all: "g_name ` set (pre @ post) = gens_left w"
    using arg_cong [OF names, of set] gen_names_props(1) [OF iter, of w] by (simp add: gens_left_def image_Un)
  have gen: "g = gen_of C fails ?cur w (g_name g)" if "g \<in> set (pre @ post)" for g
    using that unfolding split by (auto simp: gens_of_def gen_of_def)
  then have stays: "stays fails g \<longleftrightarrow> g_name g = ?cur" if "g \<in> set (pre @ post)" for g
    using io that by (metis gen_of_def generation.select_convs(5) stays_def)
  let ?L = "?left pre post" and ?E = "filter (\<lambda>g. \<not> stays fails g) pre"
  have inj: "inj_on g_name (set (pre @ post))" and d: "distinct (pre @ post)" using dist unfolding distinct_map by blast+
  have "set ?L \<inter> set ?E = {}" "set ?L \<subseteq> set (pre @ post)" "set ?E \<subseteq> set (pre @ post)" using d by auto
  then have disj: "g_name ` set ?L \<inter> g_name ` set ?E = {}" using inj_on_image_Int [OF inj, of "set ?L" "set ?E"] by simp
  have "distinct ?L" using d by auto
  moreover have "inj_on g_name (set ?L)" by (rule inj_on_subset [OF inj]) auto
  ultimately have L_dist: "distinct (map g_name ?L)" unfolding distinct_map by blast
  have "g_name ` set ?L \<union> g_name ` set ?E = g_name ` set (pre @ post)" by auto
  with all disj have left_iff: "d \<in> g_name ` set ?L \<longleftrightarrow> d \<in> gens_left w \<and> d \<notin> g_name ` set ?E" for d by blast
  have "d \<in> gens_left v \<longleftrightarrow> d \<in> gens_left w \<and> d \<notin> g_name ` set ?E" for d
    using dirs [of d] by (cases "is_gen d") (simp_all add: gens_left_def is_dir_def fmlookup_dom_iff del: set_filter)
  with left_iff have left: "gens_left v = g_name ` set ?L" by blast
  have same: "fmlookup (store_dirs v) d = fmlookup (store_dirs w) d" if "d \<in> g_name ` set ?L" for d
    using that dirs [of d] left_iff [of d] by (simp add: gens_left_def)
  have size: "count_of sizes h = (case blob_size fails v h of None \<Rightarrow> 0 | Some n \<Rightarrow> n)" if hr: "h \<in> set (refs ?L)" for h
  proof -
    obtain g where g: "g \<in> set ?L" "h \<in> set (g_refs g)" using hr unfolding refs_def by auto
    then have "g \<in> set (pre @ post)" by auto
    with gen have "g_refs g = manifest_hashes C fails w (g_name g)" by (metis gen_of_def generation.select_convs(4))
    moreover have "g_name g \<in> gens_left w" using g(1) left_iff by blast
    ultimately have "\<not> starts_with ''.tmp-'' h" using plain g(2) by auto
    with sizes [of h] io blob_size_cong [OF blobs] hr show ?thesis by (simp add: count_of_def)
  qed
  have "store_usage C fails v (gens_left v) \<le> budget \<and> card (gens_left v) \<le> max_gens \<or> gens_left v \<subseteq> {?cur}"
  proof (cases "post = []")
    case True
    with stays left show ?thesis by auto
  next
    case False
    have "usage sizes ?L = store_usage C fails v (g_name ` set ?L)"
      by (rule usage_store_usage [OF L_dist gen same size]) auto
    moreover have "length ?L = card (g_name ` set ?L)" using distinct_card [OF L_dist] by (simp add: image_Un)
    ultimately show ?thesis using False bound left by simp
  qed
  moreover have "generation_stamp fails w d \<le> generation_stamp fails w e"
    if "d \<in> gens_left w - gens_left v" "e \<in> gens_left v - {?cur}" for d e
  proof -
    have "d \<in> g_name ` set pre" using that(1) left left_iff by auto
    moreover have "e \<in> g_name ` set post" using that(2) left stays by auto
    moreover have "sorted (map (generation_stamp fails w) (map g_name pre @ map g_name post))"
      using names by (simp flip: map_append)
    ultimately show ?thesis by (auto simp: sorted_append)
  qed
  ultimately show ?thesis using left left_iff by blast
qed

theorem prune_fits_budget_witness:
  "gens_left (prune_with demo_codecs all_works sorted_entries 0 8 demo_built) \<subseteq> gens_left demo_built"
proof -
  have "\<not> starts_with ''.tmp-'' h" if hd: "d \<in> gens_left demo_built" "h \<in> set (manifest_hashes demo_codecs all_works demo_built d)" for d h
  proof -
    obtain m where "read_manifest demo_codecs all_works demo_built d = Some m"
        "h \<in> set (map (\<lambda>(name, f). mf_hash f) (sorted_entries (gm_files m)))"
      using hd(2) by (cases "read_manifest demo_codecs all_works demo_built d") (simp_all add: manifest_hashes_def)
    moreover from this(1) have "m = demo_manifest"
      by (auto simp: read_manifest_def demo_codecs_def bind_eq_Some_conv split: option.splits if_splits)
    moreover have "list_all (\<lambda>h. \<not> starts_with ''.tmp-'' h) (map (\<lambda>(name, f). mf_hash f) (sorted_entries (gm_files demo_manifest)))"
      by code_simp
    ultimately show ?thesis by (auto simp: list_all_iff)
  qed
  with prune_fits_budget [OF sorted_map.map_iter_axioms _ _ refl, of all_works demo_built demo_codecs 0 8] show ?thesis
    by (auto simp: all_works_def)
qed

section \<open>A race\<close>

text \<open>
  Nine generations, the oldest of which names a blob that no other does; a pass has set it aside and taken stock of
  the blobs in use when a persist of a build with that very chunk runs.
\<close>

definition old_gen :: "int \<Rightarrow> (string \<times> fs_file) list \<Rightarrow> directory" where
  "old_gen t fs = \<lparr>dir_files = fmap_of_list fs, dir_modified = t\<rparr>"

definition race_world :: world where
  "race_world = demo_world
     \<lparr>store_files := fmap_of_list [(current_file, demo_file ''g9'')],
      store_dirs := fmap_of_list
        [(''g1'', old_gen 1 [(manifest_file_name, demo_file ''M'')]), (''g2'', old_gen 2 []), (''g3'', old_gen 3 []),
         (''g4'', old_gen 4 []), (''g5'', old_gen 5 []), (''g6'', old_gen 6 []), (''g7'', old_gen 7 []),
         (''g8'', old_gen 8 []), (''g9'', old_gen 9 []), (blobs_dir, old_gen 9 [(demo_hash ''run()'', demo_file ''run()'')])]\<rparr>"


end
