(* ===== verification/Bundle_Key.thy ===== *)
theory Bundle_Key
  imports Bundle_Store
begin

text \<open>
  What a bundle is keyed by besides its closure: the epoch of the application's root (\<^verbatim>\<open>start_bundle/epoch.rs\<close>) and the salt of
  the store (\<^verbatim>\<open>StartBundleStore::for_mode\<close>, \<^verbatim>\<open>keyed_by_files\<close>, \<^verbatim>\<open>keyed_by\<close>); and the messages of a miss. The root is given by what reading a
  name below it returns and which names are files, the environment by its variables in the order of their names.
\<close>

section \<open>The epoch\<close>

definition epoch_files :: "string \<Rightarrow> string list" where
  "epoch_files mode =
     [''package-lock.json'', ''yarn.lock'', ''pnpm-lock.yaml'', ''bun.lockb'', ''package.json'',
      ''vite.config.ts'', ''vite.config.js'', ''vite.config.mjs'', ''vite.config.mts'', ''vite.config.cjs'', ''vite.config.cts'',
      ''oj.config.ts'', ''oj.config.js'', ''oj.config.mjs'', ''oj.config.json'', ''.env'', ''.env.local'',
      ''.env.'' @ mode, ''.env.'' @ mode @ ''.local'']"

definition epoch_var :: "string \<Rightarrow> bool" where
  "epoch_var k \<longleftrightarrow> starts_with ''VITE_'' k \<or> k = ''TSS_SERVER_FN_BASE'' \<or> k = ''NODE_ENV''"

definition start_entries :: "string list" where
  "start_entries = map (\<lambda>ext. ''src/start'' @ ext) [''.ts'', ''.js'', ''.mts'', ''.mjs'', ''.tsx'', ''.jsx'']"

definition epoch_input ::
  "(string \<times> string) list \<Rightarrow> (string \<Rightarrow> bytes option) \<Rightarrow> (string \<Rightarrow> bool) \<Rightarrow> string \<Rightarrow> bytes" where
  "epoch_input env root_read root_file mode =
     concat (map (\<lambda>name. case root_read name of None \<Rightarrow> [] | Some b \<Rightarrow> name @ CHR 0x00 # b) (epoch_files mode)) @
     concat (map (\<lambda>(k, v). CHR 0x00 # ''e'' @ k @ CHR 0x00 # v) (filter (\<lambda>(k, v). epoch_var k) env)) @
     CHR 0x00 # ''start-entry'' @ CHR 0x00 # (case find root_file start_entries of None \<Rightarrow> [] | Some name \<Rightarrow> name)"

definition epoch_in ::
  "codecs \<Rightarrow> (string \<times> string) list \<Rightarrow> (string \<Rightarrow> bytes option) \<Rightarrow> (string \<Rightarrow> bool) \<Rightarrow> string \<Rightarrow> string" where
  "epoch_in C env root_read root_file mode = to_hex C (blake3 C (epoch_input env root_read root_file mode))"

section \<open>The salt\<close>

definition for_mode ::
  "codecs \<Rightarrow> (string \<times> string) list \<Rightarrow> (string \<Rightarrow> bytes option) \<Rightarrow> (string \<Rightarrow> bool) \<Rightarrow> string \<Rightarrow> verify_mode \<Rightarrow> string \<Rightarrow> bundle_store" where
  "for_mode C env root_read root_file tool_version mode_v mode =
     \<lparr>salt = tool_version @ '':'' @ show_radix 10 start_bundle_format @ '':start-bundle:'' @ mode @ '':'' @
        epoch_in C env root_read root_file mode,
      verify = mode_v\<rparr>"

definition new_store ::
  "codecs \<Rightarrow> (string \<times> string) list \<Rightarrow> (string \<Rightarrow> bytes option) \<Rightarrow> (string \<Rightarrow> bool) \<Rightarrow> string \<Rightarrow> verify_mode \<Rightarrow> bundle_store" where
  "new_store C env root_read root_file tool_version mode_v =
     for_mode C env root_read root_file tool_version mode_v ''development''"

text \<open>\<^verbatim>\<open>u64::to_le_bytes\<close>.\<close>

definition le_bytes :: "nat \<Rightarrow> bytes" where
  "le_bytes n = map (\<lambda>i. char_of (n div 256 ^ i mod 256)) [0..<8]"

fun file_fields :: "(string \<Rightarrow> bytes option) \<Rightarrow> string list \<Rightarrow> bytes" where
  "file_fields read [] = []"
| "file_fields read (f # fs) =
     f @ (case read f of None \<Rightarrow> [CHR 0x00] | Some b \<Rightarrow> CHR 0x01 # le_bytes (length b) @ b) @ file_fields read fs"

definition keyed_by_files :: "codecs \<Rightarrow> (string \<Rightarrow> bytes option) \<Rightarrow> string list \<Rightarrow> bundle_store \<Rightarrow> bundle_store" where
  "keyed_by_files C read files st =
     st\<lparr>salt := salt st @ '':inputs:'' @ to_hex C (blake3 C (file_fields read files))\<rparr>"

definition keyed_by :: "codecs \<Rightarrow> string \<Rightarrow> string \<Rightarrow> bundle_store \<Rightarrow> bundle_store" where
  "keyed_by C label val st = st\<lparr>salt := salt st @ '':'' @ label @ '':'' @ to_hex C (blake3 C val)\<rparr>"

section \<open>Messages\<close>

text \<open>\<^verbatim>\<open>str::get(..n)\<close>, or the whole string. The ellipsis is three bytes of UTF-8.\<close>

definition get_or_all :: "nat \<Rightarrow> string \<Rightarrow> string" where
  "get_or_all n s = (if length s = n \<or> (n < length s \<and> \<not> byte_in 128 191 (s ! n)) then take n s else s)"

definition ellipsis :: string where
  "ellipsis = [CHR 0xE2, CHR 0x80, CHR 0xA6]"

fun verify_error_text :: "string \<Rightarrow> verify_error \<Rightarrow> string" where
  "verify_error_text os_text Io = ''io: '' @ os_text"
| "verify_error_text os_text (WrongSize expected actual) =
     ''size mismatch: expected '' @ show_radix 10 expected @ '' B, found '' @ show_radix 10 actual @ '' B''"
| "verify_error_text os_text (WrongHash expected actual) =
     ''hash mismatch: expected '' @ get_or_all 12 expected @ ellipsis @ '', found '' @ get_or_all 12 actual @ ellipsis"

fun miss_text :: "string \<Rightarrow> miss \<Rightarrow> string" where
  "miss_text os_text NoPreviousBuild = ''no previous build''"
| "miss_text os_text ClosureUnreadable = ''previous closure unreadable''"
| "miss_text os_text (ClosureFileUnreadable p) = ''closure file unreadable: '' @ p"
| "miss_text os_text (NoEntryForKey k) = ''no cached bundle for key '' @ get_or_all 8 k @ ellipsis"
| "miss_text os_text (EntryCorrupt k) = ''cached entry '' @ get_or_all 8 k @ ellipsis @ '' corrupt, removed''"
| "miss_text os_text (ChunkCorrupt key name detail) =
     ''chunk '' @ name @ '' of entry '' @ get_or_all 8 key @ ellipsis @ '' failed verification ('' @
     verify_error_text os_text detail @ ''); entry removed''"
| "miss_text os_text (ArtifactWriteFailed name) = ''could not write restored artifact '' @ name"
| "miss_text os_text (GlobGrew p) = p @ '' is new to a bundled glob''"

section \<open>What the epoch depends on\<close>

text \<open>Unrelated variables and files, and the bytes of a start entry, leave the epoch alone.\<close>

lemma epoch_input_cong:
  assumes "filter (\<lambda>(k, v). epoch_var k) env = filter (\<lambda>(k, v). epoch_var k) env'"
    and "\<And>name. name \<in> set (epoch_files mode) \<Longrightarrow> read name = read' name"
    and "\<And>name. name \<in> set start_entries \<Longrightarrow> is_f name = is_f' name"
  shows "epoch_in C env read is_f mode = epoch_in C env' read' is_f' mode"
proof -
  have f: "find is_f ns = find is_f' ns" if "set ns \<subseteq> set start_entries" for ns
    using that assms(3) by (induction ns) auto
  have m: "map (\<lambda>name. case read name of None \<Rightarrow> [] | Some b \<Rightarrow> name @ CHR 0x00 # b) (epoch_files mode) =
      map (\<lambda>name. case read' name of None \<Rightarrow> [] | Some b \<Rightarrow> name @ CHR 0x00 # b) (epoch_files mode)"
    by (rule map_cong) (simp_all add: assms(2))
  show ?thesis unfolding epoch_in_def epoch_input_def assms(1) m f [OF subset_refl] ..
qed

text \<open>
  The names and contents of the epoch's files are hashed with nothing that marks where a file ends, so a file can
  pass for two: a lock file that goes on with the name and bytes of the next one gives the same epoch.
\<close>

lemma epoch_ambiguous:
  "epoch_in C env (\<lambda>n. if n = ''package-lock.json'' then Some ''x'' else if n = ''yarn.lock'' then Some ''y'' else None) is_f mode =
   epoch_in C env (\<lambda>n. if n = ''package-lock.json'' then Some (''xyarn.lock'' @ CHR 0x00 # ''y'') else None) is_f mode"
  by (simp add: epoch_in_def epoch_input_def epoch_files_def)

text \<open>
  Lengths make the fields of \<^verbatim>\<open>keyed_by_files\<close> unambiguous: for the same list of files the bytes hashed determine what
  every one of them reads as.
\<close>

lemma le_bytes_length [simp]: "length (le_bytes n) = 8"
  by (simp add: le_bytes_def)

lemma le_bytes_inject: "le_bytes m = le_bytes n \<Longrightarrow> m < 2 ^ 64 \<Longrightarrow> n < 2 ^ 64 \<Longrightarrow> m = n"
proof -
  have val: "(\<Sum>i < 8. of_char (le_bytes n ! i) * 256 ^ i) = n" if "n < 2 ^ 64" for n :: nat
  proof -
    have "(\<Sum>i < k. (n div 256 ^ i mod 256) * 256 ^ i) = n mod 256 ^ k" for k
    proof (induction k)
      case (Suc k)
      have "n mod 256 ^ Suc k = n mod 256 ^ k + (n div 256 ^ k mod 256) * 256 ^ k"
        using mod_mult2_eq [of n "256 ^ k" 256] by (simp add: ac_simps)
      with Suc show ?case by simp
    qed simp
    note this [of 8]
    also have "n mod 256 ^ 8 = n" by (rule mod_less) (use that in simp)
    finally have "(\<Sum>i < 8. (n div 256 ^ i mod 256) * 256 ^ i) = n" .
    moreover have "of_char (le_bytes n ! i) = n div 256 ^ i mod 256" if "i < 8" for i
      using that by (simp add: le_bytes_def)
    then have "(\<Sum>i < 8. of_char (le_bytes n ! i) * 256 ^ i) = (\<Sum>i < 8. (n div 256 ^ i mod 256) * 256 ^ i)"
      by (intro sum.cong) (simp_all only: lessThan_iff)
    ultimately show ?thesis by (simp only:)
  qed
  show "le_bytes m = le_bytes n \<Longrightarrow> m < 2 ^ 64 \<Longrightarrow> n < 2 ^ 64 \<Longrightarrow> m = n" using val [of m] val [of n] by metis
qed

lemma file_fields_inject:
  assumes "file_fields read files = file_fields read' files"
    and "\<And>f b. read f = Some b \<or> read' f = Some b \<Longrightarrow> length b < 2 ^ 64" and "f \<in> set files"
  shows "read f = read' f"
  using assms(1,3)
proof (induction files)
  case (Cons g files)
  have "read g = read' g \<and> file_fields read files = file_fields read' files"
  proof (cases "read g"; cases "read' g")
    fix b b' assume b: "read g = Some b" "read' g = Some b'"
    then have "le_bytes (length b) @ b @ file_fields read files = le_bytes (length b') @ b' @ file_fields read' files"
      using Cons.prems(1) by simp
    then have "le_bytes (length b) = le_bytes (length b')" and rest: "b @ file_fields read files = b' @ file_fields read' files" by auto
    with le_bytes_inject assms(2) b have "length b = length b'" by blast
    with rest b show ?thesis by simp
  qed (use Cons.prems(1) in auto)
  with Cons show ?case by auto
qed simp

end
