(* ===== verification/Css_Value.thy ===== *)
theory Css_Value
  imports Std_Str
begin

text \<open>
  The tokenizer of CSS values, \<^verbatim>\<open>crates/oj_stylex/src/shared/css_value.rs\<close>. The parser keeps the code's state: the bytes, a
  position, the nodes read so far and the stack of open functions, whose innermost function comes first here. A string or a
  \<^verbatim>\<open>url(\<close> that is not closed extends the buffer by the missing byte, while the bound of the loop stays the length of
  the input. Tokens are cut at ASCII bytes, so the conversion of a slice to \<^verbatim>\<open>String\<close> is the identity.

  The main fact is that printing undoes parsing: no byte of a value is lost, whatever its form, except in a
  comment that is closed by the star that opens it.
\<close>

section \<open>Nodes\<close>

datatype kind = KWord | KSpace | KDiv | KStr | KComment | KFunc | KUnicodeRange

datatype node =
  Node (n_kind: kind) (n_value: string) (source_index: nat) (source_end_index: nat) (before: string) (after: string)
    (quote: char) (unclosed: bool) (nodes: "node list")

definition leaf :: "kind \<Rightarrow> string \<Rightarrow> nat \<Rightarrow> nat \<Rightarrow> node" where
  "leaf k v i j = Node k v i j [] [] (CHR 0x00) False []"

definition add_node :: "node \<Rightarrow> node \<Rightarrow> node" where
  "add_node n f = (case f of Node k v i j b a q u ns \<Rightarrow> Node k v i j b a q u (ns @ [n]))"

definition map_last :: "('a \<Rightarrow> 'a) \<Rightarrow> 'a list \<Rightarrow> 'a list" where
  "map_last f xs = (if xs = [] then [] else butlast xs @ [f (last xs)])"

section \<open>Searching\<close>

definition is_space :: "char \<Rightarrow> bool" where
  "is_space c \<longleftrightarrow> of_char c \<le> (32 :: nat)"

definition byte_at :: "string \<Rightarrow> nat \<Rightarrow> char option" where
  "byte_at v i = (if i < length v then Some (v ! i) else None)"

text \<open>The bytes from \<open>i\<close> up to \<open>j\<close>.\<close>

definition byte_slice :: "string \<Rightarrow> nat \<Rightarrow> nat \<Rightarrow> string" where
  "byte_slice v i j = take (j - i) (drop i v)"

definition spaces_end :: "string \<Rightarrow> nat \<Rightarrow> nat" where
  "spaces_end v i = i + length (takeWhile is_space (drop i v))"

definition find_byte :: "string \<Rightarrow> char \<Rightarrow> nat \<Rightarrow> nat option" where
  "find_byte v c i =
     (let j = i + length (takeWhile (\<lambda>x. x \<noteq> c) (drop i v)) in if j < length v then Some j else None)"

definition find_subslice :: "string \<Rightarrow> string \<Rightarrow> nat \<Rightarrow> nat option" where
  "find_subslice v p i =
     (if length v \<le> i then None else map_option (\<lambda>(a, _). i + length a) (split_once_str p (drop i v)))"

definition escaped :: "string \<Rightarrow> nat \<Rightarrow> bool" where
  "escaped v i \<longleftrightarrow> odd (length (takeWhile (\<lambda>c. c = CHR 0x5C) (rev (take i v))))"

lemma find_byte_bound: "find_byte v c i = Some j \<Longrightarrow> i \<le> j \<and> j < length v"
  by (auto simp: find_byte_def Let_def split: if_splits)

text \<open>The first closing byte from \<open>i\<close> on that is not escaped.\<close>

function closer :: "string \<Rightarrow> char \<Rightarrow> nat \<Rightarrow> nat option" where
  "closer v c i =
     (case find_byte v c i of
        None \<Rightarrow> None
      | Some j \<Rightarrow> if escaped v j then closer v c (j + 1) else Some j)"
  by auto
termination
  by (relation "measure (\<lambda>(v, c, i). length v - i)") (auto dest!: find_byte_bound)

declare closer.simps [simp del]

definition is_hexdigit :: "char \<Rightarrow> bool" where
  "is_hexdigit c \<longleftrightarrow> byte_in 48 57 c \<or> byte_in 97 102 c \<or> byte_in 65 70 c"

definition is_unicode_range :: "string \<Rightarrow> bool" where
  "is_unicode_range token \<longleftrightarrow>
     2 < length token \<and> (hd token = CHR ''u'' \<or> hd token = CHR ''U'') \<and> token ! 1 = CHR ''+'' \<and>
     list_all (\<lambda>c. is_hexdigit c \<or> c = CHR ''?'' \<or> c = CHR ''-'') (drop 2 token)"

section \<open>The parser\<close>

record parser =
  buf :: string
  pos :: nat
  root :: "node list"
  stack :: "node list"
  entered_function :: bool
  fun_name :: string
  before_pending :: string
  after_pending :: string

definition start :: "string \<Rightarrow> parser" where
  "start input = \<lparr>buf = input, pos = 0, root = [], stack = [], entered_function = False, fun_name = [],
     before_pending = [], after_pending = []\<rparr>"

text \<open>\<^verbatim>\<open>tokens\<close>: the list that nodes are added to, as a value and as a place.\<close>

definition cur_tokens :: "parser \<Rightarrow> node list" where
  "cur_tokens p = (case stack p of [] \<Rightarrow> root p | f # _ \<Rightarrow> nodes f)"

definition push_node :: "node \<Rightarrow> parser \<Rightarrow> parser" where
  "push_node n p =
     (case stack p of
        [] \<Rightarrow> p\<lparr>root := root p @ [n]\<rparr>
      | f # fs \<Rightarrow> p\<lparr>stack := add_node n f # fs\<rparr>)"

definition on_last :: "(node \<Rightarrow> node) \<Rightarrow> parser \<Rightarrow> parser" where
  "on_last g p =
     (case stack p of
        [] \<Rightarrow> p\<lparr>root := map_last g (root p)\<rparr>
      | Node k v i j b a q u ns # fs \<Rightarrow> p\<lparr>stack := Node k v i j b a q u (map_last g ns) # fs\<rparr>)"

definition in_calc :: "parser \<Rightarrow> bool" where
  "in_calc p \<longleftrightarrow> (case stack p of [] \<Rightarrow> False | f # _ \<Rightarrow> n_value f = ''calc'')"

definition slash_takes_before :: "parser \<Rightarrow> bool" where
  "slash_takes_before p \<longleftrightarrow> (case stack p of f # _ \<Rightarrow> n_value f \<noteq> ''calc'' | [] \<Rightarrow> \<not> entered_function p)"

definition take_after :: "string \<Rightarrow> node \<Rightarrow> node" where
  "take_after t n =
     (case n of Node k v i j b a q u ns \<Rightarrow> Node k v i (j + length t) b t q u ns)"

definition parse_space :: "parser \<Rightarrow> parser" where
  "parse_space p =
     (let v = buf p;
          next = spaces_end v (pos p + 1);
          token = byte_slice v (pos p) next;
          code = byte_at v next;
          cur = cur_tokens p
      in (if code = Some CHR '')'' \<and> stack p \<noteq> [] then p\<lparr>after_pending := token\<rparr>
          else if cur \<noteq> [] \<and> n_kind (last cur) = KDiv then on_last (take_after token) p
          else if code = Some CHR '','' \<or> code = Some CHR '':'' \<or>
                  (code = Some CHR ''/'' \<and> byte_at v (next + 1) \<noteq> Some CHR ''*'' \<and> slash_takes_before p)
          then p\<lparr>before_pending := token\<rparr>
          else push_node (leaf KSpace token (pos p) next) p)\<lparr>pos := next\<rparr>)"

definition parse_string :: "char \<Rightarrow> parser \<Rightarrow> parser" where
  "parse_string q p =
     (case closer (buf p) q (pos p + 1) of
        Some next \<Rightarrow>
          (push_node (Node KStr (byte_slice (buf p) (pos p + 1) next) (pos p) (next + 1) [] [] q False []) p)\<lparr>pos := next + 1\<rparr>
      | None \<Rightarrow>
          (let next = length (buf p); v = buf p @ [q] in
           (push_node (Node KStr (byte_slice v (pos p + 1) next) (pos p) next [] [] q True []) p)\<lparr>buf := v, pos := next + 1\<rparr>))"

definition parse_comment :: "parser \<Rightarrow> parser" where
  "parse_comment p =
     (let v = buf p;
          found = find_subslice v ''*/'' (pos p);
          next = (case found of Some i \<Rightarrow> i | None \<Rightarrow> length v);
          end_index = (case found of Some i \<Rightarrow> i + 2 | None \<Rightarrow> length v);
          text = (if pos p + 2 < next then byte_slice v (pos p + 2) next else [])
      in (push_node (Node KComment text (pos p) end_index [] [] (CHR 0x00) (found = None) []) p)\<lparr>pos := next + 2\<rparr>)"

definition parse_operator :: "char \<Rightarrow> parser \<Rightarrow> parser" where
  "parse_operator c p =
     (push_node (leaf KWord [c] (pos p - length (before_pending p)) (pos p + 1)) p)\<lparr>pos := pos p + 1\<rparr>"

definition parse_div :: "char \<Rightarrow> parser \<Rightarrow> parser" where
  "parse_div c p =
     (push_node (Node KDiv [c] (pos p - length (before_pending p)) (pos p + 1) (before_pending p) [] (CHR 0x00) False []) p)
       \<lparr>before_pending := [], pos := pos p + 1\<rparr>"

text \<open>An unquoted \<^verbatim>\<open>url(\<close>: raw bytes up to its closing parenthesis, without the spaces before it.\<close>

definition url_end :: "string \<Rightarrow> nat \<Rightarrow> nat" where
  "url_end v i = i - length (takeWhile is_space (rev (take i v)))"

definition parse_url :: "nat \<Rightarrow> parser \<Rightarrow> parser" where
  "parse_url next p =
     (let paren_open = pos p;
          found = closer (buf p) CHR '')'' next;
          unc = (found = None);
          next2 = (case found of Some j \<Rightarrow> j | None \<Rightarrow> length (buf p));
          v = (if unc then buf p @ '')'' else buf p);
          stop = url_end v next2;
          words = (if next \<noteq> stop then [leaf KWord (byte_slice v next stop) next stop] else []);
          gap = byte_slice v stop next2;
          body = (if paren_open + 1 < stop
                  then (if unc \<and> stop \<noteq> next2 then (words @ [leaf KSpace gap stop next2], []) else (words, gap))
                  else ([], []))
      in (push_node (Node KFunc (fun_name p) (paren_open - length (fun_name p)) (if unc then next2 else next2 + 1)
            (byte_slice (buf p) (paren_open + 1) next) (snd body) (CHR 0x00) unc (fst body)) p)
         \<lparr>buf := v, fun_name := [], pos := next2 + 1\<rparr>)"

definition parse_open :: "parser \<Rightarrow> parser" where
  "parse_open p =
     (let v = buf p;
          next = spaces_end v (pos p + 1);
          code = byte_at v next
      in if fun_name p = ''url'' \<and> code \<noteq> Some CHR 0x27 \<and> code \<noteq> Some CHR 0x22 then parse_url next p
         else p\<lparr>stack := Node KFunc (fun_name p) (pos p - length (fun_name p)) (next + 1) (byte_slice v (pos p + 1) next) []
                  (CHR 0x00) False [] # stack p,
                fun_name := [], entered_function := True, pos := next\<rparr>)"

definition parse_close :: "parser \<Rightarrow> parser" where
  "parse_close p =
     (case stack p of
        Node k v i j b a q u ns # fs \<Rightarrow>
          push_node (Node k v i (pos p + 1) b (after_pending p) q u ns)
            (p\<lparr>stack := fs, after_pending := [], pos := pos p + 1\<rparr>)
      | [] \<Rightarrow> p)"

text \<open>A word ends at a byte that starts another token; a backslash takes the next byte with it.\<close>

definition breaks_word :: "bool \<Rightarrow> bool \<Rightarrow> char \<Rightarrow> bool" where
  "breaks_word calc in_function c \<longleftrightarrow>
     is_space c \<or> c \<in> {CHR 0x27, CHR 0x22, CHR '','', CHR '':'', CHR ''/'', CHR ''(''} \<or>
     (c = CHR ''*'' \<and> calc) \<or> (c = CHR '')'' \<and> in_function)"

function word_end :: "bool \<Rightarrow> bool \<Rightarrow> string \<Rightarrow> nat \<Rightarrow> nat \<Rightarrow> nat" where
  "word_end calc in_function v maxi i =
     (let next = (if byte_at v i = Some CHR 0x5C then i + 2 else i + 1) in
      if maxi \<le> next then next
      else (case byte_at v next of
              None \<Rightarrow> next
            | Some c \<Rightarrow> if breaks_word calc in_function c then next else word_end calc in_function v maxi next))"
  by auto
termination
  by (relation "measure (\<lambda>(calc, f, v, maxi, i). maxi - i)") auto

declare word_end.simps [simp del]

definition parse_word :: "nat \<Rightarrow> parser \<Rightarrow> parser" where
  "parse_word maxi p =
     (let v = buf p;
          next = word_end (in_calc p) (stack p \<noteq> []) v maxi (pos p);
          token = byte_slice v (pos p) (min next (length v))
      in (if byte_at v next = Some CHR ''('' then p\<lparr>fun_name := token\<rparr>
          else if is_unicode_range token then push_node (leaf KUnicodeRange token (pos p) next) p
          else push_node (leaf KWord token (pos p) next) p)\<lparr>pos := next\<rparr>)"

definition parse_step :: "nat \<Rightarrow> parser \<Rightarrow> parser" where
  "parse_step maxi p =
     (let code = buf p ! pos p; following = byte_at (buf p) (pos p + 1) in
      if is_space code then parse_space p
      else if code = CHR 0x27 \<or> code = CHR 0x22 then parse_string code p
      else if code = CHR ''/'' \<and> following = Some CHR ''*'' then parse_comment p
      else if (code = CHR ''/'' \<or> code = CHR ''*'') \<and> in_calc p then parse_operator code p
      else if code = CHR ''/'' \<or> code = CHR '','' \<or> code = CHR '':'' then parse_div code p
      else if code = CHR ''('' then parse_open p
      else if code = CHR '')'' \<and> stack p \<noteq> [] then parse_close p
      else parse_word maxi p)"

text \<open>Every step moves on.\<close>

lemma pos_push_node [simp]: "pos (push_node n p) = pos p" "buf (push_node n p) = buf p" "fun_name (push_node n p) = fun_name p"
  "before_pending (push_node n p) = before_pending p" "after_pending (push_node n p) = after_pending p"
  by (simp_all add: push_node_def split: list.split)

lemma pos_on_last [simp]: "pos (on_last g p) = pos p" "buf (on_last g p) = buf p" "fun_name (on_last g p) = fun_name p"
  "before_pending (on_last g p) = before_pending p" "after_pending (on_last g p) = after_pending p"
  by (simp_all add: on_last_def split: list.split node.split)

lemma closer_bound: "closer v c i = Some j \<Longrightarrow> i \<le> j \<and> j < length v"
proof (induction v c i rule: closer.induct)
  case (1 v c i)
  then show ?case
    by (subst (asm) (2) closer.simps) (auto split: option.splits if_splits dest: find_byte_bound)
qed

lemma word_end_gt: "i < word_end calc f v maxi i"
proof (induction calc f v maxi i rule: word_end.induct)
  case (1 calc f v maxi i)
  let ?next = "if byte_at v i = Some CHR 0x5C then i + 2 else i + 1"
  show ?case
  proof (cases "\<exists>c. byte_at v ?next = Some c \<and> \<not> breaks_word calc f c \<and> ?next < maxi")
    case True
    then obtain c where c: "byte_at v ?next = Some c" "\<not> breaks_word calc f c" "?next < maxi" by blast
    then have "word_end calc f v maxi i = word_end calc f v maxi ?next"
      by (subst word_end.simps) (simp add: Let_def)
    moreover have "?next < word_end calc f v maxi ?next"
      using "1.IH" [OF refl _ c(1,2)] c(3) by simp
    moreover have "i < ?next" by simp
    ultimately show ?thesis by linarith
  next
    case False
    then have "word_end calc f v maxi i = ?next"
      by (subst word_end.simps) (auto simp: Let_def split: option.split)
    then show ?thesis by simp
  qed
qed

lemma find_subslice_sound:
  assumes "find_subslice v s i = Some j"
  obtains a b where "drop i v = a @ s @ b" "j = i + length a" "i < length v" "split_once_str s (drop i v) = Some (a, b)"
proof -
  from assms obtain a b where ab: "split_once_str s (drop i v) = Some (a, b)" "j = i + length a" "i < length v"
    by (auto simp: find_subslice_def split: if_splits)
  from that [OF split_once_str_sound [OF ab(1)] ab(2,3,1)] show thesis .
qed

lemma find_subslice_bound:
  assumes "find_subslice v s i = Some j"
  shows "i \<le> j \<and> j + length s \<le> length v"
proof -
  obtain a b where "drop i v = a @ s @ b" "j = i + length a" "i < length v" by (rule find_subslice_sound [OF assms])
  from this(2,3) arg_cong [OF this(1), of length] show ?thesis by simp
qed

lemma parse_step_pos:
  assumes "pos p < length (buf p)"
  shows "pos p < pos (parse_step maxi p)"
proof -
  have spaces: "i \<le> spaces_end v i" for v i by (simp add: spaces_end_def)
  have "pos p < pos (parse_space p)" using spaces [of "pos p + 1" "buf p"] by (simp add: parse_space_def Let_def)
  moreover have "pos p < pos (parse_string q p)" for q
    using assms by (auto simp: parse_string_def Let_def split: option.split dest: closer_bound)
  moreover have "pos p < pos (parse_comment p)"
    using assms by (auto simp: parse_comment_def Let_def split: option.split dest: find_subslice_bound)
  moreover have "pos p < pos (parse_operator c p)" "pos p < pos (parse_div c p)" for c
    by (simp_all add: parse_operator_def parse_div_def)
  moreover have "pos p < pos (parse_open p)"
    using assms spaces [of "pos p + 1" "buf p"]
    by (auto simp: parse_open_def parse_url_def Let_def split: option.split dest: closer_bound)
  moreover have "stack p \<noteq> [] \<Longrightarrow> pos p < pos (parse_close p)"
    by (simp add: parse_close_def split: list.split node.split)
  moreover have "pos p < pos (parse_word maxi p)" by (simp add: parse_word_def Let_def word_end_gt)
  ultimately show ?thesis by (simp add: parse_step_def Let_def)
qed

lemma buf_grows: "length (buf p) \<le> length (buf (parse_step maxi p))"
proof -
  have "buf (parse_space p) = buf p" "buf (parse_comment p) = buf p" "buf (parse_word maxi p) = buf p"
    by (simp_all add: parse_space_def parse_comment_def parse_word_def Let_def)
  moreover have "buf (parse_operator c p) = buf p" "buf (parse_div c p) = buf p" for c
    by (simp_all add: parse_operator_def parse_div_def)
  moreover have "length (buf p) \<le> length (buf (parse_string q p))" for q
    by (simp add: parse_string_def Let_def split: option.split)
  moreover have "length (buf p) \<le> length (buf (parse_open p))" by (simp add: parse_open_def parse_url_def Let_def)
  moreover have "buf (parse_close p) = buf p" by (simp add: parse_close_def split: list.split node.split)
  ultimately show ?thesis by (simp add: parse_step_def Let_def)
qed

text \<open>The buffer only grows, so that a position below the bound is always inside it.\<close>

function parse_loop :: "nat \<Rightarrow> parser \<Rightarrow> parser" where
  "parse_loop maxi p =
     (if pos p < maxi \<and> pos p < length (buf p) then parse_loop maxi (parse_step maxi p) else p)"
  by auto
termination
  by (relation "measure (\<lambda>(maxi, p). maxi - pos p)") (auto dest: parse_step_pos [of _ maxi for maxi] intro!: diff_less_mono2)

declare parse_loop.simps [simp del]

text \<open>At the end of the input the functions still open are closed, the innermost first.\<close>

function close_open :: "parser \<Rightarrow> node list" where
  "close_open p =
     (case stack p of
        [] \<Rightarrow> root p
      | Node k v i j b a q u ns # fs \<Rightarrow> close_open (push_node (Node k v i (length (buf p)) b a q True ns) (p\<lparr>stack := fs\<rparr>)))"
  by auto
termination
  by (relation "measure (\<lambda>p. length (stack p))") (auto simp: push_node_def split: list.split)

declare close_open.simps [simp del]

definition parse :: "string \<Rightarrow> node list" where
  "parse input = close_open (parse_loop (length input) (start input))"

section \<open>Printing\<close>

fun stringify_node :: "node \<Rightarrow> string" where
  "stringify_node (Node k v i j b a q u ns) =
     (case k of
        KWord \<Rightarrow> v | KSpace \<Rightarrow> v | KUnicodeRange \<Rightarrow> v
      | KStr \<Rightarrow> q # v @ (if u then [] else [q])
      | KComment \<Rightarrow> ''/*'' @ v @ (if u then [] else ''*/'')
      | KDiv \<Rightarrow> b @ v @ a
      | KFunc \<Rightarrow> v @ ''('' @ b @ concat (map stringify_node ns) @ a @ (if u then [] else '')''))"

definition stringify :: "node list \<Rightarrow> string" where
  "stringify ns = concat (map stringify_node ns)"

section \<open>Printing undoes parsing\<close>

lemma slice_take: "i \<le> j \<Longrightarrow> take i v @ byte_slice v i j = take j v"
  by (metis add_diff_inverse_nat linorder_not_less byte_slice_def take_add)

lemma slice_join: "i \<le> j \<Longrightarrow> j \<le> k \<Longrightarrow> byte_slice v i j @ byte_slice v j k = byte_slice v i k"
  by (auto simp: byte_slice_def take_add [symmetric] le_iff_add add.commute [of _ i] simp flip: drop_drop)
    (metis add.commute drop_drop take_add)

lemma slice_Cons: "i < j \<Longrightarrow> i < length v \<Longrightarrow> byte_slice v i j = v ! i # byte_slice v (i + 1) j"
  by (simp add: byte_slice_def Cons_nth_drop_Suc [symmetric] take_Cons' Suc_diff_le)

lemma slice_self [simp]: "byte_slice v i i = []"
  by (simp add: byte_slice_def)

lemma slice_all: "length v \<le> j \<Longrightarrow> byte_slice v i j = drop i v"
  by (simp add: byte_slice_def)

lemma slice_snoc_buf: "j \<le> length v \<Longrightarrow> byte_slice (v @ w) i j = byte_slice v i j"
  by (cases "i \<le> length v") (auto simp: byte_slice_def)

lemma byte_at_Some: "byte_at v i = Some c \<longleftrightarrow> i < length v \<and> v ! i = c"
  by (auto simp: byte_at_def)

lemma spaces_end_props:
  "i \<le> spaces_end v i" "i \<le> length v \<Longrightarrow> spaces_end v i \<le> length v"
  "byte_at v (spaces_end v i) = Some c \<Longrightarrow> \<not> is_space c"
  "i \<le> j \<Longrightarrow> j < spaces_end v i \<Longrightarrow> is_space (v ! j)"
proof -
  show "i \<le> length v \<Longrightarrow> spaces_end v i \<le> length v"
    using length_takeWhile_le [of is_space "drop i v"] by (simp add: spaces_end_def)
  show "byte_at v (spaces_end v i) = Some c \<Longrightarrow> \<not> is_space c"
    using nth_length_takeWhile [of is_space "drop i v"] by (auto simp: byte_at_def spaces_end_def split: if_splits)
  show "is_space (v ! j)" if "i \<le> j" "j < spaces_end v i"
  proof -
    have lt: "j - i < length (takeWhile is_space (drop i v))" using that by (simp add: spaces_end_def)
    then have "is_space (takeWhile is_space (drop i v) ! (j - i))" by (meson nth_mem set_takeWhileD)
    moreover have "i \<le> length v" using lt length_takeWhile_le [of is_space "drop i v"] by simp
    ultimately show ?thesis using lt that(1) by (simp add: takeWhile_nth)
  qed
qed (simp add: spaces_end_def)

lemma url_end_props:
  assumes "i \<le> length v"
  shows "url_end v i \<le> i" "0 < url_end v i \<Longrightarrow> \<not> is_space (v ! (url_end v i - 1))"
    "url_end v i \<le> j \<Longrightarrow> j < i \<Longrightarrow> is_space (v ! j)"
proof -
  let ?r = "rev (take i v)" let ?k = "length (takeWhile is_space ?r)"
  have len: "length ?r = i" using assms by simp
  have k: "?k \<le> i" using length_takeWhile_le [of is_space ?r] len by simp
  show "\<not> is_space (v ! (url_end v i - 1))" if "0 < url_end v i"
  proof -
    have "?k < i" using that by (simp add: url_end_def)
    then have "\<not> is_space (?r ! ?k)" using nth_length_takeWhile [of is_space ?r] len by simp
    then show ?thesis using \<open>?k < i\<close> assms by (simp add: rev_nth url_end_def min_absorb2)
  qed
  show "is_space (v ! j)" if "url_end v i \<le> j" "j < i"
  proof -
    have lt: "i - Suc j < ?k" using that k by (simp add: url_end_def)
    then have "is_space (takeWhile is_space ?r ! (i - Suc j))" by (meson nth_mem set_takeWhileD)
    then show ?thesis using lt that(2) assms by (simp add: takeWhile_nth rev_nth min_absorb2 Suc_diff_Suc)
  qed
qed (simp add: url_end_def)

text \<open>What a parser has read, printed: the nodes of the root and the open functions.\<close>

definition open_print :: "node \<Rightarrow> string" where
  "open_print f = n_value f @ ''('' @ before f @ stringify (nodes f)"

definition printed :: "parser \<Rightarrow> string" where
  "printed p = stringify (root p) @ concat (map open_print (rev (stack p)))"

lemma stringify_append [simp]: "stringify [] = []" "stringify (ms @ ns) = stringify ms @ stringify ns"
  "stringify [n] = stringify_node n"
  by (simp_all add: stringify_def)

lemma printed_updates [simp]:
  "printed (p\<lparr>pos := i\<rparr>) = printed p" "printed (p\<lparr>buf := v\<rparr>) = printed p" "printed (p\<lparr>fun_name := s\<rparr>) = printed p"
  "printed (p\<lparr>before_pending := s\<rparr>) = printed p" "printed (p\<lparr>after_pending := s\<rparr>) = printed p"
  "printed (p\<lparr>entered_function := e\<rparr>) = printed p"
  by (simp_all add: printed_def)

lemma printed_push [simp]: "printed (push_node n p) = printed p @ stringify_node n"
  by (simp add: printed_def push_node_def open_print_def add_node_def split: list.split node.split)

lemma printed_on_last:
  assumes "cur_tokens p \<noteq> []" "n_kind (last (cur_tokens p)) = KDiv" "after (last (cur_tokens p)) = []"
  shows "printed (on_last (take_after t) p) = printed p @ t"
proof -
  have "stringify (map_last (take_after t) ns) = stringify ns @ t"
    if "ns \<noteq> []" "n_kind (last ns) = KDiv" "after (last ns) = []" for ns
  proof -
    have "stringify ns = stringify (butlast ns) @ stringify_node (last ns)"
      by (metis append_butlast_last_id stringify_append(2,3) that(1))
    with that show ?thesis by (cases "last ns") (simp add: map_last_def take_after_def)
  qed
  with assms show ?thesis
    by (auto simp: printed_def on_last_def cur_tokens_def open_print_def split: list.splits node.split)
qed

text \<open>Bytes that are read but not yet part of a node, and the byte that must follow them.\<close>

definition pending_ok :: "string \<Rightarrow> parser \<Rightarrow> bool" where
  "pending_ok v p \<longleftrightarrow>
     (let c = byte_at v (pos p) in
      fun_name p = [] \<and> before_pending p = [] \<and> after_pending p = [] \<or>
      before_pending p = [] \<and> after_pending p = [] \<and> c = Some CHR ''('' \<or>
      fun_name p = [] \<and> after_pending p = [] \<and>
        (c = Some CHR '','' \<or> c = Some CHR '':'' \<or> c = Some CHR ''/'' \<and> byte_at v (pos p + 1) \<noteq> Some CHR ''*'' \<and> \<not> in_calc p) \<or>
      fun_name p = [] \<and> before_pending p = [] \<and> c = Some CHR '')'' \<and> stack p \<noteq> [])"

definition open_func :: "node \<Rightarrow> bool" where
  "open_func f \<longleftrightarrow> n_kind f = KFunc \<and> after f = [] \<and> \<not> unclosed f"

definition div_done :: "string \<Rightarrow> parser \<Rightarrow> bool" where
  "div_done v p \<longleftrightarrow>
     (cur_tokens p \<noteq> [] \<and> n_kind (last (cur_tokens p)) = KDiv \<and> after (last (cur_tokens p)) \<noteq> [] \<longrightarrow>
      (\<forall>c. byte_at v (pos p) = Some c \<longrightarrow> \<not> is_space c))"

definition faithful :: "string \<Rightarrow> parser \<Rightarrow> bool" where
  "faithful v p \<longleftrightarrow>
     (pos p < length v \<longrightarrow> buf p = v) \<and> length v \<le> length (buf p) \<and> list_all open_func (stack p) \<and> div_done v p \<and> pending_ok v p \<and>
     printed p @ fun_name p @ before_pending p @ after_pending p = take (pos p) v"

lemma cur_push [simp]: "cur_tokens (push_node n p) = cur_tokens p @ [n]"
  by (simp add: cur_tokens_def push_node_def add_node_def split: list.split node.split)

lemma open_push: "list_all open_func (stack p) \<Longrightarrow> list_all open_func (stack (push_node n p))"
  by (auto simp: push_node_def open_func_def add_node_def split: list.split node.split)

lemma cur_updates [simp]:
  "cur_tokens (p\<lparr>pos := i\<rparr>) = cur_tokens p" "cur_tokens (p\<lparr>buf := b\<rparr>) = cur_tokens p" "cur_tokens (p\<lparr>fun_name := s\<rparr>) = cur_tokens p"
  "cur_tokens (p\<lparr>before_pending := s\<rparr>) = cur_tokens p" "cur_tokens (p\<lparr>after_pending := s\<rparr>) = cur_tokens p"
  by (simp_all add: cur_tokens_def split: list.split)

text \<open>A node whose text is the next byte_slice of the input, with what was pending in it.\<close>

lemma faithful_push:
  assumes "faithful v p" and nx: "pos p \<le> next" and tx: "stringify_node n = fun_name p @ before_pending p @ after_pending p @ byte_slice v (pos p) next"
    and div: "n_kind n = KDiv \<Longrightarrow> after n = []" and buf: "next < length v \<Longrightarrow> b = v" "length v \<le> length b"
  shows "faithful v ((push_node n p)\<lparr>buf := b, fun_name := [], before_pending := [], after_pending := [], pos := next\<rparr>)"
proof -
  have "take next v = printed p @ stringify_node n"
    using assms(1) slice_take [OF nx, of v] unfolding faithful_def tx by (metis append.assoc)
  then show ?thesis
    using assms(1) div buf open_push [of p n]
    by (auto simp: faithful_def div_done_def pending_ok_def)
qed

text \<open>The bytes at which nothing is pending.\<close>

lemma pending_none:
  assumes "faithful v p" "pos p < length v" "v ! pos p \<notin> {CHR ''('', CHR '','', CHR '':'', CHR '')''}"
    "v ! pos p = CHR ''/'' \<Longrightarrow> byte_at v (pos p + 1) = Some CHR ''*'' \<or> in_calc p"
  shows "fun_name p = [] \<and> before_pending p = [] \<and> after_pending p = [] \<and> buf p = v"
  using assms by (auto simp: faithful_def pending_ok_def byte_at_def)

lemma is_space_not [simp]: "is_space c \<Longrightarrow> c \<noteq> CHR ''('' \<and> c \<noteq> CHR '','' \<and> c \<noteq> CHR '':'' \<and> c \<noteq> CHR '')'' \<and> c \<noteq> CHR ''/''"
  by (auto simp: is_space_def)

lemma faithful_space:
  assumes f: "faithful v p" and p: "pos p < length v" "is_space (v ! pos p)"
  shows "faithful v (parse_space p)"
proof -
  have none: "fun_name p = []" "before_pending p = []" "after_pending p = []" "buf p = v"
    using pending_none [OF f p(1)] is_space_not [OF p(2)] by auto
  define nx_pos where "nx_pos = spaces_end v (pos p + 1)"
  define token where "token = byte_slice v (pos p) nx_pos"
  have nx: "pos p < nx_pos" "nx_pos \<le> length v" "\<And>c. byte_at v nx_pos = Some c \<Longrightarrow> \<not> is_space c"
    using spaces_end_props [where v = v and i = "pos p + 1"] p(1) by (auto simp: nx_pos_def)
  have print: "printed p @ token = take nx_pos v"
    using f slice_take [of "pos p" nx_pos v] nx(1) none by (simp add: faithful_def token_def)
  have opened: "list_all open_func (stack p)" using f by (simp add: faithful_def)
  note step = parse_space_def [of p, unfolded Let_def none(4), folded nx_pos_def token_def]
  consider (close) "byte_at v nx_pos = Some CHR '')''" "stack p \<noteq> []"
    | (div) "\<not> (byte_at v nx_pos = Some CHR '')'' \<and> stack p \<noteq> [])" "cur_tokens p \<noteq> []" "n_kind (last (cur_tokens p)) = KDiv"
    | (before) "\<not> (byte_at v nx_pos = Some CHR '')'' \<and> stack p \<noteq> [])" "\<not> (cur_tokens p \<noteq> [] \<and> n_kind (last (cur_tokens p)) = KDiv)"
        "byte_at v nx_pos = Some CHR '','' \<or> byte_at v nx_pos = Some CHR '':'' \<or>
         (byte_at v nx_pos = Some CHR ''/'' \<and> byte_at v (nx_pos + 1) \<noteq> Some CHR ''*'' \<and> slash_takes_before p)"
    | (space) "\<not> (byte_at v nx_pos = Some CHR '')'' \<and> stack p \<noteq> [])" "\<not> (cur_tokens p \<noteq> [] \<and> n_kind (last (cur_tokens p)) = KDiv)"
        "\<not> (byte_at v nx_pos = Some CHR '','' \<or> byte_at v nx_pos = Some CHR '':'' \<or>
         (byte_at v nx_pos = Some CHR ''/'' \<and> byte_at v (nx_pos + 1) \<noteq> Some CHR ''*'' \<and> slash_takes_before p))"
    by blast
  then show ?thesis
  proof cases
    case close
    then have "parse_space p = p\<lparr>after_pending := token, pos := nx_pos\<rparr>"
      by (simp add: step)
    with close none print nx opened show ?thesis by (simp add: faithful_def div_done_def pending_ok_def)
  next
    case div
    then have eq: "parse_space p = (on_last (take_after token) p)\<lparr>pos := nx_pos\<rparr>"
      by (simp only: step if_False if_True simp_thms not_False_eq_True)
    have empty: "after (last (cur_tokens p)) = []"
      using f div(2,3) p by (auto simp: faithful_def div_done_def byte_at_def)
    have "list_all open_func (stack (on_last (take_after token) p))"
      using opened by (auto simp: on_last_def open_func_def split: list.split node.split)
    with eq printed_on_last [OF div(2,3) empty, of token] none print nx show ?thesis
      by (simp add: faithful_def div_done_def pending_ok_def)
  next
    case before
    then have "parse_space p = p\<lparr>before_pending := token, pos := nx_pos\<rparr>"
      by (simp only: step if_False if_True simp_thms not_False_eq_True)
    moreover have "slash_takes_before p \<Longrightarrow> \<not> in_calc p"
      by (simp add: slash_takes_before_def in_calc_def split: list.splits)
    ultimately show ?thesis
      using before none print nx opened by (auto simp: faithful_def div_done_def pending_ok_def in_calc_def)
  next
    case space
    then have eq: "parse_space p = (push_node (leaf KSpace token (pos p) nx_pos) p)\<lparr>pos := nx_pos\<rparr>"
      by (simp only: step if_False simp_thms)
    have "faithful v ((push_node (leaf KSpace token (pos p) nx_pos) p)
        \<lparr>buf := v, fun_name := [], before_pending := [], after_pending := [], pos := nx_pos\<rparr>)"
      by (rule faithful_push [OF f]) (use nx none in \<open>auto simp: leaf_def token_def\<close>)
    with eq none show ?thesis by (simp add: faithful_def div_done_def pending_ok_def)
  qed
qed

lemma find_byte_is: "find_byte v c i = Some j \<Longrightarrow> v ! j = c"
  using nth_length_takeWhile [of "\<lambda>x. x \<noteq> c" "drop i v"]
  by (auto simp: find_byte_def Let_def split: if_splits)

lemma closer_is: "closer v c i = Some j \<Longrightarrow> v ! j = c"
proof (induction v c i rule: closer.induct)
  case (1 v c i)
  then show ?case
    by (subst (asm) (2) closer.simps) (auto split: option.splits if_splits dest: find_byte_is)
qed

lemma slice_snoc: "i \<le> j \<Longrightarrow> j < length v \<Longrightarrow> byte_slice v i j @ [v ! j] = byte_slice v i (j + 1)"
  by (simp add: byte_slice_def Suc_diff_le take_Suc_conv_app_nth)

lemma faithful_string:
  assumes f: "faithful v p" and p: "pos p < length v" "v ! pos p = q" "q = CHR 0x27 \<or> q = CHR 0x22"
  shows "faithful v (parse_string q p)"
proof -
  have none: "fun_name p = []" "before_pending p = []" "after_pending p = []" "buf p = v"
    using pending_none [OF f p(1)] p(2,3) by auto
  show ?thesis
  proof (cases "closer v q (pos p + 1)")
    case None
    let ?n = "Node KStr (byte_slice (v @ [q]) (pos p + 1) (length v)) (pos p) (length v) [] [] q True []"
    have "faithful v ((push_node ?n p)\<lparr>buf := v @ [q], fun_name := [], before_pending := [], after_pending := [], pos := length v + 1\<rparr>)"
      by (rule faithful_push [OF f]) (use p none in \<open>simp_all add: slice_snoc_buf slice_Cons slice_all\<close>)
    with None none show ?thesis by (simp add: parse_string_def Let_def faithful_def div_done_def pending_ok_def)
  next
    case (Some j)
    note j = closer_bound [OF Some] closer_is [OF Some]
    let ?n = "Node KStr (byte_slice v (pos p + 1) j) (pos p) (j + 1) [] [] q False []"
    have "byte_slice v (pos p) (j + 1) = q # byte_slice v (pos p + 1) j @ [q]"
      using j p slice_snoc [of "pos p + 1" j v] by (simp add: slice_Cons)
    then have "faithful v ((push_node ?n p)\<lparr>buf := v, fun_name := [], before_pending := [], after_pending := [], pos := j + 1\<rparr>)"
      by (intro faithful_push [OF f]) (use j none in \<open>simp_all\<close>)
    with Some none show ?thesis by (simp add: parse_string_def faithful_def div_done_def pending_ok_def)
  qed
qed

lemma faithful_comment:
  assumes f: "faithful v p" and p: "pos p < length v" "v ! pos p = CHR ''/''" "byte_at v (pos p + 1) = Some CHR ''*''"
    and plain: "\<not> contains_str ''/*/'' v"
  shows "faithful v (parse_comment p)"
proof -
  have none: "fun_name p = []" "before_pending p = []" "after_pending p = []" "buf p = v"
    using pending_none [OF f p(1)] p(2,3) by auto
  obtain r where r: "drop (pos p) v = CHR ''/'' # CHR ''*'' # r"
    using p by (auto simp: byte_at_Some Cons_nth_drop_Suc [symmetric])
  then have r2: "drop (pos p + 2) v = r"
    by (metis add.commute add_2_eq_Suc' drop_Suc_Cons drop_drop drop0 numeral_2_eq_2)
  have tx: "(if pos p + 2 < j then byte_slice v (pos p + 2) j else []) = take (j - (pos p + 2)) r" for j
    using r2 by (simp add: byte_slice_def)
  show ?thesis
  proof (cases "find_subslice v ''*/'' (pos p)")
    case None
    let ?n = "Node KComment (take (length v - (pos p + 2)) r) (pos p) (length v) [] [] (CHR 0x00) True []"
    have "length r = length v - (pos p + 2)" using r2 by (metis length_drop)
    then have "faithful v ((push_node ?n p)\<lparr>buf := v, fun_name := [], before_pending := [], after_pending := [], pos := length v + 2\<rparr>)"
      by (intro faithful_push [OF f]) (use p(1) none r in \<open>simp_all add: slice_all\<close>)
    moreover have "parse_comment p = (push_node ?n p)\<lparr>pos := length v + 2\<rparr>"
      unfolding parse_comment_def Let_def none(4) None option.case tx by simp
    ultimately show ?thesis using none by (simp add: faithful_def div_done_def pending_ok_def)
  next
    case (Some j)
    obtain a b where ab: "drop (pos p) v = a @ ''*/'' @ b" "j = pos p + length a" "pos p < length v"
      by (rule find_subslice_sound [OF Some])
    have "a \<noteq> []" using ab(1) r by auto
    moreover have "a \<noteq> ''/''"
    proof
      assume "a = ''/''"
      then have "v = take (pos p) v @ ''/*/'' @ b"
        using ab(1) by (metis append_Cons append_self_conv2 append_take_drop_id)
      with plain show False by (metis contains_str_iff)
    qed
    ultimately obtain a' where a': "a = CHR ''/'' # CHR ''*'' # a'" "r = a' @ ''*/'' @ b"
      using ab(1) r by (auto simp: Cons_eq_append_conv)
    let ?n = "Node KComment (take (j - (pos p + 2)) r) (pos p) (j + 2) [] [] (CHR 0x00) False []"
    have "byte_slice v (pos p) (j + 2) = ''/*'' @ take (j - (pos p + 2)) r @ ''*/''"
      using a' ab(2) r by (simp add: byte_slice_def numeral_eq_Suc)
    then have "faithful v ((push_node ?n p)\<lparr>buf := v, fun_name := [], before_pending := [], after_pending := [], pos := j + 2\<rparr>)"
      by (intro faithful_push [OF f]) (use ab(2) none in \<open>simp_all\<close>)
    moreover have "parse_comment p = (push_node ?n p)\<lparr>pos := j + 2\<rparr>"
      unfolding parse_comment_def Let_def none(4) Some option.case tx by simp
    ultimately show ?thesis using none by (simp add: faithful_def div_done_def pending_ok_def)
  qed
qed

lemma faithful_operator:
  assumes f: "faithful v p" and p: "pos p < length v" "v ! pos p = c" "c = CHR ''/'' \<or> c = CHR ''*''" "in_calc p"
  shows "faithful v (parse_operator c p)"
proof -
  have none: "fun_name p = []" "before_pending p = []" "after_pending p = []" "buf p = v"
    using pending_none [OF f p(1)] p(2-) by auto
  have "faithful v ((push_node (leaf KWord [c] (pos p) (pos p + 1)) p)
      \<lparr>buf := v, fun_name := [], before_pending := [], after_pending := [], pos := pos p + 1\<rparr>)"
    by (rule faithful_push [OF f]) (use p none in \<open>auto simp: leaf_def slice_Cons\<close>)
  with none show ?thesis by (simp add: parse_operator_def faithful_def div_done_def pending_ok_def)
qed

lemma faithful_div:
  assumes f: "faithful v p" and p: "pos p < length v" "v ! pos p = c" "c = CHR ''/'' \<or> c = CHR '','' \<or> c = CHR '':''"
  shows "faithful v (parse_div c p)"
proof -
  have none: "fun_name p = []" "after_pending p = []" "buf p = v"
    using f p by (auto simp: faithful_def pending_ok_def byte_at_def)
  let ?n = "Node KDiv [c] (pos p - length (before_pending p)) (pos p + 1) (before_pending p) [] (CHR 0x00) False []"
  have "faithful v ((push_node ?n p)\<lparr>buf := v, fun_name := [], before_pending := [], after_pending := [], pos := pos p + 1\<rparr>)"
    by (rule faithful_push [OF f]) (use p none in \<open>auto simp: slice_Cons\<close>)
  with none show ?thesis by (simp add: parse_div_def faithful_def div_done_def pending_ok_def)
qed

lemma url_body:
  assumes i: "i < length v" "\<not> is_space (v ! i)" and k: "k = spaces_end v (i + 1)" "k \<le> j" "j \<le> length v"
  shows "i < url_end v j \<and> url_end v j \<le> j"
    "i + 1 < url_end v j \<Longrightarrow> k < url_end v j" "\<not> i + 1 < url_end v j \<Longrightarrow> k = j"
proof -
  note u = url_end_props [OF k(3)] and sp = spaces_end_props [where v = v and i = "i + 1"]
  have ij: "i < j" using k sp(1) by simp
  show first: "i < url_end v j \<and> url_end v j \<le> j" using u(1) u(3) [of i] i(2) ij by (meson linorder_not_less)
  show "k < url_end v j" if "i + 1 < url_end v j"
  proof (rule ccontr)
    assume "\<not> k < url_end v j"
    then have "is_space (v ! (url_end v j - 1))" using sp(4) [of "url_end v j - 1"] that k(1) by simp
    with u(2) that show False by simp
  qed
  show "k = j" if "\<not> i + 1 < url_end v j"
  proof (rule ccontr)
    assume "k \<noteq> j"
    with k have "is_space (v ! k)" "k < length v" using u(3) [of k] that sp(1) by simp_all
    with sp(3) k(1) show False by (simp add: byte_at_Some)
  qed
qed

lemma byte_at_buf: "i < length v \<Longrightarrow> byte_at (v @ w) i = byte_at v i"
  by (simp add: byte_at_def nth_append)

lemma url_end_buf: "i \<le> length v \<Longrightarrow> url_end (v @ w) i = url_end v i"
  by (simp add: url_end_def)

lemma faithful_url:
  assumes f: "faithful v p" and p: "pos p < length v" "v ! pos p = CHR ''(''" and k: "k = spaces_end v (pos p + 1)"
  shows "faithful v (parse_url k p)"
proof -
  have none: "before_pending p = []" "after_pending p = []" "buf p = v"
    using f p by (auto simp: faithful_def pending_ok_def byte_at_def)
  define found where "found = closer v CHR '')'' k"
  define j where "j = (case found of Some j \<Rightarrow> j | None \<Rightarrow> length v)"
  define b where "b = (if found = None then v @ '')'' else v)"
  have kl: "pos p < k" "k \<le> length v" using spaces_end_props(1,2) [of "pos p + 1" v] p(1) k by auto
  have j: "k \<le> j" "j \<le> length v" "found \<noteq> None \<Longrightarrow> j < length v \<and> v ! j = CHR '')''"
    using kl(2) by (auto simp: j_def found_def split: option.split dest: closer_bound closer_is)
  have slices: "byte_slice b x y = byte_slice v x y" if "y \<le> length v" for x y using that by (simp add: b_def slice_snoc_buf)
  have u: "url_end b j = url_end v j" using j(2) by (simp add: b_def url_end_buf)
  have grown: "j + 1 < length v \<Longrightarrow> b = v" "length v \<le> length b"
    by (cases found; simp add: b_def j_def)+
  note body = url_body [OF p(1) _ k j(1,2), unfolded p(2)]
  define stop where "stop = url_end v j"
  define ns where "ns = (if pos p + 1 < stop
      then (if found = None \<and> stop \<noteq> j then ([leaf KWord (byte_slice v k stop) k stop, leaf KSpace (byte_slice v stop j) stop j], [])
            else ([leaf KWord (byte_slice v k stop) k stop], byte_slice v stop j))
      else ([], []))"
  have stop: "stop \<le> j" "pos p + 1 < stop \<Longrightarrow> k < stop" "\<not> pos p + 1 < stop \<Longrightarrow> k = j"
    using body by (auto simp: stop_def is_space_def)
  let ?n = "Node KFunc (fun_name p) (pos p - length (fun_name p)) (if found = None then j else j + 1)
    (byte_slice v (pos p + 1) k) (snd ns) (CHR 0x00) (found = None) (fst ns)"
  have "byte_slice v (pos p + 1) k @ stringify (fst ns) @ snd ns = byte_slice v (pos p + 1) j"
  proof (cases "pos p + 1 < stop")
    case True
    have "stringify (fst ns) @ snd ns = byte_slice v k stop @ byte_slice v stop j" using True by (simp add: ns_def leaf_def stringify_def)
    also have "\<dots> = byte_slice v k j" using stop True by (intro slice_join) simp_all
    finally show ?thesis using slice_join [of "pos p + 1" k j v] kl j by simp
  next
    case False
    with stop(3) show ?thesis by (simp add: ns_def)
  qed
  then have inner: "byte_slice v (pos p) j = CHR ''('' # byte_slice v (pos p + 1) k @ stringify (fst ns) @ snd ns"
    using p kl j by (simp add: slice_Cons)
  have "stringify_node ?n = fun_name p @ byte_slice v (pos p) (j + 1)"
  proof (cases "found = None")
    case True
    then have "byte_slice v (pos p) (j + 1) = byte_slice v (pos p) j" by (simp add: j_def slice_all)
    with True inner show ?thesis by (simp add: stringify_def)
  next
    case False
    then have "byte_slice v (pos p) (j + 1) = byte_slice v (pos p) j @ '')''"
      using slice_snoc [of "pos p" j v] j kl by simp
    with False inner show ?thesis by (simp add: stringify_def)
  qed
  then have "faithful v ((push_node ?n p)\<lparr>buf := b, fun_name := [], before_pending := [], after_pending := [], pos := j + 1\<rparr>)"
    using j kl none grown by (intro faithful_push [OF f]) simp_all
  moreover have "parse_url k p = (push_node ?n p)\<lparr>buf := b, fun_name := [], pos := j + 1\<rparr>"
  proof -
    have "byte_slice b k stop = byte_slice v k stop" "byte_slice b stop j = byte_slice v stop j" "byte_slice b k j = byte_slice v k j" using stop(1) j(2) by (simp_all add: slices)
    then show ?thesis
      unfolding parse_url_def Let_def none(3) found_def [symmetric] j_def [symmetric] b_def [symmetric] u stop_def [symmetric]
      using stop(2) by (cases "pos p + 1 < stop") (simp_all add: ns_def)
  qed
  ultimately show ?thesis using none by (simp add: faithful_def div_done_def pending_ok_def)
qed

lemma faithful_open:
  assumes f: "faithful v p" and p: "pos p < length v" "v ! pos p = CHR ''(''"
  shows "faithful v (parse_open p)"
proof -
  have none: "before_pending p = []" "after_pending p = []" "buf p = v"
    using f p by (auto simp: faithful_def pending_ok_def byte_at_def)
  define k where "k = spaces_end v (pos p + 1)"
  have kl: "pos p < k" "k \<le> length v" using spaces_end_props(1,2) [of "pos p + 1" v] p(1) by (auto simp: k_def)
  let ?f = "Node KFunc (fun_name p) (pos p - length (fun_name p)) (k + 1) (byte_slice v (pos p + 1) k) [] (CHR 0x00) False []"
  let ?q = "p\<lparr>stack := ?f # stack p, fun_name := [], entered_function := True, pos := k\<rparr>"
  have "printed ?q = printed p @ fun_name p @ byte_slice v (pos p) k"
    using p kl by (simp add: printed_def open_print_def slice_Cons)
  then have "printed ?q = take k v"
    using f none slice_take [of "pos p" k v] kl unfolding faithful_def
    by (metis append.assoc append_Nil2 less_imp_le_nat)
  then have "faithful v ?q"
    using f none by (simp add: faithful_def open_func_def div_done_def cur_tokens_def pending_ok_def)
  with faithful_url [OF f p k_def] show ?thesis
    unfolding parse_open_def Let_def none(3) k_def [symmetric] by simp
qed

lemma faithful_close:
  assumes f: "faithful v p" and p: "pos p < length v" "v ! pos p = CHR '')''" "stack p \<noteq> []"
  shows "faithful v (parse_close p)"
proof -
  have none: "fun_name p = []" "before_pending p = []" "buf p = v"
    using f p by (auto simp: faithful_def pending_ok_def byte_at_def)
  obtain val i j b q ns fs where st: "stack p = Node KFunc val i j b [] q False ns # fs"
  proof -
    obtain g fs where g: "stack p = g # fs" using p(3) by (cases "stack p") auto
    with f have "open_func g" by (simp add: faithful_def)
    with that [of "n_value g" "source_index g" "source_end_index g" "before g" "quote g" "nodes g" fs] g show thesis
      by (cases g) (simp add: open_func_def)
  qed
  let ?n = "Node KFunc val i (pos p + 1) b (after_pending p) q False ns"
  have "printed p @ after_pending p @ '')'' = take (pos p + 1) v"
    using f none p take_Suc_conv_app_nth [of "pos p" v] by (simp add: faithful_def)
  moreover have "printed (push_node ?n (p\<lparr>stack := fs\<rparr>)) = printed p @ after_pending p @ '')''"
    unfolding printed_push by (simp add: printed_def st open_print_def stringify_def)
  moreover have "list_all open_func (stack (push_node ?n (p\<lparr>stack := fs\<rparr>)))"
    using f by (intro open_push) (simp add: faithful_def st)
  moreover have "parse_close p = (push_node ?n (p\<lparr>stack := fs\<rparr>))\<lparr>after_pending := [], pos := pos p + 1\<rparr>"
    by (simp add: parse_close_def st push_node_def split: list.split)
  ultimately show ?thesis using none f by (simp add: faithful_def div_done_def pending_ok_def)
qed

lemma faithful_word:
  assumes f: "faithful v p" and p: "pos p < length v" "v ! pos p \<notin> {CHR ''('', CHR '','', CHR '':'', CHR ''/''}"
    "v ! pos p = CHR '')'' \<Longrightarrow> stack p = []"
  shows "faithful v (parse_word (length v) p)"
proof -
  have none: "fun_name p = []" "before_pending p = []" "after_pending p = []" "buf p = v"
    using f p by (auto simp: faithful_def pending_ok_def byte_at_def)
  define k where "k = word_end (in_calc p) (stack p \<noteq> []) v (length v) (pos p)"
  define token where "token = byte_slice v (pos p) (min k (length v))"
  have k: "pos p < k" by (simp add: k_def word_end_gt)
  have token: "token = byte_slice v (pos p) k" by (cases "k \<le> length v") (auto simp: token_def slice_all)
  have leaves: "faithful v ((push_node (leaf kd token (pos p) k) p)\<lparr>pos := k\<rparr>)" if "kd = KWord \<or> kd = KUnicodeRange" for kd
  proof -
    have "faithful v ((push_node (leaf kd token (pos p) k) p)\<lparr>buf := v, fun_name := [], before_pending := [], after_pending := [], pos := k\<rparr>)"
      by (rule faithful_push [OF f]) (use that k none in \<open>auto simp: leaf_def token\<close>)
    with none show ?thesis by (simp add: faithful_def div_done_def pending_ok_def)
  qed
  have "faithful v (p\<lparr>fun_name := token, pos := k\<rparr>)" if "byte_at v k = Some CHR ''(''"
  proof -
    have "printed p @ token = take k v" using f none k slice_take [of "pos p" k v] by (simp add: faithful_def token)
    with that f none show ?thesis by (simp add: faithful_def div_done_def pending_ok_def is_space_def)
  qed
  with leaves show ?thesis by (simp add: parse_word_def Let_def none(4) flip: k_def token_def)
qed

lemma faithful_step:
  assumes f: "faithful v p" and p: "pos p < length v" and plain: "\<not> contains_str ''/*/'' v"
  shows "faithful v (parse_step (length v) p)"
proof -
  have b: "buf p = v" using f p by (simp add: faithful_def)
  show ?thesis
    unfolding parse_step_def Let_def b
    using faithful_space [OF f p] faithful_string [OF f p refl] faithful_comment [OF f p _ _ plain] faithful_operator [OF f p refl]
      faithful_div [OF f p refl] faithful_open [OF f p] faithful_close [OF f p] faithful_word [OF f p]
    by auto
qed

lemma faithful_loop:
  assumes "faithful v p" "\<not> contains_str ''/*/'' v"
  shows "faithful v (parse_loop (length v) p) \<and> length v \<le> pos (parse_loop (length v) p)"
  using assms(1)
proof (induction "length v" p rule: parse_loop.induct)
  case (1 p)
  have guard: "pos p < length v \<longleftrightarrow> pos p < length v \<and> pos p < length (buf p)" using "1.prems" by (auto simp: faithful_def)
  show ?case
  proof (cases "pos p < length v")
    case True
    with guard "1.hyps" faithful_step [OF "1.prems" True assms(2)] show ?thesis
      by (subst (1 2) parse_loop.simps) simp
  next
    case False
    with "1.prems" show ?thesis by (subst (1 2) parse_loop.simps) simp
  qed
qed

lemma stringify_close_open:
  "list_all open_func (stack p) \<Longrightarrow> stringify (close_open p) = printed p"
proof (induction p rule: close_open.induct)
  case (1 p)
  show ?case
  proof (cases "stack p")
    case Nil
    then show ?thesis by (subst close_open.simps) (simp add: printed_def)
  next
    case (Cons g fs)
    with "1.prems" obtain v i j b q ns where g: "g = Node KFunc v i j b [] q False ns"
      by (cases g) (auto simp: open_func_def)
    let ?p = "push_node (Node KFunc v i (length (buf p)) b [] q True ns) (p\<lparr>stack := fs\<rparr>)"
    have "list_all open_func (stack ?p)" using "1.prems" Cons by (intro open_push) simp
    with "1.IH" [OF _ g] Cons g have "stringify (close_open ?p) = printed ?p" by simp
    moreover have "close_open p = close_open ?p" using Cons g by (subst close_open.simps) simp
    ultimately show ?thesis unfolding printed_push by (simp add: printed_def Cons g open_print_def stringify_def)
  qed
qed

lemma faithful_start: "faithful v (start v)"
  by (simp add: faithful_def start_def div_done_def pending_ok_def printed_def cur_tokens_def)

text \<open>
  C28: printing undoes parsing. The nodes of any value print back to that value, with unclosed strings, functions, urls and
  comments, escapes and spaces of every kind; only a value with the bytes \<^verbatim>\<open>/*/\<close>, where the star that opens a comment also
  closes it, is excluded.
\<close>

theorem stringify_parse:
  assumes "\<not> contains_str ''/*/'' input"
  shows "stringify (parse input) = input"
proof -
  let ?p = "parse_loop (length input) (start input)"
  note l = faithful_loop [OF faithful_start assms]
  have "fun_name ?p = [] \<and> before_pending ?p = [] \<and> after_pending ?p = []"
    using l by (auto simp: faithful_def pending_ok_def byte_at_def)
  with l show ?thesis by (simp add: parse_def stringify_close_open faithful_def)
qed

theorem stringify_parse_witness:
  "stringify (parse ''a , url( x.png  '') = ''a , url( x.png  ''"
proof -
  have "\<not> contains_str ''/*/'' ''a , url( x.png  ''" by code_simp
  then show ?thesis by (rule stringify_parse)
qed

section \<open>The shape of nodes\<close>

text \<open>The fields a node of each kind uses; the others have their default.\<close>

fun node_ok :: "node \<Rightarrow> bool" where
  "node_ok (Node k v i j b a q u ns) \<longleftrightarrow>
     (if k = KFunc then list_all node_ok ns else ns = []) \<and>
     (k = KDiv \<or> k = KFunc \<or> b = [] \<and> a = []) \<and>
     (u \<longrightarrow> k \<in> {KStr, KComment, KFunc}) \<and>
     (if k = KStr then q = CHR 0x22 \<or> q = CHR 0x27 else q = CHR 0x00) \<and>
     (k = KDiv \<longrightarrow> v \<in> {''/'', '','', '':''})"

definition parser_ok :: "parser \<Rightarrow> bool" where
  "parser_ok p \<longleftrightarrow> list_all node_ok (root p) \<and> list_all (\<lambda>f. n_kind f = KFunc \<and> node_ok f) (stack p)"

lemma parser_ok_upd [simp]:
  "parser_ok (p\<lparr>pos := i\<rparr>) = parser_ok p" "parser_ok (p\<lparr>buf := v\<rparr>) = parser_ok p" "parser_ok (p\<lparr>fun_name := s\<rparr>) = parser_ok p"
  "parser_ok (p\<lparr>before_pending := s\<rparr>) = parser_ok p" "parser_ok (p\<lparr>after_pending := s\<rparr>) = parser_ok p"
  by (simp_all add: parser_ok_def)

lemma parser_ok_push: "parser_ok p \<Longrightarrow> node_ok n \<Longrightarrow> parser_ok (push_node n p)"
  by (auto simp: parser_ok_def push_node_def add_node_def split: list.split node.split)

lemma node_ok_leaf: "k \<in> {KWord, KSpace, KUnicodeRange} \<Longrightarrow> node_ok (leaf k v i j)"
  by (auto simp: leaf_def)

lemma parser_ok_on_last:
  assumes "parser_ok p" "cur_tokens p \<noteq> []" "n_kind (last (cur_tokens p)) = KDiv"
  shows "parser_ok (on_last (take_after t) p)"
proof -
  have "list_all node_ok (map_last (take_after t) ns)" if "list_all node_ok ns" "ns \<noteq> []" "n_kind (last ns) = KDiv" for ns
  proof -
    have "node_ok (last ns)" using that by (simp add: list_all_iff)
    with that(3) have "node_ok (take_after t (last ns))" by (cases "last ns") (simp add: take_after_def)
    with that show ?thesis by (auto simp: map_last_def list_all_iff dest: in_set_butlastD)
  qed
  with assms show ?thesis
    by (auto simp: parser_ok_def on_last_def cur_tokens_def split: list.splits node.splits)
qed

lemma parser_ok_step:
  assumes "parser_ok p"
  shows "parser_ok (parse_step maxi p)"
proof -
  note push_node = parser_ok_push [OF assms]
  have "parser_ok (parse_space p)"
    using assms push_node parser_ok_on_last [OF assms] node_ok_leaf by (simp add: parse_space_def Let_def)
  moreover have "q = CHR 0x27 \<or> q = CHR 0x22 \<Longrightarrow> parser_ok (parse_string q p)" for q
    using push_node by (auto simp: parse_string_def Let_def split: option.split)
  moreover have "parser_ok (parse_comment p)" using push_node by (auto simp: parse_comment_def Let_def)
  moreover have "parser_ok (parse_operator c p)" for c using push_node node_ok_leaf by (simp add: parse_operator_def)
  moreover have "c = CHR ''/'' \<or> c = CHR '','' \<or> c = CHR '':'' \<Longrightarrow> parser_ok (parse_div c p)" for c
    using push_node by (auto simp: parse_div_def)
  moreover have "parser_ok (parse_open p)"
  proof -
    have "parser_ok (parse_url k p)" for k
      unfolding parse_url_def Let_def using push_node node_ok_leaf by simp
    moreover have "parser_ok (p\<lparr>stack := Node KFunc n i j b [] (CHR 0x00) False [] # stack p, fun_name := [], entered_function := True,
        pos := k\<rparr>)" for n i j b k
      using assms by (simp add: parser_ok_def)
    ultimately show ?thesis by (simp add: parse_open_def Let_def)
  qed
  moreover have "parser_ok (parse_close p)"
  proof (cases "stack p")
    case (Cons f fs)
    then obtain v i j b a q u ns where f: "f = Node KFunc v i j b a q u ns" using assms by (cases f) (simp add: parser_ok_def)
    have "parser_ok (p\<lparr>stack := fs, after_pending := [], pos := pos p + 1\<rparr>)" using assms Cons by (simp add: parser_ok_def)
    moreover have "node_ok (Node KFunc v i (pos p + 1) b (after_pending p) q u ns)" using assms Cons f by (simp add: parser_ok_def)
    ultimately show ?thesis using Cons f parser_ok_push by (simp add: parse_close_def)
  qed (use assms in \<open>simp add: parse_close_def\<close>)
  moreover have "parser_ok (parse_word maxi p)" using assms push_node node_ok_leaf by (simp add: parse_word_def Let_def)
  ultimately show ?thesis by (simp add: parse_step_def Let_def)
qed

lemma parser_ok_loop: "parser_ok p \<Longrightarrow> parser_ok (parse_loop maxi p)"
proof (induction maxi p rule: parse_loop.induct)
  case (1 maxi p)
  then show ?case using parser_ok_step by (subst parse_loop.simps) simp
qed

lemma parser_ok_close: "parser_ok p \<Longrightarrow> list_all node_ok (close_open p)"
proof (induction p rule: close_open.induct)
  case (1 p)
  show ?case
  proof (cases "stack p")
    case Nil
    with "1.prems" show ?thesis by (subst close_open.simps) (simp add: parser_ok_def)
  next
    case (Cons f fs)
    then obtain v i j b a q u ns where f: "f = Node KFunc v i j b a q u ns" using "1.prems" by (cases f) (simp add: parser_ok_def)
    let ?p = "push_node (Node KFunc v i (length (buf p)) b a q True ns) (p\<lparr>stack := fs\<rparr>)"
    have "parser_ok ?p" using "1.prems" Cons f by (intro parser_ok_push) (simp_all add: parser_ok_def)
    with "1.IH" [OF Cons f] show ?thesis using Cons f by (subst close_open.simps) simp
  qed
qed

text \<open>
  C32: the parser returns nodes of the right shape for every input. Only functions have children, only separators and functions have
  padding, only strings have a quote, only strings, comments and functions are left unclosed, and a separator is a slash, a comma
  or a colon.
\<close>

theorem parse_well_formed: "list_all node_ok (parse input)"
  unfolding parse_def by (intro parser_ok_close parser_ok_loop) (simp add: parser_ok_def start_def)

end
