(* ===== verification/Css_Normalize.thy ===== *)
theory Css_Normalize
  imports Css_Value Media_Parse
begin

text \<open>
  Normalization of CSS values, \<^verbatim>\<open>crates/oj_stylex/src/shared/normalize_value.rs\<close>, with the property names of \<^verbatim>\<open>dashify.rs\<close> and
  the conversion of style values of \<^verbatim>\<open>transform_value.rs\<close>. JavaScript numbers are the record \<open>js_num\<close>: arithmetic on \<^verbatim>\<open>f64\<close>, the
  parse of a literal, and the shortest decimal form, which is the crate \<^verbatim>\<open>ryu_js\<close>. The conversion of a string to lower case by
  Unicode's tables is the argument \<open>lower\<close>.
\<close>

section \<open>Numbers and units\<close>

record 'f js_num =
  j_lt :: "'f \<Rightarrow> 'f \<Rightarrow> bool"
  j_eq :: "'f \<Rightarrow> 'f \<Rightarrow> bool"
  j_add :: "'f \<Rightarrow> 'f \<Rightarrow> 'f"
  j_sub :: "'f \<Rightarrow> 'f \<Rightarrow> 'f"
  j_mul :: "'f \<Rightarrow> 'f \<Rightarrow> 'f"
  j_div :: "'f \<Rightarrow> 'f \<Rightarrow> 'f"
  j_floor :: "'f \<Rightarrow> 'f"
  j_fract :: "'f \<Rightarrow> 'f"
  j_of :: "int \<Rightarrow> 'f"
  j_half :: 'f
  j_neg_zero :: 'f
  j_inf :: 'f
  j_neg_inf :: 'f
  j_nan :: 'f
  j_is_nan :: "'f \<Rightarrow> bool"
  j_parse :: "string \<Rightarrow> 'f"
  ryu_js :: "'f \<Rightarrow> string"

definition j_le :: "'f js_num \<Rightarrow> 'f \<Rightarrow> 'f \<Rightarrow> bool" where
  "j_le J x y \<longleftrightarrow> j_lt J x y \<or> j_eq J x y"

definition is_infinite :: "'f js_num \<Rightarrow> 'f \<Rightarrow> bool" where
  "is_infinite J x \<longleftrightarrow> j_eq J x (j_inf J) \<or> j_eq J x (j_neg_inf J)"

definition non_finite_text :: "'f js_num \<Rightarrow> 'f \<Rightarrow> string option" where
  "non_finite_text J x =
     (if j_is_nan J x then Some ''NaN''
      else if is_infinite J x then Some (if j_lt J (j_of J 0) x then ''Infinity'' else ''-Infinity'')
      else None)"

definition js_number_to_string :: "'f js_num \<Rightarrow> 'f \<Rightarrow> string" where
  "js_number_to_string J x = (case non_finite_text J x of Some t \<Rightarrow> t | None \<Rightarrow> ryu_js J x)"

definition js_math_round :: "'f js_num \<Rightarrow> 'f \<Rightarrow> 'f" where
  "js_math_round J x =
     (if j_is_nan J x \<or> is_infinite J x \<or> j_eq J x (j_of J 0) \<or> j_eq J (j_fract J x) (j_of J 0) then x
      else let f = j_floor J x;
               r = (if j_le J (j_half J) (j_sub J x f) then j_add J f (j_of J 1) else f)
           in if j_eq J r (j_of J 0) \<and> j_lt J x (j_of J 0) then j_neg_zero J else r)"

text \<open>\<^verbatim>\<open>parseFloat\<close>: the longest prefix that is a decimal literal.\<close>

definition float_digits :: "string \<Rightarrow> (string \<times> string) option" where
  "float_digits s =
     (case number_digits s of (d, r) \<Rightarrow>
        if d = []
        then (case r of
                c # cs \<Rightarrow> if c = CHR ''.'' \<and> starts_digit cs
                          then (case number_digits cs of (e, t) \<Rightarrow> Some (c # e, t)) else None
              | [] \<Rightarrow> None)
        else (case r of
                c # cs \<Rightarrow> if c = CHR ''.'' then (case number_digits cs of (e, t) \<Rightarrow> Some (d @ c # e, t)) else Some (d, r)
              | [] \<Rightarrow> Some (d, r)))"

definition js_parse_float :: "'f js_num \<Rightarrow> string \<Rightarrow> 'f option" where
  "js_parse_float J s =
     (case number_sign s of (sg, r) \<Rightarrow>
        if starts_with ''Infinity'' r then Some (if sg = ''-'' then j_neg_inf J else j_inf J)
        else (case float_digits r of
                None \<Rightarrow> None
              | Some (d, t) \<Rightarrow> (case number_exponent t of (e, _) \<Rightarrow> Some (j_parse J (sg @ d @ e)))))"

fun like_number :: "string \<Rightarrow> bool" where
  "like_number [] \<longleftrightarrow> False"
| "like_number (c # s) \<longleftrightarrow>
     (if c = CHR ''+'' \<or> c = CHR ''-''
      then (case s of [] \<Rightarrow> False | d # r \<Rightarrow> is_digit d \<or> (d = CHR ''.'' \<and> starts_digit r))
      else if c = CHR ''.'' then starts_digit s
      else is_digit c)"

text \<open>\<^verbatim>\<open>unit\<close>: the number a word starts with, and its unit.\<close>

definition unit_of :: "string \<Rightarrow> (string \<times> string) option" where
  "unit_of s =
     (if like_number s
      then (case number_sign s of (a, s1) \<Rightarrow> case number_digits s1 of (b, s2) \<Rightarrow>
            case number_fraction s2 of (c, s3) \<Rightarrow> case number_exponent s3 of (d, s4) \<Rightarrow> Some (a @ b @ c @ d, s4))
      else None)"

section \<open>Property names\<close>

definition is_upper :: "char \<Rightarrow> bool" where
  "is_upper c \<longleftrightarrow> byte_in 65 90 c"

definition is_lower :: "char \<Rightarrow> bool" where
  "is_lower c \<longleftrightarrow> byte_in 97 122 c"

fun dashes :: "bool \<Rightarrow> string \<Rightarrow> string" where
  "dashes split [] = []"
| "dashes split (c # s) = (if is_upper c \<and> split then CHR ''-'' # c # dashes (is_lower c) s else c # dashes (is_lower c) s)"

definition dashify :: "(string \<Rightarrow> string) \<Rightarrow> string \<Rightarrow> string" where
  "dashify lower s = lower (dashes True s)"

definition dashed_key :: "(string \<Rightarrow> string) \<Rightarrow> string \<Rightarrow> string" where
  "dashed_key lower key =
     (if starts_with ''--'' key then key
      else if list_all (\<lambda>b. is_lower b \<or> is_digit b \<or> b = CHR ''-'' \<or> b = CHR ''_'') key then key
      else dashify lower key)"

definition sanitize_dev_class_name :: "string \<Rightarrow> string" where
  "sanitize_dev_class_name = filter (\<lambda>c. is_upper c \<or> is_lower c \<or> is_digit c \<or> c \<in> {CHR ''.'', CHR ''_'', CHR ''-''})"

section \<open>Normalization\<close>

datatype css_value_error = UnclosedFunction | UnclosedString | EmptyValue

text \<open>A function whose closing is missing, or a string, anywhere in the tree.\<close>

fun detect_unclosed :: "kind \<Rightarrow> node list \<Rightarrow> bool" where
  "detect_unclosed kd [] \<longleftrightarrow> False"
| "detect_unclosed kd (Node k v i j b a q u ms # ns) \<longleftrightarrow>
     (k = kd \<and> u) \<or> (k = KFunc \<and> detect_unclosed kd ms) \<or> detect_unclosed kd ns"

definition normalize_div_spacing :: "node \<Rightarrow> node" where
  "normalize_div_spacing n =
     (case n of Node k v i j b a q u ns \<Rightarrow> if v = '','' then Node k v i j [] [] q u ns else Node k v i j '' '' '' '' q u ns)"

fun whitespace_nested :: "node \<Rightarrow> node" where
  "whitespace_nested (Node k v i j b a q u ns) =
     (case k of
        KSpace \<Rightarrow> Node k '' '' i j b a q u ns
      | KDiv \<Rightarrow> normalize_div_spacing (Node k v i j b a q u ns)
      | KFunc \<Rightarrow> Node k v i j [] [] q u (map whitespace_nested ns)
      | _ \<Rightarrow> Node k v i j b a q u ns)"

text \<open>
  The walk over the top level keeps the length it started with; removing the space before an \<^verbatim>\<open>!important\<close> that
  is not last makes it run past the end.
\<close>

function whitespace_loop :: "nat \<Rightarrow> nat \<Rightarrow> node list \<Rightarrow> css_value_error + node list" where
  "whitespace_loop i maxi ns =
     (if maxi \<le> i then Inr ns
      else if length ns \<le> i then Inl EmptyValue
      else let n = ns ! i in
           if n_kind n = KWord \<and> n_value n = ''!important'' \<and> 0 < i \<and> n_kind (ns ! (i - 1)) = KSpace
           then whitespace_loop (i + 1) maxi (take (i - 1) ns @ drop i ns)
           else whitespace_loop (i + 1) maxi (ns[i := whitespace_nested n]))"
  by pat_completeness auto
termination
  by (relation "measure (\<lambda>(i, maxi, ns). maxi - i)") auto

declare whitespace_loop.simps [simp del]

definition normalize_whitespace :: "node list \<Rightarrow> css_value_error + node list" where
  "normalize_whitespace ns =
     (case ns of
        [] \<Rightarrow> Inl EmptyValue
      | n # ms \<Rightarrow>
          let ns = (if n_kind n = KSpace then ms else ns) in
          if ns = [] then Inl EmptyValue
          else let ns = (if n_kind (last ns) = KSpace then butlast ns else ns) in whitespace_loop 0 (length ns) ns)"

text \<open>
  \<^verbatim>\<open>walk\<close>: every node, a function before its arguments. The visitors change the value and the quote of a node only.
\<close>

definition with_value :: "string \<Rightarrow> node \<Rightarrow> node" where
  "with_value w n = (case n of Node k v i j b a q u ns \<Rightarrow> Node k w i j b a q u ns)"

fun walk :: "('s \<Rightarrow> node \<Rightarrow> 's \<times> node) \<Rightarrow> 's \<Rightarrow> node list \<Rightarrow> 's \<times> node list" where
  "walk f s [] = (s, [])"
| "walk f s (Node k v i j b a q u ms # ns) =
     (case f s (Node k v i j b a q u ms) of
        (s1, Node k' v' i' j' b' a' q' u' _) \<Rightarrow>
          (case (if k' = KFunc then walk f s1 ms else (s1, ms)) of
             (s2, ms') \<Rightarrow> (case walk f s2 ns of (s3, ns') \<Rightarrow> (s3, Node k' v' i' j' b' a' q' u' ms' # ns'))))"

definition walk_words :: "(string \<Rightarrow> string) \<Rightarrow> node list \<Rightarrow> node list" where
  "walk_words g ns = snd (walk (\<lambda>(s :: unit) n. (s, if n_kind n = KWord then with_value (g (n_value n)) n else n)) () ns)"

definition timing :: "'f js_num \<Rightarrow> string \<Rightarrow> string" where
  "timing J w =
     (case js_parse_float J w of
        None \<Rightarrow> w
      | Some x \<Rightarrow>
          (case unit_of w of
             None \<Rightarrow> w
           | Some (_, u) \<Rightarrow>
               if u \<noteq> ''ms'' \<or> j_lt J x (j_of J 10) then w else js_number_to_string J (j_div J x (j_of J 1000)) @ ''s''))"

definition normalize_timings :: "'f js_num \<Rightarrow> node list \<Rightarrow> node list" where
  "normalize_timings J = walk_words (timing J)"

text \<open>The end of the function the walk is in; a zero keeps its unit there.\<close>

definition zero_dimension :: "nat \<Rightarrow> node \<Rightarrow> nat \<times> node" where
  "zero_dimension end_function n =
     (let e = (if n_kind n = KFunc \<and> end_function = 0 then source_end_index n else end_function);
          e = (if 0 < e \<and> e < source_index n then 0 else e)
      in (e, if n_kind n \<noteq> KWord then n
             else (case unit_of (n_value n) of
                     None \<Rightarrow> n
                   | Some (nr, u) \<Rightarrow>
                       if nr \<noteq> ''0'' then n
                       else if u \<in> {''deg'', ''grad'', ''turn'', ''rad''} then with_value ''0deg'' n
                       else if u \<in> {''ms'', ''s''} then with_value ''0s'' n
                       else if u = ''fr'' then with_value ''0fr'' n
                       else if u = ''%'' then with_value ''0%'' n
                       else if e = 0 then with_value ''0'' n
                       else n)))"

definition normalize_zero_dimensions :: "string \<Rightarrow> node list \<Rightarrow> node list" where
  "normalize_zero_dimensions key ns = (if starts_with ''--'' key then ns else snd (walk zero_dimension 0 ns))"

text \<open>\<^verbatim>\<open>replacen("0.", ".", 1)\<close>.\<close>

definition drop_zero :: "string \<Rightarrow> string" where
  "drop_zero s = (case split_once_str ''0.'' s of None \<Rightarrow> s | Some (a, b) \<Rightarrow> a @ ''.'' @ b)"

definition leading_zero :: "'f js_num \<Rightarrow> string \<Rightarrow> string" where
  "leading_zero J w =
     (case js_parse_float J w of
        None \<Rightarrow> w
      | Some x \<Rightarrow>
          if j_le J (j_of J 0) x \<and> j_lt J x (j_of J 1)
          then drop_zero (js_number_to_string J x) @ (case unit_of w of Some (_, u) \<Rightarrow> u | None \<Rightarrow> [])
          else w)"

definition normalize_leading_zero :: "'f js_num \<Rightarrow> node list \<Rightarrow> node list" where
  "normalize_leading_zero J = walk_words (leading_zero J)"

definition double_quote :: "node \<Rightarrow> node" where
  "double_quote n =
     (case n of Node k v i j b a q u ns \<Rightarrow> if k = KStr \<and> v = [] then Node k v i j b a (CHR 0x22) u ns else n)"

definition normalize_quotes :: "node list \<Rightarrow> node list" where
  "normalize_quotes ns = snd (walk (\<lambda>(s :: unit) n. (s, double_quote n)) () ns)"

definition convert_camel_case_values :: "(string \<Rightarrow> string) \<Rightarrow> string \<Rightarrow> node list \<Rightarrow> node list" where
  "convert_camel_case_values lower key ns =
     (if key \<noteq> ''transitionProperty'' \<and> key \<noteq> ''willChange'' then ns
      else map (\<lambda>n. if n_kind n = KWord \<and> \<not> starts_with ''--'' (n_value n) then with_value (dashify lower (n_value n)) n else n) ns)"

definition rem_size :: "'f js_num \<Rightarrow> string \<Rightarrow> string" where
  "rem_size J w =
     (case unit_of w of
        None \<Rightarrow> w
      | Some (nr, u) \<Rightarrow>
          if u \<noteq> ''px'' then w
          else js_number_to_string J (j_div J (case js_parse_float J nr of Some x \<Rightarrow> x | None \<Rightarrow> j_nan J) (j_of J 16)) @ ''rem'')"

definition convert_font_size_to_rem :: "'f js_num \<Rightarrow> string \<Rightarrow> node list \<Rightarrow> node list" where
  "convert_font_size_to_rem J key ns = (if key \<noteq> ''fontSize'' then ns else walk_words (rem_size J) ns)"

definition normalize_nodes :: "'f js_num \<Rightarrow> (string \<Rightarrow> string) \<Rightarrow> string \<Rightarrow> bool \<Rightarrow> node list \<Rightarrow> node list" where
  "normalize_nodes J lower key rem ns =
     (let ns = normalize_timings J ns;
          ns = normalize_zero_dimensions key ns;
          ns = normalize_leading_zero J ns;
          ns = normalize_quotes ns;
          ns = convert_camel_case_values lower key ns
      in if rem then convert_font_size_to_rem J key ns else ns)"

definition normalize_value :: "'f js_num \<Rightarrow> (string \<Rightarrow> string) \<Rightarrow> string \<Rightarrow> string \<Rightarrow> bool \<Rightarrow> css_value_error + string" where
  "normalize_value J lower val key rem =
     (let ns = parse val in
      if detect_unclosed KFunc ns then Inl UnclosedFunction
      else if detect_unclosed KStr ns then Inl UnclosedString
      else (case normalize_whitespace ns of
              Inl e \<Rightarrow> Inl e
            | Inr ns \<Rightarrow> Inr (stringify (normalize_nodes J lower key rem ns))))"

section \<open>Style values\<close>

definition js_spaces :: "string list" where
  "js_spaces =
     [[CHR 0x09], [CHR 0x0A], [CHR 0x0B], [CHR 0x0C], [CHR 0x0D], '' '', [CHR 0xC2, CHR 0xA0], [CHR 0xE1, CHR 0x9A, CHR 0x80],
      [CHR 0xE2, CHR 0x80, CHR 0x80], [CHR 0xE2, CHR 0x80, CHR 0x81], [CHR 0xE2, CHR 0x80, CHR 0x82],
      [CHR 0xE2, CHR 0x80, CHR 0x83], [CHR 0xE2, CHR 0x80, CHR 0x84], [CHR 0xE2, CHR 0x80, CHR 0x85],
      [CHR 0xE2, CHR 0x80, CHR 0x86], [CHR 0xE2, CHR 0x80, CHR 0x87], [CHR 0xE2, CHR 0x80, CHR 0x88],
      [CHR 0xE2, CHR 0x80, CHR 0x89], [CHR 0xE2, CHR 0x80, CHR 0x8A], [CHR 0xE2, CHR 0x80, CHR 0xA8],
      [CHR 0xE2, CHR 0x80, CHR 0xA9], [CHR 0xE2, CHR 0x80, CHR 0xAF], [CHR 0xE2, CHR 0x81, CHR 0x9F],
      [CHR 0xE3, CHR 0x80, CHR 0x80], [CHR 0xEF, CHR 0xBB, CHR 0xBF]]"

definition js_trim :: "string \<Rightarrow> string" where
  "js_trim s = rev (trim_with (map rev js_spaces) (rev (trim_with js_spaces s)))"

definition content_functions :: "string list" where
  "content_functions = [''attr('', ''counter('', ''counters('', ''url('', ''linear-gradient('', ''image-set('', ''var(--'']"

definition content_keywords :: "string list" where
  "content_keywords =
     [''normal'', ''none'', ''open-quote'', ''close-quote'', ''no-open-quote'', ''no-close-quote'', ''inherit'', ''initial'',
      ''revert'', ''revert-layer'', ''unset'']"

definition transform_content_like :: "string \<Rightarrow> string \<Rightarrow> string option" where
  "transform_content_like key val =
     (if key \<notin> {''content'', ''hyphenateCharacter'', ''hyphenate-character''} then None
      else let t = js_trim val in
           if list_ex (\<lambda>f. contains_str f t) content_functions \<or> t \<in> set content_keywords \<or>
              2 \<le> count_list t (CHR 0x22) \<or> 2 \<le> count_list t (CHR 0x27)
           then Some t
           else Some (CHR 0x22 # t @ [CHR 0x22]))"

definition transform_value_str ::
  "'f js_num \<Rightarrow> (string \<Rightarrow> string) \<Rightarrow> string \<Rightarrow> string \<Rightarrow> bool \<Rightarrow> css_value_error + string" where
  "transform_value_str J lower key val rem =
     (case transform_content_like key val of Some out \<Rightarrow> Inr out | None \<Rightarrow> normalize_value J lower val key rem)"

definition unitless :: "string list" where
  "unitless =
     [''WebkitLineClamp'', ''animationIterationCount'', ''aspectRatio'', ''borderImageOutset'', ''borderImageSlice'',
      ''borderImageWidth'', ''counterSet'', ''counterReset'', ''columnCount'', ''flex'', ''flexGrow'', ''flexShrink'', ''flexOrder'',
      ''gridRow'', ''gridRowStart'', ''gridRowEnd'', ''gridColumn'', ''gridColumnStart'', ''gridColumnEnd'', ''gridArea'',
      ''fontWeight'', ''hyphenateLimitChars'', ''lineClamp'', ''lineHeight'', ''maskBorderOutset'', ''maskBorderSlice'',
      ''maskBorderWidth'', ''opacity'', ''order'', ''orphans'', ''tabSize'', ''widows'', ''zIndex'', ''fillOpacity'', ''floodOpacity'',
      ''rotate'', ''scale'', ''shapeImageThreshold'', ''stopOpacity'', ''strokeDasharray'', ''strokeDashoffset'',
      ''strokeMiterlimit'', ''strokeOpacity'', ''strokeWidth'', ''mathDepth'', ''zoom'']"

definition get_number_suffix :: "string \<Rightarrow> string" where
  "get_number_suffix key =
     (if key \<in> set unitless \<or> starts_with ''--'' key then []
      else if key \<in> {''animationDelay'', ''animationDuration'', ''transitionDelay'', ''transitionDuration'', ''voiceDuration''}
      then ''ms'' else ''px'')"

definition transform_value_num ::
  "'f js_num \<Rightarrow> (string \<Rightarrow> string) \<Rightarrow> string \<Rightarrow> 'f \<Rightarrow> bool \<Rightarrow> css_value_error + string" where
  "transform_value_num J lower key val rem =
     (let rounded = j_div J (js_math_round J (j_mul J val (j_of J 10000))) (j_of J 10000);
          as_string = js_number_to_string J rounded @ get_number_suffix key
      in case transform_content_like key as_string of Some out \<Rightarrow> Inr out | None \<Rightarrow> normalize_value J lower as_string key rem)"

section \<open>What fails\<close>

text \<open>The nodes of a tree.\<close>

fun all_nodes :: "node list \<Rightarrow> node list" where
  "all_nodes [] = []"
| "all_nodes (Node k v i j b a q u ms # ns) =
     Node k v i j b a q u ms # (if k = KFunc then all_nodes ms else []) @ all_nodes ns"

lemma detect_unclosed_iff: "detect_unclosed kd ns \<longleftrightarrow> (\<exists>n \<in> set (all_nodes ns). n_kind n = kd \<and> unclosed n)"
  by (induction kd ns rule: detect_unclosed.induct) auto

definition spaced_important :: "node list \<Rightarrow> nat \<Rightarrow> bool" where
  "spaced_important ns k \<longleftrightarrow>
     0 < k \<and> k < length ns \<and> n_kind (ns ! k) = KWord \<and> n_value (ns ! k) = ''!important'' \<and> n_kind (ns ! (k - 1)) = KSpace"

lemma whitespace_kind [simp]: "n_kind (whitespace_nested n) = n_kind n"
  by (cases n) (auto simp: normalize_div_spacing_def split: kind.split)

lemma whitespace_word: "n_kind n = KWord \<Longrightarrow> whitespace_nested n = n"
  by (cases n) simp

lemma spaced_important_update:
  "i < length ns \<Longrightarrow> spaced_important (ns[i := whitespace_nested (ns ! i)]) k \<longleftrightarrow> spaced_important ns k"
  by (cases "k = i"; cases "k - 1 = i") (auto simp: spaced_important_def whitespace_word)

lemma loop_short: "length ns < maxi \<Longrightarrow> i < maxi \<Longrightarrow> whitespace_loop i maxi ns = Inl EmptyValue"
proof (induction i maxi ns rule: whitespace_loop.induct)
  case (1 i maxi ns)
  show ?case
  proof (cases "length ns \<le> i")
    case True
    with "1.prems" show ?thesis by (subst whitespace_loop.simps) simp
  next
    case False
    with "1.prems" have "i + 1 < maxi" by simp
    with False "1.prems" "1.IH" show ?thesis
      by (subst whitespace_loop.simps) (auto simp: Let_def)
  qed
qed

lemma loop_outcome:
  assumes "length ns = maxi" "i \<le> maxi"
  shows "whitespace_loop i maxi ns = Inl e \<longleftrightarrow> e = EmptyValue \<and> (\<exists>k \<ge> i. spaced_important ns k \<and> k + 1 < maxi)"
  using assms
proof (induction i maxi ns rule: whitespace_loop.induct)
  case (1 i maxi ns)
  show ?case
  proof (cases "i = maxi")
    case True
    then show ?thesis by (subst whitespace_loop.simps) auto
  next
    case i: False
    let ?imp = "n_kind (ns ! i) = KWord \<and> n_value (ns ! i) = ''!important'' \<and> 0 < i \<and> n_kind (ns ! (i - 1)) = KSpace"
    have imp: "?imp \<longleftrightarrow> spaced_important ns i" using i "1.prems" by (auto simp: spaced_important_def)
    show ?thesis
    proof (cases ?imp)
      case True
      let ?ns = "take (i - 1) ns @ drop i ns"
      have eq: "whitespace_loop i maxi ns = whitespace_loop (i + 1) maxi ?ns"
        using True i "1.prems" by (subst whitespace_loop.simps) (simp add: Let_def)
      show ?thesis
      proof (cases "i + 1 < maxi")
        case later: True
        have "length ?ns < maxi" using True i "1.prems" by simp
        from loop_short [OF this later] eq True imp later show ?thesis by auto
      next
        case False
        with i "1.prems" have last: "i + 1 = maxi" by simp
        then have "whitespace_loop (i + 1) maxi ?ns = Inr ?ns" by (subst whitespace_loop.simps) simp
        with eq last show ?thesis by auto
      qed
    next
      case False
      let ?ns = "ns[i := whitespace_nested (ns ! i)]"
      have "whitespace_loop i maxi ns = whitespace_loop (i + 1) maxi ?ns"
        using False i "1.prems" by (subst whitespace_loop.simps) (auto simp: Let_def)
      also have "\<dots> = Inl e \<longleftrightarrow> e = EmptyValue \<and> (\<exists>k \<ge> i + 1. spaced_important ?ns k \<and> k + 1 < maxi)"
        using "1.IH"(2) [OF _ _ refl False] i "1.prems" by simp
      also have "\<dots> \<longleftrightarrow> e = EmptyValue \<and> (\<exists>k \<ge> i. spaced_important ns k \<and> k + 1 < maxi)"
        using False imp i "1.prems" spaced_important_update [of i ns]
        by (metis Suc_eq_plus1 Suc_leD Suc_leI le_neq_implies_less)
      finally show ?thesis .
    qed
  qed
qed

definition drop_first_space :: "node list \<Rightarrow> node list" where
  "drop_first_space ns = (if ns \<noteq> [] \<and> n_kind (hd ns) = KSpace then tl ns else ns)"

definition trimmed :: "node list \<Rightarrow> node list" where
  "trimmed ns = (let ms = drop_first_space ns in if ms \<noteq> [] \<and> n_kind (last ms) = KSpace then butlast ms else ms)"

lemma normalize_whitespace_trimmed:
  "normalize_whitespace ns =
     (if drop_first_space ns = [] then Inl EmptyValue else whitespace_loop 0 (length (trimmed ns)) (trimmed ns))"
  by (auto simp: normalize_whitespace_def drop_first_space_def trimmed_def Let_def split: list.split)


section \<open>What is kept\<close>

text \<open>The outline of a value: everything but its words and its spaces.\<close>

fun outline :: "node list \<Rightarrow> (kind \<times> string) list" where
  "outline [] = []"
| "outline (Node k v i j b a q u ms # ns) =
     (case k of
        KSpace \<Rightarrow> []
      | KWord \<Rightarrow> [(KWord, [])]
      | KFunc \<Rightarrow> (KFunc, v @ ''('') # outline ms @ [(KFunc, '')'')]
      | _ \<Rightarrow> [(k, v)]) @ outline ns"

lemma outline_append [simp]: "outline (ms @ ns) = outline ms @ outline ns"
proof (induction ms)
  case (Cons m ms)
  then show ?case by (cases m) simp
qed simp

lemma outline_Cons: "outline (n # ns) = outline [n] @ outline ns"
  using outline_append [of "[n]" ns] by simp

lemma outline_space: "n_kind n = KSpace \<Longrightarrow> outline [n] = []"
  by (cases n) simp

lemma outline_walk:
  assumes "\<And>s n. n_kind (snd (f s n)) = n_kind n \<and> (n_kind n \<notin> {KWord, KSpace} \<longrightarrow> n_value (snd (f s n)) = n_value n)"
  shows "outline (snd (walk f s ns)) = outline ns"
  using assms
proof (induction f s ns rule: walk.induct)
  case (2 f s k v i j b a q u ms ns)
  let ?n = "Node k v i j b a q u ms"
  obtain s1 k' v' i' j' b' a' q' u' ms1 where f: "f s ?n = (s1, Node k' v' i' j' b' a' q' u' ms1)"
    by (metis node.exhaust surj_pair)
  have k: "k' = k" "k \<notin> {KWord, KSpace} \<Longrightarrow> v' = v" using "2.prems" [of s ?n] f by auto
  obtain s2 ms' where ms: "(if k' = KFunc then walk f s1 ms else (s1, ms)) = (s2, ms')" by force
  obtain s3 ns' where ns: "walk f s2 ns = (s3, ns')" by force
  have "outline ns' = outline ns" using "2.IH"(2) [OF f [symmetric] refl ms [symmetric] "2.prems"] ns by simp
  moreover have "k = KFunc \<Longrightarrow> outline ms' = outline ms"
    using "2.IH"(1) [OF f [symmetric] refl _ "2.prems"] ms k(1) by simp
  ultimately show ?case using f ms ns k by (auto split: kind.split)
qed simp

lemma outline_map: "(\<And>n. n \<in> set ns \<Longrightarrow> outline [f n] = outline [n]) \<Longrightarrow> outline (map f ns) = outline ns"
proof (induction ns)
  case (Cons n ns)
  then have "outline [f n] = outline [n]" "outline (map f ns) = outline ns" by auto
  then show ?case using outline_Cons [of n ns] outline_Cons [of "f n" "map f ns"] by simp
qed simp

lemma outline_nested: "outline [whitespace_nested n] = outline [n]"
proof (induction n rule: whitespace_nested.induct)
  case (1 k v i j b a q u ns)
  have "k = KFunc \<Longrightarrow> outline (map whitespace_nested ns) = outline ns" using "1.IH" by (intro outline_map) simp
  then show ?case by (cases k) (auto simp: normalize_div_spacing_def)
qed

lemma outline_update: "i < length ns \<Longrightarrow> outline (ns[i := whitespace_nested (ns ! i)]) = outline ns"
  by (subst (2) id_take_nth_drop [of i ns]) (simp_all add: upd_conv_take_nth_drop outline_Cons [of _ "drop _ _"] outline_nested)

lemma outline_loop: "whitespace_loop i maxi ns = Inr ms \<Longrightarrow> outline ms = outline ns"
proof (induction i maxi ns rule: whitespace_loop.induct)
  case (1 i maxi ns)
  show ?case
  proof (cases "maxi \<le> i \<or> length ns \<le> i")
    case True
    with "1.prems" show ?thesis by (subst (asm) whitespace_loop.simps) (auto split: if_splits)
  next
    case False
    let ?imp = "n_kind (ns ! i) = KWord \<and> n_value (ns ! i) = ''!important'' \<and> 0 < i \<and> n_kind (ns ! (i - 1)) = KSpace"
    show ?thesis
    proof (cases ?imp)
      case True
      have "whitespace_loop (i + 1) maxi (take (i - 1) ns @ drop i ns) = Inr ms"
        using "1.prems" True False by (subst (asm) whitespace_loop.simps) (simp add: Let_def)
      with "1.IH"(1) [OF _ _ refl True] False have "outline ms = outline (take (i - 1) ns) @ outline (drop i ns)" by simp
      moreover have "ns = take (i - 1) ns @ ns ! (i - 1) # drop i ns"
        using id_take_nth_drop [of "i - 1" ns] True False by (simp add: less_imp_diff_less)
      ultimately show ?thesis using True outline_space by (metis append_Nil outline_Cons outline_append)
    next
      case imp: False
      have "whitespace_loop (i + 1) maxi (ns[i := whitespace_nested (ns ! i)]) = Inr ms"
        using "1.prems" imp False by (subst (asm) whitespace_loop.simps) (auto simp: Let_def)
      with "1.IH"(2) [OF _ _ refl imp] False outline_update [of i ns] show ?thesis by simp
    qed
  qed
qed

lemma outline_trimmed: "outline (trimmed ns) = outline ns"
proof -
  have first: "outline (drop_first_space ns) = outline ns" for ns
  proof (cases ns)
    case (Cons n ms)
    then show ?thesis using outline_Cons [of n ms] by (simp add: drop_first_space_def outline_space)
  qed (simp add: drop_first_space_def)
  have "outline (butlast ms) = outline ms" if "ms \<noteq> []" "n_kind (last ms) = KSpace" for ms
    using that outline_space [OF that(2)] by (metis append_Nil2 append_butlast_last_id outline_append)
  with first show ?thesis by (simp add: trimmed_def Let_def)
qed

lemma with_value_sel [simp]: "n_kind (with_value w n) = n_kind n" "n_kind n = KWord \<Longrightarrow> outline [with_value w n] = outline [n]"
  by (cases n; simp add: with_value_def)+

lemma outline_words [simp]: "outline (walk_words g ns) = outline ns"
  unfolding walk_words_def by (rule outline_walk) simp

lemma outline_normalize_nodes: "outline (normalize_nodes J lower key rem ns) = outline ns"
proof -
  have "outline (normalize_zero_dimensions key ns) = outline ns" for key ns
  proof -
    have "n_kind (snd (zero_dimension s n)) = n_kind n \<and>
        (n_kind n \<notin> {KWord, KSpace} \<longrightarrow> n_value (snd (zero_dimension s n)) = n_value n)" for s n
      by (simp add: zero_dimension_def Let_def split: option.split)
    from outline_walk [OF this] show ?thesis by (simp add: normalize_zero_dimensions_def)
  qed
  moreover have "outline (normalize_quotes ns) = outline ns" for ns
    unfolding normalize_quotes_def by (rule outline_walk) (simp add: double_quote_def split: node.split)
  moreover have "outline (convert_camel_case_values lower key ns) = outline ns" for key ns
  proof -
    have "outline (map (\<lambda>n. if n_kind n = KWord \<and> P n then with_value (g n) n else n) ns) = outline ns" for P g
      by (rule outline_map) simp
    then show ?thesis by (simp add: convert_camel_case_values_def)
  qed
  ultimately show ?thesis
    by (simp add: normalize_nodes_def normalize_timings_def normalize_leading_zero_def convert_font_size_to_rem_def Let_def)
qed

text \<open>
  Normalization rewrites words and spaces only. The functions of a value with their names and nesting, its separators, its
  strings, its comments and its ranges are those of the input, in the same order, and no word appears or disappears.
\<close>

theorem normalize_keeps_outline:
  assumes "normalize_value J lower val key rem = Inr out"
  shows "\<exists>ms. out = stringify ms \<and> outline ms = outline (parse val)"
proof -
  from assms obtain ns where ns: "normalize_whitespace (parse val) = Inr ns" "out = stringify (normalize_nodes J lower key rem ns)"
    by (auto simp: normalize_value_def Let_def split: if_splits sum.splits)
  from ns(1) have "whitespace_loop 0 (length (trimmed (parse val))) (trimmed (parse val)) = Inr ns"
    by (simp add: normalize_whitespace_trimmed split: if_splits)
  from outline_loop [OF this] have "outline ns = outline (parse val)" by (simp add: outline_trimmed)
  with ns(2) show ?thesis by (intro exI [of _ "normalize_nodes J lower key rem ns"]) (simp add: outline_normalize_nodes)
qed

text \<open>Whole numbers, for running the definitions on values without fractions.\<close>

definition whole_numbers :: "int js_num" where
  "whole_numbers =
     \<lparr>j_lt = (<), j_eq = (=), j_add = (+), j_sub = (-), j_mul = (*), j_div = (div), j_floor = id, j_fract = (\<lambda>_. 0), j_of = id,
      j_half = 1, j_neg_zero = 0, j_inf = 10 ^ 9, j_neg_inf = - (10 ^ 9), j_nan = 0, j_is_nan = (\<lambda>_. False),
      j_parse = (\<lambda>s. int (case digits_val 10 0 (filter is_digit s) of Some n \<Rightarrow> n | None \<Rightarrow> 0)), ryu_js = (\<lambda>x. show_radix 10 (nat x))\<rparr>"

theorem normalize_keeps_outline_witness:
  "\<exists>ms. ''min(0px,2s) a!important'' = stringify ms \<and> outline ms = outline (parse '' min( 0px , 2000ms )  a !important '')"
proof -
  have "normalize_value whole_numbers to_ascii_lowercase '' min( 0px , 2000ms )  a !important '' ''width'' False =
      Inr ''min(0px,2s) a!important''"
    by code_simp
  then show ?thesis by (rule normalize_keeps_outline)
qed

end
