(* ===== verification/Stylex_Rtl.thy ===== *)
theory Stylex_Rtl
  imports Css_Normalize
begin

text \<open>
  Declarations for left-to-right and right-to-left pages, \<^verbatim>\<open>crates/oj_stylex/src/shared/rtl.rs\<close>: logical properties and values become
  physical ones, and the legacy flips of cursors and shadows.
\<close>

datatype style_resolution = PropertySpecificity | ApplicationOrder | LegacyExpandShorthands

record rtl_context =
  style_resolution :: style_resolution
  enable_logical_styles_polyfill :: bool
  enable_legacy_value_flipping :: bool

definition legacy :: "rtl_context \<Rightarrow> bool" where
  "legacy ctx \<longleftrightarrow> style_resolution ctx = LegacyExpandShorthands"

section \<open>Tables\<close>

definition ltr_value :: "string \<Rightarrow> string option" where
  "ltr_value v =
     (if v \<in> {''start'', ''inline-start''} then Some ''left''
      else if v \<in> {''end'', ''inline-end''} then Some ''right'' else None)"

definition rtl_value :: "string \<Rightarrow> string option" where
  "rtl_value v =
     (if v \<in> {''start'', ''inline-start''} then Some ''right''
      else if v \<in> {''end'', ''inline-end''} then Some ''left'' else None)"

definition ltr_property :: "string \<Rightarrow> string option" where
  "ltr_property = map_of
     [(''margin-start'', ''margin-left''), (''margin-end'', ''margin-right''), (''padding-start'', ''padding-left''),
      (''padding-end'', ''padding-right''), (''border-start'', ''border-left''), (''border-end'', ''border-right''),
      (''border-start-width'', ''border-left-width''), (''border-end-width'', ''border-right-width''),
      (''border-start-color'', ''border-left-color''), (''border-end-color'', ''border-right-color''),
      (''border-start-style'', ''border-left-style''), (''border-end-style'', ''border-right-style''),
      (''border-top-start-radius'', ''border-top-left-radius''), (''border-bottom-start-radius'', ''border-bottom-left-radius''),
      (''border-top-end-radius'', ''border-top-right-radius''), (''border-bottom-end-radius'', ''border-bottom-right-radius''),
      (''start'', ''left''), (''end'', ''right'')]"

definition rtl_property :: "string \<Rightarrow> string option" where
  "rtl_property = map_of
     [(''margin-start'', ''margin-right''), (''margin-end'', ''margin-left''), (''padding-start'', ''padding-right''),
      (''padding-end'', ''padding-left''), (''border-start'', ''border-right''), (''border-end'', ''border-left''),
      (''border-start-width'', ''border-right-width''), (''border-end-width'', ''border-left-width''),
      (''border-start-color'', ''border-right-color''), (''border-end-color'', ''border-left-color''),
      (''border-start-style'', ''border-right-style''), (''border-end-style'', ''border-left-style''),
      (''border-top-start-radius'', ''border-top-right-radius''), (''border-bottom-start-radius'', ''border-bottom-right-radius''),
      (''border-top-end-radius'', ''border-top-left-radius''), (''border-bottom-end-radius'', ''border-bottom-left-radius''),
      (''start'', ''right''), (''end'', ''left'')]"

definition inline_ltr_property :: "string \<Rightarrow> string option" where
  "inline_ltr_property = map_of
     [(''margin-inline-start'', ''margin-left''), (''margin-inline-end'', ''margin-right''),
      (''padding-inline-start'', ''padding-left''), (''padding-inline-end'', ''padding-right''),
      (''border-inline-start'', ''border-left''), (''border-inline-end'', ''border-right''),
      (''border-inline-start-width'', ''border-left-width''), (''border-inline-end-width'', ''border-right-width''),
      (''border-inline-start-color'', ''border-left-color''), (''border-inline-end-color'', ''border-right-color''),
      (''border-inline-start-style'', ''border-left-style''), (''border-inline-end-style'', ''border-right-style''),
      (''border-start-start-radius'', ''border-top-left-radius''), (''border-start-end-radius'', ''border-top-right-radius''),
      (''border-end-start-radius'', ''border-bottom-left-radius''), (''border-end-end-radius'', ''border-bottom-right-radius''),
      (''inset-inline-start'', ''left''), (''inset-inline-end'', ''right'')]"

definition inline_rtl_property :: "string \<Rightarrow> string option" where
  "inline_rtl_property = map_of
     [(''margin-inline-start'', ''margin-right''), (''margin-inline-end'', ''margin-left''),
      (''padding-inline-start'', ''padding-right''), (''padding-inline-end'', ''padding-left''),
      (''border-inline-start'', ''border-right''), (''border-inline-end'', ''border-left''),
      (''border-inline-start-width'', ''border-right-width''), (''border-inline-end-width'', ''border-left-width''),
      (''border-inline-start-color'', ''border-right-color''), (''border-inline-end-color'', ''border-left-color''),
      (''border-inline-start-style'', ''border-right-style''), (''border-inline-end-style'', ''border-left-style''),
      (''border-start-start-radius'', ''border-top-right-radius''), (''border-start-end-radius'', ''border-top-left-radius''),
      (''border-end-start-radius'', ''border-bottom-right-radius''), (''border-end-end-radius'', ''border-bottom-left-radius''),
      (''inset-inline-start'', ''right''), (''inset-inline-end'', ''left'')]"

definition cursor_flip :: "string \<Rightarrow> string option" where
  "cursor_flip = map_of
     [(''e-resize'', ''w-resize''), (''w-resize'', ''e-resize''), (''ne-resize'', ''nw-resize''), (''nw-resize'', ''ne-resize''),
      (''se-resize'', ''sw-resize''), (''sw-resize'', ''se-resize''), (''nesw-resize'', ''nwse-resize''), (''nwse-resize'', ''nesw-resize'')]"

section \<open>Values\<close>

definition position_word :: "string \<Rightarrow> string \<Rightarrow> string \<Rightarrow> string" where
  "position_word start_to end_to word =
     (if word \<in> {''start'', ''insetInlineStart''} then start_to
      else if word \<in> {''end'', ''insetInlineEnd''} then end_to else word)"

definition map_background_position :: "string \<Rightarrow> string \<Rightarrow> string \<Rightarrow> string" where
  "map_background_position val start_to end_to = join_with '' '' (map (position_word start_to end_to) (split_on CHR '' '' val))"

text \<open>The groups of nodes between separators; empty groups are dropped.\<close>

fun groups_from :: "node list \<Rightarrow> node list \<Rightarrow> string list" where
  "groups_from current [] = (if current = [] then [] else [stringify current])"
| "groups_from current (n # ns) =
     (if n_kind n = KDiv then (if current = [] then [] else [stringify current]) @ groups_from [] ns
      else groups_from (current @ [n]) ns)"

definition split_by_divisor :: "string \<Rightarrow> string list" where
  "split_by_divisor val = groups_from [] (parse val)"

definition starts_like_number :: "string \<Rightarrow> bool" where
  "starts_like_number part \<longleftrightarrow> unit_of part \<noteq> None"

definition flip_sign :: "string \<Rightarrow> string" where
  "flip_sign part =
     (if part = ''0'' then part else case strip_prefix ''-'' part of Some rest \<Rightarrow> rest | None \<Rightarrow> CHR ''-'' # part)"

definition flip_group :: "string \<Rightarrow> string" where
  "flip_group def =
     (let parts = split_on CHR '' '' def;
          index = (if starts_like_number (hd parts) then 0 else 1)
      in join_with '' '' (if index < length parts then parts[index := flip_sign (parts ! index)] else parts))"

definition flip_shadow :: "string \<Rightarrow> string option" where
  "flip_shadow val =
     (let rtl = join_with '','' (map flip_group (split_by_divisor val)) in if rtl \<noteq> val then Some rtl else None)"

section \<open>Declarations\<close>

definition generate_ltr :: "rtl_context \<Rightarrow> string \<Rightarrow> string \<Rightarrow> string \<times> string" where
  "generate_ltr ctx key val =
     (if legacy ctx \<and> \<not> enable_logical_styles_polyfill ctx then (key, val)
      else case (if legacy ctx then inline_ltr_property key else None) of
        Some mapped \<Rightarrow> (mapped, val)
      | None \<Rightarrow>
          (case ltr_property key of
             Some mapped \<Rightarrow> (mapped, val)
           | None \<Rightarrow>
               if key \<in> {''float'', ''clear''} then (key, case ltr_value val of Some v \<Rightarrow> v | None \<Rightarrow> val)
               else if key = ''background-position'' then (key, map_background_position val ''left'' ''right'')
               else (key, val)))"

definition generate_rtl :: "rtl_context \<Rightarrow> string \<Rightarrow> string \<Rightarrow> (string \<times> string) option" where
  "generate_rtl ctx key val =
     (if legacy ctx \<and> \<not> enable_logical_styles_polyfill ctx then None
      else case (if legacy ctx then inline_rtl_property key else None) of
        Some mapped \<Rightarrow> Some (mapped, val)
      | None \<Rightarrow>
          (case rtl_property key of
             Some mapped \<Rightarrow> Some (mapped, val)
           | None \<Rightarrow>
               if key \<in> {''float'', ''clear''} then map_option (\<lambda>v. (key, v)) (rtl_value val)
               else if key = ''background-position''
               then (if list_ex (\<lambda>w. w = ''start'' \<or> w = ''end'') (split_on CHR '' '' val)
                     then Some (key, map_background_position val ''right'' ''left'') else None)
               else if key = ''cursor'' \<and> enable_legacy_value_flipping ctx then map_option (\<lambda>v. (key, v)) (cursor_flip val)
               else if key \<in> {''box-shadow'', ''text-shadow''} \<and> enable_legacy_value_flipping ctx
               then map_option (\<lambda>v. (key, v)) (flip_shadow val)
               else None))"

section \<open>The two declarations mirror each other\<close>

definition swap_side :: "string \<Rightarrow> string" where
  "swap_side w = (if w = ''left'' then ''right'' else if w = ''right'' then ''left'' else w)"

definition mirror_property :: "string \<Rightarrow> string" where
  "mirror_property key = join_with ''-'' (map swap_side (split_on CHR ''-'' key))"

lemma tables_mirror:
  "rtl_property key = map_option mirror_property (ltr_property key)"
  "inline_rtl_property key = map_option mirror_property (inline_ltr_property key)"
  by (simp_all add: rtl_property_def ltr_property_def inline_rtl_property_def inline_ltr_property_def mirror_property_def swap_side_def)

lemma values_mirror: "rtl_value v = map_option swap_side (ltr_value v)"
  by (simp add: rtl_value_def ltr_value_def swap_side_def)

lemma cursor_flip_involutive: "cursor_flip c = Some d \<Longrightarrow> cursor_flip d = Some c"
  by (auto simp: cursor_flip_def split: if_splits)

lemma ltr_value_moves: "ltr_value v = Some w \<Longrightarrow> w \<noteq> v"
  by (auto simp: ltr_value_def split: if_splits)

lemma directional_keys:
  "ltr_property key = Some l \<Longrightarrow> l \<noteq> key \<and> key \<notin> {''float'', ''clear'', ''background-position'', ''cursor'', ''box-shadow'', ''text-shadow''}"
  "inline_ltr_property key = Some l \<Longrightarrow> l \<noteq> key \<and> key \<notin> {''float'', ''clear'', ''background-position'', ''cursor'', ''box-shadow'', ''text-shadow''}"
  by (auto simp: ltr_property_def inline_ltr_property_def split: if_splits)

text \<open>
  Without the legacy flips, a declaration has a right-to-left form exactly when it is directional, and the two forms mirror each
  other: the property with its sides swapped and the same value, or the same property with the side swapped. A position is
  directional when it names a start or an end.
\<close>

theorem rtl_mirrors_ltr:
  assumes "\<not> enable_legacy_value_flipping ctx"
  shows "generate_rtl ctx key val =
    (let (k, v) = generate_ltr ctx key val in
     if key = ''background-position''
     then (if \<not> (legacy ctx \<and> \<not> enable_logical_styles_polyfill ctx) \<and> (''start'' \<in> set (split_on CHR '' '' val) \<or> ''end'' \<in> set (split_on CHR '' '' val))
           then Some (k, map_background_position val ''right'' ''left'') else None)
     else if k \<noteq> key then Some (mirror_property k, v)
     else if v \<noteq> val then Some (k, swap_side v)
     else None)"
proof (cases "legacy ctx \<and> \<not> enable_logical_styles_polyfill ctx")
  case True
  then show ?thesis by (simp add: generate_rtl_def generate_ltr_def)
next
  case on: False
  let ?inline = "if legacy ctx then inline_ltr_property key else None"
  have inline: "(if legacy ctx then inline_rtl_property key else None) = map_option mirror_property ?inline"
    by (simp add: tables_mirror)
  show ?thesis
  proof (cases "?inline = None \<and> ltr_property key = None")
    case True
    then have "generate_ltr ctx key val =
        (if key \<in> {''float'', ''clear''} then (key, case ltr_value val of Some v \<Rightarrow> v | None \<Rightarrow> val)
         else if key = ''background-position'' then (key, map_background_position val ''left'' ''right'') else (key, val))"
      using on by (auto simp: generate_ltr_def)
    moreover have "generate_rtl ctx key val =
        (if key \<in> {''float'', ''clear''} then map_option (\<lambda>v. (key, v)) (map_option swap_side (ltr_value val))
         else if key = ''background-position''
         then (if list_ex (\<lambda>w. w = ''start'' \<or> w = ''end'') (split_on CHR '' '' val)
               then Some (key, map_background_position val ''right'' ''left'') else None)
         else None)"
    proof -
      have "rtl_property key = None" "(if legacy ctx then inline_rtl_property key else None) = None"
        using True inline tables_mirror(1) [of key] by simp_all
      then show ?thesis using on assms unfolding generate_rtl_def values_mirror by (simp only: option.case if_False) simp
    qed
    ultimately show ?thesis using on ltr_value_moves [of val] by (auto simp: list_ex_iff split: option.split)
  next
    case False
    then obtain l where l: "generate_ltr ctx key val = (l, val)" "generate_rtl ctx key val = Some (mirror_property l, val)"
        "?inline = Some l \<or> ltr_property key = Some l"
      using on inline by (cases ?inline) (auto simp: generate_ltr_def generate_rtl_def tables_mirror(1))
    then have "l \<noteq> key" "key \<noteq> ''background-position''" using directional_keys [of key l] by (auto split: if_splits)
    with l show ?thesis by simp
  qed
qed

theorem rtl_mirrors_ltr_witness:
  "generate_rtl \<lparr>style_resolution = PropertySpecificity, enable_logical_styles_polyfill = False, enable_legacy_value_flipping = False\<rparr>
     ''border-top-start-radius'' ''2px'' = Some (''border-top-right-radius'', ''2px'')"
  by (subst rtl_mirrors_ltr) (simp, code_simp)

end
