(* ===== verification/Stylex_Collate.thy ===== *)
theory Stylex_Collate
  imports Stylex_Hash "HOL-Library.Multiset"
begin

text \<open>
  The orders of the StyleX compiler: JavaScript's default string order and the pinned part of \<^verbatim>\<open>localeCompare\<close>
  (\<^verbatim>\<open>crates/oj_stylex/src/jsrt.rs\<close>), and the sorting of pseudo selectors and at-rules before they are hashed
  (\<^verbatim>\<open>shared/pseudo_sort.rs\<close>). The order of conditions in the source must not change a class name, so what matters is that
  the sorted list does not depend on the order of the input.
\<close>

section \<open>Comparison\<close>

datatype ordering = Less | Equal | Greater

text \<open>\<^verbatim>\<open>Iterator::cmp\<close>.\<close>

fun cmp_list :: "'a::linorder list \<Rightarrow> 'a list \<Rightarrow> ordering" where
  "cmp_list [] [] = Equal"
| "cmp_list [] (y # ys) = Less"
| "cmp_list (x # xs) [] = Greater"
| "cmp_list (x # xs) (y # ys) = (if x < y then Less else if y < x then Greater else cmp_list xs ys)"

definition utf16_cmp :: "string \<Rightarrow> string \<Rightarrow> ordering" where
  "utf16_cmp a b = cmp_list (utf16_units a) (utf16_units b)"

text \<open>\<^verbatim>\<open>str::chars\<close>: the code points of a UTF-8 string.\<close>

fun code_points :: "string \<Rightarrow> int list" where
  "code_points [] = []"
| "code_points (a # s) =
     (let x = of_char a in
      if x < 0x80 then x # code_points s
      else (case s of
          b # s1 \<Rightarrow>
            let y = of_char b mod 64 in
            if x < 0xE0 then (x mod 32 * 64 + y) # code_points s1
            else (case s1 of
                c # s2 \<Rightarrow>
                  let z = of_char c mod 64 in
                  if x < 0xF0 then (x mod 16 * 4096 + y * 64 + z) # code_points s2
                  else (case s2 of
                      d # s3 \<Rightarrow> (x mod 8 * 262144 + y * 4096 + z * 64 + of_char d mod 64) # code_points s3
                    | [] \<Rightarrow> [])
              | [] \<Rightarrow> [])
        | [] \<Rightarrow> []))"

text \<open>A code point, and its primary, secondary and tertiary weight.\<close>

definition locale_rows :: "(int \<times> int \<times> int \<times> int) list" where
  "locale_rows =
      [(32, 0, 0, 0), (95, 1, 0, 0), (45, 2, 0, 0), (8211, 3, 0, 0), (8212, 4, 0, 0), (44, 5, 0, 0), (59, 6, 0, 0),
       (58, 7, 0, 0), (33, 8, 0, 0), (161, 9, 0, 0), (63, 10, 0, 0), (191, 11, 0, 0), (46, 12, 0, 0), (183, 13, 0, 0),
       (39, 14, 0, 0), (8216, 14, 1, 0), (8217, 14, 2, 0), (8249, 15, 0, 0), (8250, 16, 0, 0), (34, 17, 0, 0),
       (8220, 17, 1, 0), (8221, 17, 2, 0), (171, 18, 0, 0), (187, 19, 0, 0), (40, 20, 0, 0), (41, 21, 0, 0),
       (91, 22, 0, 0), (93, 23, 0, 0), (123, 24, 0, 0), (125, 25, 0, 0), (167, 26, 0, 0), (182, 27, 0, 0), (64, 28, 0, 0),
       (42, 29, 0, 0), (47, 30, 0, 0), (92, 31, 0, 0), (38, 32, 0, 0), (35, 33, 0, 0), (37, 34, 0, 0), (8240, 35, 0, 0),
       (8224, 36, 0, 0), (8225, 37, 0, 0), (8226, 38, 0, 0), (8243, 39, 0, 0), (96, 40, 0, 0), (180, 41, 0, 0),
       (94, 42, 0, 0), (175, 43, 0, 0), (168, 44, 0, 0), (184, 45, 0, 0), (176, 46, 0, 0), (169, 47, 0, 0),
       (174, 48, 0, 0), (8592, 49, 0, 0), (8594, 50, 0, 0), (8596, 51, 0, 0), (8658, 52, 0, 0), (43, 53, 0, 0),
       (177, 54, 0, 0), (247, 55, 0, 0), (215, 56, 0, 0), (60, 57, 0, 0), (61, 58, 0, 0), (8800, 58, 1, 0), (62, 59, 0, 0),
       (172, 60, 0, 0), (124, 61, 0, 0), (166, 62, 0, 0), (126, 63, 0, 0), (8734, 64, 0, 0), (8776, 65, 0, 0),
       (8804, 66, 0, 0), (8805, 67, 0, 0), (9733, 68, 0, 0), (9734, 69, 0, 0), (9824, 70, 0, 0), (9827, 71, 0, 0),
       (9829, 72, 0, 0), (9830, 73, 0, 0), (10003, 74, 0, 0), (10007, 75, 0, 0), (10024, 76, 0, 0), (10084, 77, 0, 0),
       (11088, 78, 0, 0), (127881, 79, 0, 0), (128077, 80, 0, 0), (128175, 81, 0, 0), (128293, 82, 0, 0),
       (129412, 83, 0, 0), (128512, 84, 0, 0), (128640, 85, 0, 0), (164, 86, 0, 0), (162, 87, 0, 0), (36, 88, 0, 0),
       (163, 89, 0, 0), (165, 90, 0, 0), (8364, 91, 0, 0), (48, 92, 0, 0), (49, 93, 0, 0), (50, 94, 0, 0), (178, 94, 0, 1),
       (51, 95, 0, 0), (179, 95, 0, 1), (52, 96, 0, 0), (53, 97, 0, 0), (54, 98, 0, 0), (55, 99, 0, 0), (56, 100, 0, 0),
       (57, 101, 0, 0), (97, 102, 0, 0), (65, 102, 0, 1), (170, 102, 0, 2), (225, 102, 1, 0), (193, 102, 1, 1),
       (224, 102, 2, 0), (192, 102, 2, 1), (226, 102, 3, 0), (194, 102, 3, 1), (229, 102, 4, 0), (197, 102, 4, 1),
       (228, 102, 5, 0), (196, 102, 5, 1), (227, 102, 6, 0), (195, 102, 6, 1), (98, 103, 0, 0), (66, 103, 0, 1),
       (99, 104, 0, 0), (67, 104, 0, 1), (231, 104, 1, 0), (199, 104, 1, 1), (100, 105, 0, 0), (68, 105, 0, 1),
       (240, 105, 1, 0), (208, 105, 1, 1), (101, 106, 0, 0), (69, 106, 0, 1), (233, 106, 1, 0), (201, 106, 1, 1),
       (232, 106, 2, 0), (200, 106, 2, 1), (234, 106, 3, 0), (202, 106, 3, 1), (235, 106, 4, 0), (203, 106, 4, 1),
       (102, 107, 0, 0), (70, 107, 0, 1), (103, 108, 0, 0), (71, 108, 0, 1), (104, 109, 0, 0), (72, 109, 0, 1),
       (105, 110, 0, 0), (73, 110, 0, 1), (237, 110, 1, 0), (205, 110, 1, 1), (236, 110, 2, 0), (204, 110, 2, 1),
       (238, 110, 3, 0), (206, 110, 3, 1), (239, 110, 4, 0), (207, 110, 4, 1), (106, 111, 0, 0), (74, 111, 0, 1),
       (107, 112, 0, 0), (75, 112, 0, 1), (108, 113, 0, 0), (76, 113, 0, 1), (109, 114, 0, 0), (77, 114, 0, 1),
       (110, 115, 0, 0), (78, 115, 0, 1), (241, 115, 1, 0), (209, 115, 1, 1), (111, 116, 0, 0), (79, 116, 0, 1),
       (186, 116, 0, 2), (243, 116, 1, 0), (211, 116, 1, 1), (242, 116, 2, 0), (210, 116, 2, 1), (244, 116, 3, 0),
       (212, 116, 3, 1), (246, 116, 4, 0), (214, 116, 4, 1), (245, 116, 5, 0), (213, 116, 5, 1), (248, 116, 6, 0),
       (216, 116, 6, 1), (112, 117, 0, 0), (80, 117, 0, 1), (113, 118, 0, 0), (81, 118, 0, 1), (114, 119, 0, 0),
       (82, 119, 0, 1), (115, 120, 0, 0), (83, 120, 0, 1), (116, 121, 0, 0), (84, 121, 0, 1), (117, 122, 0, 0),
       (85, 122, 0, 1), (250, 122, 1, 0), (218, 122, 1, 1), (249, 122, 2, 0), (217, 122, 2, 1), (251, 122, 3, 0),
       (219, 122, 3, 1), (252, 122, 4, 0), (220, 122, 4, 1), (118, 123, 0, 0), (86, 123, 0, 1), (119, 124, 0, 0),
       (87, 124, 0, 1), (120, 125, 0, 0), (88, 125, 0, 1), (121, 126, 0, 0), (89, 126, 0, 1), (253, 126, 1, 0),
       (221, 126, 1, 1), (255, 126, 2, 0), (122, 127, 0, 0), (90, 127, 0, 1), (254, 128, 0, 0), (222, 128, 0, 1),
       (945, 129, 0, 0), (946, 130, 0, 0), (947, 131, 0, 0), (948, 132, 0, 0), (181, 133, 0, 0), (960, 134, 0, 0),
       (937, 135, 0, 0), (1072, 136, 0, 0), (1073, 137, 0, 0), (1074, 138, 0, 0), (20013, 139, 0, 0), (26085, 140, 0, 0)]"

definition locale_key :: "int \<Rightarrow> (int \<times> int \<times> int) option" where
  "locale_key c = map_of locale_rows c"

fun locale_keys :: "int list \<Rightarrow> (int \<times> int \<times> int) list option" where
  "locale_keys [] = Some []"
| "locale_keys (c # cs) =
     (case locale_key c of
        None \<Rightarrow> None
      | Some k \<Rightarrow> map_option (\<lambda>ks. k # ks) (locale_keys cs))"

definition locale_cmp :: "string \<Rightarrow> string \<Rightarrow> ordering option" where
  "locale_cmp a b =
     (case locale_keys (code_points a) of
        None \<Rightarrow> None
      | Some ka \<Rightarrow>
          (case locale_keys (code_points b) of
             None \<Rightarrow> None
           | Some kb \<Rightarrow>
               let primary = cmp_list (map fst ka) (map fst kb) in
               if primary \<noteq> Equal then Some primary
               else let secondary = cmp_list (map (fst \<circ> snd) ka) (map (fst \<circ> snd) kb) in
                    if secondary \<noteq> Equal then Some secondary
                    else Some (cmp_list (map (snd \<circ> snd) ka) (map (snd \<circ> snd) kb))))"

definition default_locale_cmp :: "string \<Rightarrow> string \<Rightarrow> ordering" where
  "default_locale_cmp a b = (case locale_cmp a b of Some r \<Rightarrow> r | None \<Rightarrow> utf16_cmp a b)"

definition unverified_collation_char :: "string \<Rightarrow> int option" where
  "unverified_collation_char s = List.find (\<lambda>c. locale_key c = None) (code_points s)"

section \<open>Sorting conditions\<close>

text \<open>\<^verbatim>\<open>slice::sort_by\<close> is stable: equal elements keep their order.\<close>

fun insert_by :: "('a \<Rightarrow> 'a \<Rightarrow> ordering) \<Rightarrow> 'a \<Rightarrow> 'a list \<Rightarrow> 'a list" where
  "insert_by cmp x [] = [x]"
| "insert_by cmp x (y # ys) = (if cmp x y \<noteq> Greater then x # y # ys else y # insert_by cmp x ys)"

definition sort_by :: "('a \<Rightarrow> 'a \<Rightarrow> ordering) \<Rightarrow> 'a list \<Rightarrow> 'a list" where
  "sort_by cmp xs = foldr (insert_by cmp) xs []"

definition sort_at_rules :: "string list \<Rightarrow> string list" where
  "sort_at_rules = sort_by utf16_cmp"

text \<open>\<^verbatim>\<open>expect\<close> is never reached: the characters of a run are checked before it is sorted.\<close>

definition string_comparator :: "string \<Rightarrow> string \<Rightarrow> ordering" where
  "string_comparator a b =
     (if a = ''default'' then Less else if b = ''default'' then Greater
      else case locale_cmp a b of Some r \<Rightarrow> r | None \<Rightarrow> Equal)"

datatype sort_error = UnverifiedPseudo string int

fun first_unverified :: "string list \<Rightarrow> sort_error option" where
  "first_unverified [] = None"
| "first_unverified (p # ps) =
     (case unverified_collation_char p of Some c \<Rightarrow> Some (UnverifiedPseudo p c) | None \<Rightarrow> first_unverified ps)"

definition sort_run :: "string list \<Rightarrow> sort_error + string list" where
  "sort_run run =
     (case (if 2 \<le> length run then first_unverified run else None) of
        Some e \<Rightarrow> Inl e
      | None \<Rightarrow> Inr (sort_by string_comparator run))"

fun sort_runs :: "string list \<Rightarrow> string list \<Rightarrow> sort_error + string list" where
  "sort_runs run [] = sort_run run"
| "sort_runs run (p # ps) =
     (if starts_with ''::'' p
      then (case sort_run run of
              Inl e \<Rightarrow> Inl e
            | Inr r \<Rightarrow> (case sort_runs [] ps of Inl e \<Rightarrow> Inl e | Inr rest \<Rightarrow> Inr (r @ p # rest)))
      else sort_runs (run @ [p]) ps)"

definition sort_pseudos :: "string list \<Rightarrow> sort_error + string list" where
  "sort_pseudos ps = (if length ps < 2 then Inr ps else sort_runs [] ps)"

section \<open>The orders are orders\<close>

lemma cmp_list_less: "cmp_list xs ys = Less \<longleftrightarrow> xs < ys" "cmp_list xs ys = Equal \<longleftrightarrow> xs = ys"
  by (induction xs ys rule: cmp_list.induct) auto

lemma cmp_list_le: "cmp_list xs ys \<noteq> Greater \<longleftrightarrow> xs \<le> ys"
  using cmp_list_less [of xs ys] by (cases "cmp_list xs ys") auto

lemma sort_by_key:
  assumes "\<And>x y. x \<in> set xs \<Longrightarrow> y \<in> set xs \<Longrightarrow> cmp x y \<noteq> Greater \<longleftrightarrow> K x \<le> (K y :: 'k::linorder)"
  shows "sort_by cmp xs = sort_key K xs"
proof -
  have ins: "insert_by cmp x ys = insort_key K x ys" if "x \<in> set xs" "set ys \<subseteq> set xs" for x ys
    using that assms by (induction ys) auto
  have "foldr (insert_by cmp) zs [] = sort_key K zs" if "set zs \<subseteq> set xs" for zs
    using that
  proof (induction zs)
    case (Cons z zs)
    then have "insert_by cmp z (sort_key K zs) = insort_key K z (sort_key K zs)" by (intro ins) simp_all
    with Cons show ?case by (simp add: sort_key_def)
  qed (simp add: sort_key_def)
  then show ?thesis by (simp add: sort_by_def)
qed

lemma sort_key_mset:
  assumes "mset xs = mset ys" "inj_on K (set xs)"
  shows "sort_key K xs = sort_key K ys"
  using assms by (intro sort_key_inj_key_eq) simp_all

lemma code_points_ascii: "is_ascii s \<Longrightarrow> code_points s = map of_char s"
proof (induction s)
  case (Cons a s)
  have "(of_char a :: int) = of_nat (of_char a)" by (simp add: of_nat_of_char)
  with Cons have "(of_char a :: int) < 128" by (simp only: is_ascii_def list.pred_inject of_nat_less_numeral_iff)
  with Cons show ?case by (simp add: is_ascii_def)
qed simp

lemma map_of_char_inject:
  "map of_char a = (map of_char b :: nat list) \<longleftrightarrow> a = b" "map of_char a = (map of_char b :: int list) \<longleftrightarrow> a = b"
  using inj_map_eq_map [OF inj_of_char [where 'a = nat]] inj_map_eq_map [OF inj_of_char [where 'a = int]] by blast+

lemma sort_at_rules_key: "sort_at_rules xs = sort_key utf16_units xs"
  unfolding sort_at_rules_def by (rule sort_by_key) (simp add: utf16_cmp_def cmp_list_le)

lemma sort_at_rules_mset:
  assumes "mset xs = mset ys" "list_all is_ascii xs"
  shows "sort_at_rules xs = sort_at_rules ys"
proof -
  have "inj_on utf16_units (set xs)"
    using assms(2) by (auto simp: inj_on_def list_all_iff utf16_units_ascii map_of_char_inject)
  then show ?thesis using sort_key_mset [OF assms(1)] by (simp add: sort_at_rules_key)
qed

definition pseudo_key :: "string \<Rightarrow> bool \<times> int list \<times> int list \<times> int list" where
  "pseudo_key a =
     (a \<noteq> ''default'',
      case locale_keys (code_points a) of
        Some ka \<Rightarrow> (map fst ka, map (fst \<circ> snd) ka, map (snd \<circ> snd) ka)
      | None \<Rightarrow> ([], [], []))"

lemma locale_keys_Some: "locale_keys cs \<noteq> None \<longleftrightarrow> (\<forall>c \<in> set cs. locale_key c \<noteq> None)"
  by (induction cs) (auto split: option.splits)

lemma verified_iff: "unverified_collation_char s = None \<longleftrightarrow> locale_keys (code_points s) \<noteq> None"
  unfolding locale_keys_Some by (auto simp: unverified_collation_char_def find_None_iff)

lemma comparator_key:
  assumes "locale_keys (code_points a) \<noteq> None" "locale_keys (code_points b) \<noteq> None"
  shows "string_comparator a b \<noteq> Greater \<longleftrightarrow> pseudo_key a \<le> pseudo_key b"
proof -
  obtain ka kb where k: "locale_keys (code_points a) = Some ka" "locale_keys (code_points b) = Some kb" using assms by blast
  have "locale_cmp a b \<noteq> Some Greater \<longleftrightarrow>
      (map fst ka, map (fst \<circ> snd) ka, map (snd \<circ> snd) ka) \<le> (map fst kb, map (fst \<circ> snd) kb, map (snd \<circ> snd) kb)"
    using cmp_list_le [of "map fst ka" "map fst kb"] cmp_list_less [of "map fst ka" "map fst kb"]
      cmp_list_le [of "map (fst \<circ> snd) ka" "map (fst \<circ> snd) kb"] cmp_list_less [of "map (fst \<circ> snd) ka" "map (fst \<circ> snd) kb"]
      cmp_list_le [of "map (snd \<circ> snd) ka" "map (snd \<circ> snd) kb"]
    by (auto simp: locale_cmp_def k Let_def less_eq_prod_simp)
  moreover have "locale_cmp a b \<noteq> None" by (simp add: locale_cmp_def k Let_def)
  ultimately have cmp: "a \<noteq> ''default'' \<Longrightarrow> b \<noteq> ''default'' \<Longrightarrow> ?thesis"
    by (auto simp: string_comparator_def pseudo_key_def k less_eq_prod_simp)
  consider "a = ''default''" "b = ''default''" | "a = ''default''" "b \<noteq> ''default''" | "a \<noteq> ''default''" "b = ''default''"
    | "a \<noteq> ''default''" "b \<noteq> ''default''" by blast
  then show ?thesis by cases (simp_all add: cmp, simp_all add: string_comparator_def pseudo_key_def less_eq_prod_simp)
qed

text \<open>The rows are in the order of their weights, so that no two characters have the same.\<close>

lemma locale_rows_sorted: "successively (<) (map snd locale_rows)"
  unfolding locale_rows_def by simp

lemma locale_rows_distinct: "distinct (map snd locale_rows)"
proof -
  have "sorted_wrt (<) (map snd locale_rows)"
    using locale_rows_sorted by (simp add: successively_iff_sorted_wrt_strong transp_def)
  then show ?thesis by (simp add: strict_sorted_iff)
qed

lemma locale_key_inject: "locale_key c = Some k \<Longrightarrow> locale_key d = Some k \<Longrightarrow> c = d"
  unfolding locale_key_def using locale_rows_distinct
  by (metis distinct_map fst_conv inj_onD map_of_SomeD snd_conv)

lemma locale_keys_inject: "locale_keys cs = Some ks \<Longrightarrow> locale_keys ds = Some ks \<Longrightarrow> cs = ds"
proof (induction cs arbitrary: ds ks)
  case Nil
  then show ?case by (cases ds) (auto split: option.splits)
next
  case (Cons c cs)
  from Cons.prems(1) obtain k ks' where k: "locale_key c = Some k" "locale_keys cs = Some ks'" "ks = k # ks'"
    by (auto split: option.splits)
  with Cons.prems(2) obtain d ds' where d: "ds = d # ds'" by (cases ds) auto
  with Cons.prems(2) k(3) have "locale_key d = Some k" "locale_keys ds' = Some ks'" by (auto split: option.splits)
  with k d Cons.IH locale_key_inject show ?case by blast
qed

lemma triples_inject:
  "map fst ks = map fst ls \<Longrightarrow> map (fst \<circ> snd) ks = map (fst \<circ> snd) ls \<Longrightarrow> map (snd \<circ> snd) ks = map (snd \<circ> snd) ls \<Longrightarrow> ks = ls"
  by (induction ks arbitrary: ls) (auto simp: prod_eq_iff)

lemma pseudo_key_inject:
  assumes "locale_keys (code_points a) \<noteq> None" "locale_keys (code_points b) \<noteq> None" "is_ascii a" "is_ascii b" "pseudo_key a = pseudo_key b"
  shows "a = b"
proof -
  obtain ka kb where k: "locale_keys (code_points a) = Some ka" "locale_keys (code_points b) = Some kb" using assms by blast
  with assms(5) have "ka = kb" by (intro triples_inject) (simp_all add: pseudo_key_def)
  with k locale_keys_inject have "code_points a = code_points b" by blast
  with assms(3,4) show ?thesis by (simp add: code_points_ascii map_of_char_inject)
qed

lemma first_unverified_None: "first_unverified ps = None \<longleftrightarrow> (\<forall>p \<in> set ps. locale_keys (code_points p) \<noteq> None)"
  unfolding verified_iff [symmetric] by (induction ps) (auto split: option.splits)

lemma sort_run_mset:
  assumes "mset xs = mset ys" "list_all is_ascii xs" "sort_run xs = Inr r"
  shows "sort_run ys = Inr r"
proof -
  have len: "length xs = length ys" and same: "set xs = set ys" using assms(1) mset_eq_length mset_eq_setD by blast+
  show ?thesis
  proof (cases "2 \<le> length xs")
    case True
    with assms(3) have none: "first_unverified xs = None" and r: "r = sort_by string_comparator xs"
      by (auto simp: sort_run_def split: option.splits)
    have ok: "\<forall>p \<in> set xs. locale_keys (code_points p) \<noteq> None" using none first_unverified_None by blast
    have key: "sort_by string_comparator zs = sort_key pseudo_key zs" if "set zs = set xs" for zs
      using that ok by (intro sort_by_key comparator_key) auto
    have "inj_on pseudo_key (set xs)" using ok assms(2) pseudo_key_inject by (auto simp: inj_on_def list_all_iff)
    then have "sort_key pseudo_key xs = sort_key pseudo_key ys" by (rule sort_key_mset [OF assms(1)])
    moreover have "first_unverified ys = None" using none same by (simp add: first_unverified_None)
    ultimately show ?thesis using True len r key [of xs] key [of ys] same by (simp add: sort_run_def)
  next
    case False
    have "xs = ys"
    proof (cases xs)
      case (Cons x xs')
      with False have "xs = [x]" by (cases xs') simp_all
      moreover from this assms(1) have "mset ys = {#x#}" by simp
      ultimately show ?thesis by simp
    qed (use len in simp)
    with assms(3) show ?thesis by simp
  qed
qed

lemma sort_runs_mset:
  assumes "mset run = mset run'" "list_all is_ascii run" "list_all is_ascii ps" "sort_runs run ps = Inr r"
  shows "sort_runs run' ps = Inr r"
  using assms
proof (induction run ps arbitrary: run' r rule: sort_runs.induct)
  case (1 run)
  then show ?case using sort_run_mset [OF "1.prems"(1,2)] by simp
next
  case (2 run p ps)
  show ?case
  proof (cases "starts_with ''::'' p")
    case True
    with "2.prems" obtain a b where "sort_run run = Inr a" "sort_runs [] ps = Inr b" "r = a @ p # b"
      by (auto split: sum.splits)
    moreover from this(1) have "sort_run run' = Inr a" by (rule sort_run_mset [OF "2.prems"(1,2)])
    ultimately show ?thesis using True by simp
  next
    case False
    with "2.prems" "2.IH"(2) [OF False, of "run' @ [p]"] show ?thesis by simp
  qed
qed

text \<open>Two neighbours that are not pseudo-elements can change places.\<close>

lemma sort_runs_swap:
  assumes "\<not> starts_with ''::'' p" "\<not> starts_with ''::'' q" "list_all is_ascii (run @ xs @ p # q # ys)"
    "sort_runs run (xs @ p # q # ys) = Inr r"
  shows "sort_runs run (xs @ q # p # ys) = Inr r"
  using assms(3,4)
proof (induction xs arbitrary: run r)
  case Nil
  then have "sort_runs (run @ [p, q]) ys = Inr r" using assms(1,2) by simp
  then have "sort_runs (run @ [q, p]) ys = Inr r"
    using Nil.prems(1) by (intro sort_runs_mset [of "run @ [p, q]" "run @ [q, p]"]) simp_all
  then show ?case using assms(1,2) by simp
next
  case (Cons x xs)
  show ?case
  proof (cases "starts_with ''::'' x")
    case True
    with Cons.prems obtain a b where ab: "sort_run run = Inr a" "sort_runs [] (xs @ p # q # ys) = Inr b" "r = a @ x # b"
      by (auto split: sum.splits)
    have "sort_runs [] (xs @ q # p # ys) = Inr b" using Cons.IH [OF _ ab(2)] Cons.prems(1) by simp
    with True ab show ?thesis by simp
  next
    case False
    with Cons.prems Cons.IH [of "run @ [x]" r] show ?thesis by simp
  qed
qed

lemma sort_pseudos_swap:
  assumes "\<not> starts_with ''::'' p" "\<not> starts_with ''::'' q" "list_all is_ascii (xs @ p # q # ys)"
    "sort_pseudos (xs @ p # q # ys) = Inr r"
  shows "sort_pseudos (xs @ q # p # ys) = Inr r"
  using sort_runs_swap [OF assms(1,2), of "[]"] assms(3,4) by (simp add: sort_pseudos_def)

end
