(* ===== verification/Stylex_Rule.thy ===== *)
theory Stylex_Rule
  imports Stylex_Rtl Stylex_Collate Stylex_Priorities "HOL-Library.Finite_Map"
begin

text \<open>
  From a style entry to a class name and its CSS rule: \<^verbatim>\<open>crates/oj_stylex/src/shared/generate_rule.rs\<close> with the fallback arrays of
  \<^verbatim>\<open>fallbacks.rs\<close>. The conversion is memoized on two levels, a map of the thread and a sharded map shared by all threads. The
  bits of an \<^verbatim>\<open>f64\<close> are the argument \<open>bits\<close>. Priorities count hundredths, as in \<open>Stylex_Priorities\<close>.
\<close>

section \<open>Data\<close>

datatype 'f style_scalar = Str_scalar string | Num_scalar 'f | Undefined_scalar

datatype 'f pre_rule_value = Single "'f style_scalar" | Multi "'f style_scalar list"

datatype stylex_error = Collation sort_error | Value css_value_error | NonContiguousVars

record stylex_rule =
  r_class_name :: string
  r_ltr :: string
  r_rtl :: "string option"
  r_priority :: nat

record options =
  class_name_prefix :: string
  debug :: bool
  enable_debug_class_names :: bool
  enable_font_size_px_to_rem :: bool
  opt_rtl :: rtl_context

section \<open>Fallback arrays\<close>

definition is_var :: "string \<Rightarrow> bool" where
  "is_var v \<longleftrightarrow> starts_with ''var('' v \<and> ends_with '')'' v"

definition has_var_fallback :: "string list \<Rightarrow> bool" where
  "has_var_fallback vs \<longleftrightarrow> list_ex is_var vs"

fun compose_vars :: "string list \<Rightarrow> string" where
  "compose_vars [] = []"
| "compose_vars [a] = (if starts_with ''--'' a then ''var('' @ a @ '')'' else a)"
| "compose_vars (a # b # rest) = ''var('' @ a @ '','' @ compose_vars (b # rest) @ '')''"

text \<open>The values before the first variable, those up to the last one, and those after it.\<close>

definition values_before :: "string list \<Rightarrow> string list" where
  "values_before vs = takeWhile (\<lambda>v. \<not> is_var v) vs"

definition values_after :: "string list \<Rightarrow> string list" where
  "values_after vs = rev (takeWhile (\<lambda>v. \<not> is_var v) (rev vs))"

definition var_values :: "string list \<Rightarrow> string list" where
  "var_values vs = dropWhile (\<lambda>v. \<not> is_var v) (rev (dropWhile (\<lambda>v. \<not> is_var v) vs))"

definition variable_fallbacks :: "string list \<Rightarrow> stylex_error + string list" where
  "variable_fallbacks vs =
     (if \<not> list_ex is_var vs then Inr vs
      else if list_ex (\<lambda>v. \<not> is_var v) (var_values vs) then Inl NonContiguousVars
      else let names = map (\<lambda>v. butlast (drop 4 v)) (var_values vs) in
           Inr ((if values_before vs = [] then [compose_vars names]
                 else map (\<lambda>val. compose_vars (names @ [val])) (values_before vs)) @ values_after vs))"

section \<open>Rules\<close>

definition thumb_variants :: "string list" where
  "thumb_variants = [''::-webkit-slider-thumb'', ''::-moz-range-thumb'', ''::-ms-thumb'']"

definition nested_selector :: "string \<Rightarrow> string list \<Rightarrow> string list \<Rightarrow> string list \<Rightarrow> string" where
  "nested_selector name pseudos at_rules const_rules =
     (let pseudo = concat (filter (\<lambda>p. p \<noteq> ''::thumb'' \<and> \<not> starts_with ''::'' p) pseudos) @
            concat (filter (\<lambda>p. p \<noteq> ''::thumb'' \<and> starts_with ''::'' p) pseudos);
          class_copies = 1 + (if contains_str '':where('' pseudo then 1 else 0) + (length at_rules + length const_rules);
          selector = concat (replicate class_copies (CHR ''.'' # name)) @ pseudo
      in if ''::thumb'' \<in> set pseudos then join_with '', '' (map (\<lambda>suffix. selector @ suffix) thumb_variants) else selector)"

definition build_nested_css_rule :: "string \<Rightarrow> string \<Rightarrow> string list \<Rightarrow> string list \<Rightarrow> string list \<Rightarrow> string" where
  "build_nested_css_rule name decls pseudos at_rules const_rules =
     concat (map (\<lambda>w. w @ ''{'') (rev (at_rules @ const_rules))) @
     nested_selector name pseudos at_rules const_rules @ ''{'' @ decls @ ''}'' @
     replicate (length at_rules + length const_rules) CHR ''}''"

definition generate_css_rule ::
  "string \<Rightarrow> string \<Rightarrow> string list \<Rightarrow> string list \<Rightarrow> string list \<Rightarrow> string list \<Rightarrow> rtl_context \<Rightarrow> stylex_rule" where
  "generate_css_rule name key vs pseudos at_rules const_rules ctx =
     (let decl = (\<lambda>(k, v). k @ '':'' @ v);
          ltr_decls = join_with '';'' (map (\<lambda>v. decl (generate_ltr ctx key v)) vs);
          rtl_decls = join_with '';'' (map decl (List.map_filter (generate_rtl ctx key) vs))
      in \<lparr>r_class_name = name,
          r_ltr = build_nested_css_rule name ltr_decls pseudos at_rules const_rules,
          r_rtl = (if rtl_decls = [] then None else Some (build_nested_css_rule name rtl_decls pseudos at_rules const_rules)),
          r_priority = get_priority key + sum_list (map get_priority pseudos) + sum_list (map get_priority at_rules) +
            sum_list (map get_priority const_rules)\<rparr>)"

definition transform_scalar ::
  "'f js_num \<Rightarrow> (string \<Rightarrow> string) \<Rightarrow> string \<Rightarrow> 'f style_scalar \<Rightarrow> bool \<Rightarrow> stylex_error + string" where
  "transform_scalar J lower key scalar rem =
     (case scalar of
        Str_scalar s \<Rightarrow> map_sum Value id (transform_value_str J lower key s rem)
      | Num_scalar n \<Rightarrow> map_sum Value id (transform_value_num J lower key n rem)
      | Undefined_scalar \<Rightarrow> Inr [])"

fun transform_scalars ::
  "'f js_num \<Rightarrow> (string \<Rightarrow> string) \<Rightarrow> string \<Rightarrow> bool \<Rightarrow> 'f style_scalar list \<Rightarrow> stylex_error + string list" where
  "transform_scalars J lower key rem [] = Inr []"
| "transform_scalars J lower key rem (s # ss) =
     (case transform_scalar J lower key s rem of
        Inl e \<Rightarrow> Inl e
      | Inr v \<Rightarrow> (case transform_scalars J lower key rem ss of Inl e \<Rightarrow> Inl e | Inr vs \<Rightarrow> Inr (v # vs)))"

definition rule_values ::
  "'f js_num \<Rightarrow> (string \<Rightarrow> string) \<Rightarrow> string \<Rightarrow> bool \<Rightarrow> 'f pre_rule_value \<Rightarrow> stylex_error + string list" where
  "rule_values J lower property rem val =
     (case val of
        Single s \<Rightarrow> transform_scalars J lower property rem [s]
      | Multi ss \<Rightarrow>
          (case transform_scalars J lower property rem ss of
             Inl e \<Rightarrow> Inl e
           | Inr vs \<Rightarrow> if has_var_fallback vs then variable_fallbacks vs else Inr vs))"

text \<open>The text that is hashed; a hash always has a rendering.\<close>

definition hash_input :: "string \<Rightarrow> bool \<Rightarrow> string list \<Rightarrow> string list \<Rightarrow> string list \<Rightarrow> string" where
  "hash_input dashed undefined_single vs sorted_pseudos sorted_at_and_const =
     (let modifier = concat sorted_pseudos @ concat sorted_at_and_const in
      ''<>'' @ dashed @ (if undefined_single then ''undefined'' else join_with '', '' vs) @ (if modifier = [] then ''null'' else modifier))"

definition hashed :: "string \<Rightarrow> string" where
  "hashed s = (case hash s of Some h \<Rightarrow> h | None \<Rightarrow> [])"

definition is_undefined_single :: "'f pre_rule_value \<Rightarrow> bool" where
  "is_undefined_single val \<longleftrightarrow> (case val of Single Undefined_scalar \<Rightarrow> True | _ \<Rightarrow> False)"

definition convert_uncached ::
  "'f js_num \<Rightarrow> (string \<Rightarrow> string) \<Rightarrow> string \<Rightarrow> 'f pre_rule_value \<Rightarrow> string list \<Rightarrow> string list \<Rightarrow> string list \<Rightarrow> options \<Rightarrow>
   stylex_error + stylex_rule" where
  "convert_uncached J lower property val pseudos at_rules const_rules opts =
     (case sort_pseudos pseudos of
        Inl e \<Rightarrow> Inl (Collation e)
      | Inr sorted_pseudos \<Rightarrow>
          let sorted_at_rules = sort_at_rules at_rules;
              sorted_at_and_const = (if const_rules = [] then sorted_at_rules else sort_at_rules (sorted_at_rules @ const_rules));
              dashed = dashed_key lower property
          in case rule_values J lower property (enable_font_size_px_to_rem opts) val of
               Inl e \<Rightarrow> Inl e
             | Inr vs \<Rightarrow>
                 let name = (if debug opts \<and> enable_debug_class_names opts then property @ ''-'' else []) @ class_name_prefix opts @
                       hashed (hash_input dashed (is_undefined_single val) vs sorted_pseudos sorted_at_and_const)
                 in Inr (generate_css_rule name dashed vs sorted_pseudos sorted_at_rules const_rules (opt_rtl opts)))"

section \<open>The memo\<close>

record 'f conversion =
  cv_property :: string
  cv_value :: "'f pre_rule_value"
  cv_path :: "string list"
  cv_options :: options

definition pseudos_of :: "string list \<Rightarrow> string list" where
  "pseudos_of = filter (\<lambda>k. starts_with '':'' k \<or> starts_with ''['' k)"

definition at_rules_of :: "string list \<Rightarrow> string list" where
  "at_rules_of = filter (starts_with ''@'')"

definition const_rules_of :: "string list \<Rightarrow> string list" where
  "const_rules_of = filter (starts_with ''var(--'')"

definition memo_part :: "string \<Rightarrow> string" where
  "memo_part part = show_radix 10 (length part) @ '':'' @ part"

definition bits_hex :: "u64 \<Rightarrow> string" where
  "bits_hex b = map (\<lambda>j. digit_char (unat b div 16 ^ (15 - j) mod 16)) [0..<16]"

definition memo_scalar :: "('f \<Rightarrow> u64) \<Rightarrow> 'f style_scalar \<Rightarrow> string" where
  "memo_scalar bits scalar =
     (case scalar of
        Str_scalar s \<Rightarrow> CHR ''s'' # memo_part s
      | Num_scalar n \<Rightarrow> CHR ''n'' # bits_hex (bits n)
      | Undefined_scalar \<Rightarrow> ''u'')"

definition memo_value :: "('f \<Rightarrow> u64) \<Rightarrow> 'f pre_rule_value \<Rightarrow> string" where
  "memo_value bits val =
     (case val of
        Single s \<Rightarrow> CHR ''S'' # memo_scalar bits s
      | Multi ss \<Rightarrow> CHR ''M'' # concat (map (memo_scalar bits) ss))"

definition memo_flags :: "options \<Rightarrow> string" where
  "memo_flags opts =
     [if enable_font_size_px_to_rem opts then CHR ''R'' else CHR ''r'',
      if debug opts \<and> enable_debug_class_names opts then CHR ''D'' else CHR ''d'',
      case style_resolution (opt_rtl opts) of PropertySpecificity \<Rightarrow> CHR ''p'' | ApplicationOrder \<Rightarrow> CHR ''a'' | LegacyExpandShorthands \<Rightarrow> CHR ''l'',
      if enable_logical_styles_polyfill (opt_rtl opts) then CHR ''L'' else CHR ''g'',
      if enable_legacy_value_flipping (opt_rtl opts) then CHR ''F'' else CHR ''f'']"

definition encode_memo_key :: "('f \<Rightarrow> u64) \<Rightarrow> 'f conversion \<Rightarrow> string" where
  "encode_memo_key bits c =
     memo_flags (cv_options c) @ memo_part (class_name_prefix (cv_options c)) @ ''|'' @ memo_part (cv_property c) @ ''|'' @
     memo_value bits (cv_value c) @ ''|'' @ concat (map memo_part (pseudos_of (cv_path c))) @ ''|'' @
     concat (map memo_part (at_rules_of (cv_path c))) @ ''|'' @ concat (map memo_part (const_rules_of (cv_path c)))"

record memos =
  locals :: "nat \<Rightarrow> (string, stylex_rule) fmap"
  shards :: "nat \<Rightarrow> (string, stylex_rule) fmap"

definition convert_memo_cap :: nat where
  "convert_memo_cap = 65536"

definition shard_cap :: nat where
  "shard_cap = 1024"

definition shard_for :: "string \<Rightarrow> nat" where
  "shard_for key = unat (drop_bit 58 (fx_add 0xff (fx_write (map of_char key) 0)))"

definition store_local :: "nat \<Rightarrow> string \<Rightarrow> stylex_rule \<Rightarrow> memos \<Rightarrow> memos" where
  "store_local t key rule m =
     (let entries = (if convert_memo_cap \<le> fcard (fmdom (locals m t)) then fmempty else locals m t) in
      m\<lparr>locals := (locals m)(t := fmupd key rule entries)\<rparr>)"

definition store_shared :: "string \<Rightarrow> stylex_rule \<Rightarrow> memos \<Rightarrow> memos" where
  "store_shared key rule m =
     (let i = shard_for key;
          entries = (if shard_cap \<le> fcard (fmdom (shards m i)) then fmempty else shards m i)
      in m\<lparr>shards := (shards m)(i := (if key |\<in>| fmdom entries then entries else fmupd key rule entries))\<rparr>)"

definition uncached :: "'f js_num \<Rightarrow> (string \<Rightarrow> string) \<Rightarrow> 'f conversion \<Rightarrow> stylex_error + stylex_rule" where
  "uncached J lower c =
     convert_uncached J lower (cv_property c) (cv_value c) (pseudos_of (cv_path c)) (at_rules_of (cv_path c))
       (const_rules_of (cv_path c)) (cv_options c)"

definition convert_style_to_class_name ::
  "'f js_num \<Rightarrow> (string \<Rightarrow> string) \<Rightarrow> ('f \<Rightarrow> u64) \<Rightarrow> nat \<Rightarrow> 'f conversion \<Rightarrow> memos \<Rightarrow> (stylex_error + stylex_rule) \<times> memos" where
  "convert_style_to_class_name J lower bits t c m =
     (let key = encode_memo_key bits c in
      case fmlookup (locals m t) key of
        Some hit \<Rightarrow> (Inr hit, m)
      | None \<Rightarrow>
          (case fmlookup (shards m (shard_for key)) key of
             Some hit \<Rightarrow> (Inr hit, store_local t key hit m)
           | None \<Rightarrow>
               (case uncached J lower c of
                  Inl e \<Rightarrow> (Inl e, m)
                | Inr rule \<Rightarrow> (Inr rule, store_local t key rule (store_shared key rule m)))))"

section \<open>Equal keys, equal conversions\<close>

lemma show_radix_inject: "show_radix 10 m = show_radix 10 n \<Longrightarrow> m = n"
proof -
  have "digits_val 10 0 (show_radix 10 k) = Some k" for k by (rule digits_val_show) auto
  then show "show_radix 10 m = show_radix 10 n \<Longrightarrow> m = n" by (metis option.inject)
qed

lemma colon_not_shown: "CHR '':'' \<notin> set (show_radix 10 n)"
  by (rule show_radix_no_char) (auto simp: digit_val_def Let_def)

lemma memo_part_prefix: "memo_part a @ x = memo_part b @ y \<Longrightarrow> a = b \<and> x = y"
proof -
  assume eq: "memo_part a @ x = memo_part b @ y"
  have "split_once CHR '':'' (memo_part a @ x) = Some (show_radix 10 (length a), a @ x)"
    "split_once CHR '':'' (memo_part b @ y) = Some (show_radix 10 (length b), b @ y)"
    using colon_not_shown by (simp_all add: memo_part_def split_once_append)
  with eq have "show_radix 10 (length a) = show_radix 10 (length b)" "a @ x = b @ y" by simp_all
  with show_radix_inject show ?thesis by (metis append_eq_append_conv)
qed

lemma memo_part_head: "\<exists>d r. memo_part a = d # r \<and> d \<noteq> CHR ''|''"
proof -
  obtain d r where "show_radix 10 (length a) = d # r" using show_radix_ne by (metis list.exhaust)
  moreover have "CHR ''|'' \<notin> set (show_radix 10 (length a))"
    by (rule show_radix_no_char) (auto simp: digit_val_def Let_def)
  ultimately show ?thesis by (auto simp: memo_part_def)
qed

text \<open>A code whose words are told from what follows, and from the bar that ends a list of them.\<close>

lemma list_code:
  assumes pre: "\<And>a b x y. code a @ x = code b @ y \<Longrightarrow> a = b \<and> x = y" and head: "\<And>a. \<exists>d r. code a = d # r \<and> d \<noteq> (sep :: char)"
  shows "concat (map code as) @ sep # x = concat (map code bs) @ sep # y \<Longrightarrow> as = bs \<and> x = y"
proof (induction as arbitrary: bs)
  case Nil
  show ?case
  proof (cases bs)
    case (Cons b bs')
    obtain d r where "code b = d # r" "d \<noteq> sep" using head by blast
    with Nil Cons show ?thesis by simp
  qed (use Nil in simp)
next
  case (Cons a as)
  obtain d r where d: "code a = d # r" "d \<noteq> sep" using head by blast
  then obtain b bs' where b: "bs = b # bs'" using Cons.prems by (cases bs) auto
  with Cons.prems have "code a @ (concat (map code as) @ sep # x) = code b @ (concat (map code bs') @ sep # y)" by simp
  from pre [OF this] Cons.IH [of bs'] b show ?case by blast
qed

lemma parts_code:
  "concat (map memo_part as) @ CHR ''|'' # x = concat (map memo_part bs) @ CHR ''|'' # y \<Longrightarrow> as = bs \<and> x = y"
  using list_code [of memo_part "CHR ''|''"] memo_part_prefix memo_part_head by blast

lemma bits_hex_inject:
  assumes "bits_hex a = bits_hex b"
  shows "a = b"
proof -
  have digit: "unat a div 16 ^ i mod 16 = unat b div 16 ^ i mod 16" if "i < 16" for i
  proof -
    have "bits_hex a ! (15 - i) = bits_hex b ! (15 - i)" using assms by simp
    then have "digit_char (unat a div 16 ^ i mod 16) = digit_char (unat b div 16 ^ i mod 16)"
      using that nth_upt [of 0 "15 - i" 16] by (simp add: bits_hex_def del: upt_rec_numeral)
    then have "digit_val 16 (digit_char (unat a div 16 ^ i mod 16)) = digit_val 16 (digit_char (unat b div 16 ^ i mod 16))" by simp
    then show ?thesis by (simp add: digit_val_digit_char)
  qed
  have "unat a mod 16 ^ k = unat b mod 16 ^ k" if "k \<le> 16" for k
    using that
  proof (induction k)
    case (Suc k)
    have "n mod 16 ^ Suc k = 16 ^ k * (n div 16 ^ k mod 16) + n mod 16 ^ k" for n :: nat
      by (metis mod_mult2_eq power_Suc2)
    with Suc digit [of k] show ?case by simp
  qed simp
  from this [of 16] have "unat a = unat b"
    using unsigned_less [of a, where 'a = nat] unsigned_less [of b, where 'a = nat] by simp
  then show ?thesis by (simp add: word_unat_eq_iff)
qed

lemma memo_scalar_prefix:
  assumes "inj bits" "memo_scalar bits a @ x = memo_scalar bits b @ y"
  shows "a = b \<and> x = y"
proof -
  have "length (bits_hex k) = 16" for k by (simp add: bits_hex_def)
  with assms show ?thesis
    by (cases a; cases b) (auto simp: memo_scalar_def dest!: memo_part_prefix bits_hex_inject injD [OF assms(1)])
qed

lemma memo_scalar_head: "\<exists>d r. memo_scalar bits a = d # r \<and> d \<noteq> CHR ''|''"
  by (cases a) (simp_all add: memo_scalar_def)

lemma scalars_code:
  assumes "inj bits"
  shows "concat (map (memo_scalar bits) as) @ CHR ''|'' # x = concat (map (memo_scalar bits) bs) @ CHR ''|'' # y \<Longrightarrow> as = bs \<and> x = y"
  using list_code [of "memo_scalar bits" "CHR ''|''"] memo_scalar_prefix [OF assms] memo_scalar_head by blast

lemma memo_value_prefix:
  assumes "inj bits" "memo_value bits v @ CHR ''|'' # x = memo_value bits w @ CHR ''|'' # y"
  shows "v = w \<and> x = y"
proof (cases v; cases w)
  fix a b assume "v = Single a" "w = Single b"
  with assms memo_scalar_prefix [OF assms(1)] show ?thesis by (fastforce simp: memo_value_def)
next
  fix a b assume "v = Multi a" "w = Multi b"
  with assms(2) have "concat (map (memo_scalar bits) a) @ CHR ''|'' # x = concat (map (memo_scalar bits) b) @ CHR ''|'' # y"
    by (simp add: memo_value_def)
  from scalars_code [OF assms(1) this] \<open>v = Multi a\<close> \<open>w = Multi b\<close> show ?thesis by simp
qed (use assms(2) in \<open>simp_all add: memo_value_def\<close>)

lemma memo_flags_inject:
  assumes "memo_flags o1 @ x = memo_flags o2 @ y"
  shows "x = y \<and> enable_font_size_px_to_rem o1 = enable_font_size_px_to_rem o2 \<and> opt_rtl o1 = opt_rtl o2 \<and>
    (debug o1 \<and> enable_debug_class_names o1) = (debug o2 \<and> enable_debug_class_names o2)"
proof -
  have "style_resolution (opt_rtl o1) = style_resolution (opt_rtl o2)"
    using assms by (cases "style_resolution (opt_rtl o1)"; cases "style_resolution (opt_rtl o2)") (simp_all add: memo_flags_def)
  with assms show ?thesis by (auto simp: memo_flags_def intro!: rtl_context.equality split: if_splits)
qed

lemma memo_key_determines:
  assumes "inj bits" "encode_memo_key bits c = encode_memo_key bits d"
  shows "uncached J lower c = uncached J lower d"
proof -
  let ?k = "\<lambda>c. memo_part (class_name_prefix (cv_options c)) @ ''|'' @ memo_part (cv_property c) @ ''|'' @
     memo_value bits (cv_value c) @ ''|'' @ concat (map memo_part (pseudos_of (cv_path c))) @ ''|'' @
     concat (map memo_part (at_rules_of (cv_path c))) @ ''|'' @ concat (map memo_part (const_rules_of (cv_path c)))"
  have "memo_flags (cv_options c) @ ?k c = memo_flags (cv_options d) @ ?k d" using assms(2) by (simp add: encode_memo_key_def)
  from memo_flags_inject [OF this] have k: "?k c = ?k d" and
    flags: "enable_font_size_px_to_rem (cv_options c) = enable_font_size_px_to_rem (cv_options d)" "opt_rtl (cv_options c) = opt_rtl (cv_options d)"
      "(debug (cv_options c) \<and> enable_debug_class_names (cv_options c)) = (debug (cv_options d) \<and> enable_debug_class_names (cv_options d))"
    by blast+
  from memo_part_prefix [OF k] have prefix: "class_name_prefix (cv_options c) = class_name_prefix (cv_options d)" and
    k2: "memo_part (cv_property c) @ ''|'' @ memo_value bits (cv_value c) @ ''|'' @ concat (map memo_part (pseudos_of (cv_path c))) @ ''|'' @
       concat (map memo_part (at_rules_of (cv_path c))) @ ''|'' @ concat (map memo_part (const_rules_of (cv_path c))) =
     memo_part (cv_property d) @ ''|'' @ memo_value bits (cv_value d) @ ''|'' @ concat (map memo_part (pseudos_of (cv_path d))) @ ''|'' @
       concat (map memo_part (at_rules_of (cv_path d))) @ ''|'' @ concat (map memo_part (const_rules_of (cv_path d)))"
    by simp_all
  from memo_part_prefix [OF k2] have property: "cv_property c = cv_property d" and
    k3: "memo_value bits (cv_value c) @ CHR ''|'' # (concat (map memo_part (pseudos_of (cv_path c))) @ CHR ''|'' #
       concat (map memo_part (at_rules_of (cv_path c))) @ CHR ''|'' # concat (map memo_part (const_rules_of (cv_path c)))) =
     memo_value bits (cv_value d) @ CHR ''|'' # (concat (map memo_part (pseudos_of (cv_path d))) @ CHR ''|'' #
       concat (map memo_part (at_rules_of (cv_path d))) @ CHR ''|'' # concat (map memo_part (const_rules_of (cv_path d))))"
    by simp_all
  note v = memo_value_prefix [OF assms(1) k3]
  note ps = parts_code [OF conjunct2 [OF v]]
  note ats = parts_code [OF conjunct2 [OF ps]]
  have "concat (map memo_part (const_rules_of (cv_path c))) @ CHR ''|'' # [] = concat (map memo_part (const_rules_of (cv_path d))) @ CHR ''|'' # []"
    using ats by simp
  from parts_code [OF this] have const: "const_rules_of (cv_path c) = const_rules_of (cv_path d)" by blast
  show ?thesis
    unfolding uncached_def convert_uncached_def conjunct1 [OF v] conjunct1 [OF ps] conjunct1 [OF ats] const prefix property flags ..
qed

section \<open>The memo changes no answer\<close>

definition new_memos :: memos where
  "new_memos = \<lparr>locals = (\<lambda>_. fmempty), shards = (\<lambda>_. fmempty)\<rparr>"

text \<open>
  The states threads can bring the memos to. Each step holds one lock: a shared entry is copied to a thread, a computed rule is
  stored in its shard, or in a thread. The pieces of the conversions of different threads come in any order.
\<close>

inductive memo_reach :: "'f js_num \<Rightarrow> (string \<Rightarrow> string) \<Rightarrow> ('f \<Rightarrow> u64) \<Rightarrow> memos \<Rightarrow> bool" for J lower bits where
  start: "memo_reach J lower bits new_memos"
| copied: "memo_reach J lower bits m \<Longrightarrow> fmlookup (shards m (shard_for key)) key = Some rule \<Longrightarrow>
    memo_reach J lower bits (store_local t key rule m)"
| shared: "memo_reach J lower bits m \<Longrightarrow> uncached J lower c = Inr rule \<Longrightarrow>
    memo_reach J lower bits (store_shared (encode_memo_key bits c) rule m)"
| kept: "memo_reach J lower bits m \<Longrightarrow> uncached J lower c = Inr rule \<Longrightarrow>
    memo_reach J lower bits (store_local t (encode_memo_key bits c) rule m)"

definition memo_sound :: "'f js_num \<Rightarrow> (string \<Rightarrow> string) \<Rightarrow> ('f \<Rightarrow> u64) \<Rightarrow> (string, stylex_rule) fmap \<Rightarrow> bool" where
  "memo_sound J lower bits entries \<longleftrightarrow>
     (\<forall>key rule. fmlookup entries key = Some rule \<longrightarrow> (\<exists>c. encode_memo_key bits c = key \<and> uncached J lower c = Inr rule))"

definition convert_memos_ok :: "'f js_num \<Rightarrow> (string \<Rightarrow> string) \<Rightarrow> ('f \<Rightarrow> u64) \<Rightarrow> memos \<Rightarrow> bool" where
  "convert_memos_ok J lower bits m \<longleftrightarrow>
     (\<forall>t. memo_sound J lower bits (locals m t) \<and> fcard (fmdom (locals m t)) \<le> convert_memo_cap) \<and>
     (\<forall>i. memo_sound J lower bits (shards m i) \<and> fcard (fmdom (shards m i)) \<le> shard_cap)"

lemma memo_sound_upd:
  "memo_sound J lower bits entries \<Longrightarrow> encode_memo_key bits c = key \<Longrightarrow> uncached J lower c = Inr rule \<Longrightarrow>
     memo_sound J lower bits (fmupd key rule entries)"
  "memo_sound J lower bits fmempty"
  by (auto simp: memo_sound_def)

lemma fcard_upd: "fcard (fmdom entries) < cap \<Longrightarrow> fcard (fmdom (fmupd key rule entries)) \<le> cap"
  by (simp add: fcard.rep_eq card_insert_if)

lemma convert_memos_upd:
  assumes "convert_memos_ok J lower bits m" "memo_sound J lower bits entries"
  shows "fcard (fmdom entries) \<le> convert_memo_cap \<Longrightarrow> convert_memos_ok J lower bits (m\<lparr>locals := (locals m)(t := entries)\<rparr>)"
    "fcard (fmdom entries) \<le> shard_cap \<Longrightarrow> convert_memos_ok J lower bits (m\<lparr>shards := (shards m)(i := entries)\<rparr>)"
  using assms by (simp_all add: convert_memos_ok_def)

lemma store_local_ok:
  assumes "convert_memos_ok J lower bits m" "encode_memo_key bits c = key" "uncached J lower c = Inr rule"
  shows "convert_memos_ok J lower bits (store_local t key rule m)"
proof -
  let ?e = "if convert_memo_cap \<le> fcard (fmdom (locals m t)) then fmempty else locals m t"
  have sound: "memo_sound J lower bits ?e" using assms(1) by (simp add: convert_memos_ok_def memo_sound_upd(2))
  have small: "fcard (fmdom ?e) < convert_memo_cap" by (simp add: convert_memo_cap_def fcard_fempty)
  show ?thesis
    unfolding store_local_def Let_def
    by (rule convert_memos_upd(1) [OF assms(1) memo_sound_upd(1) [OF sound assms(2,3)] fcard_upd [OF small]])
qed

lemma store_shared_ok:
  assumes "convert_memos_ok J lower bits m" "encode_memo_key bits c = key" "uncached J lower c = Inr rule"
  shows "convert_memos_ok J lower bits (store_shared key rule m)"
proof -
  let ?e = "if shard_cap \<le> fcard (fmdom (shards m (shard_for key))) then fmempty else shards m (shard_for key)"
  have sound: "memo_sound J lower bits ?e" using assms(1) by (simp add: convert_memos_ok_def memo_sound_upd(2))
  have small: "fcard (fmdom ?e) < shard_cap" by (simp add: shard_cap_def fcard_fempty)
  show ?thesis
  proof (cases "key |\<in>| fmdom ?e")
    case True
    with convert_memos_upd(2) [OF assms(1) sound less_imp_le [OF small]] show ?thesis
      unfolding store_shared_def Let_def by (simp only: if_True)
  next
    case False
    with convert_memos_upd(2) [OF assms(1) memo_sound_upd(1) [OF sound assms(2,3)] fcard_upd [OF small]] show ?thesis
      unfolding store_shared_def Let_def by (simp only: if_False)
  qed
qed

lemma memo_reach_ok: "memo_reach J lower bits m \<Longrightarrow> convert_memos_ok J lower bits m"
proof (induction rule: memo_reach.induct)
  case start
  then show ?case by (simp add: convert_memos_ok_def new_memos_def memo_sound_upd(2) fcard_fempty)
next
  case (copied m key rule t)
  then obtain c where "encode_memo_key bits c = key" "uncached J lower c = Inr rule"
    unfolding convert_memos_ok_def memo_sound_def by blast
  with copied.IH show ?case by (rule store_local_ok)
next
  case (shared m c rule)
  then show ?case using store_shared_ok by blast
next
  case (kept m c rule t)
  then show ?case using store_local_ok by blast
qed

text \<open>
  C29: the memo changes no answer. Whatever threads converted before and however their steps interleaved, a conversion answers what
  the conversion without a memo answers, errors included, and leaves memos within their caps that later conversions can
  use. The encoded key, with its lengths and bars, determines every input the conversion reads.
\<close>

theorem convert_memo_transparent:
  assumes "inj bits" "memo_reach J lower bits m"
  shows "fst (convert_style_to_class_name J lower bits t c m) = uncached J lower c \<and>
    memo_reach J lower bits (snd (convert_style_to_class_name J lower bits t c m)) \<and>
    fcard (fmdom (locals (snd (convert_style_to_class_name J lower bits t c m)) s)) \<le> convert_memo_cap \<and>
    fcard (fmdom (shards (snd (convert_style_to_class_name J lower bits t c m)) i)) \<le> shard_cap"
proof -
  let ?key = "encode_memo_key bits c"
  note ok = memo_reach_ok [OF assms(2)]
  have found: "uncached J lower c = Inr rule"
    if h: "fmlookup (locals m t) ?key = Some rule \<or> fmlookup (shards m (shard_for ?key)) ?key = Some rule" for rule
  proof -
    obtain d where "encode_memo_key bits d = ?key" "uncached J lower d = Inr rule"
      using ok h unfolding convert_memos_ok_def memo_sound_def by blast
    then show ?thesis using memo_key_determines [OF assms(1), of d c J lower] by simp
  qed
  have "fst (convert_style_to_class_name J lower bits t c m) = uncached J lower c \<and>
      memo_reach J lower bits (snd (convert_style_to_class_name J lower bits t c m))"
  proof (cases "fmlookup (locals m t) ?key")
    case (Some rule)
    with found [of rule] assms(2) show ?thesis by (simp add: convert_style_to_class_name_def Let_def)
  next
    case none: None
    show ?thesis
    proof (cases "fmlookup (shards m (shard_for ?key)) ?key")
      case (Some rule)
      with none found [of rule] memo_reach.copied [OF assms(2) Some] show ?thesis by (simp add: convert_style_to_class_name_def Let_def)
    next
      case None
      with none assms(2) memo_reach.kept [OF memo_reach.shared [OF assms(2)]] show ?thesis
        by (simp add: convert_style_to_class_name_def Let_def split: sum.split)
    qed
  qed
  moreover from this have "convert_memos_ok J lower bits (snd (convert_style_to_class_name J lower bits t c m))"
    using memo_reach_ok by blast
  ultimately show ?thesis by (simp add: convert_memos_ok_def)
qed


text \<open>Conversions at concrete inputs, with numbers that are their own bits.\<close>

definition word_numbers :: "u64 js_num" where
  "word_numbers =
     \<lparr>j_lt = (<), j_eq = (=), j_add = (+), j_sub = (-), j_mul = (*), j_div = (div), j_floor = id, j_fract = (\<lambda>_. 0), j_of = of_int,
      j_half = 1, j_neg_zero = 0, j_inf = - 1, j_neg_inf = - 2, j_nan = 0, j_is_nan = (\<lambda>_. False),
      j_parse = (\<lambda>s. of_nat (case digits_val 10 0 (filter is_digit s) of Some n \<Rightarrow> n | None \<Rightarrow> 0)), ryu_js = (\<lambda>x. show_radix 10 (unat x))\<rparr>"

definition plain_options :: options where
  "plain_options = \<lparr>class_name_prefix = ''x'', debug = False, enable_debug_class_names = False, enable_font_size_px_to_rem = False,
     opt_rtl = \<lparr>style_resolution = PropertySpecificity, enable_logical_styles_polyfill = False, enable_legacy_value_flipping = False\<rparr>\<rparr>"

definition red :: "u64 conversion" where
  "red = \<lparr>cv_property = ''color'', cv_value = Single (Str_scalar ''red''), cv_path = [], cv_options = plain_options\<rparr>"

lemma red_rule:
  "\<exists>rule. uncached word_numbers to_ascii_lowercase red = Inr rule \<and> r_ltr rule = CHR ''.'' # r_class_name rule @ ''{color:red}''"
proof -
  have "rule_values word_numbers to_ascii_lowercase ''color'' False (Single (Str_scalar ''red'')) = Inr [''red'']" by code_simp
  moreover have "dashed_key to_ascii_lowercase ''color'' = ''color''" by code_simp
  moreover have "generate_ltr (opt_rtl plain_options) ''color'' ''red'' = (''color'', ''red'')" by code_simp
  moreover have "build_nested_css_rule name ''color:red'' [] [] [] = CHR ''.'' # name @ ''{color:red}''" for name
    by (simp add: build_nested_css_rule_def nested_selector_def contains_str_def split_once_str.simps)
  ultimately show ?thesis
    by (simp add: uncached_def convert_uncached_def red_def plain_options_def pseudos_of_def at_rules_of_def const_rules_of_def
        sort_pseudos_def generate_css_rule_def sort_at_rules_key Let_def del: get_priority_def)
qed

theorem convert_memo_transparent_witness:
  "\<exists>rule. fst (convert_style_to_class_name word_numbers to_ascii_lowercase id 0 red new_memos) = Inr rule \<and>
     r_ltr rule = CHR ''.'' # r_class_name rule @ ''{color:red}''"
  using convert_memo_transparent [OF inj_on_id memo_reach.start, of word_numbers to_ascii_lowercase 0 red] red_rule by simp


end
