(* ===== verification/Stylex_Tables.thy ===== *)
theory Stylex_Tables
  imports Oj_Prelude
begin

text \<open>
  The three tables of \<^verbatim>\<open>crates/oj_stylex/src/shared/resolution.rs\<close>: what a shorthand property stands for under each style
  resolution, and what the tables promise each other.
\<close>

section \<open>Tables\<close>

text \<open>Property specificity: what is banned, and what has another name.\<close>

definition banned_shorthands :: "string list" where
  "banned_shorthands =
    [''all'', ''animation'', ''background'', ''border'', ''borderInline'', ''borderHorizontal'', ''borderBlock'',
     ''borderVertical'', ''borderTop'', ''borderBlockStart'', ''borderInlineEnd'', ''borderEnd'', ''borderRight'',
     ''borderBottom'', ''borderBlockEnd'', ''borderInlineStart'', ''borderStart'', ''borderLeft'']"

definition alias_rows :: "(string \<times> string) list" where
  "alias_rows =
    [(''blockSize'', ''height''), (''inlineSize'', ''width''), (''minBlockSize'', ''minHeight''),
     (''minInlineSize'', ''minWidth''), (''maxBlockSize'', ''maxHeight''), (''maxInlineSize'', ''maxWidth''),
     (''borderHorizontalWidth'', ''borderInlineWidth''), (''borderHorizontalStyle'', ''borderInlineStyle''),
     (''borderHorizontalColor'', ''borderInlineColor''), (''borderVerticalWidth'', ''borderBlockWidth''),
     (''borderVerticalStyle'', ''borderBlockStyle''), (''borderVerticalColor'', ''borderBlockColor''),
     (''borderBlockStartColor'', ''borderTopColor''), (''borderBlockEndColor'', ''borderBottomColor''),
     (''borderBlockStartStyle'', ''borderTopStyle''), (''borderBlockEndStyle'', ''borderBottomStyle''),
     (''borderBlockStartWidth'', ''borderTopWidth''), (''borderBlockEndWidth'', ''borderBottomWidth''),
     (''borderStartColor'', ''borderInlineStartColor''), (''borderEndColor'', ''borderInlineEndColor''),
     (''borderStartStyle'', ''borderInlineStartStyle''), (''borderEndStyle'', ''borderInlineEndStyle''),
     (''borderStartWidth'', ''borderInlineStartWidth''), (''borderEndWidth'', ''borderInlineEndWidth''),
     (''borderTopStartRadius'', ''borderStartStartRadius''), (''borderTopEndRadius'', ''borderStartEndRadius''),
     (''borderBottomStartRadius'', ''borderEndStartRadius''), (''borderBottomEndRadius'', ''borderEndEndRadius''),
     (''containIntrinsicBlockSize'', ''containIntrinsicHeight''), (''containIntrinsicInlineSize'', ''containIntrinsicWidth''),
     (''marginBlockStart'', ''marginTop''), (''marginBlockEnd'', ''marginBottom''), (''marginStart'', ''marginInlineStart''),
     (''marginEnd'', ''marginInlineEnd''), (''marginHorizontal'', ''marginInline''), (''marginVertical'', ''marginBlock''),
     (''overflowBlock'', ''overflowY''), (''overflowInline'', ''overflowX''), (''paddingBlockStart'', ''paddingTop''),
     (''paddingBlockEnd'', ''paddingBottom''), (''paddingStart'', ''paddingInlineStart''),
     (''paddingEnd'', ''paddingInlineEnd''), (''paddingHorizontal'', ''paddingInline''),
     (''paddingVertical'', ''paddingBlock''), (''scrollMarginBlockStart'', ''scrollMarginTop''),
     (''scrollMarginBlockEnd'', ''scrollMarginBottom''), (''insetBlockStart'', ''top''), (''insetBlockEnd'', ''bottom''),
     (''start'', ''insetInlineStart''), (''end'', ''insetInlineEnd'')]"

text \<open>Application order: the property that keeps the value, then the longhands it takes back.\<close>

definition ao_rows_1 :: "(string \<times> string list) list" where
  "ao_rows_1 =
    [(''animation'', [''animation'', ''animationComposition'', ''animationName'', ''animationDuration'',
          ''animationTimingFunction'', ''animationDelay'', ''animationIterationCount'', ''animationDirection'',
          ''animationFillMode'', ''animationPlayState'', ''animationRange'', ''animationRangeEnd'', ''animationRangeStart'',
          ''animationTimeline'']),
     (''background'', [''background'', ''backgroundAttachment'', ''backgroundClip'', ''backgroundColor'', ''backgroundImage'',
          ''backgroundOrigin'', ''backgroundPosition'', ''backgroundPositionX'', ''backgroundPositionY'',
          ''backgroundRepeat'', ''backgroundSize'']),
     (''border'', [''border'', ''borderWidth'', ''borderInlineWidth'', ''borderInlineStartWidth'', ''borderLeftWidth'',
          ''borderInlineEndWidth'', ''borderRightWidth'', ''borderBlockWidth'', ''borderTopWidth'', ''borderBottomWidth'',
          ''borderStyle'', ''borderInlineStyle'', ''borderInlineStartStyle'', ''borderLeftStyle'', ''borderInlineEndStyle'',
          ''borderRightStyle'', ''borderBlockStyle'', ''borderTopStyle'', ''borderBottomStyle'', ''borderColor'',
          ''borderInlineColor'', ''borderInlineStartColor'', ''borderLeftColor'', ''borderInlineEndColor'',
          ''borderRightColor'', ''borderBlockColor'', ''borderTopColor'', ''borderBottomColor'']),
     (''borderBlock'', [''borderBlock'', ''borderBlockWidth'', ''borderTopWidth'', ''borderBottomWidth'',
          ''borderBlockStyle'', ''borderTopStyle'', ''borderBottomStyle'', ''borderBlockColor'', ''borderTopColor'',
          ''borderBottomColor'']),
     (''borderInline'', [''borderInline'', ''borderInlineWidth'', ''borderInlineStartWidth'', ''borderLeftWidth'',
          ''borderInlineEndWidth'', ''borderRightWidth'', ''borderInlineStyle'', ''borderInlineStartStyle'',
          ''borderLeftStyle'', ''borderInlineEndStyle'', ''borderRightStyle'', ''borderInlineColor'',
          ''borderInlineStartColor'', ''borderLeftColor'', ''borderInlineEndColor'', ''borderRightColor'']),
     (''margin'', [''margin'', ''marginInline'', ''marginInlineStart'', ''marginLeft'', ''marginInlineEnd'', ''marginRight'',
          ''marginBlock'', ''marginTop'', ''marginBottom'']),
     (''padding'', [''padding'', ''paddingInline'', ''paddingStart'', ''paddingLeft'', ''paddingEnd'', ''paddingRight'',
          ''paddingBlock'', ''paddingTop'', ''paddingBottom'']),
     (''font'', [''font'', ''fontFamily'', ''fontSize'', ''fontStretch'', ''fontStyle'', ''fontVariant'',
          ''fontVariantAlternates'', ''fontVariantCaps'', ''fontVariantEastAsian'', ''fontVariantEmoji'',
          ''fontVariantLigatures'', ''fontVariantNumeric'', ''fontVariantPosition'', ''fontWeight'', ''lineHeight'']),
     (''grid'', [''grid'', ''gridTemplate'', ''gridTemplateAreas'', ''gridTemplateColumns'', ''gridTemplateRows'',
          ''gridAutoRows'', ''gridAutoColumns'', ''gridAutoFlow'']),
     (''gridTemplate'', [''gridTemplate'', ''gridTemplateAreas'', ''gridTemplateColumns'', ''gridTemplateRows''])]"

definition ao_rows_2 :: "(string \<times> string list) list" where
  "ao_rows_2 =
    [(''gridArea'', [''gridArea'', ''gridRow'', ''gridRowStart'', ''gridRowEnd'', ''gridColumn'', ''gridColumnStart'',
          ''gridColumnEnd'']),
     (''inset'', [''inset'', ''insetInline'', ''insetInlineStart'', ''insetInlineEnd'', ''left'', ''right'', ''insetBlock'',
          ''top'', ''bottom'']),
     (''scrollMargin'', [''scrollMargin'', ''scrollMarginBlock'', ''scrollMarginTop'', ''scrollMarginBottom'',
          ''scrollMarginInline'', ''scrollMarginInlineStart'', ''scrollMarginInlineEnd'', ''scrollMarginLeft'',
          ''scrollMarginRight'']),
     (''scrollPadding'', [''scrollPadding'', ''scrollPaddingBlock'', ''scrollPaddingTop'', ''scrollPaddingBottom'',
          ''scrollPaddingInline'', ''scrollPaddingInlineStart'', ''scrollPaddingInlineEnd'', ''scrollPaddingLeft'',
          ''scrollPaddingRight'']),
     (''animationRange'', [''animationRange'', ''animationRangeEnd'', ''animationRangeStart'']),
     (''scrollTimeline'', [''scrollTimeline'', ''scrollTimelineName'', ''scrollTimelineAxis'']),
     (''backgroundPosition'', [''backgroundPosition'', ''backgroundPositionX'', ''backgroundPositionY'']),
     (''borderColor'', [''borderColor'', ''borderInlineColor'', ''borderInlineStartColor'', ''borderLeftColor'',
          ''borderInlineEndColor'', ''borderRightColor'', ''borderBlockColor'', ''borderTopColor'', ''borderBottomColor'']),
     (''borderStyle'', [''borderStyle'', ''borderInlineStyle'', ''borderInlineStartStyle'', ''borderLeftStyle'',
          ''borderInlineEndStyle'', ''borderRightStyle'', ''borderBlockStyle'', ''borderTopStyle'', ''borderBottomStyle'']),
     (''borderWidth'', [''borderWidth'', ''borderInlineWidth'', ''borderInlineStartWidth'', ''borderLeftWidth'',
          ''borderInlineEndWidth'', ''borderRightWidth'', ''borderBlockWidth'', ''borderTopWidth'', ''borderBottomWidth'']),
     (''borderBlockStart'', [''borderTop'', ''borderTopWidth'', ''borderTopStyle'', ''borderTopColor'']),
     (''borderTop'', [''borderTop'', ''borderTopWidth'', ''borderTopStyle'', ''borderTopColor'']),
     (''borderBlockEnd'', [''borderBottom'', ''borderBottomWidth'', ''borderBottomStyle'', ''borderBottomColor'']),
     (''borderBottom'', [''borderBottom'', ''borderBottomWidth'', ''borderBottomStyle'', ''borderBottomColor'']),
     (''borderInlineColor'', [''borderInlineColor'', ''borderInlineStartColor'', ''borderLeftColor'',
          ''borderInlineEndColor'', ''borderRightColor'']),
     (''borderInlineStyle'', [''borderInlineStyle'', ''borderInlineStartStyle'', ''borderLeftStyle'',
          ''borderInlineEndStyle'', ''borderRightStyle'']),
     (''borderInlineWidth'', [''borderInlineWidth'', ''borderInlineStartWidth'', ''borderLeftWidth'',
          ''borderInlineEndWidth'', ''borderRightWidth'']),
     (''borderInlineStart'', [''borderInlineStart'', ''borderInlineStartWidth'', ''borderLeftWidth'', ''borderRightWidth'',
          ''borderInlineStartStyle'', ''borderLeftStyle'', ''borderRightStyle'', ''borderInlineStartColor'',
          ''borderLeftColor'', ''borderRightColor'']),
     (''borderLeft'', [''borderLeft'', ''borderLeftWidth'', ''borderInlineStartWidth'', ''borderInlineEndWidth'',
          ''borderLeftStyle'', ''borderInlineStartStyle'', ''borderInlineEndStyle'', ''borderLeftColor'',
          ''borderInlineStartColor'', ''borderInlineEndColor''])]"

definition ao_rows_3 :: "(string \<times> string list) list" where
  "ao_rows_3 =
    [(''borderInlineEnd'', [''borderInlineEnd'', ''borderInlineEndWidth'', ''borderLeftWidth'', ''borderRightWidth'',
          ''borderInlineEndStyle'', ''borderLeftStyle'', ''borderRightStyle'', ''borderInlineEndColor'', ''borderLeftColor'',
          ''borderRightColor'']),
     (''borderRight'', [''borderRight'', ''borderRightWidth'', ''borderInlineStartWidth'', ''borderInlineEndWidth'',
          ''borderRightStyle'', ''borderInlineStartStyle'', ''borderInlineEndStyle'', ''borderRightColor'',
          ''borderInlineStartColor'', ''borderInlineEndColor'']),
     (''borderImage'', [''borderImage'', ''borderImageOutset'', ''borderImageRepeat'', ''borderImageSlice'',
          ''borderImageSource'', ''borderImageWidth'']),
     (''borderRadius'', [''borderRadius'', ''borderStartStartRadius'', ''borderStartEndRadius'', ''borderEndStartRadius'',
          ''borderEndEndRadius'', ''borderTopLeftRadius'', ''borderTopRightRadius'', ''borderBottomLeftRadius'',
          ''borderBottomRightRadius'']),
     (''cornerShape'', [''cornerShape'', ''cornerStartStartShape'', ''cornerStartEndShape'', ''cornerEndStartShape'',
          ''cornerEndEndShape'', ''cornerTopLeftShape'', ''cornerTopRightShape'', ''cornerBottomLeftShape'',
          ''cornerBottomRightShape'']),
     (''outline'', [''outline'', ''outlineColor'', ''outlineOffset'', ''outlineStyle'', ''outlineWidth'']),
     (''gridGap'', [''gap'', ''rowGap'', ''columnGap'']),
     (''gap'', [''gap'', ''rowGap'', ''columnGap'']),
     (''placeContent'', [''placeContent'', ''alignContent'', ''justifyContent'']),
     (''placeItems'', [''placeItems'', ''alignItems'', ''justifyItems'']),
     (''placeSelf'', [''placeSelf'', ''alignSelf'', ''justifySelf'']),
     (''marginBlock'', [''marginBlock'', ''marginTop'', ''marginBottom'']),
     (''marginInline'', [''marginInline'', ''marginInlineStart'', ''marginLeft'', ''marginInlineEnd'', ''marginRight'']),
     (''paddingBlock'', [''paddingBlock'', ''paddingTop'', ''paddingBottom'']),
     (''paddingInline'', [''paddingInline'', ''paddingStart'', ''paddingLeft'', ''paddingEnd'', ''paddingRight'']),
     (''columns'', [''columns'', ''columnCount'', ''columnWidth'']),
     (''columnRule'', [''columnRule'', ''columnRuleColor'', ''columnRuleStyle'', ''columnRuleWidth'']),
     (''containIntrinsicSize'', [''containIntrinsicSize'', ''containIntrinsicWidth'', ''containIntrinsicHeight'']),
     (''container'', [''container'', ''containerName'', ''containerType'']),
     (''flex'', [''flex'', ''flexGrow'', ''flexShrink'', ''flexBasis'']),
     (''flexFlow'', [''flexFlow'', ''flexDirection'', ''flexWrap'']),
     (''fontVariant'', [''fontVariant'', ''fontVariantAlternates'', ''fontVariantCaps'', ''fontVariantEastAsian'',
          ''fontVariantEmoji'', ''fontVariantLigatures'', ''fontVariantNumeric'', ''fontVariantPosition'']),
     (''gridRow'', [''gridRow'', ''gridRowStart'', ''gridRowEnd'']),
     (''gridColumn'', [''gridColumn'', ''gridColumnStart'', ''gridColumnEnd'']),
     (''listStyle'', [''listStyle'', ''listStyleImage'', ''listStylePosition'', ''listStyleType'']),
     (''mask'', [''mask'', ''maskClip'', ''maskComposite'', ''maskImage'', ''maskMode'', ''maskOrigin'', ''maskPosition'',
          ''maskRepeat'', ''maskSize'']),
     (''maskBorder'', [''maskBorder'', ''maskBorderMode'', ''maskBorderOutset'', ''maskBorderRepeat'', ''maskBorderSlice'',
          ''maskBorderSource'', ''maskBorderWidth'']),
     (''offset'', [''offset'', ''offsetAnchor'', ''offsetDistance'', ''offsetPath'', ''offsetPosition'', ''offsetRotate''])]"

definition ao_rows_4 :: "(string \<times> string list) list" where
  "ao_rows_4 =
    [(''overflow'', [''overflow'', ''overflowX'', ''overflowY'']),
     (''insetBlock'', [''insetBlock'', ''top'', ''bottom'']),
     (''insetInline'', [''insetInline'', ''insetInlineStart'', ''insetInlineEnd'', ''left'', ''right'']),
     (''scrollMarginBlock'', [''scrollMarginBlock'', ''scrollMarginTop'', ''scrollMarginBottom'']),
     (''scrollMarginInline'', [''scrollMarginInline'', ''scrollMarginInlineStart'', ''scrollMarginInlineEnd'',
          ''scrollMarginLeft'', ''scrollMarginRight'']),
     (''scrollPaddingBlock'', [''scrollPaddingBlock'', ''scrollPaddingTop'', ''scrollPaddingBottom'']),
     (''scrollPaddingInline'', [''scrollPaddingInline'', ''scrollPaddingInlineStart'', ''scrollPaddingInlineEnd'',
          ''scrollPaddingLeft'', ''scrollPaddingRight'']),
     (''scrollSnapType'', [''scrollSnapType'', ''scrollSnapTypeX'', ''scrollSnapTypeY'']),
     (''textDecoration'', [''textDecoration'', ''textDecorationColor'', ''textDecorationLine'', ''textDecorationStyle'',
          ''textDecorationThickness'']),
     (''textEmphasis'', [''textEmphasis'', ''textEmphasisColor'', ''textEmphasisStyle'']),
     (''transition'', [''transition'', ''transitionBehavior'', ''transitionDelay'', ''transitionDuration'',
          ''transitionProperty'', ''transitionTimingFunction'']),
     (''borderBlockColor'', [''borderBlockColor'', ''borderTopColor'', ''borderBottomColor'']),
     (''borderBlockWidth'', [''borderBlockWidth'', ''borderTopWidth'', ''borderBottomWidth'']),
     (''borderBlockStartColor'', [''borderTopColor'']),
     (''borderBlockStartStyle'', [''borderTopStyle'']),
     (''borderBlockStartWidth'', [''borderTopWidth'']),
     (''borderBlockEndColor'', [''borderBottomColor'']),
     (''borderBlockEndStyle'', [''borderBottomStyle'']),
     (''borderBlockEndWidth'', [''borderBottomWidth'']),
     (''borderInlineStartColor'', [''borderInlineStartColor'', ''borderLeftColor'', ''borderRightColor'']),
     (''borderInlineStartStyle'', [''borderInlineStartStyle'', ''borderLeftStyle'', ''borderRightStyle'']),
     (''borderInlineStartWidth'', [''borderInlineStartWidth'', ''borderLeftWidth'', ''borderRightWidth'']),
     (''borderInlineEndColor'', [''borderInlineEndColor'', ''borderLeftColor'', ''borderRightColor'']),
     (''borderInlineEndStyle'', [''borderInlineEndStyle'', ''borderLeftStyle'', ''borderRightStyle'']),
     (''borderInlineEndWidth'', [''borderInlineEndWidth'', ''borderLeftWidth'', ''borderRightWidth'']),
     (''borderStartEndRadius'', [''borderStartEndRadius'', ''borderTopLeftRadius'', ''borderTopRightRadius'']),
     (''borderStartStartRadius'', [''borderStartStartRadius'', ''borderTopLeftRadius'', ''borderTopRightRadius'']),
     (''borderEndEndRadius'', [''borderEndEndRadius'', ''borderBottomLeftRadius'', ''borderBottomRightRadius'']),
     (''borderEndStartRadius'', [''borderEndStartRadius'', ''borderBottomLeftRadius'', ''borderBottomRightRadius'']),
     (''cornerStartStartShape'', [''cornerStartStartShape'', ''cornerTopLeftShape'', ''cornerTopRightShape'']),
     (''cornerStartEndShape'', [''cornerStartEndShape'', ''cornerTopLeftShape'', ''cornerTopRightShape'']),
     (''cornerEndStartShape'', [''cornerEndStartShape'', ''cornerBottomLeftShape'', ''cornerBottomRightShape'']),
     (''cornerEndEndShape'', [''cornerEndEndShape'', ''cornerBottomLeftShape'', ''cornerBottomRightShape'']),
     (''gridRowGap'', [''rowGap'']),
     (''gridColumnGap'', [''columnGap'']),
     (''blockSize'', [''height'']),
     (''inlineSize'', [''width'']),
     (''maxBlockSize'', [''maxHeight'']),
     (''maxInlineSize'', [''maxWidth'']),
     (''minBlockSize'', [''minHeight'']),
     (''minInlineSize'', [''minWidth'']),
     (''marginBlockStart'', [''marginTop'']),
     (''marginBlockEnd'', [''marginBottom'']),
     (''marginInlineStart'', [''marginInlineStart'', ''marginLeft'', ''marginRight'']),
     (''marginInlineEnd'', [''marginInlineEnd'', ''marginLeft'', ''marginRight'']),
     (''paddingBlockStart'', [''paddingTop'']),
     (''paddingBlockEnd'', [''paddingBottom'']),
     (''paddingInlineStart'', [''paddingInlineStart'', ''paddingLeft'', ''paddingRight'']),
     (''paddingInlineEnd'', [''paddingInlineEnd'', ''paddingLeft'', ''paddingRight'']),
     (''containIntrinsicBlockSize'', [''containIntrinsicHeight''])]"

definition ao_rows_5 :: "(string \<times> string list) list" where
  "ao_rows_5 =
    [(''containIntrinsicInlineSize'', [''containIntrinsicWidth'']),
     (''overflowBlock'', [''overflowY'']),
     (''overflowInline'', [''overflowX'']),
     (''insetBlockStart'', [''top'']),
     (''insetBlockEnd'', [''bottom'']),
     (''insetInlineStart'', [''insetInlineStart'', ''left'', ''right'']),
     (''insetInlineEnd'', [''insetInlineEnd'', ''left'', ''right'']),
     (''scrollMarginBlockStart'', [''scrollMarginTop'']),
     (''scrollMarginBlockEnd'', [''scrollMarginBottom'']),
     (''scrollMarginInlineStart'', [''scrollMarginInlineStart'', ''scrollMarginLeft'', ''scrollMarginRight'']),
     (''scrollMarginInlineEnd'', [''scrollMarginInlineEnd'', ''scrollMarginLeft'', ''scrollMarginRight'']),
     (''scrollPaddingInlineStart'', [''scrollPaddingInlineStart'', ''scrollPaddingLeft'', ''scrollPaddingRight'']),
     (''scrollPaddingInlineEnd'', [''scrollPaddingInlineEnd'', ''scrollPaddingLeft'', ''scrollPaddingRight'']),
     (''borderLeftColor'', [''borderLeftColor'', ''borderInlineStartColor'', ''borderInlineEndColor'']),
     (''borderLeftStyle'', [''borderLeftStyle'', ''borderInlineStartStyle'', ''borderInlineEndStyle'']),
     (''borderLeftWidth'', [''borderLeftWidth'', ''borderInlineStartWidth'', ''borderInlineEndWidth'']),
     (''borderRightColor'', [''borderRightColor'', ''borderInlineStartColor'', ''borderInlineEndColor'']),
     (''borderRightStyle'', [''borderRightStyle'', ''borderInlineStartStyle'', ''borderInlineEndStyle'']),
     (''borderRightWidth'', [''borderRightWidth'', ''borderInlineStartWidth'', ''borderInlineEndWidth'']),
     (''borderTopLeftRadius'', [''borderTopLeftRadius'', ''borderStartStartRadius'', ''borderStartEndRadius'']),
     (''borderTopRightRadius'', [''borderTopRightRadius'', ''borderStartStartRadius'', ''borderStartEndRadius'']),
     (''borderBottomLeftRadius'', [''borderBottomLeftRadius'', ''borderEndStartRadius'', ''borderEndEndRadius'']),
     (''borderBottomRightRadius'', [''borderBottomRightRadius'', ''borderEndStartRadius'', ''borderEndEndRadius'']),
     (''cornerTopLeftShape'', [''cornerTopLeftShape'', ''cornerStartStartShape'', ''cornerStartEndShape'']),
     (''cornerTopRightShape'', [''cornerTopRightShape'', ''cornerStartStartShape'', ''cornerStartEndShape'']),
     (''cornerBottomLeftShape'', [''cornerBottomLeftShape'', ''cornerEndStartShape'', ''cornerEndEndShape'']),
     (''cornerBottomRightShape'', [''cornerBottomRightShape'', ''cornerEndStartShape'', ''cornerEndEndShape'']),
     (''marginLeft'', [''marginLeft'', ''marginInlineStart'', ''marginInlineEnd'']),
     (''marginRight'', [''marginRight'', ''marginInlineStart'', ''marginInlineEnd'']),
     (''paddingLeft'', [''paddingLeft'', ''paddingInlineStart'', ''paddingInlineEnd'']),
     (''paddingRight'', [''paddingRight'', ''paddingInlineStart'', ''paddingInlineEnd'']),
     (''left'', [''left'', ''insetInlineStart'', ''insetInlineEnd'']),
     (''right'', [''right'', ''insetInlineStart'', ''insetInlineEnd'']),
     (''scrollMarginLeft'', [''scrollMarginLeft'', ''scrollMarginInlineStart'', ''scrollMarginInlineEnd'']),
     (''scrollMarginRight'', [''scrollMarginRight'', ''scrollMarginInlineStart'', ''scrollMarginInlineEnd'']),
     (''scrollPaddingLeft'', [''scrollPaddingLeft'', ''scrollPaddingInlineStart'', ''scrollPaddingInlineEnd'']),
     (''scrollPaddingRight'', [''scrollPaddingRight'', ''scrollPaddingInlineStart'', ''scrollPaddingInlineEnd'']),
     (''borderHorizontal'', [''borderInline'', ''borderInlineWidth'', ''borderInlineStartWidth'', ''borderLeftWidth'',
          ''borderInlineEndWidth'', ''borderRightWidth'', ''borderInlineStyle'', ''borderInlineStartStyle'',
          ''borderLeftStyle'', ''borderInlineEndStyle'', ''borderRightStyle'', ''borderInlineColor'',
          ''borderInlineStartColor'', ''borderLeftColor'', ''borderInlineEndColor'', ''borderRightColor''])]"

definition ao_rows_6 :: "(string \<times> string list) list" where
  "ao_rows_6 =
    [(''borderVertical'', [''borderBlock'', ''borderBlockWidth'', ''borderTopWidth'', ''borderBottomWidth'',
          ''borderBlockStyle'', ''borderTopStyle'', ''borderBottomStyle'', ''borderBlockColor'', ''borderTopColor'',
          ''borderBottomColor'']),
     (''borderEnd'', [''borderInlineEnd'', ''borderInlineEndWidth'', ''borderLeftWidth'', ''borderRightWidth'',
          ''borderInlineEndStyle'', ''borderLeftStyle'', ''borderRightStyle'', ''borderInlineEndColor'', ''borderLeftColor'',
          ''borderRightColor'']),
     (''borderStart'', [''borderInlineStart'', ''borderInlineStartWidth'', ''borderLeftWidth'', ''borderRightWidth'',
          ''borderInlineStartStyle'', ''borderLeftStyle'', ''borderRightStyle'', ''borderInlineStartColor'',
          ''borderLeftColor'', ''borderRightColor'']),
     (''borderHorizontalWidth'', [''borderInlineWidth'', ''borderInlineStartWidth'', ''borderLeftWidth'',
          ''borderInlineEndWidth'', ''borderRightWidth'']),
     (''borderHorizontalStyle'', [''borderInlineStyle'', ''borderInlineStartStyle'', ''borderLeftStyle'',
          ''borderInlineEndStyle'', ''borderRightStyle'']),
     (''borderHorizontalColor'', [''borderInlineColor'', ''borderInlineStartColor'', ''borderLeftColor'',
          ''borderInlineEndColor'', ''borderRightColor'']),
     (''borderVerticalWidth'', [''borderBlockWidth'', ''borderTopWidth'', ''borderBottomWidth'']),
     (''borderVerticalStyle'', [''borderBlockStyle'', ''borderTopStyle'', ''borderBottomStyle'']),
     (''borderVerticalColor'', [''borderBlockColor'', ''borderTopColor'', ''borderBottomColor'']),
     (''borderStartColor'', [''borderInlineStartColor'', ''borderLeftColor'', ''borderRightColor'']),
     (''borderEndColor'', [''borderInlineEndColor'', ''borderLeftColor'', ''borderRightColor'']),
     (''borderStartStyle'', [''borderInlineStartStyle'', ''borderLeftStyle'', ''borderRightStyle'']),
     (''borderEndStyle'', [''borderInlineEndStyle'', ''borderLeftStyle'', ''borderRightStyle'']),
     (''borderStartWidth'', [''borderInlineStartWidth'', ''borderLeftWidth'', ''borderRightWidth'']),
     (''borderEndWidth'', [''borderInlineEndWidth'', ''borderLeftWidth'', ''borderRightWidth'']),
     (''borderTopStartRadius'', [''borderStartStartRadius'']),
     (''borderTopEndRadius'', [''borderStartEndRadius'']),
     (''borderBottomStartRadius'', [''borderEndStartRadius'']),
     (''borderBottomEndRadius'', [''borderEndEndRadius'']),
     (''marginStart'', [''marginInlineStart'', ''marginLeft'', ''marginRight'']),
     (''marginEnd'', [''marginInlineEnd'', ''marginLeft'', ''marginRight'']),
     (''marginHorizontal'', [''marginInline'', ''marginInlineStart'', ''marginLeft'', ''marginInlineEnd'', ''marginRight'']),
     (''marginVertical'', [''marginBlock'', ''marginTop'', ''marginBottom'']),
     (''paddingStart'', [''paddingInlineStart'', ''paddingLeft'', ''paddingRight'']),
     (''paddingEnd'', [''paddingInlineEnd'', ''paddingLeft'', ''paddingRight'']),
     (''paddingHorizontal'', [''paddingInline'', ''paddingStart'', ''paddingLeft'', ''paddingEnd'', ''paddingRight'']),
     (''paddingVertical'', [''paddingBlock'', ''paddingTop'', ''paddingBottom'']),
     (''start'', [''insetInlineStart'', ''left'', ''right'']),
     (''end'', [''insetInlineEnd'', ''left'', ''right'']),
     (''borderBlockStyle'', [''borderBlockStyle'', ''borderTopStyle'', ''borderBottomStyle''])]"

definition application_rows :: "(string \<times> string list) list" where
  "application_rows = ao_rows_1 @ ao_rows_2 @ ao_rows_3 @ ao_rows_4 @ ao_rows_5 @ ao_rows_6"

definition application_order_expansion :: "string \<Rightarrow> string list option" where
  "application_order_expansion = map_of application_rows"

text \<open>Legacy expansion: the properties that have one.\<close>

definition legacy_keys :: "string list" where
  "legacy_keys =
    [''border'', ''borderColor'', ''borderStyle'', ''borderWidth'', ''borderRadius'', ''borderHorizontal'', ''borderVertical'',
     ''borderHorizontalColor'', ''borderHorizontalStyle'', ''borderHorizontalWidth'', ''borderVerticalColor'',
     ''borderVerticalStyle'', ''borderVerticalWidth'', ''containIntrinsicSize'', ''inset'', ''insetInline'', ''insetBlock'',
     ''start'', ''end'', ''left'', ''right'', ''gap'', ''listStyle'', ''margin'', ''marginHorizontal'', ''marginStart'',
     ''marginEnd'', ''marginLeft'', ''marginRight'', ''marginVertical'', ''overflow'', ''padding'', ''paddingHorizontal'',
     ''paddingStart'', ''paddingEnd'', ''paddingLeft'', ''paddingRight'', ''paddingVertical'', ''insetBlockStart'',
     ''insetBlockEnd'', ''insetInlineStart'', ''insetInlineEnd'', ''blockSize'', ''inlineSize'', ''minBlockSize'',
     ''minInlineSize'', ''maxBlockSize'', ''maxInlineSize'', ''borderStart'', ''borderEnd'', ''borderBlockWidth'',
     ''borderBlockStyle'', ''borderBlockColor'', ''borderBlockStartWidth'', ''borderBlockStartStyle'',
     ''borderBlockStartColor'', ''borderBlockEndWidth'', ''borderBlockEndStyle'', ''borderBlockEndColor'',
     ''borderInlineWidth'', ''borderInlineStyle'', ''borderInlineColor'', ''borderTopStartRadius'', ''borderTopEndRadius'',
     ''borderBottomStartRadius'', ''borderBottomEndRadius'', ''gridGap'', ''gridRowGap'', ''gridColumnGap'', ''marginBlock'',
     ''marginBlockStart'', ''marginBlockEnd'', ''marginInline'', ''overflowBlock'', ''overflowInline'', ''paddingBlock'',
     ''paddingBlockStart'', ''paddingBlockEnd'', ''paddingInline'', ''scrollMarginBlockStart'', ''scrollMarginBlockEnd'',
     ''float'', ''clear'']"

definition legacy_has_expansion :: "string \<Rightarrow> bool" where
  "legacy_has_expansion key \<longleftrightarrow> key \<in> set legacy_keys"

text \<open>Four sides, two sides, the same value twice, a value with two nulls, and another name.\<close>

definition quad_rows :: "(string \<times> string list) list" where
  "quad_rows =
     [(''borderColor'', [''borderTopColor'', ''borderInlineEndColor'', ''borderBottomColor'', ''borderInlineStartColor'']),
      (''borderStyle'', [''borderTopStyle'', ''borderInlineEndStyle'', ''borderBottomStyle'', ''borderInlineStartStyle'']),
      (''borderWidth'', [''borderTopWidth'', ''borderInlineEndWidth'', ''borderBottomWidth'', ''borderInlineStartWidth'']),
      (''borderRadius'', [''borderStartStartRadius'', ''borderStartEndRadius'', ''borderEndEndRadius'', ''borderEndStartRadius'']),
      (''inset'', [''top'', ''insetInlineEnd'', ''bottom'', ''insetInlineStart'']),
      (''margin'', [''marginTop'', ''marginInlineEnd'', ''marginBottom'', ''marginInlineStart'']),
      (''padding'', [''paddingTop'', ''paddingInlineEnd'', ''paddingBottom'', ''paddingInlineStart''])]"

definition duo_rows :: "(string \<times> string list) list" where
  "duo_rows =
     [(''insetBlock'', [''top'', ''bottom'']), (''gap'', [''rowGap'', ''columnGap'']), (''gridGap'', [''rowGap'', ''columnGap'']),
      (''marginVertical'', [''marginTop'', ''marginBottom'']), (''marginBlock'', [''marginTop'', ''marginBottom'']),
      (''overflow'', [''overflowX'', ''overflowY'']), (''paddingVertical'', [''paddingTop'', ''paddingBottom'']),
      (''paddingBlock'', [''paddingTop'', ''paddingBottom''])]"

definition same_rows :: "(string \<times> string list) list" where
  "same_rows =
     [(''border'', [''borderTop'', ''borderInlineEnd'', ''borderBottom'', ''borderInlineStart'']),
      (''borderHorizontal'', [''borderInlineStart'', ''borderInlineEnd'']), (''borderVertical'', [''borderTop'', ''borderBottom'']),
      (''borderHorizontalColor'', [''borderInlineStartColor'', ''borderInlineEndColor'']),
      (''borderInlineColor'', [''borderInlineStartColor'', ''borderInlineEndColor'']),
      (''borderHorizontalStyle'', [''borderInlineStartStyle'', ''borderInlineEndStyle'']),
      (''borderInlineStyle'', [''borderInlineStartStyle'', ''borderInlineEndStyle'']),
      (''borderHorizontalWidth'', [''borderInlineStartWidth'', ''borderInlineEndWidth'']),
      (''borderInlineWidth'', [''borderInlineStartWidth'', ''borderInlineEndWidth'']),
      (''borderVerticalColor'', [''borderTopColor'', ''borderBottomColor'']),
      (''borderBlockColor'', [''borderTopColor'', ''borderBottomColor'']),
      (''borderVerticalStyle'', [''borderTopStyle'', ''borderBottomStyle'']),
      (''borderBlockStyle'', [''borderTopStyle'', ''borderBottomStyle'']),
      (''borderVerticalWidth'', [''borderTopWidth'', ''borderBottomWidth'']),
      (''borderBlockWidth'', [''borderTopWidth'', ''borderBottomWidth''])]"

definition punched_rows :: "(string \<times> string \<times> string list) list" where
  "punched_rows =
     [(''start'', ''insetInlineStart'', [''left'', ''right'']), (''insetInlineStart'', ''insetInlineStart'', [''left'', ''right'']),
      (''end'', ''insetInlineEnd'', [''left'', ''right'']), (''insetInlineEnd'', ''insetInlineEnd'', [''left'', ''right'']),
      (''left'', ''left'', [''insetInlineStart'', ''insetInlineEnd'']), (''right'', ''right'', [''insetInlineStart'', ''insetInlineEnd'']),
      (''marginStart'', ''marginInlineStart'', [''marginLeft'', ''marginRight'']),
      (''marginEnd'', ''marginInlineEnd'', [''marginLeft'', ''marginRight'']),
      (''marginLeft'', ''marginLeft'', [''marginInlineStart'', ''marginInlineEnd'']),
      (''marginRight'', ''marginRight'', [''marginInlineStart'', ''marginInlineEnd'']),
      (''paddingStart'', ''paddingInlineStart'', [''paddingLeft'', ''paddingRight'']),
      (''paddingEnd'', ''paddingInlineEnd'', [''paddingLeft'', ''paddingRight'']),
      (''paddingLeft'', ''paddingLeft'', [''paddingInlineStart'', ''paddingInlineEnd'']),
      (''paddingRight'', ''paddingRight'', [''paddingInlineStart'', ''paddingInlineEnd''])]"

text \<open>A start and an end, each with its nulls.\<close>

definition inline_rows :: "(string \<times> string \<times> string \<times> string list) list" where
  "inline_rows =
     [(''insetInline'', ''insetInlineStart'', ''insetInlineEnd'', [''left'', ''right'']),
      (''marginHorizontal'', ''marginInlineStart'', ''marginInlineEnd'', [''marginLeft'', ''marginRight'']),
      (''marginInline'', ''marginInlineStart'', ''marginInlineEnd'', [''marginLeft'', ''marginRight'']),
      (''paddingHorizontal'', ''paddingInlineStart'', ''paddingInlineEnd'', [''paddingLeft'', ''paddingRight'']),
      (''paddingInline'', ''paddingInlineStart'', ''paddingInlineEnd'', [''paddingLeft'', ''paddingRight''])]"

definition one_rows :: "(string \<times> string) list" where
  "one_rows =
     [(''insetBlockStart'', ''top''), (''marginBlockStart'', ''marginTop''), (''paddingBlockStart'', ''paddingTop''),
      (''insetBlockEnd'', ''bottom''), (''marginBlockEnd'', ''marginBottom''), (''paddingBlockEnd'', ''paddingBottom''),
      (''blockSize'', ''height''), (''inlineSize'', ''width''), (''minBlockSize'', ''minHeight''), (''minInlineSize'', ''minWidth''),
      (''maxBlockSize'', ''maxHeight''), (''maxInlineSize'', ''maxWidth''), (''borderStart'', ''borderInlineStart''),
      (''borderEnd'', ''borderInlineEnd''), (''borderBlockStartWidth'', ''borderTopWidth''), (''borderBlockStartStyle'', ''borderTopStyle''),
      (''borderBlockStartColor'', ''borderTopColor''), (''borderBlockEndWidth'', ''borderBottomWidth''),
      (''borderBlockEndStyle'', ''borderBottomStyle''), (''borderBlockEndColor'', ''borderBottomColor''),
      (''borderTopStartRadius'', ''borderStartStartRadius''), (''borderTopEndRadius'', ''borderStartEndRadius''),
      (''borderBottomStartRadius'', ''borderEndStartRadius''), (''borderBottomEndRadius'', ''borderEndEndRadius''),
      (''gridRowGap'', ''rowGap''), (''gridColumnGap'', ''columnGap''), (''overflowBlock'', ''overflowY''),
      (''overflowInline'', ''overflowX''), (''scrollMarginBlockStart'', ''scrollMarginTop''),
      (''scrollMarginBlockEnd'', ''scrollMarginBottom'')]"

section \<open>What the tables promise\<close>

text \<open>
  The rows of the application order that write another property than their own, by the last character of their name: the property
  without that character from its end, and what it writes.
\<close>

definition renamings :: "(char \<times> (string \<times> string) list) list" where
  "renamings =
    [(CHR ''t'', [(''ratSkcolBredrob'', ''borderTop''), (''ratSkcolBnigram'', ''marginTop''), (''ratSkcolBgniddap'', ''paddingTop''), (''ratSkcolBtesni'', ''top''), (''ratSkcolBnigraMllorcs'', ''scrollMarginTop''), (''ratSredrob'', ''borderInlineStart''), (''ratSnigram'', ''marginInlineStart''), (''ratSgniddap'', ''paddingInlineStart''), (''rats'', ''insetInlineStart'')]),
     (CHR ''d'', [(''nEkcolBredrob'', ''borderBottom''), (''nEkcolBnigram'', ''marginBottom''), (''nEkcolBgniddap'', ''paddingBottom''), (''nEkcolBtesni'', ''bottom''), (''nEkcolBnigraMllorcs'', ''scrollMarginBottom''), (''nEredrob'', ''borderInlineEnd''), (''nEnigram'', ''marginInlineEnd''), (''nEgniddap'', ''paddingInlineEnd''), (''ne'', ''insetInlineEnd'')]),
     (CHR ''p'', [(''aGdirg'', ''gap''), (''aGwoRdirg'', ''rowGap''), (''aGnmuloCdirg'', ''columnGap'')]),
     (CHR ''r'', [(''oloCtratSkcolBredrob'', ''borderTopColor''), (''oloCdnEkcolBredrob'', ''borderBottomColor''), (''oloClatnoziroHredrob'', ''borderInlineColor''), (''oloClacitreVredrob'', ''borderBlockColor''), (''oloCtratSredrob'', ''borderInlineStartColor''), (''oloCdnEredrob'', ''borderInlineEndColor'')]),
     (CHR ''e'', [(''lytStratSkcolBredrob'', ''borderTopStyle''), (''lytSdnEkcolBredrob'', ''borderBottomStyle''), (''ziSkcolb'', ''height''), (''ziSenilni'', ''width''), (''ziSkcolBxam'', ''maxHeight''), (''ziSenilnIxam'', ''maxWidth''), (''ziSkcolBnim'', ''minHeight''), (''ziSenilnInim'', ''minWidth''), (''ziSkcolBcisnirtnIniatnoc'', ''containIntrinsicHeight''), (''ziSenilnIcisnirtnIniatnoc'', ''containIntrinsicWidth''), (''nilnIwolfrevo'', ''overflowX''), (''lytSlatnoziroHredrob'', ''borderInlineStyle''), (''lytSlacitreVredrob'', ''borderBlockStyle''), (''lytStratSredrob'', ''borderInlineStartStyle''), (''lytSdnEredrob'', ''borderInlineEndStyle'')]),
     (CHR ''h'', [(''tdiWtratSkcolBredrob'', ''borderTopWidth''), (''tdiWdnEkcolBredrob'', ''borderBottomWidth''), (''tdiWlatnoziroHredrob'', ''borderInlineWidth''), (''tdiWlacitreVredrob'', ''borderBlockWidth''), (''tdiWtratSredrob'', ''borderInlineStartWidth''), (''tdiWdnEredrob'', ''borderInlineEndWidth'')]),
     (CHR ''k'', [(''colBwolfrevo'', ''overflowY'')]),
     (CHR ''l'', [(''atnoziroHredrob'', ''borderInline''), (''acitreVredrob'', ''borderBlock''), (''atnoziroHnigram'', ''marginInline''), (''acitreVnigram'', ''marginBlock''), (''atnoziroHgniddap'', ''paddingInline''), (''acitreVgniddap'', ''paddingBlock'')]),
     (CHR ''s'', [(''uidaRtratSpoTredrob'', ''borderStartStartRadius''), (''uidaRdnEpoTredrob'', ''borderStartEndRadius''), (''uidaRtratSmottoBredrob'', ''borderEndStartRadius''), (''uidaRdnEmottoBredrob'', ''borderEndEndRadius'')])]"

definition renames :: "string \<Rightarrow> string \<Rightarrow> bool" where
  "renames k p \<longleftrightarrow>
     (case rev k of
        [] \<Rightarrow> False
      | c # r \<Rightarrow> list_ex (\<lambda>(d, rows). d = c \<and> list_ex (\<lambda>(s, q). s = r \<and> q = p) rows) renamings)"

definition renames_into :: "string list \<Rightarrow> string \<Rightarrow> bool" where
  "renames_into ts k \<longleftrightarrow>
     (case rev k of
        [] \<Rightarrow> True
      | c # r \<Rightarrow> list_all (\<lambda>(d, rows). d \<noteq> c \<or> list_all (\<lambda>(s, q). s \<noteq> r \<or> List.member ts q) rows) renamings)"

lemma renames_intoD: "renames_into ts k \<Longrightarrow> renames k p \<Longrightarrow> p \<in> set ts"
  by (fastforce simp: renames_into_def renames_def list_all_iff list_ex_iff split: list.splits)

definition is_var_ref :: "string \<Rightarrow> bool" where
  "is_var_ref key \<longleftrightarrow> take 4 key = ''var(''"

text \<open>
  A row writes one property, which writes itself, is not \<^verbatim>\<open>all\<close>, and is not a variable; nor is what the row takes back.
\<close>

definition row_stable :: "string \<times> string list \<Rightarrow> bool" where
  "row_stable row \<longleftrightarrow>
     (case row of (k, ts) \<Rightarrow>
        ts \<noteq> [] \<and> (hd ts = k \<or> renames k (hd ts)) \<and> renames_into [] (hd ts) \<and>
        list_all (\<lambda>t. \<not> is_var_ref t \<and> t \<noteq> ''all'') ts)"

text \<open>What a row takes back under one name it takes back under the name that is written, three rows apart.\<close>

definition leaky :: "string list" where
  "leaky = [''padding'', ''paddingInline'', ''paddingHorizontal'']"

definition row_tight :: "string \<times> string list \<Rightarrow> bool" where
  "row_tight row \<longleftrightarrow> (case row of (k, ts) \<Rightarrow> List.member leaky k \<or> list_all (renames_into ts) ts)"

lemma rows_stable:
  "list_all row_stable ao_rows_1"
  "list_all row_stable ao_rows_2"
  "list_all row_stable ao_rows_3"
  "list_all row_stable ao_rows_4"
  "list_all row_stable ao_rows_5"
  "list_all row_stable ao_rows_6"
  by code_simp+

lemma rows_tight_1: "list_all row_tight ao_rows_1"
  by code_simp

lemma rows_tight_2: "list_all row_tight ao_rows_2"
  by code_simp

lemma rows_tight_3: "list_all row_tight ao_rows_3"
  by code_simp

lemma rows_tight_4: "list_all row_tight ao_rows_4"
  by code_simp

lemma rows_tight_5: "list_all row_tight ao_rows_5"
  by code_simp

lemma rows_tight_6: "list_all row_tight ao_rows_6"
  by code_simp

lemmas rows_tight = rows_tight_1 rows_tight_2 rows_tight_3 rows_tight_4 rows_tight_5 rows_tight_6

lemma application_row:
  assumes "application_order_expansion k = Some ts"
  shows "row_stable (k, ts)" "row_tight (k, ts)"
proof -
  have "(k, ts) \<in> set application_rows"
    using assms by (simp add: application_order_expansion_def map_of_SomeD)
  moreover have "list_all row_stable application_rows" "list_all row_tight application_rows"
    by (simp_all add: application_rows_def rows_stable rows_tight)
  ultimately show "row_stable (k, ts)" "row_tight (k, ts)"
    by (auto simp: list_all_iff)
qed

text \<open>The property that a property writes in application order.\<close>

definition application_writes :: "string \<Rightarrow> string" where
  "application_writes k = (case application_order_expansion k of Some ts \<Rightarrow> hd ts | None \<Rightarrow> k)"

lemma application_writes_cases: "application_writes k = k \<or> renames k (application_writes k)"
  by (auto simp: application_writes_def row_stable_def dest!: application_row(1) split: option.splits)

lemma application_writes_head:
  assumes "application_order_expansion k = Some ts"
  shows "application_writes (hd ts) = hd ts"
  using application_row(1) [OF assms] application_writes_cases [of "hd ts"]
  by (auto simp: row_stable_def dest: renames_intoD)

lemma application_writes_tight:
  assumes "application_order_expansion k = Some ts" "t \<in> set ts" "k \<notin> set leaky"
  shows "application_writes t \<in> set ts"
  using application_row(2) [OF assms(1)] assms(2,3) application_writes_cases [of t]
  by (auto simp: row_tight_def list_all_iff dest: renames_intoD)

text \<open>Property specificity: another name is final, neither banned nor renamed again.\<close>

lemma alias_final:
  "list_all (\<lambda>(k, t). \<not> is_var_ref t \<and> \<not> List.member banned_shorthands t \<and> \<not> List.member (map fst alias_rows) t) alias_rows"
  by code_simp

text \<open>Legacy: what has an expansion has a row, and what a row writes keeps its name.\<close>

definition legacy_special :: "string list" where
  "legacy_special = [''listStyle'', ''containIntrinsicSize'', ''float'', ''clear'']"

definition has_row :: "string \<Rightarrow> bool" where
  "has_row k \<longleftrightarrow>
     map_of one_rows k \<noteq> None \<or> map_of same_rows k \<noteq> None \<or> map_of punched_rows k \<noteq> None \<or> map_of duo_rows k \<noteq> None \<or>
     map_of quad_rows k \<noteq> None \<or> map_of inline_rows k \<noteq> None"

lemma legacy_rows_total: "list_all (\<lambda>k. List.member legacy_special k \<or> has_row k) legacy_keys"
  by code_simp

text \<open>A property is final when it is left as it is, or only takes others back.\<close>

definition legacy_final :: "string \<Rightarrow> bool" where
  "legacy_final t \<longleftrightarrow>
     \<not> is_var_ref t \<and>
     (\<not> List.member legacy_keys t \<or>
      \<not> List.member legacy_special t \<and> map_of one_rows t = None \<and> map_of same_rows t = None \<and>
      (case map_of punched_rows t of Some (p, _) \<Rightarrow> p = t | None \<Rightarrow> False))"

lemma legacy_one_final: "list_all (\<lambda>(k, t). legacy_final t) one_rows"
  by code_simp

lemma legacy_lists_final:
  "list_all (\<lambda>(k, ts). list_all legacy_final ts) same_rows"
  "list_all (\<lambda>(k, ts). length ts = 2 \<and> list_all legacy_final ts) duo_rows"
  "list_all (\<lambda>(k, ts). length ts = 4 \<and> list_all legacy_final ts) quad_rows"
  by code_simp+

lemma legacy_punched_final:
  "list_all (\<lambda>(k, t, ns). legacy_final t) punched_rows"
  "list_all (\<lambda>(k, s, e, ns). legacy_final s \<and> legacy_final e) inline_rows"
  "list_all legacy_final [''listStyleType'', ''listStylePosition'', ''listStyleImage'', ''containIntrinsicWidth'', ''containIntrinsicHeight'']"
  by code_simp+

end
