(* ===== verification/Stylex_Shorthands.thy ===== *)
theory Stylex_Shorthands
  imports Stylex_Rule Stylex_Tables
begin

text \<open>
  Shorthand properties: \<^verbatim>\<open>crates/oj_stylex/src/shared/resolution.rs\<close>, with the splitting of values of \<^verbatim>\<open>split_css_value.rs\<close>. A
  property expands to pairs of a property and a value, where no value is the null that takes an earlier longhand back. There are
  three tables, one for each style resolution (\<^verbatim>\<open>Stylex_Tables\<close>).
\<close>

type_synonym 'f pair = "string \<times> 'f style_scalar option"

datatype validation_mode = Throw | Warn | Silent

datatype 'f shorthand_error =
  ShorthandFallback
| BannedShorthand string
| InvalidListStyle "'f style_scalar" bool
| Panic

section \<open>Splitting values\<close>

fun print_node :: "node \<Rightarrow> string" where
  "print_node (Node k v i j b a q u ns) =
     (case k of
        KStr \<Rightarrow> q # v @ [q]
      | KFunc \<Rightarrow> v @ ''('' @ concat (map print_node ns) @ '')''
      | _ \<Rightarrow> v)"

definition split_value :: "'f style_scalar option \<Rightarrow> 'f style_scalar option list" where
  "split_value val =
     (case val of
        Some (Str_scalar raw) \<Rightarrow>
          (let parts = map print_node (filter (\<lambda>n. n_kind n \<noteq> KSpace \<and> n_kind n \<noteq> KDiv) (parse (trim raw)));
               parts = (if 1 < length parts \<and> eq_ignore_ascii_case (last parts) ''!important''
                        then map (\<lambda>p. p @ '' !important'') (butlast parts) else parts)
           in map (\<lambda>p. Some (Str_scalar p)) parts)
      | _ \<Rightarrow> [val])"

text \<open>Array destructuring: a missing part is undefined, and a default replaces an undefined part.\<close>

definition part_at :: "'f style_scalar option list \<Rightarrow> nat \<Rightarrow> 'f style_scalar option" where
  "part_at parts i = (if i < length parts then parts ! i else Some Undefined_scalar)"

definition or_else :: "'f style_scalar option \<Rightarrow> 'f style_scalar option \<Rightarrow> 'f style_scalar option" where
  "or_else val fallback = (case val of Some Undefined_scalar \<Rightarrow> fallback | _ \<Rightarrow> val)"

definition box_sides :: "'f style_scalar option list \<Rightarrow> 'f style_scalar option list" where
  "box_sides parts =
     (let t = part_at parts 0; r = or_else (part_at parts 1) t; b = or_else (part_at parts 2) t; l = or_else (part_at parts 3) r
      in [t, r, b, l])"

definition two_sides :: "'f style_scalar option list \<Rightarrow> 'f style_scalar option list" where
  "two_sides parts = (let a = part_at parts 0; b = or_else (part_at parts 1) a in [a, b])"

definition punched :: "string \<Rightarrow> 'f style_scalar option \<Rightarrow> string list \<Rightarrow> 'f pair list" where
  "punched key val nulls = (key, val) # map (\<lambda>n. (n, None)) nulls"

section \<open>Legacy expansion\<close>

definition logical_float_value :: "'f style_scalar option \<Rightarrow> 'f style_scalar option" where
  "logical_float_value val =
     (case val of
        Some (Str_scalar s) \<Rightarrow>
          if s = ''inline-start'' \<or> s = ''start'' then Some (Str_scalar ''var(--stylex-logical-start)'')
          else if s = ''inline-end'' \<or> s = ''end'' then Some (Str_scalar ''var(--stylex-logical-end)'')
          else val
      | _ \<Rightarrow> val)"

definition scalar_text :: "'f js_num \<Rightarrow> 'f style_scalar option \<Rightarrow> string" where
  "scalar_text J val =
     (case val of
        Some (Str_scalar s) \<Rightarrow> s
      | Some (Num_scalar n) \<Rightarrow> js_number_to_string J n
      | Some Undefined_scalar \<Rightarrow> ''undefined''
      | None \<Rightarrow> ''null'')"

definition fold_auto :: "'f js_num \<Rightarrow> 'f style_scalar option list \<Rightarrow> 'f style_scalar option \<Rightarrow> 'f style_scalar option list" where
  "fold_auto J folded part =
     (if folded \<noteq> [] \<and> (case last folded of Some (Str_scalar s) \<Rightarrow> s = ''auto'' | _ \<Rightarrow> False) \<and>
         (case part of None \<Rightarrow> False | Some Undefined_scalar \<Rightarrow> False | _ \<Rightarrow> True)
      then butlast folded @ [Some (Str_scalar (''auto '' @ scalar_text J part))]
      else folded @ [part])"

definition contain_intrinsic_size :: "'f js_num \<Rightarrow> 'f style_scalar option list \<Rightarrow> 'f pair list" where
  "contain_intrinsic_size J parts = zip [''containIntrinsicWidth'', ''containIntrinsicHeight''] (two_sides (foldl (fold_auto J) [] parts))"

definition list_style_globals :: "string list" where
  "list_style_globals = [''inherit'', ''initial'', ''revert'', ''unset'']"

definition is_list_style_type :: "string \<Rightarrow> bool" where
  "is_list_style_type part \<longleftrightarrow>
     (part \<noteq> [] \<and> list_all (\<lambda>b. is_lower b \<or> b = CHR ''-'') part) \<or>
     (2 \<le> length part \<and> (hd part = CHR 0x22 \<or> hd part = CHR 0x27) \<and> last part = hd part \<and>
      (let inner = butlast (tl part) in
       CHR 0x0A \<notin> set inner \<and> CHR 0x0D \<notin> set inner \<and>
       \<not> contains_str [CHR 0xE2, CHR 0x80, CHR 0xA8] inner \<and> \<not> contains_str [CHR 0xE2, CHR 0x80, CHR 0xA9] inner))"

record list_style_parts =
  ls_type :: "string option"
  ls_position :: "string option"
  ls_remaining :: "string list"

fun list_style_scan :: "'f style_scalar \<Rightarrow> string list \<Rightarrow> list_style_parts \<Rightarrow> 'f shorthand_error + list_style_parts" where
  "list_style_scan val [] acc = Inr acc"
| "list_style_scan val (part # ps) acc =
     (if part \<in> set list_style_globals \<or> contains_str ''var(--'' part then Inl (InvalidListStyle val True)
      else if part = ''inside'' \<or> part = ''outside''
      then (if ls_position acc \<noteq> None then Inl (InvalidListStyle val False) else list_style_scan val ps (acc\<lparr>ls_position := Some part\<rparr>))
      else if part \<noteq> ''none'' \<and> is_list_style_type part
      then (if ls_type acc \<noteq> None then Inl (InvalidListStyle val False) else list_style_scan val ps (acc\<lparr>ls_type := Some part\<rparr>))
      else list_style_scan val ps (acc\<lparr>ls_remaining := ls_remaining acc @ [part]\<rparr>))"

fun list_style_rest :: "'f style_scalar \<Rightarrow> string list \<Rightarrow> string option \<Rightarrow> string option \<Rightarrow> 'f shorthand_error + (string option \<times> string option)" where
  "list_style_rest val [] ty img = Inr (ty, img)"
| "list_style_rest val (part # ps) ty img =
     (if part = ''none'' \<and> ty = None then list_style_rest val ps (Some part) img
      else if img \<noteq> None then Inl (InvalidListStyle val False)
      else list_style_rest val ps ty (Some part))"

definition string_parts :: "'f style_scalar option list \<Rightarrow> string list" where
  "string_parts parts = List.map_filter (\<lambda>p. case p of Some (Str_scalar s) \<Rightarrow> Some s | _ \<Rightarrow> None) parts"

definition list_style :: "'f style_scalar option \<Rightarrow> 'f shorthand_error + 'f pair list" where
  "list_style value =
     (let keys = [''listStyleType'', ''listStylePosition'', ''listStyleImage'']; cell = map_option Str_scalar in
      case value of
        None \<Rightarrow> Inr (map (\<lambda>k. (k, None)) keys)
      | Some val \<Rightarrow>
          (let parts = split_value (Some val); strings = string_parts parts in
           if length parts = 1 \<and> strings \<noteq> [] \<and> hd strings \<in> set list_style_globals
           then Inr (map (\<lambda>k. (k, Some (Str_scalar (hd strings)))) keys)
           else case list_style_scan val strings \<lparr>ls_type = None, ls_position = None, ls_remaining = []\<rparr> of
             Inl e \<Rightarrow> Inl e
           | Inr acc \<Rightarrow>
               (case list_style_rest val (ls_remaining acc) (ls_type acc) None of
                  Inl e \<Rightarrow> Inl e
                | Inr (ty, img) \<Rightarrow> Inr (zip keys [cell ty, cell (ls_position acc), cell img]))))"

definition legacy_expansion :: "'f js_num \<Rightarrow> string \<Rightarrow> 'f style_scalar option \<Rightarrow> 'f shorthand_error + 'f pair list" where
  "legacy_expansion J key val =
     (if key = ''listStyle'' then list_style val
      else if key = ''containIntrinsicSize'' then Inr (contain_intrinsic_size J (split_value val))
      else if key = ''float'' \<or> key = ''clear'' then Inr [(key, logical_float_value val)]
      else case map_of one_rows key of Some target \<Rightarrow> Inr [(target, val)] | None \<Rightarrow>
        (case map_of same_rows key of Some targets \<Rightarrow> Inr (map (\<lambda>k. (k, val)) targets) | None \<Rightarrow>
        (case map_of punched_rows key of Some (target, nulls) \<Rightarrow> Inr (punched target val nulls) | None \<Rightarrow>
        (case map_of duo_rows key of Some targets \<Rightarrow> Inr (zip targets (two_sides (split_value val))) | None \<Rightarrow>
        (case map_of quad_rows key of Some targets \<Rightarrow> Inr (zip targets (box_sides (split_value val))) | None \<Rightarrow>
        (case map_of inline_rows key of
           Some (start_key, end_key, nulls) \<Rightarrow>
             (let sides = two_sides (split_value val) in Inr (punched start_key (sides ! 0) nulls @ punched end_key (sides ! 1) nulls))
         | None \<Rightarrow> Inl Panic))))))"

section \<open>Expansion\<close>

datatype expansion = No_expansion | Banned | Alias string

definition property_specificity_expansion :: "string \<Rightarrow> expansion" where
  "property_specificity_expansion key =
     (if key \<in> set banned_shorthands then Banned
      else case map_of alias_rows key of Some target \<Rightarrow> Alias target | None \<Rightarrow> No_expansion)"

definition banned :: "validation_mode \<Rightarrow> string \<Rightarrow> 'f shorthand_error + 'f pair list" where
  "banned mode key = (case mode of
       Throw \<Rightarrow> if key \<in> set banned_shorthands then Inl (BannedShorthand key) else Inl Panic
     | _ \<Rightarrow> Inr [])"

definition is_unexpanded_property :: "style_resolution \<Rightarrow> string \<Rightarrow> bool" where
  "is_unexpanded_property res key \<longleftrightarrow>
     (case res of
        PropertySpecificity \<Rightarrow> property_specificity_expansion key = No_expansion
      | ApplicationOrder \<Rightarrow> key \<noteq> ''all'' \<and> application_order_expansion key = None
      | LegacyExpandShorthands \<Rightarrow> \<not> legacy_has_expansion key)"

definition unwrap_var :: "string \<Rightarrow> string" where
  "unwrap_var key = (if starts_with ''var('' key \<and> ends_with '')'' key then butlast (drop 4 key) else key)"

definition flat_map_expanded_shorthands ::
  "'f js_num \<Rightarrow> style_resolution \<Rightarrow> validation_mode \<Rightarrow> bool \<Rightarrow> string \<Rightarrow> 'f style_scalar option \<Rightarrow> 'f shorthand_error + 'f pair list" where
  "flat_map_expanded_shorthands J res mode value_is_array raw_key val =
     (let key = unwrap_var raw_key in
      case res of
        PropertySpecificity \<Rightarrow>
          (case property_specificity_expansion key of
             No_expansion \<Rightarrow> Inr [(key, val)]
           | Banned \<Rightarrow> if value_is_array then Inl ShorthandFallback else banned mode key
           | Alias target \<Rightarrow> if value_is_array then Inl ShorthandFallback else Inr [(target, val)])
      | ApplicationOrder \<Rightarrow>
          if key = ''all'' then (if value_is_array then Inl ShorthandFallback else banned mode key)
          else (case application_order_expansion key of
                  None \<Rightarrow> Inr [(key, val)]
                | Some table \<Rightarrow> if value_is_array then Inl ShorthandFallback else Inr (punched (hd table) val (tl table)))
      | LegacyExpandShorthands \<Rightarrow>
          if \<not> legacy_has_expansion key then Inr [(key, val)]
          else if value_is_array then Inl ShorthandFallback
          else (case legacy_expansion J key val of
                  Inr pairs \<Rightarrow> Inr pairs
                | Inl e \<Rightarrow> (case mode of Throw \<Rightarrow> Inl e | _ \<Rightarrow> Inr [])))"

section \<open>The expansion does not panic\<close>

lemma unwrap_var_id: "\<not> is_var_ref k \<Longrightarrow> unwrap_var k = k"
  by (auto simp: unwrap_var_def is_var_ref_def starts_with_iff)

lemma list_style_scan_no_panic: "list_style_scan val ps acc \<noteq> Inl Panic"
  by (induction val ps acc rule: list_style_scan.induct) auto

lemma list_style_rest_no_panic: "list_style_rest val ps ty img \<noteq> Inl Panic"
  by (induction val ps ty img rule: list_style_rest.induct) auto

lemma list_style_no_panic: "list_style val \<noteq> Inl Panic"
  unfolding list_style_def Let_def
  by (auto split: option.split sum.split simp: list_style_scan_no_panic list_style_rest_no_panic)

lemma legacy_row: "legacy_has_expansion key \<Longrightarrow> key \<notin> set legacy_special \<Longrightarrow> has_row key"
  using legacy_rows_total by (auto simp: legacy_has_expansion_def list_all_iff)

lemma legacy_expansion_no_panic:
  assumes "legacy_has_expansion key"
  shows "legacy_expansion J key val \<noteq> Inl Panic"
proof (cases "key \<in> set legacy_special")
  case True
  then show ?thesis
    by (auto simp: legacy_expansion_def legacy_special_def list_style_no_panic)
next
  case False
  with legacy_row [OF assms] show ?thesis
    by (auto simp: legacy_expansion_def has_row_def list_style_no_panic Let_def split: option.split)
qed

text \<open>
  The expansion of a property does not reach the two places of the code that say it cannot be there: the legacy table has a row
  for every property that its guard lets through, and every property that is refused has its message.
\<close>

theorem expansion_does_not_panic: "flat_map_expanded_shorthands J res mode value_is_array key val \<noteq> Inl Panic"
proof (cases res)
  case PropertySpecificity
  then show ?thesis
    by (auto simp: flat_map_expanded_shorthands_def Let_def property_specificity_expansion_def banned_def
        split: option.split validation_mode.split)
next
  case ApplicationOrder
  have "''all'' \<in> set banned_shorthands"
    by code_simp
  with ApplicationOrder show ?thesis
    by (auto simp: flat_map_expanded_shorthands_def Let_def banned_def split: option.split validation_mode.split)
next
  case LegacyExpandShorthands
  then show ?thesis
    by (auto simp: flat_map_expanded_shorthands_def Let_def legacy_expansion_no_panic split: sum.split validation_mode.split)
qed

section \<open>Later properties win\<close>

text \<open>The style that pairs leave, the last of a property counting.\<close>

definition written :: "'f pair list \<Rightarrow> string \<Rightarrow> 'f style_scalar option" where
  "written ps = foldl (\<lambda>m (k, v). m(k := v)) (\<lambda>_. None) ps"

lemma written_Nil [simp]: "written [] p = None"
  by (simp add: written_def)

lemma written_snoc [simp]: "written (ps @ [(k, v)]) p = (if p = k then v else written ps p)"
  by (simp add: written_def)

lemma written_append: "written (ps @ qs) p = (if p \<in> fst ` set qs then written qs p else written ps p)"
proof (induction qs rule: rev_induct)
  case (snoc q qs)
  then show ?case
    by (cases q) (simp flip: append_assoc)
qed simp

lemma written_nulls: "written (map (\<lambda>n. (n, None)) ns) p = None"
  by (induction ns rule: rev_induct) simp_all

lemma written_punched: "written (punched k v ns) p = (if p = k \<and> k \<notin> set ns then v else None)"
  using written_append [of "[(k, v)]" "map (\<lambda>n. (n, None)) ns" p] written_snoc [of "[]" k v p]
  by (auto simp: punched_def written_nulls image_image)

lemma punched_keys [simp]: "fst ` set (punched k v ns) = insert k (set ns)"
  by (simp add: punched_def image_image)

lemma application_expansion:
  assumes "flat_map_expanded_shorthands J ApplicationOrder mode False l v = Inr ps" "\<not> is_var_ref l" "l \<noteq> ''all''"
  shows "\<exists>ns. ps = punched (application_writes l) v ns"
proof (cases "application_order_expansion l")
  case None
  with assms show ?thesis
    by (intro exI [of _ "[]"]) (simp add: flat_map_expanded_shorthands_def unwrap_var_id application_writes_def punched_def)
next
  case (Some ts)
  with assms show ?thesis
    by (intro exI [of _ "tl ts"]) (simp add: flat_map_expanded_shorthands_def unwrap_var_id application_writes_def)
qed

lemma application_expansion_cases:
  assumes "flat_map_expanded_shorthands J ApplicationOrder mode False k v = Inr qs"
  obtains (banned) "qs = []"
  | (plain) "application_order_expansion (unwrap_var k) = None" "qs = [(unwrap_var k, v)]" "unwrap_var k \<noteq> ''all''"
  | (table) h ts where "application_order_expansion (unwrap_var k) = Some (h # ts)" "qs = punched h v ts"
proof (cases "unwrap_var k = ''all''")
  case True
  with assms show ?thesis
    by (intro banned) (auto simp: flat_map_expanded_shorthands_def Let_def banned_def split: validation_mode.splits if_splits)
next
  case False
  show ?thesis
  proof (cases "application_order_expansion (unwrap_var k)")
    case None
    with assms False show ?thesis
      by (intro plain) (simp_all add: flat_map_expanded_shorthands_def Let_def)
  next
    case (Some us)
    then obtain h ts where us: "us = h # ts"
      using application_row(1) [OF Some] by (cases us) (auto simp: row_stable_def)
    with assms False Some show ?thesis
      by (intro table [of h ts]) (simp_all add: flat_map_expanded_shorthands_def Let_def)
  qed
qed

text \<open>
  C33: In application order a shorthand replaces what an earlier property left: when the later property takes the earlier one back,
  the style of the two is the style of the later alone. The three padding shorthands \<^verbatim>\<open>padding\<close>, \<^verbatim>\<open>paddingInline\<close> and
  \<^verbatim>\<open>paddingHorizontal\<close> are left out here.
\<close>

theorem later_shorthand_replaces:
  assumes earlier: "flat_map_expanded_shorthands J ApplicationOrder mode False l w = Inr ps"
    and later: "flat_map_expanded_shorthands J ApplicationOrder mode False k v = Inr qs"
    and taken_back: "(l, None) \<in> set qs" and shorthand: "application_order_expansion (unwrap_var k) \<noteq> None"
    and tight: "unwrap_var k \<notin> set leaky"
  shows "written (ps @ qs) = written qs"
proof -
  from later shorthand taken_back obtain h ts
    where row: "application_order_expansion (unwrap_var k) = Some (h # ts)" and qs: "qs = punched h v ts"
    by (cases rule: application_expansion_cases) auto
  have l: "l \<in> set (h # ts)"
    using taken_back by (auto simp: qs punched_def)
  with application_row(1) [OF row] have "\<not> is_var_ref l" "l \<noteq> ''all''"
    by (auto simp: row_stable_def list_all_iff)
  with earlier obtain ns where ps: "ps = punched (application_writes l) w ns"
    using application_expansion by blast
  have "application_writes l \<in> set (h # ts)"
    using application_writes_tight [OF row l tight] .
  then show ?thesis
    by (auto simp: fun_eq_iff written_append qs) (auto simp: ps written_punched)
qed

theorem later_shorthand_replaces_witness:
  "written ([(''marginTop'', Some (Str_scalar ''1px'' :: int style_scalar))] @
     [(''margin'', Some (Str_scalar ''0'')), (''marginInline'', None), (''marginInlineStart'', None), (''marginLeft'', None),
      (''marginInlineEnd'', None), (''marginRight'', None), (''marginBlock'', None), (''marginTop'', None), (''marginBottom'', None)]) =
   written [(''margin'', Some (Str_scalar ''0'')), (''marginInline'', None), (''marginInlineStart'', None), (''marginLeft'', None),
      (''marginInlineEnd'', None), (''marginRight'', None), (''marginBlock'', None), (''marginTop'', None), (''marginBottom'', None)]"
proof (rule later_shorthand_replaces [where J = whole_numbers and mode = Throw and l = "''marginTop''" and k = "''margin''"
      and w = "Some (Str_scalar ''1px'')" and v = "Some (Str_scalar ''0'')"])
  show "flat_map_expanded_shorthands whole_numbers ApplicationOrder Throw False ''marginTop'' (Some (Str_scalar ''1px'')) =
      Inr [(''marginTop'', Some (Str_scalar ''1px''))]"
    by code_simp
qed code_simp+

text \<open>
  C34: The three padding shorthands do not replace an earlier \<^verbatim>\<open>paddingStart\<close>: they take back \<^verbatim>\<open>paddingStart\<close>, which is
  written as \<^verbatim>\<open>paddingInlineStart\<close>, and do not name that property, so its value stays beside theirs.
\<close>

theorem padding_start_leaks:
  assumes "k \<in> set leaky"
  shows "\<exists>ps qs. flat_map_expanded_shorthands J ApplicationOrder mode False ''paddingStart'' w = Inr ps \<and>
    flat_map_expanded_shorthands J ApplicationOrder mode False k v = Inr qs \<and>
    (''paddingStart'', None) \<in> set qs \<and> written (ps @ qs) ''paddingInlineStart'' = w \<and> written qs ''paddingInlineStart'' = None"
proof -
  have start: "application_order_expansion ''paddingStart'' = Some [''paddingInlineStart'', ''paddingLeft'', ''paddingRight'']"
    by code_simp
  have rows: "list_all (\<lambda>k. \<not> is_var_ref k \<and> k \<noteq> ''all'' \<and> (case application_order_expansion k of None \<Rightarrow> False
      | Some ts \<Rightarrow> ts \<noteq> [] \<and> List.member (tl ts) ''paddingStart'' \<and> \<not> List.member ts ''paddingInlineStart'')) leaky"
    by code_simp
  then obtain ts where ts: "application_order_expansion k = Some ts" "ts \<noteq> []" "''paddingStart'' \<in> set (tl ts)"
    "''paddingInlineStart'' \<notin> set ts" "\<not> is_var_ref k" "k \<noteq> ''all''"
    using assms by (auto simp: list_all_iff split: option.splits)
  let ?ps = "punched ''paddingInlineStart'' w [''paddingLeft'', ''paddingRight'']"
  let ?qs = "punched (hd ts) v (tl ts)"
  have "flat_map_expanded_shorthands J ApplicationOrder mode False ''paddingStart'' w = Inr ?ps"
    by (simp add: flat_map_expanded_shorthands_def Let_def start unwrap_var_id is_var_ref_def)
  moreover have "flat_map_expanded_shorthands J ApplicationOrder mode False k v = Inr ?qs"
    using ts by (simp add: flat_map_expanded_shorthands_def Let_def unwrap_var_id)
  moreover have "(''paddingStart'', None) \<in> set ?qs"
    using ts(3) by (auto simp: punched_def)
  moreover have "''paddingInlineStart'' \<notin> insert (hd ts) (set (tl ts))"
    using ts(2,4) by (cases ts) auto
  then have "written (?ps @ ?qs) ''paddingInlineStart'' = w" "written ?qs ''paddingInlineStart'' = None"
    by (auto simp: written_append written_punched)
  ultimately show ?thesis
    by blast
qed

theorem padding_start_leaks_witness:
  "\<exists>ps qs. flat_map_expanded_shorthands whole_numbers ApplicationOrder Throw False ''paddingStart'' (Some (Str_scalar ''1px'')) = Inr ps \<and>
    flat_map_expanded_shorthands whole_numbers ApplicationOrder Throw False ''padding'' (Some (Str_scalar ''0'')) = Inr qs \<and>
    (''paddingStart'', None) \<in> set qs \<and> written (ps @ qs) ''paddingInlineStart'' = Some (Str_scalar ''1px'') \<and>
    written qs ''paddingInlineStart'' = None"
  by (rule padding_start_leaks) (simp add: leaky_def)

text \<open>What a legacy expansion writes with a value is final.\<close>

definition stays :: "string \<Rightarrow> 'f style_scalar \<Rightarrow> bool" where
  "stays p w \<longleftrightarrow> legacy_final p \<or> (p = ''float'' \<or> p = ''clear'') \<and> logical_float_value (Some w) = Some w"

lemma logical_float_value_idem: "logical_float_value val = Some w \<Longrightarrow> logical_float_value (Some w) = Some w"
  by (auto simp: logical_float_value_def split: option.splits style_scalar.splits if_splits)

lemma zip_stays: "list_all legacy_final ts \<Longrightarrow> (p, Some w) \<in> set (zip ts vs) \<Longrightarrow> stays p w"
  by (auto simp: stays_def list_all_iff dest: set_zip_leftD)

lemma list_style_stays: "list_style val = Inr pairs \<Longrightarrow> (p, Some w) \<in> set pairs \<Longrightarrow> stays p w"
  using legacy_punched_final(3)
  by (auto simp: list_style_def Let_def stays_def split: option.splits sum.splits if_splits)

lemma legacy_stays:
  assumes "legacy_expansion J key val = Inr pairs" "(p, Some w) \<in> set pairs"
  shows "stays p w"
proof -
  note rows = legacy_one_final legacy_lists_final legacy_punched_final
  consider (list_style) "key = ''listStyle''" | (contain) "key = ''containIntrinsicSize''"
    | (float) "key = ''float'' \<or> key = ''clear''"
    | (row) "key \<noteq> ''listStyle''" "key \<noteq> ''containIntrinsicSize''" "key \<noteq> ''float''" "key \<noteq> ''clear''"
    by blast
  then show ?thesis
  proof cases
    case list_style
    with assms show ?thesis
      by (auto simp: legacy_expansion_def intro: list_style_stays)
  next
    case contain
    then have "pairs = contain_intrinsic_size J (split_value val)"
      using assms(1) by (simp add: legacy_expansion_def)
    moreover have "list_all legacy_final [''containIntrinsicWidth'', ''containIntrinsicHeight'']"
      using rows(7) by simp
    ultimately show ?thesis
      using assms(2) zip_stays unfolding contain_intrinsic_size_def by blast
  next
    case float
    with assms have "p = key" "logical_float_value val = Some w"
      by (auto simp: legacy_expansion_def)
    with float show ?thesis
      by (auto simp: stays_def dest: logical_float_value_idem)
  next
    case row
    have one: "legacy_final t" if "map_of one_rows key = Some t" for t
      using rows(1) map_of_SomeD [OF that] by (auto simp: list_all_iff)
    have same: "list_all legacy_final ts" if "map_of same_rows key = Some ts" for ts
      using rows(2) map_of_SomeD [OF that] by (fastforce simp: list_all_iff)
    have duo: "list_all legacy_final ts" if "map_of duo_rows key = Some ts" for ts
      using rows(3) map_of_SomeD [OF that] by (fastforce simp: list_all_iff)
    have quad: "list_all legacy_final ts" if "map_of quad_rows key = Some ts" for ts
      using rows(4) map_of_SomeD [OF that] by (fastforce simp: list_all_iff)
    have punch: "legacy_final t" if "map_of punched_rows key = Some (t, ns)" for t ns
      using rows(5) map_of_SomeD [OF that] by (fastforce simp: list_all_iff)
    have inl: "legacy_final s \<and> legacy_final e" if "map_of inline_rows key = Some (s, e, ns)" for s e ns
      using rows(6) map_of_SomeD [OF that] by (fastforce simp: list_all_iff)
    show ?thesis
    proof (cases "map_of one_rows key")
      case (Some t)
      with row one assms show ?thesis
        by (auto simp: legacy_expansion_def stays_def)
    next
      case n1: None
      show ?thesis
      proof (cases "map_of same_rows key")
        case (Some ts)
        with row n1 same assms show ?thesis
          by (auto simp: legacy_expansion_def stays_def list_all_iff)
      next
        case n2: None
        show ?thesis
        proof (cases "map_of punched_rows key")
          case (Some r)
          with row n1 n2 punch assms show ?thesis
            by (cases r) (auto simp: legacy_expansion_def stays_def punched_def)
        next
          case n3: None
          show ?thesis
            using row n1 n2 n3 duo quad inl assms
            by (auto simp: legacy_expansion_def Let_def punched_def split: option.splits intro: zip_stays)
              (auto simp: stays_def)
        qed
      qed
    qed
  qed
qed

lemma stays_expands:
  assumes "stays p w" "unwrap_var p = p"
  shows "\<exists>rest. flat_map_expanded_shorthands J LegacyExpandShorthands mode False p (Some w) = Inr ((p, Some w) # rest)"
proof (cases "legacy_has_expansion p")
  case False
  with assms(2) show ?thesis
    by (simp add: flat_map_expanded_shorthands_def Let_def)
next
  case True
  with assms(1) consider (float) "p = ''float'' \<or> p = ''clear''" "logical_float_value (Some w) = Some w"
    | (final) ns where "p \<notin> set legacy_special" "map_of one_rows p = None" "map_of same_rows p = None" "map_of punched_rows p = Some (p, ns)"
    by (auto simp: stays_def legacy_final_def legacy_has_expansion_def split: option.splits)
  then show ?thesis
  proof cases
    case float
    with True assms(2) show ?thesis
      by (auto simp: flat_map_expanded_shorthands_def Let_def legacy_expansion_def)
  next
    case (final ns)
    then have "legacy_expansion J p (Some w) = Inr (punched p (Some w) ns)"
      by (simp add: legacy_expansion_def legacy_special_def)
    with True assms(2) show ?thesis
      by (simp add: flat_map_expanded_shorthands_def Let_def punched_def)
  qed
qed

lemma alias_is_final:
  assumes "map_of alias_rows a = Some t"
  shows "property_specificity_expansion t = No_expansion" "unwrap_var t = t"
proof -
  have "\<not> is_var_ref t \<and> t \<notin> set banned_shorthands \<and> map_of alias_rows t = None"
    using alias_final map_of_SomeD [OF assms] by (auto simp: list_all_iff map_of_eq_None_iff)
  then show "property_specificity_expansion t = No_expansion" "unwrap_var t = t"
    by (simp_all add: property_specificity_expansion_def unwrap_var_id)
qed

text \<open>
  Expanding is stable: a property that an expansion writes with a value, expanded again, writes itself first with that value,
  under every style resolution. Writing a name in \<^verbatim>\<open>var(...)\<close> takes one layer off, so the property must not be such a name itself.
\<close>

theorem expansion_is_stable:
  assumes "flat_map_expanded_shorthands J res mode False k v = Inr pairs" "(p, Some w) \<in> set pairs" "unwrap_var p = p"
  shows "\<exists>rest. flat_map_expanded_shorthands J res mode False p (Some w) = Inr ((p, Some w) # rest)"
proof (cases res)
  case PropertySpecificity
  have final: "property_specificity_expansion t = No_expansion" "unwrap_var t = t"
    if "property_specificity_expansion a = Alias t" for a t
  proof -
    have "map_of alias_rows a = Some t"
      using that by (simp add: property_specificity_expansion_def split: if_splits option.splits)
    then show "property_specificity_expansion t = No_expansion" "unwrap_var t = t"
      by (rule alias_is_final)+
  qed
  show ?thesis
  proof (cases "property_specificity_expansion (unwrap_var k)")
    case No_expansion
    with PropertySpecificity assms(1,2) have "p = unwrap_var k"
      by (auto simp: flat_map_expanded_shorthands_def Let_def)
    with No_expansion PropertySpecificity assms(3) show ?thesis
      by (simp add: flat_map_expanded_shorthands_def Let_def)
  next
    case Banned
    with PropertySpecificity assms show ?thesis
      by (auto simp: flat_map_expanded_shorthands_def Let_def banned_def split: validation_mode.splits if_splits)
  next
    case (Alias t)
    with PropertySpecificity assms final [OF Alias] show ?thesis
      by (auto simp: flat_map_expanded_shorthands_def Let_def)
  qed
next
  case ApplicationOrder
  with assms have "flat_map_expanded_shorthands J ApplicationOrder mode False k v = Inr pairs"
    by simp
  then show ?thesis
  proof (cases rule: application_expansion_cases)
    case banned
    with assms show ?thesis by simp
  next
    case plain
    with assms ApplicationOrder show ?thesis
      by (simp add: flat_map_expanded_shorthands_def Let_def)
  next
    case (table h ts)
    with assms have p: "p = h" "v = Some w"
      by (auto simp: punched_def)
    have row: "row_stable (unwrap_var k, h # ts)"
      using application_row(1) [OF table(1)] .
    have "\<exists>rest. flat_map_expanded_shorthands J ApplicationOrder mode False h (Some w) =
        Inr (punched (application_writes h) (Some w) rest)"
      using row by (cases "application_order_expansion h")
        (auto simp: flat_map_expanded_shorthands_def Let_def unwrap_var_id row_stable_def application_writes_def punched_def)
    then show ?thesis
      using application_writes_head [OF table(1)] p ApplicationOrder by (auto simp: punched_def)
  qed
next
  case LegacyExpandShorthands
  show ?thesis
  proof (cases "legacy_has_expansion (unwrap_var k)")
    case False
    with LegacyExpandShorthands assms(1,2) have "p = unwrap_var k"
      by (auto simp: flat_map_expanded_shorthands_def Let_def)
    with False LegacyExpandShorthands assms(3) show ?thesis
      by (simp add: flat_map_expanded_shorthands_def Let_def)
  next
    case True
    have "pairs = [] \<or> legacy_expansion J (unwrap_var k) v = Inr pairs"
      using True LegacyExpandShorthands assms(1)
      by (auto simp: flat_map_expanded_shorthands_def Let_def split: sum.splits validation_mode.splits)
    then have "stays p w"
      using assms(2) legacy_stays by auto
    then show ?thesis
      using stays_expands assms(3) LegacyExpandShorthands by blast
  qed
qed

theorem expansion_is_stable_witness:
  "\<exists>rest. flat_map_expanded_shorthands whole_numbers LegacyExpandShorthands Throw False ''insetInlineEnd'' (Some (Str_scalar ''2px'')) =
     Inr ((''insetInlineEnd'', Some (Str_scalar ''2px'')) # rest)"
proof (rule expansion_is_stable [where k = "''inset''" and v = "Some (Str_scalar ''1px 2px'')"])
  show "flat_map_expanded_shorthands whole_numbers LegacyExpandShorthands Throw False ''inset'' (Some (Str_scalar ''1px 2px'')) =
      Inr [(''top'', Some (Str_scalar ''1px'')), (''insetInlineEnd'', Some (Str_scalar ''2px'')), (''bottom'', Some (Str_scalar ''1px'')),
        (''insetInlineStart'', Some (Str_scalar ''2px''))]"
    by code_simp
qed code_simp+

end
