(* ===== verification/Js_Object.thy ===== *)
theory Js_Object
  imports Std_Str "HOL-Library.Word"
begin

text \<open>
  Evaluated values: \<^verbatim>\<open>crates/oj_stylex/src/eval/value.rs\<close>. A \<^verbatim>\<open>JsObjectMap\<close> keeps its array-index keys in a sorted vector and its other
  keys in insertion order, with a table of positions that is built when the object is wide. Seen from outside it is a map whose
  entries come in the order of \<^verbatim>\<open>OwnPropertyKeys\<close>.
\<close>

section \<open>Data\<close>

datatype 'v js_map =
  Js_map
    (index_entries: "(32 word \<times> string \<times> 'v) list")
    (named_entries: "(string \<times> 'v) list")
    (named_index: "(string \<Rightarrow> nat option) option")
    (css_type: "string option")

datatype 'f eval_value =
  Null
| Undefined
| Bool bool
| Num 'f
| Str string
| Arr "'f eval_value list"
| Obj "'f eval_value js_map"

definition named_index_threshold :: nat where
  "named_index_threshold = 32"

text \<open>The canonical decimal form of a number below \<^verbatim>\<open>u32::MAX\<close>.\<close>

definition array_index :: "string \<Rightarrow> 32 word option" where
  "array_index key =
     (if key = [] \<or> 10 < length key \<or> \<not> list_all (\<lambda>c. digit_val 10 c \<noteq> None) key then None
      else if 1 < length key \<and> hd key = CHR ''0'' then None
      else (case digits_val 10 0 key of
              None \<Rightarrow> None
            | Some n \<Rightarrow> if 4294967295 \<le> int n then None else Some (of_nat n)))"

text \<open>\<^verbatim>\<open>binary_search_by_key\<close> on a sorted vector: where the key is, or where it would go.\<close>

definition search_index :: "32 word \<Rightarrow> (32 word \<times> 'a) list \<Rightarrow> nat + nat" where
  "search_index n es =
     (let i = length (takeWhile (\<lambda>e. fst e < n) es) in if i < length es \<and> fst (es ! i) = n then Inr i else Inl i)"

fun pos_of :: "string \<Rightarrow> string list \<Rightarrow> nat option" where
  "pos_of k [] = None"
| "pos_of k (x # xs) = (if x = k then Some 0 else map_option Suc (pos_of k xs))"

definition remove_at :: "nat \<Rightarrow> 'a list \<Rightarrow> 'a list" where
  "remove_at i xs = take i xs @ drop (Suc i) xs"

section \<open>Operations\<close>

definition js_new :: "'v js_map" where
  "js_new = Js_map [] [] None None"

definition js_len :: "'v js_map \<Rightarrow> nat" where
  "js_len m = length (index_entries m) + length (named_entries m)"

definition js_is_empty :: "'v js_map \<Rightarrow> bool" where
  "js_is_empty m \<longleftrightarrow> index_entries m = [] \<and> named_entries m = []"

text \<open>A position of the table past the end would panic: no value here.\<close>

definition js_get :: "'v js_map \<Rightarrow> string \<Rightarrow> 'v option" where
  "js_get m key =
     (case array_index key of
        Some n \<Rightarrow>
          (case search_index n (index_entries m) of
             Inr i \<Rightarrow> Some (snd (snd (index_entries m ! i)))
           | Inl _ \<Rightarrow> None)
      | None \<Rightarrow>
          (case named_index m of
             Some idx \<Rightarrow> Option.bind (idx key) (\<lambda>i. if i < length (named_entries m) then Some (snd (named_entries m ! i)) else None)
           | None \<Rightarrow> map_of (named_entries m) key))"

definition contains_key :: "'v js_map \<Rightarrow> string \<Rightarrow> bool" where
  "contains_key m key \<longleftrightarrow> \<not> Option.is_none (js_get m key)"

definition js_position :: "'v js_map \<Rightarrow> string \<Rightarrow> nat option" where
  "js_position m key =
     (case array_index key of
        Some n \<Rightarrow> (case search_index n (index_entries m) of Inr i \<Rightarrow> Some i | Inl _ \<Rightarrow> None)
      | None \<Rightarrow>
          map_option (\<lambda>i. i + length (index_entries m))
            (case named_index m of Some idx \<Rightarrow> idx key | None \<Rightarrow> pos_of key (map fst (named_entries m))))"

text \<open>Out of range, \<^verbatim>\<open>entry_at\<close> panics: no value here.\<close>

definition entry_at :: "'v js_map \<Rightarrow> nat \<Rightarrow> (string \<times> 'v) option" where
  "entry_at m i =
     (let indexed = length (index_entries m) in
      if i < indexed then Some (snd (index_entries m ! i))
      else if i - indexed < length (named_entries m) then Some (named_entries m ! (i - indexed)) else None)"

definition named_position :: "'v js_map \<Rightarrow> string \<Rightarrow> 'v js_map \<times> nat option" where
  "named_position m key =
     (let named = named_entries m;
          idx = (if Option.is_none (named_index m) \<and> named_index_threshold \<le> length named
                 then Some (map_of (rev (zip (map fst named) [0..<length named]))) else named_index m)
      in (Js_map (index_entries m) named idx (css_type m), case idx of Some t \<Rightarrow> t key | None \<Rightarrow> pos_of key (map fst named)))"

definition js_insert :: "'v js_map \<Rightarrow> string \<Rightarrow> 'v \<Rightarrow> 'v option \<times> 'v js_map" where
  "js_insert m key v =
     (case array_index key of
        Some n \<Rightarrow>
          (let es = index_entries m in
           case search_index n es of
             Inr i \<Rightarrow>
               (case es ! i of (n', k', old) \<Rightarrow>
                  (Some old, Js_map (es[i := (n', k', v)]) (named_entries m) (named_index m) (css_type m)))
           | Inl i \<Rightarrow> (None, Js_map (take i es @ (n, key, v) # drop i es) (named_entries m) (named_index m) (css_type m)))
      | None \<Rightarrow>
          (case named_position m key of
             (m, Some i) \<Rightarrow>
               (case named_entries m ! i of (k', old) \<Rightarrow>
                  (Some old, Js_map (index_entries m) ((named_entries m)[i := (k', v)]) (named_index m) (css_type m)))
           | (m, None) \<Rightarrow>
               (None, Js_map (index_entries m) (named_entries m @ [(key, v)])
                  (map_option (\<lambda>idx. idx(key \<mapsto> length (named_entries m))) (named_index m)) (css_type m))))"

definition js_remove :: "'v js_map \<Rightarrow> string \<Rightarrow> 'v option \<times> 'v js_map" where
  "js_remove m key =
     (case array_index key of
        Some n \<Rightarrow>
          (let es = index_entries m in
           case search_index n es of
             Inr i \<Rightarrow> (Some (snd (snd (es ! i))), Js_map (remove_at i es) (named_entries m) (named_index m) (css_type m))
           | Inl _ \<Rightarrow> (None, m))
      | None \<Rightarrow>
          (case named_position m key of
             (m, None) \<Rightarrow> (None, m)
           | (m, Some pos) \<Rightarrow>
               (Some (snd (named_entries m ! pos)),
                Js_map (index_entries m) (remove_at pos (named_entries m))
                  (map_option (\<lambda>idx k. map_option (\<lambda>i. if pos < i then i - 1 else i) ((idx(key := None)) k)) (named_index m))
                  (css_type m))))"

definition entries :: "'v js_map \<Rightarrow> (string \<times> 'v) list" where
  "entries m = map snd (index_entries m) @ named_entries m"

definition js_keys :: "'v js_map \<Rightarrow> string list" where
  "js_keys m = map fst (entries m)"

definition set_css_type :: "'v js_map \<Rightarrow> string \<Rightarrow> 'v js_map" where
  "set_css_type m syn = Js_map (index_entries m) (named_entries m) (named_index m) (Some syn)"

text \<open>Equality leaves the table of positions out.\<close>

definition js_eq :: "'v js_map \<Rightarrow> 'v js_map \<Rightarrow> bool" where
  "js_eq m n \<longleftrightarrow> index_entries m = index_entries n \<and> named_entries m = named_entries n \<and> css_type m = css_type n"

text \<open>\<^verbatim>\<open>FromIterator\<close>, and the map of entries whose keys differ.\<close>

definition of_entries :: "(string \<times> 'v) list \<Rightarrow> 'v js_map" where
  "of_entries es = foldl (\<lambda>m (k, v). snd (js_insert m k v)) js_new es"

fun split_entries :: "(string \<times> 'v) list \<Rightarrow> (32 word \<times> string \<times> 'v) list \<times> (string \<times> 'v) list" where
  "split_entries [] = ([], [])"
| "split_entries ((k, v) # es) =
     (case split_entries es of (ixs, named) \<Rightarrow>
        (case array_index k of Some n \<Rightarrow> ((n, k, v) # ixs, named) | None \<Rightarrow> (ixs, (k, v) # named)))"

definition from_unique_entries :: "(string \<times> 'v) list \<Rightarrow> 'v js_map" where
  "from_unique_entries es =
     (if \<not> list_ex (\<lambda>(k, _). array_index k \<noteq> None) es then Js_map [] es None None
      else case split_entries es of (ixs, named) \<Rightarrow> Js_map (sort_key fst ixs) named None None)"

section \<open>Positions and searches\<close>

lemma pos_of_None: "pos_of k ks = None \<longleftrightarrow> k \<notin> set ks"
  by (induction ks) auto

lemma pos_of_Some: "pos_of k ks = Some i \<Longrightarrow> i < length ks \<and> ks ! i = k"
  by (induction ks arbitrary: i) (auto split: if_splits)

lemma pos_of_nth: "distinct ks \<Longrightarrow> i < length ks \<Longrightarrow> pos_of (ks ! i) ks = Some i"
  by (induction ks arbitrary: i) (auto simp: nth_Cons split: nat.splits)

lemma pos_of_append: "pos_of k (xs @ [y]) = (case pos_of k xs of Some i \<Rightarrow> Some i | None \<Rightarrow> if k = y then Some (length xs) else None)"
  by (induction xs) (simp_all split: option.split)

lemma pos_of_remove_at:
  "distinct ks \<Longrightarrow> pos_of key ks = Some pos \<Longrightarrow>
   pos_of k (remove_at pos ks) = (if k = key then None else map_option (\<lambda>i. if pos < i then i - 1 else i) (pos_of k ks))"
proof (induction ks arbitrary: pos)
  case (Cons x xs)
  show ?case
  proof (cases "x = key")
    case True
    with Cons.prems show ?thesis
      by (cases "pos_of k xs") (auto simp: remove_at_def pos_of_None [symmetric])
  next
    case False
    with Cons.prems obtain p where p: "pos_of key xs = Some p" "pos = Suc p"
      by auto
    with Cons.IH [of p] Cons.prems False show ?thesis
      by (cases "pos_of k xs") (auto simp: remove_at_def)
  qed
qed simp

lemma pos_of_table:
  assumes "distinct ks"
  shows "map_of (rev (zip ks [0..<length ks])) k = pos_of k ks"
proof (cases "k \<in> set ks")
  case True
  then obtain i where i: "i < length ks" "ks ! i = k"
    by (auto simp: in_set_conv_nth)
  then have "(k, i) \<in> set (rev (zip ks [0..<length ks]))"
    by (auto simp: in_set_zip)
  then show ?thesis
    using assms pos_of_nth [OF assms i(1)] i by (simp add: rev_map [symmetric] map_of_is_SomeI)
next
  case False
  then have "map_of (rev (zip ks [0..<length ks])) k = None"
    by (auto simp: map_of_eq_None_iff dest: set_zip_leftD)
  with False show ?thesis
    by (simp add: pos_of_None [symmetric])
qed

lemma map_remove_at: "map f (remove_at i xs) = remove_at i (map f xs)"
  by (simp add: remove_at_def take_map drop_map)

text \<open>A search in a sorted vector finds a key exactly where it is.\<close>

lemma search_index_found:
  assumes "sorted_wrt (<) (map fst es)"
  shows "search_index n es = Inr i \<longleftrightarrow> i < length es \<and> fst (es ! i) = n"
proof
  assume "search_index n es = Inr i"
  then show "i < length es \<and> fst (es ! i) = n"
    by (auto simp: search_index_def Let_def split: if_splits)
next
  assume i: "i < length es \<and> fst (es ! i) = n"
  have "es = take i es @ es ! i # drop (Suc i) es"
    using i by (simp add: id_take_nth_drop)
  moreover have "fst e < n" if "e \<in> set (take i es)" for e
    using that i assms by (auto simp: in_set_conv_nth sorted_wrt_iff_nth_less)
  ultimately have "takeWhile (\<lambda>e. fst e < n) es = take i es"
    using i by (metis (no_types, lifting) less_irrefl takeWhile_append2 takeWhile.simps(2) append_Nil2)
  then show "search_index n es = Inr i"
    using i by (simp add: search_index_def)
qed

lemma search_index_absent:
  assumes "sorted_wrt (<) (map fst es)" "search_index n es = Inl i"
  shows "n \<notin> fst ` set es" "i \<le> length es" "\<forall>e \<in> set (take i es). fst e < n" "\<forall>e \<in> set (drop i es). n < fst e"
proof -
  show absent: "n \<notin> fst ` set es"
    using assms search_index_found [OF assms(1), of n] by (force simp: in_set_conv_nth)
  have i: "i = length (takeWhile (\<lambda>e. fst e < n) es)"
    using assms(2) by (auto simp: search_index_def Let_def split: if_splits)
  show "i \<le> length es"
    by (simp add: i length_takeWhile_le)
  show "\<forall>e \<in> set (take i es). fst e < n"
    by (auto simp: i takeWhile_eq_take [symmetric] dest: set_takeWhileD)
  have drop: "drop i es = dropWhile (\<lambda>e. fst e < n) es"
    by (simp add: i dropWhile_eq_drop)
  show "\<forall>e \<in> set (drop i es). n < fst e"
  proof (cases "drop i es")
    case (Cons d ds)
    then have "\<not> fst d < n"
      using drop by (metis dropWhile_eq_Cons_conv)
    moreover have "d \<in> set es"
      using Cons by (metis in_set_dropD list.set_intros(1))
    ultimately have "n < fst d"
      using absent by fastforce
    moreover have "sorted_wrt (<) (map fst (d # ds))"
      using sorted_wrt_drop [OF assms(1), of i] by (simp only: drop_map Cons)
    ultimately show ?thesis
      using Cons by auto
  qed simp
qed

section \<open>Array indices\<close>

lemma digit_val_char: "digit_val 10 c = Some d \<Longrightarrow> digit_char d = c"
  by (auto simp: digit_val_def digit_char_def Let_def split: if_splits)

lemma digits_val_acc: "digits_val 10 acc s = Some n \<Longrightarrow> acc \<le> n"
proof (induction s arbitrary: acc)
  case (Cons c s)
  then show ?case
    by (force split: option.splits)
qed simp

lemma digits_val_canonical:
  "digits_val 10 0 s = Some n \<Longrightarrow> s \<noteq> [] \<Longrightarrow> length s = 1 \<or> hd s \<noteq> CHR ''0'' \<Longrightarrow> show_radix 10 n = s"
proof (induction s arbitrary: n rule: rev_induct)
  case (snoc c s)
  from snoc.prems(1) obtain m d where m: "digits_val 10 0 s = Some m" and d: "digit_val 10 c = Some d" and n: "n = m * 10 + d"
    by (auto simp: digits_val_append split: option.splits bind_splits)
  have "d < 10"
    using d by (auto simp: digit_val_def Let_def split: if_splits)
  show ?case
  proof (cases "s = []")
    case True
    with m n \<open>d < 10\<close> digit_val_char [OF d] show ?thesis
      by (simp add: show_radix.simps [of 10 d])
  next
    case False
    then obtain a r where s: "s = a # r"
      by (cases s) auto
    with snoc.prems(3) False have a: "a \<noteq> CHR ''0''"
      by simp
    obtain e where e: "digit_val 10 a = Some e" "digits_val 10 e r = Some m"
      using m by (auto simp: s split: option.splits)
    have "digit_char 0 = CHR ''0''"
      by code_simp
    then have "e \<noteq> 0"
      using a digit_val_char [OF e(1)] by (intro notI) simp
    then have "0 < m"
      using digits_val_acc [OF e(2)] by simp
    moreover have "show_radix 10 m = s"
      using snoc.IH [OF m False] a s by simp
    ultimately show ?thesis
      using n \<open>d < 10\<close> digit_val_char [OF d] by (simp add: show_radix.simps [of 10 "m * 10 + d"])
  qed
qed simp

lemma array_index_canonical:
  assumes "array_index key = Some n"
  shows "key = show_radix 10 (unat n)"
proof -
  from assms obtain k where k: "digits_val 10 0 key = Some k" "int k < 4294967295" "n = of_nat k"
    and key: "key \<noteq> []" "length key = 1 \<or> hd key \<noteq> CHR ''0''"
    by (cases key) (auto simp: array_index_def split: if_splits option.splits)
  then have "unat n = k"
    by (simp add: unsigned_of_nat take_bit_nat_eq_self)
  with digits_val_canonical [OF k(1) key] show ?thesis
    by simp
qed

lemma array_index_inj: "array_index a = Some n \<Longrightarrow> array_index b = Some n \<Longrightarrow> a = b"
  by (metis array_index_canonical)

section \<open>The invariant\<close>

text \<open>
  The index entries are sorted and stand under the number of their key; the other keys are no array indices and differ; the table,
  once built, gives the positions.
\<close>

definition js_ok :: "'v js_map \<Rightarrow> bool" where
  "js_ok m \<longleftrightarrow>
     sorted_wrt (<) (map fst (index_entries m)) \<and> (\<forall>(n, k, v) \<in> set (index_entries m). array_index k = Some n) \<and>
     (\<forall>(k, v) \<in> set (named_entries m). array_index k = None) \<and> distinct (map fst (named_entries m)) \<and>
     (\<forall>idx. named_index m = Some idx \<longrightarrow> idx = (\<lambda>k. pos_of k (map fst (named_entries m))))"

lemma js_okD:
  assumes "js_ok m"
  shows "sorted_wrt (<) (map fst (index_entries m))" "\<And>n k v. (n, k, v) \<in> set (index_entries m) \<Longrightarrow> array_index k = Some n"
    "\<And>k v. (k, v) \<in> set (named_entries m) \<Longrightarrow> array_index k = None" "distinct (map fst (named_entries m))"
    "\<And>idx. named_index m = Some idx \<Longrightarrow> idx = (\<lambda>k. pos_of k (map fst (named_entries m)))"
  using assms unfolding js_ok_def by blast+

lemma js_new_ok: "js_ok js_new"
  by (simp add: js_ok_def js_new_def)

lemma set_css_type_ok: "js_ok m \<Longrightarrow> js_ok (set_css_type m syn)"
  by (simp add: js_ok_def set_css_type_def)

lemma named_position_eq:
  assumes "js_ok m"
  obtains idx where "named_position m key = (Js_map (index_entries m) (named_entries m) idx (css_type m), pos_of key (map fst (named_entries m)))"
    "js_ok (Js_map (index_entries m) (named_entries m) idx (css_type m))"
proof -
  let ?named = "named_entries m"
  let ?idx = "if Option.is_none (named_index m) \<and> named_index_threshold \<le> length ?named
    then Some (map_of (rev (zip (map fst ?named) [0..<length ?named]))) else named_index m"
  have "t = (\<lambda>k. pos_of k (map fst ?named))" if "?idx = Some t" for t
    using that js_okD(4,5) [OF assms] pos_of_table [of "map fst ?named"] by (auto simp: fun_eq_iff split: if_splits)
  then show ?thesis
    using assms by (intro that [of ?idx]) (auto simp: named_position_def Let_def js_ok_def split: option.splits)
qed

text \<open>What is found is the entry with the key.\<close>

lemma pos_of_bind: "Option.bind (pos_of k (map fst xs)) (\<lambda>i. if i < length xs then Some (snd (xs ! i)) else None) =
  map_option (\<lambda>i. snd (xs ! i)) (pos_of k (map fst xs))"
  using pos_of_Some [of k "map fst xs"] by (cases "pos_of k (map fst xs)") auto

lemma map_of_pos: "map_of xs k = map_option (\<lambda>i. snd (xs ! i)) (pos_of k (map fst xs))"
  by (induction xs) (auto simp: option.map_comp comp_def)

lemma index_keys_distinct:
  assumes "sorted_wrt (<) (map fst es)" "\<And>n k v. (n, k, v) \<in> set es \<Longrightarrow> array_index k = Some n"
  shows "distinct (map fst (map snd es))"
proof -
  have d: "distinct (map fst es)"
    using assms(1) by (simp add: strict_sorted_iff)
  have "inj_on (\<lambda>e. fst (snd e)) (set es)"
  proof (rule inj_onI)
    fix x y assume xy: "x \<in> set es" "y \<in> set es" "fst (snd x) = fst (snd y)"
    then have "fst x = fst y"
      using assms(2) by (metis option.inject prod.collapse)
    with d xy show "x = y"
      by (auto simp: distinct_map dest: inj_onD)
  qed
  with d show ?thesis
    by (simp add: distinct_map comp_def)
qed

lemma map_of_index:
  assumes "sorted_wrt (<) (map fst es)" "\<And>n k v. (n, k, v) \<in> set es \<Longrightarrow> array_index k = Some n" "array_index key = Some n"
  shows "map_of (map snd es) key = (case search_index n es of Inr i \<Rightarrow> Some (snd (snd (es ! i))) | Inl _ \<Rightarrow> None)"
proof (cases "search_index n es")
  case (Inl i)
  then have "key \<notin> fst ` set (map snd es)"
    using search_index_absent(1) [OF assms(1) Inl] assms(2,3) by force
  with Inl show ?thesis
    by (simp add: map_of_eq_None_iff)
next
  case (Inr i)
  then have i: "i < length es" "fst (es ! i) = n"
    using search_index_found [OF assms(1)] by auto
  then obtain k v where e: "es ! i = (n, k, v)"
    by (metis prod.collapse)
  then have "(n, k, v) \<in> set es"
    using i(1) nth_mem by fastforce
  then have "k = key"
    using assms(2,3) array_index_inj by blast
  have "distinct (map fst (map snd es))"
    by (rule index_keys_distinct [OF assms(1,2)])
  moreover have "(key, v) \<in> set (map snd es)"
    using \<open>(n, k, v) \<in> set es\<close> \<open>k = key\<close> by force
  ultimately show ?thesis
    using Inr e by (simp add: map_of_is_SomeI)
qed

lemma js_get_entries:
  assumes "js_ok m"
  shows "js_get m key = map_of (entries m) key"
proof (cases "array_index key")
  case None
  then have "key \<notin> fst ` set (map snd (index_entries m))"
    using js_okD(2) [OF assms] by force
  then have "map_of (map snd (index_entries m)) key = None"
    by (simp add: map_of_eq_None_iff)
  then have "map_of (entries m) key = map_of (named_entries m) key"
    by (simp add: entries_def map_add_def)
  with None js_okD(5) [OF assms] show ?thesis
    by (auto simp: js_get_def map_of_pos pos_of_bind split: option.split)
next
  case (Some n)
  then have "key \<notin> fst ` set (named_entries m)"
    using js_okD(3) [OF assms] by force
  then have "map_of (named_entries m) key = None"
    by (simp add: map_of_eq_None_iff)
  then have "map_of (entries m) key = map_of (map snd (index_entries m)) key"
    by (simp add: entries_def map_add_def split: option.split)
  with Some map_of_index [OF js_okD(1,2) [OF assms] Some] show ?thesis
    by (simp add: js_get_def)
qed

section \<open>Insertion and removal\<close>

lemma insert_index_ok:
  assumes "js_ok m" "array_index key = Some n"
  shows "js_ok (snd (js_insert m key v))"
proof (cases "search_index n (index_entries m)")
  case (Inl i)
  note s = search_index_absent [OF js_okD(1) [OF assms(1)] Inl]
  let ?es = "index_entries m"
  have "sorted_wrt (<) (map fst (take i ?es @ (n, key, v) # drop i ?es))"
    using s sorted_wrt_take [OF js_okD(1) [OF assms(1)], of i] sorted_wrt_drop [OF js_okD(1) [OF assms(1)], of i]
    by (fastforce simp: sorted_wrt_append take_map drop_map)
  with assms Inl show ?thesis
    by (auto simp: js_insert_def Let_def js_ok_def dest: in_set_takeD in_set_dropD)
next
  case (Inr i)
  then have i: "i < length (index_entries m)"
    using search_index_found [OF js_okD(1) [OF assms(1)]] by auto
  obtain n' k' old where e: "index_entries m ! i = (n', k', old)"
    by (metis prod.collapse)
  have keys: "map fst ((index_entries m)[i := (n', k', v)]) = map fst (index_entries m)"
    using i e by (simp add: map_update list_update_same_conv)
  have "(n', k', old) \<in> set (index_entries m)"
    using i e nth_mem by fastforce
  then have "array_index k = Some a" if "(a, k, w) \<in> set ((index_entries m)[i := (n', k', v)])" for a k w
    using that js_okD(2) [OF assms(1)] set_update_subset_insert [of "index_entries m" i] by blast
  with assms Inr e keys show ?thesis
    by (auto simp: js_insert_def Let_def js_ok_def)
qed

lemma insert_named_ok:
  assumes "js_ok m" "array_index key = None"
  shows "js_ok (snd (js_insert m key v))"
proof -
  obtain idx where np: "named_position m key = (Js_map (index_entries m) (named_entries m) idx (css_type m), pos_of key (map fst (named_entries m)))"
    and ok: "js_ok (Js_map (index_entries m) (named_entries m) idx (css_type m))"
    by (rule named_position_eq [OF assms(1), of key])
  show ?thesis
  proof (cases "pos_of key (map fst (named_entries m))")
    case None
    then have "key \<notin> fst ` set (named_entries m)"
      by (simp add: pos_of_None)
    with None np ok assms(2) show ?thesis
      by (auto simp: js_insert_def Let_def js_ok_def pos_of_append fun_eq_iff split: option.split)
  next
    case (Some i)
    have i: "i < length (named_entries m)" "fst (named_entries m ! i) = key"
      using pos_of_Some [OF Some] by auto
    then obtain old where e: "named_entries m ! i = (key, old)"
      by (metis prod.collapse)
    have keys: "map fst ((named_entries m)[i := (key, v)]) = map fst (named_entries m)"
      using i e by (simp add: map_update list_update_same_conv)
    have "array_index k = None" if "(k, w) \<in> set ((named_entries m)[i := (key, v)])" for k w
      using that js_okD(3) [OF assms(1)] assms(2) set_update_subset_insert [of "named_entries m" i] by blast
    with Some np ok assms(2) e keys show ?thesis
      by (auto simp: js_insert_def Let_def js_ok_def)
  qed
qed

lemma js_insert_ok: "js_ok m \<Longrightarrow> js_ok (snd (js_insert m key v))"
  by (cases "array_index key") (auto intro: insert_index_ok insert_named_ok)

lemma set_remove_at: "set (remove_at i xs) \<subseteq> set xs"
  by (auto simp: remove_at_def dest: in_set_takeD in_set_dropD)

lemma sorted_remove_at: "sorted_wrt P xs \<Longrightarrow> sorted_wrt P (remove_at i xs)"
  using sorted_wrt_append [of P "take i xs" "drop i xs"]
  by (auto simp: remove_at_def sorted_wrt_append sorted_wrt_take sorted_wrt_drop)
    (metis Suc_n_not_le_n append_take_drop_id in_set_dropD le_refl set_drop_subset_set_drop sorted_wrt_append subsetD nat_le_linear)

lemma distinct_remove_at: "distinct xs \<Longrightarrow> distinct (remove_at i xs)"
  unfolding remove_at_def
  by (simp add: set_take_disj_set_drop_if_distinct)

lemma js_remove_ok:
  assumes "js_ok m"
  shows "js_ok (snd (js_remove m key))"
proof (cases "array_index key")
  case (Some n)
  with assms show ?thesis
    using set_remove_at [of _ "index_entries m"]
    by (fastforce simp: js_remove_def Let_def js_ok_def map_remove_at sorted_remove_at split: sum.split)
next
  case None
  obtain idx where np: "named_position m key = (Js_map (index_entries m) (named_entries m) idx (css_type m), pos_of key (map fst (named_entries m)))"
    and ok: "js_ok (Js_map (index_entries m) (named_entries m) idx (css_type m))"
    by (rule named_position_eq [OF assms, of key])
  show ?thesis
  proof (cases "pos_of key (map fst (named_entries m))")
    case (Some i)
    with None np ok js_okD(4) [OF assms] show ?thesis
      using set_remove_at [of i "named_entries m"]
      by (auto simp: js_remove_def Let_def js_ok_def map_remove_at distinct_remove_at pos_of_remove_at fun_eq_iff)
  qed (use None np ok in \<open>simp add: js_remove_def\<close>)
qed

section \<open>The object as a map\<close>

lemma js_keys_distinct:
  assumes "js_ok m"
  shows "distinct (js_keys m)"
proof -
  have "distinct (map fst (map snd (index_entries m)))"
    by (rule index_keys_distinct [OF js_okD(1,2) [OF assms]])
  moreover have "fst ` snd ` set (index_entries m) \<inter> fst ` set (named_entries m) = {}"
    using js_okD(2,3) [OF assms] by fastforce
  ultimately show ?thesis
    using js_okD(4) [OF assms] by (simp add: js_keys_def entries_def image_image)
qed

lemma js_get_iff: "js_ok m \<Longrightarrow> js_get m k = Some v \<longleftrightarrow> (k, v) \<in> set (entries m)"
  using js_keys_distinct [of m] by (simp add: js_get_entries js_keys_def)

lemma js_get_eqI:
  assumes "js_ok m" "\<And>k v. (k, v) \<in> set (entries m) \<longleftrightarrow> f k = Some v"
  shows "js_get m = f"
proof
  fix k
  show "js_get m k = f k"
  proof (cases "f k")
    case None
    then show ?thesis
      using assms(2) js_get_iff [OF assms(1)] by (metis option.distinct(1) not_Some_eq)
  next
    case (Some v)
    then show ?thesis
      using assms(2) js_get_iff [OF assms(1)] by simp
  qed
qed

lemma js_get_index:
  "js_ok m \<Longrightarrow> array_index key = Some n \<Longrightarrow>
   js_get m key = (case search_index n (index_entries m) of Inr i \<Rightarrow> Some (snd (snd (index_entries m ! i))) | Inl _ \<Rightarrow> None)"
  by (simp add: js_get_def)

lemma js_get_named:
  "js_ok m \<Longrightarrow> array_index key = None \<Longrightarrow>
   js_get m key = map_option (\<lambda>i. snd (named_entries m ! i)) (pos_of key (map fst (named_entries m)))"
  by (auto simp: js_get_def map_of_pos pos_of_bind dest: js_okD(5) split: option.split)

lemma index_entry:
  assumes "js_ok m" "array_index key = Some n" "search_index n (index_entries m) = Inr i"
  obtains old where "i < length (index_entries m)" "index_entries m ! i = (n, key, old)"
proof -
  have i: "i < length (index_entries m)" "fst (index_entries m ! i) = n"
    using search_index_found [OF js_okD(1) [OF assms(1)]] assms(3) by auto
  then obtain k old where e: "index_entries m ! i = (n, k, old)"
    by (metis prod.collapse)
  then have "array_index k = Some n"
    using i(1) js_okD(2) [OF assms(1)] nth_mem by metis
  then have "k = key"
    using assms(2) array_index_inj by blast
  with i e that show ?thesis
    by blast
qed

lemma named_entry:
  assumes "pos_of key (map fst xs) = Some i"
  obtains old where "i < length xs" "xs ! i = (key, old)"
  using pos_of_Some [OF assms] that by (metis length_map nth_map prod.collapse)

lemma split_nth: "i < length xs \<Longrightarrow> xs = take i xs @ xs ! i # drop (Suc i) xs"
  by (simp add: id_take_nth_drop)

text \<open>An overwrite keeps the position; a new key goes to its place among the index keys, or to the end.\<close>

lemma js_insert_present:
  assumes "js_ok m" "js_get m key = Some old"
  shows "fst (js_insert m key v) = Some old"
    "\<exists>xs ys. entries m = xs @ (key, old) # ys \<and> entries (snd (js_insert m key v)) = xs @ (key, v) # ys"
proof (atomize (full), cases "array_index key")
  case (Some n)
  with assms obtain i where s: "search_index n (index_entries m) = Inr i" and v: "snd (snd (index_entries m ! i)) = old"
    by (auto simp: js_get_index split: sum.splits)
  then obtain e where i: "i < length (index_entries m)" "index_entries m ! i = (n, key, old)"
    using index_entry [OF assms(1) Some s] by (metis snd_conv)
  have upd: "(index_entries m)[i := (n, key, v)] = take i (index_entries m) @ (n, key, v) # drop (Suc i) (index_entries m)"
    using i(1) by (simp add: upd_conv_take_nth_drop)
  have "entries m = map snd (take i (index_entries m)) @ (key, old) # map snd (drop (Suc i) (index_entries m)) @ named_entries m"
    unfolding entries_def using split_nth [OF i(1)] i(2) by (metis append.assoc append_Cons list.simps(9) map_append snd_conv)
  moreover have "entries (snd (js_insert m key v)) =
      map snd (take i (index_entries m)) @ (key, v) # map snd (drop (Suc i) (index_entries m)) @ named_entries m"
    using Some s i by (simp add: js_insert_def Let_def entries_def upd)
  moreover have "fst (js_insert m key v) = Some old"
    using Some s i by (simp add: js_insert_def Let_def)
  ultimately show "fst (js_insert m key v) = Some old \<and>
      (\<exists>xs ys. entries m = xs @ (key, old) # ys \<and> entries (snd (js_insert m key v)) = xs @ (key, v) # ys)"
    by blast
next
  case None
  obtain idx where np: "named_position m key = (Js_map (index_entries m) (named_entries m) idx (css_type m), pos_of key (map fst (named_entries m)))"
    by (rule named_position_eq [OF assms(1), of key])
  from None assms obtain i where s: "pos_of key (map fst (named_entries m)) = Some i" "snd (named_entries m ! i) = old"
    by (auto simp: js_get_named)
  then have i: "i < length (named_entries m)" "named_entries m ! i = (key, old)"
    by (metis named_entry snd_conv)+
  have "entries m = (map snd (index_entries m) @ take i (named_entries m)) @ (key, old) # drop (Suc i) (named_entries m)"
    unfolding entries_def using split_nth [OF i(1)] i(2) by (metis append.assoc)
  moreover have "entries (snd (js_insert m key v)) =
      (map snd (index_entries m) @ take i (named_entries m)) @ (key, v) # drop (Suc i) (named_entries m)"
    using None np s i by (simp add: js_insert_def Let_def entries_def upd_conv_take_nth_drop)
  moreover have "fst (js_insert m key v) = Some old"
    using None np s i by (simp add: js_insert_def Let_def)
  ultimately show "fst (js_insert m key v) = Some old \<and>
      (\<exists>xs ys. entries m = xs @ (key, old) # ys \<and> entries (snd (js_insert m key v)) = xs @ (key, v) # ys)"
    by blast
qed

lemma js_insert_absent:
  assumes "js_ok m" "js_get m key = None"
  shows "fst (js_insert m key v) = None"
    "\<exists>xs ys. entries m = xs @ ys \<and> entries (snd (js_insert m key v)) = xs @ (key, v) # ys \<and> (array_index key = None \<longrightarrow> ys = [])"
proof (atomize (full), cases "array_index key")
  case (Some n)
  with assms obtain i where s: "search_index n (index_entries m) = Inl i"
    by (auto simp: js_get_index split: sum.splits)
  have "entries m = map snd (take i (index_entries m)) @ map snd (drop i (index_entries m)) @ named_entries m"
    unfolding entries_def by (metis append.assoc append_take_drop_id map_append)
  with Some s show "fst (js_insert m key v) = None \<and> (\<exists>xs ys. entries m = xs @ ys \<and>
      entries (snd (js_insert m key v)) = xs @ (key, v) # ys \<and> (array_index key = None \<longrightarrow> ys = []))"
    by (intro conjI exI) (auto simp: js_insert_def Let_def entries_def)
next
  case None
  obtain idx where np: "named_position m key = (Js_map (index_entries m) (named_entries m) idx (css_type m), pos_of key (map fst (named_entries m)))"
    by (rule named_position_eq [OF assms(1), of key])
  from None assms have "pos_of key (map fst (named_entries m)) = None"
    by (simp add: js_get_named)
  with None np show "fst (js_insert m key v) = None \<and> (\<exists>xs ys. entries m = xs @ ys \<and>
      entries (snd (js_insert m key v)) = xs @ (key, v) # ys \<and> (array_index key = None \<longrightarrow> ys = []))"
    by (intro conjI exI [of _ "entries m"] exI [of _ "[]"]) (simp_all add: js_insert_def entries_def)
qed

lemma js_remove_present:
  assumes "js_ok m" "js_get m key = Some old"
  shows "fst (js_remove m key) = Some old" "\<exists>xs ys. entries m = xs @ (key, old) # ys \<and> entries (snd (js_remove m key)) = xs @ ys"
proof (atomize (full), cases "array_index key")
  case (Some n)
  with assms obtain i where s: "search_index n (index_entries m) = Inr i" and v: "snd (snd (index_entries m ! i)) = old"
    by (auto simp: js_get_index split: sum.splits)
  then have i: "i < length (index_entries m)" "index_entries m ! i = (n, key, old)"
    using index_entry [OF assms(1) Some s] by (metis snd_conv)+
  have "entries m = map snd (take i (index_entries m)) @ (key, old) # map snd (drop (Suc i) (index_entries m)) @ named_entries m"
    unfolding entries_def using split_nth [OF i(1)] i(2) by (metis append.assoc append_Cons list.simps(9) map_append snd_conv)
  with Some s i show "fst (js_remove m key) = Some old \<and>
      (\<exists>xs ys. entries m = xs @ (key, old) # ys \<and> entries (snd (js_remove m key)) = xs @ ys)"
    by (intro conjI exI) (auto simp: js_remove_def Let_def remove_at_def entries_def)
next
  case None
  obtain idx where np: "named_position m key = (Js_map (index_entries m) (named_entries m) idx (css_type m), pos_of key (map fst (named_entries m)))"
    by (rule named_position_eq [OF assms(1), of key])
  from None assms obtain i where s: "pos_of key (map fst (named_entries m)) = Some i" "snd (named_entries m ! i) = old"
    by (auto simp: js_get_named)
  then have i: "i < length (named_entries m)" "named_entries m ! i = (key, old)"
    by (metis named_entry snd_conv)+
  have "entries m = (map snd (index_entries m) @ take i (named_entries m)) @ (key, old) # drop (Suc i) (named_entries m)"
    unfolding entries_def using split_nth [OF i(1)] i(2) by (metis append.assoc)
  with None np s i show "fst (js_remove m key) = Some old \<and>
      (\<exists>xs ys. entries m = xs @ (key, old) # ys \<and> entries (snd (js_remove m key)) = xs @ ys)"
    by (intro conjI exI [of _ "map snd (index_entries m) @ take i (named_entries m)"] exI [of _ "drop (Suc i) (named_entries m)"])
      (auto simp: js_remove_def remove_at_def entries_def)
qed

lemma js_remove_absent:
  assumes "js_ok m" "js_get m key = None"
  shows "fst (js_remove m key) = None" "entries (snd (js_remove m key)) = entries m"
proof (atomize (full), cases "array_index key")
  case (Some n)
  with assms show "fst (js_remove m key) = None \<and> entries (snd (js_remove m key)) = entries m"
    by (auto simp: js_get_index js_remove_def Let_def split: sum.splits)
next
  case None
  obtain idx where np: "named_position m key = (Js_map (index_entries m) (named_entries m) idx (css_type m), pos_of key (map fst (named_entries m)))"
    by (rule named_position_eq [OF assms(1), of key])
  with None assms show "fst (js_remove m key) = None \<and> entries (snd (js_remove m key)) = entries m"
    by (simp add: js_get_named js_remove_def entries_def)
qed

section \<open>The contract of an object\<close>

text \<open>
  What a client relies on: a key inserted is found, a key removed is not, each operation returns what was there, and nothing else changes.
\<close>

locale object_map =
  fixes get :: "'m \<Rightarrow> 'k \<Rightarrow> 'v option" and put :: "'m \<Rightarrow> 'k \<Rightarrow> 'v \<Rightarrow> 'v option \<times> 'm"
    and del :: "'m \<Rightarrow> 'k \<Rightarrow> 'v option \<times> 'm" and start :: 'm and ok :: "'m \<Rightarrow> bool"
  assumes start_ok: "ok start" and start_get: "get start k = None"
    and put_ok: "ok m \<Longrightarrow> ok (snd (put m k v))" and put_old: "ok m \<Longrightarrow> fst (put m k v) = get m k"
    and put_get: "ok m \<Longrightarrow> get (snd (put m k v)) = (get m)(k \<mapsto> v)"
    and del_ok: "ok m \<Longrightarrow> ok (snd (del m k))" and del_old: "ok m \<Longrightarrow> fst (del m k) = get m k"
    and del_get: "ok m \<Longrightarrow> get (snd (del m k)) = (get m)(k := None)"
begin

lemma puts_ok: "ok m \<Longrightarrow> ok (foldl (\<lambda>m (k, v). snd (put m k v)) m es)"
  by (induction es arbitrary: m) (auto intro: put_ok)

lemma puts_get: "ok m \<Longrightarrow> get (foldl (\<lambda>m (k, v). snd (put m k v)) m es) = get m ++ map_of (rev es)"
  by (induction es arbitrary: m) (auto simp: put_get put_ok map_add_def fun_eq_iff split: option.split)

lemma put_then_del: "ok m \<Longrightarrow> get (snd (del (snd (put m k v)) k)) = (get m)(k := None)"
  by (simp add: put_ok del_get put_get)

lemma rename_get:
  "ok m \<Longrightarrow> get m old = Some v \<Longrightarrow> get (snd (put (snd (del m old)) new v)) = ((get m)(old := None))(new \<mapsto> v)"
  by (simp add: del_ok del_get put_get)

end

lemma map_of_mid: "k \<notin> fst ` set xs \<Longrightarrow> map_of (xs @ (k, v) # ys) = (map_of (xs @ ys))(k \<mapsto> v)"
  by (induction xs) (auto simp: fun_upd_twist simp del: map_of_append)

lemma map_of_mid_none:
  assumes "k \<notin> fst ` set (xs @ ys)"
  shows "(map_of (xs @ (k, v) # ys))(k := None) = map_of (xs @ ys)"
proof -
  have "map_of (xs @ ys) k = None"
    using assms by (simp add: map_of_eq_None_iff del: map_of_append)
  then show ?thesis
    using assms map_of_mid [of k xs v ys] by (simp add: fun_upd_idem image_Un del: map_of_append)
qed

lemma js_present_fresh:
  assumes "js_ok m" "entries m = xs @ (key, old) # ys"
  shows "key \<notin> fst ` set (xs @ ys)"
  using js_keys_distinct [OF assms(1)] by (auto simp: js_keys_def assms(2))

lemma js_insert_get:
  assumes "js_ok m"
  shows "js_get (snd (js_insert m key v)) = (js_get m)(key \<mapsto> v)"
proof -
  note get = js_get_entries [OF assms, abs_def] js_get_entries [OF js_insert_ok [OF assms], abs_def]
  show ?thesis
  proof (cases "js_get m key")
    case None
    then obtain xs ys where e: "entries m = xs @ ys" "entries (snd (js_insert m key v)) = xs @ (key, v) # ys"
      using js_insert_absent(2) [OF assms] by metis
    have "key \<notin> fst ` set xs"
      using None by (simp add: get(1) e map_of_eq_None_iff)
    then show ?thesis
      by (simp add: get e map_of_mid fun_eq_iff del: map_of_append)
  next
    case (Some old)
    then obtain xs ys where e: "entries m = xs @ (key, old) # ys" "entries (snd (js_insert m key v)) = xs @ (key, v) # ys"
      using js_insert_present(2) [OF assms] by metis
    have "key \<notin> fst ` set xs"
      using js_present_fresh [OF assms e(1)] by (simp add: image_Un)
    then show ?thesis
      by (simp add: get e map_of_mid fun_eq_iff del: map_of_append)
  qed
qed

lemma js_remove_get:
  assumes "js_ok m"
  shows "js_get (snd (js_remove m key)) = (js_get m)(key := None)"
proof -
  note get = js_get_entries [OF assms, abs_def] js_get_entries [OF js_remove_ok [OF assms], abs_def]
  show ?thesis
  proof (cases "js_get m key")
    case None
    then have "js_get (snd (js_remove m key)) = js_get m"
      by (simp add: get js_remove_absent(2) [OF assms None])
    with None show ?thesis
      by auto
  next
    case (Some old)
    then obtain xs ys where e: "entries m = xs @ (key, old) # ys" "entries (snd (js_remove m key)) = xs @ ys"
      using js_remove_present(2) [OF assms] by metis
    show ?thesis
      using map_of_mid_none [OF js_present_fresh [OF assms e(1)], of old] by (simp only: get e)
  qed
qed

lemma js_insert_old: "js_ok m \<Longrightarrow> fst (js_insert m key v) = js_get m key"
  by (cases "js_get m key") (auto simp: js_insert_absent(1) js_insert_present(1))

lemma js_remove_old: "js_ok m \<Longrightarrow> fst (js_remove m key) = js_get m key"
  by (cases "js_get m key") (auto simp: js_remove_absent(1) js_remove_present(1))

lemma js_new_get: "js_get js_new k = None"
  by (simp add: js_get_entries js_new_ok) (simp add: js_new_def entries_def)

interpretation js: object_map js_get js_insert js_remove js_new js_ok
  by unfold_locales (simp_all add: js_new_ok js_new_get js_insert_ok js_insert_old js_insert_get js_remove_ok js_remove_old js_remove_get)

section \<open>The order of the entries\<close>

text \<open>
  The specification: properties in the order they were created, overwritten in place; they are enumerated with the array indices
  first, in ascending order, and the other keys after them in the order of creation.
\<close>

definition named :: "string \<times> 'v \<Rightarrow> bool" where
  "named e \<longleftrightarrow> array_index (fst e) = None"

definition spec_insert :: "(string \<times> 'v) list \<Rightarrow> string \<Rightarrow> 'v \<Rightarrow> (string \<times> 'v) list" where
  "spec_insert l k v = (if k \<in> fst ` set l then map (\<lambda>e. if fst e = k then (k, v) else e) l else l @ [(k, v)])"

definition spec_remove :: "(string \<times> 'v) list \<Rightarrow> string \<Rightarrow> (string \<times> 'v) list" where
  "spec_remove l k = filter (\<lambda>e. fst e \<noteq> k) l"

definition own_property_order :: "(string \<times> 'v) list \<Rightarrow> (string \<times> 'v) list" where
  "own_property_order l = sort_key (\<lambda>e. the (array_index (fst e))) (filter (\<lambda>e. \<not> named e) l) @ filter named l"

definition created :: "'v js_map \<Rightarrow> (string \<times> 'v) list \<Rightarrow> bool" where
  "created m l \<longleftrightarrow> js_ok m \<and> distinct (map fst l) \<and> set (entries m) = set l \<and> filter named (entries m) = filter named l"

lemma entries_parts:
  assumes "js_ok m"
  shows "filter named (entries m) = named_entries m" "filter (\<lambda>e. \<not> named e) (entries m) = map snd (index_entries m)"
proof -
  have "\<forall>e \<in> set (map snd (index_entries m)). \<not> named e"
    using js_okD(2) [OF assms] by (fastforce simp: named_def)
  moreover have "\<forall>e \<in> set (named_entries m). named e"
    using js_okD(3) [OF assms] by (fastforce simp: named_def)
  ultimately show "filter named (entries m) = named_entries m" "filter (\<lambda>e. \<not> named e) (entries m) = map snd (index_entries m)"
    by (simp_all add: entries_def filter_empty_conv filter_id_conv)
qed

lemma other_keys:
  assumes "k \<notin> fst ` set xs"
  shows "map (\<lambda>e. if fst e = k then (k, v) else e) xs = xs" "filter (\<lambda>e. fst e \<noteq> k) xs = xs"
  using assms by (induction xs) auto

lemma entries_insert_map:
  assumes "js_ok m" "js_get m k \<noteq> None"
  shows "entries (snd (js_insert m k v)) = map (\<lambda>e. if fst e = k then (k, v) else e) (entries m)"
proof -
  from assms obtain old where "js_get m k = Some old"
    by blast
  then obtain xs ys where e: "entries m = xs @ (k, old) # ys" "entries (snd (js_insert m k v)) = xs @ (k, v) # ys"
    using js_insert_present(2) [OF assms(1)] by metis
  have "k \<notin> fst ` set (xs @ ys)"
    by (rule js_present_fresh [OF assms(1) e(1)])
  then show ?thesis
    by (simp add: e other_keys image_Un)
qed

lemma entries_remove_filter:
  assumes "js_ok m"
  shows "entries (snd (js_remove m k)) = filter (\<lambda>e. fst e \<noteq> k) (entries m)"
proof (cases "js_get m k")
  case None
  then have "k \<notin> fst ` set (entries m)"
    by (simp add: js_get_entries [OF assms] map_of_eq_None_iff)
  then show ?thesis
    by (simp add: js_remove_absent(2) [OF assms None] other_keys)
next
  case (Some old)
  then obtain xs ys where e: "entries m = xs @ (k, old) # ys" "entries (snd (js_remove m k)) = xs @ ys"
    using js_remove_present(2) [OF assms] by metis
  have "k \<notin> fst ` set (xs @ ys)"
    by (rule js_present_fresh [OF assms e(1)])
  then show ?thesis
    by (simp add: e other_keys image_Un)
qed

lemma filter_named_map: "filter named (map (\<lambda>e. if fst e = k then (k, v) else e) l) = map (\<lambda>e. if fst e = k then (k, v) else e) (filter named l)"
  by (induction l) (auto simp: named_def)

lemma created_insert:
  assumes "created m l"
  shows "created (snd (js_insert m k v)) (spec_insert l k v)"
proof -
  have ok: "js_ok m" and l: "distinct (map fst l)" "set (entries m) = set l" "filter named (entries m) = filter named l"
    using assms by (auto simp: created_def)
  have present: "js_get m k \<noteq> None \<longleftrightarrow> k \<in> fst ` set l"
    by (simp add: js_get_entries [OF ok] l(2) map_of_eq_None_iff)
  show ?thesis
  proof (cases "k \<in> fst ` set l")
    case True
    have keys: "map fst (map (\<lambda>e. if fst e = k then (k, v) else e) l) = map fst l"
      by auto
    from True show ?thesis
      using js_insert_ok [OF ok] l keys present
      by (simp only: created_def spec_insert_def entries_insert_map [OF ok] if_True filter_named_map set_map simp_thms)
  next
    case False
    with present obtain xs ys where e: "entries m = xs @ ys" "entries (snd (js_insert m k v)) = xs @ (k, v) # ys"
      "array_index k = None \<longrightarrow> ys = []"
      using js_insert_absent(2) [OF ok] by metis
    have "set (entries (snd (js_insert m k v))) = set (l @ [(k, v)])"
      using l(2) by (auto simp: e)
    moreover have "filter named (entries (snd (js_insert m k v))) = filter named (l @ [(k, v)])"
      using l(3) e(3) by (auto simp: e named_def)
    ultimately show ?thesis
      using False l(1) js_insert_ok [OF ok] by (simp add: created_def spec_insert_def)
  qed
qed

lemma created_remove:
  assumes "created m l"
  shows "created (snd (js_remove m k)) (spec_remove l k)"
proof -
  have ok: "js_ok m" and l: "distinct (map fst l)" "set (entries m) = set l" "filter named (entries m) = filter named l"
    using assms by (auto simp: created_def)
  have "filter named (filter (\<lambda>e. fst e \<noteq> k) (entries m)) = filter (\<lambda>e. fst e \<noteq> k) (filter named l)"
    by (simp add: l(3) [symmetric] conj_commute)
  then show ?thesis
    using l(1,2) js_remove_ok [OF ok]
    by (auto simp: created_def spec_remove_def entries_remove_filter [OF ok] distinct_map_filter conj_commute)
qed

lemma created_order:
  assumes "created m l"
  shows "entries m = own_property_order l"
proof -
  let ?ix = "\<lambda>e. the (array_index (fst e))"
  let ?l = "sort_key ?ix (filter (\<lambda>e. \<not> named e) l)"
  have ok: "js_ok m" and l: "distinct (map fst l)" "set (entries m) = set l" "filter named (entries m) = filter named l"
    using assms by (auto simp: created_def)
  have inj: "inj_on ?ix (set (filter (\<lambda>e. \<not> named e) l))"
  proof (rule inj_onI)
    fix x y assume xy: "x \<in> set (filter (\<lambda>e. \<not> named e) l)" "y \<in> set (filter (\<lambda>e. \<not> named e) l)" "?ix x = ?ix y"
    then have "fst x = fst y"
      by (auto simp: named_def intro: array_index_inj)
    with xy l(1) show "x = y"
      by (auto simp: distinct_map dest: inj_onD)
  qed
  have ix: "map ?ix (map snd (index_entries m)) = map fst (index_entries m)"
    using js_okD(2) [OF ok] by (auto simp: comp_def)
  have sets: "set (map snd (index_entries m)) = set ?l"
    by (simp add: entries_parts(2) [OF ok, symmetric] l(2) del: set_map)
  have "distinct (map ?ix ?l)"
    using inj l(1) by (simp add: distinct_map distinct_sort distinct_filter)
  moreover have "sorted (map ?ix ?l)"
    by simp
  moreover have "sorted (map ?ix (map snd (index_entries m)))" "distinct (map ?ix (map snd (index_entries m)))"
    using js_okD(1) [OF ok] unfolding ix by (simp_all add: strict_sorted_iff)
  ultimately have "map snd (index_entries m) = ?l"
    using inj sets by (intro map_sorted_distinct_set_unique [of ?ix]) simp_all
  then show ?thesis
    using entries_parts(1) [OF ok] l(3) by (simp add: own_property_order_def entries_def)
qed

section \<open>Histories\<close>

text \<open>What a sequence of insertions and removals does to an object, and to the list of the specification.\<close>

datatype 'v js_op = Insert string 'v | Remove string

primrec js_step :: "'v js_map \<Rightarrow> 'v js_op \<Rightarrow> 'v js_map" where
  "js_step m (Insert k v) = snd (js_insert m k v)"
| "js_step m (Remove k) = snd (js_remove m k)"

primrec spec_step :: "(string \<times> 'v) list \<Rightarrow> 'v js_op \<Rightarrow> (string \<times> 'v) list" where
  "spec_step l (Insert k v) = spec_insert l k v"
| "spec_step l (Remove k) = spec_remove l k"

lemma created_new: "created js_new []"
  by (simp add: created_def js_new_ok) (simp add: js_new_def entries_def)

lemma created_run: "created m l \<Longrightarrow> created (foldl js_step m ops) (foldl spec_step l ops)"
proof (induction ops arbitrary: m l)
  case (Cons op ops)
  then show ?case
    by (cases op) (auto intro: created_insert created_remove)
qed simp

text \<open>
  C35: Whatever is inserted and removed, an object enumerates its properties as JavaScript does: the array indices in ascending
  order and then the other keys in the order they were created, where an overwritten key keeps its place and a removed key that
  comes back goes to the end; the keys differ, and a lookup finds the entry with the key, whether the table of positions was
  built or not.
\<close>

theorem object_order_refines:
  "entries (foldl js_step js_new ops) = own_property_order (foldl spec_step [] ops) \<and>
   distinct (js_keys (foldl js_step js_new ops)) \<and>
   js_get (foldl js_step js_new ops) = map_of (foldl spec_step [] ops)"
proof (intro conjI)
  let ?m = "foldl js_step js_new ops" and ?l = "foldl spec_step [] ops"
  have c: "created ?m ?l"
    by (rule created_run [OF created_new])
  then have ok: "js_ok ?m" and l: "distinct (map fst ?l)" "set (entries ?m) = set ?l"
    by (simp_all add: created_def)
  show "entries ?m = own_property_order ?l"
    by (rule created_order [OF c])
  show "distinct (js_keys ?m)"
    by (rule js_keys_distinct [OF ok])
  show "js_get ?m = map_of ?l"
    by (rule js_get_eqI [OF ok]) (simp add: l(2) map_of_eq_Some_iff [OF l(1)])
qed

section \<open>Building an object at once\<close>

lemma split_entries_eq:
  "split_entries es = (map (\<lambda>e. (the (array_index (fst e)), e)) (filter (\<lambda>e. \<not> named e) es), filter named es)"
  by (induction es rule: split_entries.induct) (auto simp: named_def split: option.splits)

lemma spec_inserts: "distinct (map fst (l @ es)) \<Longrightarrow> foldl (\<lambda>l (k, v). spec_insert l k v) l es = l @ es"
proof (induction es arbitrary: l)
  case (Cons e es)
  then show ?case
    by (cases e) (auto simp: spec_insert_def)
qed simp

lemma created_inserts:
  "created m l \<Longrightarrow> created (foldl (\<lambda>m (k, v). snd (js_insert m k v)) m es) (foldl (\<lambda>l (k, v). spec_insert l k v) l es)"
proof (induction es arbitrary: m l)
  case (Cons e es)
  then show ?case
    by (cases e) (auto intro: created_insert)
qed simp

lemma created_of_entries: "distinct (map fst es) \<Longrightarrow> created (of_entries es) es"
  using created_inserts [OF created_new, of es] spec_inserts [of "[]" es] by (simp add: of_entries_def)

lemma inserts_css: "css_type (foldl (\<lambda>m (k, v). snd (js_insert m k v)) m es) = css_type m"
proof (induction es arbitrary: m)
  case (Cons e es)
  have "css_type (snd (js_insert m k v)) = css_type m" for k v
    by (auto simp: js_insert_def named_position_def Let_def split: option.split sum.split prod.split)
  with Cons show ?case
    by (cases e) auto
qed simp

lemma created_unique:
  assumes "created m l" "created n l" "css_type m = css_type n"
  shows "js_eq m n"
proof -
  have e: "entries m = entries n"
    using assms(1,2) by (simp add: created_order)
  have ok: "js_ok m" "js_ok n"
    using assms(1,2) by (simp_all add: created_def)
  have ix: "index_entries q = map (\<lambda>e. (the (array_index (fst e)), e)) (filter (\<lambda>e. \<not> named e) (entries q))" if "js_ok q" for q :: "'a js_map"
    unfolding entries_parts(2) [OF that] using js_okD(2) [OF that] by (auto simp: comp_def intro!: map_idI [symmetric])
  show ?thesis
    using ix [OF ok(1)] ix [OF ok(2)] entries_parts(1) [OF ok(1)] entries_parts(1) [OF ok(2)] e assms(3)
    by (simp add: js_eq_def)
qed

lemma created_from_unique:
  assumes "distinct (map fst es)"
  shows "created (from_unique_entries es) es"
proof (cases "list_ex (\<lambda>(k, _). array_index k \<noteq> None) es")
  case False
  then have "\<forall>e \<in> set es. named e"
    by (auto simp: list_ex_iff named_def)
  with False assms show ?thesis
    by (auto simp: from_unique_entries_def created_def js_ok_def entries_def named_def)
next
  case True
  let ?ix = "map (\<lambda>e. (the (array_index (fst e)), e)) (filter (\<lambda>e. \<not> named e) es)"
  let ?m = "Js_map (sort_key fst ?ix) (filter named es) None None"
  have m: "from_unique_entries es = ?m"
    using True by (simp add: from_unique_entries_def split_entries_eq)
  have "inj_on (\<lambda>e. the (array_index (fst e))) (set (filter (\<lambda>e. \<not> named e) es))"
  proof (rule inj_onI)
    fix x y assume xy: "x \<in> set (filter (\<lambda>e. \<not> named e) es)" "y \<in> set (filter (\<lambda>e. \<not> named e) es)"
      "the (array_index (fst x)) = the (array_index (fst y))"
    then have "fst x = fst y"
      by (auto simp: named_def intro: array_index_inj)
    with xy assms show "x = y"
      by (auto simp: distinct_map dest: inj_onD)
  qed
  then have "distinct (map fst ?ix)"
    using assms by (simp add: distinct_map comp_def distinct_filter)
  then have sorted: "sorted_wrt (<) (map fst (sort_key fst ?ix))"
    by (simp add: strict_sorted_iff distinct_map) (auto simp: inj_on_def)
  have ok: "js_ok ?m"
    using sorted assms by (auto simp: js_ok_def named_def distinct_map_filter)
  have "set (entries ?m) = set es"
    by (auto simp: entries_def image_image)
  moreover have "filter named (entries ?m) = filter named es"
    using entries_parts(1) [OF ok] by simp
  ultimately show ?thesis
    unfolding m created_def using ok assms by simp
qed

text \<open>
  C36: The constructor that takes entries with different keys at once builds the object that inserting them one after another builds.
\<close>

theorem from_unique_entries_is_insertion:
  assumes "distinct (map fst es)"
  shows "js_eq (from_unique_entries es) (of_entries es)"
proof (rule created_unique [OF created_from_unique [OF assms] created_of_entries [OF assms]])
  show "css_type (from_unique_entries es) = css_type (of_entries es)"
    by (simp add: from_unique_entries_def of_entries_def inserts_css js_new_def split: prod.split)
qed

theorem from_unique_entries_is_insertion_witness:
  "js_eq (from_unique_entries [(''b'', True), (''10'', False), (''a'', True), (''2'', True)])
     (of_entries [(''b'', True), (''10'', False), (''a'', True), (''2'', True)])"
  by (rule from_unique_entries_is_insertion) simp

text \<open>
  The position of a key is where its entry is, and a key that is not there has no position.
\<close>

theorem position_is_entry:
  assumes "js_ok m"
  shows "js_position m key = Some i \<longleftrightarrow> (\<exists>v. entry_at m i = Some (key, v))"
proof -
  have at: "entry_at m i = (if i < length (entries m) then Some (entries m ! i) else None)" for i
    by (auto simp: entry_at_def entries_def nth_append Let_def)
  have keys: "distinct (map fst (entries m))"
    using js_keys_distinct [OF assms] by (simp add: js_keys_def)
  have some: "\<exists>v. entry_at m j = Some (key, v)" if "js_position m key = Some j" for j
  proof (cases "array_index key")
    case None
    with that js_okD(5) [OF assms] obtain i where i: "pos_of key (map fst (named_entries m)) = Some i" "j = i + length (index_entries m)"
      by (auto simp: js_position_def split: option.splits)
    obtain old where "i < length (named_entries m)" "named_entries m ! i = (key, old)"
      by (rule named_entry [OF i(1)])
    with i show ?thesis
      by (auto simp: entry_at_def)
  next
    case (Some n)
    with that have s: "search_index n (index_entries m) = Inr j"
      by (auto simp: js_position_def split: sum.splits)
    obtain old where "j < length (index_entries m)" "index_entries m ! j = (n, key, old)"
      by (rule index_entry [OF assms Some s])
    then show ?thesis
      by (auto simp: entry_at_def)
  qed
  have none: "key \<notin> fst ` set (entries m)" if "js_position m key = None"
  proof -
    have "js_get m key = None"
      using that js_okD(5) [OF assms]
      by (auto simp: js_position_def js_get_def map_of_eq_None_iff pos_of_None pos_of_bind split: option.splits sum.splits)
    then show ?thesis
      by (simp add: js_get_entries [OF assms] map_of_eq_None_iff)
  qed
  show ?thesis
  proof
    assume "js_position m key = Some i"
    then show "\<exists>v. entry_at m i = Some (key, v)"
      by (rule some)
  next
    assume "\<exists>v. entry_at m i = Some (key, v)"
    then obtain v where v: "i < length (entries m)" "entries m ! i = (key, v)"
      by (auto simp: at split: if_splits)
    then have "key \<in> fst ` set (entries m)"
      by (metis fst_conv image_eqI nth_mem)
    then obtain j where j: "js_position m key = Some j"
      using none by fastforce
    obtain w where w: "j < length (entries m)" "entries m ! j = (key, w)"
      using some [OF j] by (auto simp: at split: if_splits)
    have "i = j"
      using nth_eq_iff_index_eq [OF keys, of i j] v w by simp
    with j show "js_position m key = Some i"
      by simp
  qed
qed

theorem position_is_entry_witness:
  "js_position (of_entries [(''b'', True), (''10'', False)]) ''b'' = Some 1 \<longleftrightarrow>
     (\<exists>v. entry_at (of_entries [(''b'', True), (''10'', False)]) 1 = Some (''b'', v))"
proof (rule position_is_entry)
  show "js_ok (of_entries [(''b'', True), (''10'', False)])"
    using created_of_entries [of "[(''b'', True), (''10'', False)]"] by (simp add: created_def)
qed

end
