(* ===== verification/Stylex_Flatten.thy ===== *)
theory Stylex_Flatten
  imports Stylex_Shorthands Js_Object Media_Transform
begin

text \<open>
  From the raw style object of a namespace to its flat entries: \<^verbatim>\<open>crates/oj_stylex/src/shared/flatten.rs\<close>. A namespace is
  validated, its sibling media queries are rewritten, and it is flattened to pairs of a key and a rule before compilation.
  Conditions enclose each other from the inside out.
\<close>

section \<open>Data\<close>

datatype 'f pre_rule =
  Null_rule
| Rule string "'f pre_rule_value" "string list option"
| Set_rule "'f pre_rule list"

datatype 'f create_error =
  Shorthand "'f shorthand_error"
| Style stylex_error
| IllegalNamespaceValue
| IllegalPropValue
| IllegalPropArrayValue
| DuplicateConditional
| InvalidPseudoOrAtRule
| MediaQuery media_query_error
| MissingKey

type_synonym 'f flat = "(string \<times> 'f pre_rule) list"

section \<open>Results of a sequence\<close>

fun traverse :: "('a \<Rightarrow> 'e + 'b) \<Rightarrow> 'a list \<Rightarrow> 'e + 'b list" where
  "traverse f [] = Inr []"
| "traverse f (x # xs) =
     (case f x of Inl e \<Rightarrow> Inl e | Inr y \<Rightarrow> (case traverse f xs of Inl e \<Rightarrow> Inl e | Inr ys \<Rightarrow> Inr (y # ys)))"

fun first_error :: "('a \<Rightarrow> 'e option) \<Rightarrow> 'a list \<Rightarrow> 'e option" where
  "first_error f [] = None"
| "first_error f (x # xs) = (case f x of Some e \<Rightarrow> Some e | None \<Rightarrow> first_error f xs)"

lemma traverse_cong [fundef_cong]:
  "xs = ys \<Longrightarrow> (\<And>x. x \<in> set ys \<Longrightarrow> f x = g x) \<Longrightarrow> traverse f xs = traverse g ys"
  by (induction ys arbitrary: xs) (auto split: sum.split)

lemma first_error_cong [fundef_cong]:
  "xs = ys \<Longrightarrow> (\<And>x. x \<in> set ys \<Longrightarrow> f x = g x) \<Longrightarrow> first_error f xs = first_error g ys"
  by (induction ys arbitrary: xs) (auto split: option.split)

section \<open>Prototypes\<close>

definition proto :: string where
  "proto = ''__proto__''"

lemma size_entry:
  fixes m :: "'f eval_value js_map"
  assumes "(k, v) \<in> set (entries m)"
  shows "size v < size (Obj m)"
proof (cases m)
  case (Js_map ix nm idx css)
  from assms consider n where "(n, k, v) \<in> set ix" | "(k, v) \<in> set nm"
    by (auto simp: entries_def Js_map)
  then show ?thesis
  proof cases
    case (1 n)
    have "size v \<le> size_list (size_prod (\<lambda>_. 0) (size_prod (\<lambda>_. 0) size)) ix"
      by (rule size_list_estimation' [OF 1]) simp
    then show ?thesis
      by (simp add: Js_map)
  next
    case 2
    have "size v \<le> size_list (size_prod (\<lambda>_. 0) size) nm"
      by (rule size_list_estimation' [OF 2]) simp
    then show ?thesis
      by (simp add: Js_map)
  qed
qed

lemma js_get_member: "js_get m k = Some v \<Longrightarrow> \<exists>k'. (k', v) \<in> set (entries m)"
proof (cases "array_index k")
  case None
  then show "js_get m k = Some v \<Longrightarrow> ?thesis"
    by (auto simp: js_get_def entries_def dest: map_of_SomeD split: option.splits bind_splits if_splits)
      (metis nth_mem prod.collapse)
next
  case (Some n)
  have "i < length (index_entries m)" if "search_index n (index_entries m) = Inr i" for i
    using that by (auto simp: search_index_def Let_def split: if_splits)
  then show "js_get m k = Some v \<Longrightarrow> ?thesis"
    using Some by (auto simp: js_get_def entries_def image_iff split: sum.splits) (metis nth_mem prod.collapse)
qed

lemma size_js_get: "js_get m k = Some v \<Longrightarrow> size v < size (Obj m)"
  using js_get_member [of m k v] size_entry by blast

text \<open>An object is plain unless its prototype is null, an array, or not plain.\<close>

function is_plain :: "'f eval_value js_map \<Rightarrow> bool" where
  "is_plain m =
     (case js_get m proto of
        None \<Rightarrow> True
      | Some (Obj p) \<Rightarrow> is_plain p
      | Some Null \<Rightarrow> False
      | Some (Arr _) \<Rightarrow> False
      | Some _ \<Rightarrow> True)"
  by auto
termination
  by (relation "measure (\<lambda>m. size (Obj m))") (auto dest: size_js_get)

declare is_plain.simps [simp del]

text \<open>The keys of \<^verbatim>\<open>for..in\<close>: own keys, then those of the prototypes that nothing shadows.\<close>

definition chain_step ::
  "(string \<times> 'f eval_value) list \<times> 'f eval_value js_map option \<Rightarrow> string \<times> 'f eval_value \<Rightarrow>
   (string \<times> 'f eval_value) list \<times> 'f eval_value js_map option" where
  "chain_step state entry =
     (case (state, entry) of ((found, cursor), (key, val)) \<Rightarrow>
        if key = proto then (found, case val of Obj p \<Rightarrow> Some p | _ \<Rightarrow> cursor)
        else if list_ex (\<lambda>(k, _). k = key) found then (found, cursor) else (found @ [(key, val)], cursor))"

lemma chain_step_cursor:
  "snd (foldl chain_step s es) = Some p \<Longrightarrow> snd s = Some p \<or> (\<exists>k. (k, Obj p) \<in> set es)"
proof (induction es arbitrary: s)
  case (Cons e es)
  then have "snd (chain_step s e) = Some p \<or> (\<exists>k. (k, Obj p) \<in> set es)"
    by auto
  then show ?case
    by (auto simp: chain_step_def split: prod.splits if_splits eval_value.splits)
qed simp

lemma chain_step_size: "foldl chain_step (found, None) (entries m) = (f, Some p) \<Longrightarrow> size (Obj p) < size (Obj m)"
  using chain_step_cursor [of "(found, None)" "entries m" p] size_entry by fastforce

lemma chain_step_found:
  "(k, v) \<in> set (fst (foldl chain_step s es)) \<Longrightarrow> (k, v) \<in> set (fst s) \<or> (k, v) \<in> set es"
proof (induction es arbitrary: s)
  case (Cons e es)
  then have "(k, v) \<in> set (fst (chain_step s e)) \<or> (k, v) \<in> set es"
    by auto
  then show ?case
    by (auto simp: chain_step_def split: prod.splits if_splits)
qed simp

function for_in_chain :: "(string \<times> 'f eval_value) list \<Rightarrow> 'f eval_value js_map \<Rightarrow> (string \<times> 'f eval_value) list" where
  "for_in_chain found m =
     (case foldl chain_step (found, None) (entries m) of
        (found, None) \<Rightarrow> found
      | (found, Some p) \<Rightarrow> for_in_chain found p)"
  by auto
termination
  by (relation "measure (\<lambda>(_, m). size (Obj m))") (auto dest: chain_step_size chain_step_size [OF sym])

declare for_in_chain.simps [simp del]

definition for_in_entries :: "'f eval_value js_map \<Rightarrow> (string \<times> 'f eval_value) list" where
  "for_in_entries m = (if Option.is_none (js_get m proto) then entries m else for_in_chain [] m)"

lemma size_for_in_chain:
  "(k, v) \<in> set (for_in_chain found m) \<Longrightarrow> (k, v) \<in> set found \<or> size v < size (Obj m)"
proof (induction found m rule: for_in_chain.induct)
  case (1 found m)
  obtain f c where fc: "foldl chain_step (found, None) (entries m) = (f, c)"
    by fastforce
  have f: "(k, v) \<in> set found \<or> size v < size (Obj m)" if "(k, v) \<in> set f"
    using chain_step_found [of k v "(found, None)" "entries m"] that size_entry by (auto simp: fc)
  show ?case
  proof (cases c)
    case None
    with 1 fc f show ?thesis
      by (simp add: for_in_chain.simps [of found m])
  next
    case (Some p)
    have "size (Obj p) < size (Obj m)"
      using chain_step_size fc Some by blast
    moreover have "(k, v) \<in> set (for_in_chain f p)"
      using 1(2) by (simp add: for_in_chain.simps [of found m] fc Some)
    ultimately show ?thesis
      using 1(1) [OF fc [symmetric] Some] f by fastforce
  qed
qed

lemma size_for_in: "(k, v) \<in> set (for_in_entries m) \<Longrightarrow> size v < size (Obj m)"
  using size_for_in_chain [of k v "[]" m] size_entry by (auto simp: for_in_entries_def split: if_splits)

section \<open>Validation\<close>

definition is_condition :: "string \<Rightarrow> bool" where
  "is_condition key \<longleftrightarrow> starts_with ''@'' key \<or> starts_with '':'' key \<or> starts_with ''['' key"

fun is_scalar :: "'f eval_value \<Rightarrow> bool" where
  "is_scalar Null = True"
| "is_scalar (Str _) = True"
| "is_scalar (Num _) = True"
| "is_scalar _ = False"

function validate_conditional_styles :: "'f eval_value js_map \<Rightarrow> string list \<Rightarrow> 'f create_error option" where
  "validate_conditional_styles m conditions =
     first_error
       (\<lambda>(key, v).
          if \<not> (is_condition key \<or> starts_with ''var(--'' key \<or> key = ''default'') then Some InvalidPseudoOrAtRule
          else if key \<in> set conditions then Some DuplicateConditional
          else case v of
            Arr items \<Rightarrow> if list_all is_scalar items then None else Some IllegalPropValue
          | Obj inner \<Rightarrow> if is_plain inner then validate_conditional_styles inner (key # conditions) else Some IllegalPropValue
          | _ \<Rightarrow> if is_scalar v then None else Some IllegalPropValue)
       (for_in_entries m)"
  by pat_completeness auto
termination
  by (relation "measure (\<lambda>(m, _). size (Obj m))") (auto dest: size_for_in)

declare validate_conditional_styles.simps [simp del]

function validate_namespace_in :: "'f eval_value \<Rightarrow> string list \<Rightarrow> 'f create_error option" where
  "validate_namespace_in ns conditions =
     (case ns of
        Obj m \<Rightarrow>
          if \<not> is_plain m then Some IllegalNamespaceValue
          else first_error
            (\<lambda>(key, v).
               case v of
                 Arr items \<Rightarrow> if list_all is_scalar items then None else Some IllegalPropArrayValue
               | Obj inner \<Rightarrow>
                   if \<not> is_plain inner then Some IllegalPropValue
                   else if is_condition key then
                     (if key \<in> set conditions then Some DuplicateConditional else validate_namespace_in v (key # conditions))
                   else validate_conditional_styles inner []
               | _ \<Rightarrow> if is_scalar v then None else Some IllegalPropValue)
            (for_in_entries m)
      | _ \<Rightarrow> Some IllegalNamespaceValue)"
  by pat_completeness auto
termination
  by (relation "measure (\<lambda>(ns, _). size ns)") (auto dest: size_for_in)

declare validate_namespace_in.simps [simp del]

definition validate_namespace :: "'f eval_value \<Rightarrow> 'f create_error option" where
  "validate_namespace ns = validate_namespace_in ns []"

section \<open>The order of media queries\<close>

function dfs_can_change :: "'f eval_value js_map \<Rightarrow> nat \<Rightarrow> bool" where
  "dfs_can_change m depth =
     (\<not> Option.is_none (css_type m) \<or>
      list_ex (\<lambda>(key, v). key = proto \<or> (1 \<le> depth \<and> is_media_key key) \<or>
          (case v of Obj inner \<Rightarrow> dfs_can_change inner (depth + 1) | _ \<Rightarrow> False))
        (entries m))"
  by pat_completeness auto
termination
  by (relation "measure (\<lambda>(m, _). size (Obj m))") (auto dest: size_entry)

declare dfs_can_change.simps [simp del]

text \<open>Each rewritten key is taken out and inserted again. A key that is missing would panic.\<close>

fun rename_keys :: "(string \<times> string) list \<Rightarrow> 'f eval_value js_map \<Rightarrow> 'f create_error + 'f eval_value js_map" where
  "rename_keys [] m = Inr m"
| "rename_keys ((old_key, new_key) # pending) m =
     (case js_remove m old_key of
        (None, _) \<Rightarrow> Inl MissingKey
      | (Some v, m) \<Rightarrow> rename_keys pending (snd (js_insert m new_key v)))"

definition order_media_keys :: "'f f64_ops \<Rightarrow> nat \<Rightarrow> 'f eval_value js_map \<Rightarrow> 'f create_error + 'f eval_value js_map" where
  "order_media_keys F depth m =
     (let media_keys = filter is_media_key (js_keys m) in
      if depth < 1 \<or> media_keys = [] then Inr m
      else case transform_uncached F media_keys of
        Inl e \<Rightarrow> Inl (MediaQuery e)
      | Inr new_keys \<Rightarrow> rename_keys (zip media_keys new_keys) m)"

function dfs_process_map :: "'f f64_ops \<Rightarrow> 'f eval_value js_map \<Rightarrow> nat \<Rightarrow> 'f create_error + 'f eval_value js_map" where
  "dfs_process_map F m depth =
     (case traverse
        (\<lambda>(key, v).
           case v of
             Obj inner \<Rightarrow>
               if dfs_can_change inner (depth + 1) then map_sum id (\<lambda>p. (key, Obj p)) (dfs_process_map F inner (depth + 1))
               else Inr (key, v)
           | _ \<Rightarrow> Inr (key, v))
        (filter (\<lambda>(key, _). key \<noteq> proto) (entries m)) of
        Inl e \<Rightarrow> Inl e
      | Inr processed \<Rightarrow> order_media_keys F depth (of_entries processed))"
  by pat_completeness auto
termination
  by (relation "measure (\<lambda>(_, m, _). size (Obj m))") (auto dest: size_entry)

declare dfs_process_map.simps [simp del]

definition media_order_transform ::
  "'f f64_ops \<Rightarrow> bool \<Rightarrow> 'f eval_value js_map \<Rightarrow> 'f create_error + 'f eval_value js_map option" where
  "media_order_transform F enable_media_query_order style =
     (if enable_media_query_order \<and> dfs_can_change style 0 then map_sum id Some (dfs_process_map F style 0) else Inr None)"

section \<open>Flattening\<close>

text \<open>A string of UTF-16 units, where a lone surrogate becomes the replacement character.\<close>

definition utf8_encode :: "nat \<Rightarrow> string" where
  "utf8_encode cp =
     (if cp < 0x80 then [char_of cp]
      else if cp < 0x800 then [char_of (0xC0 + cp div 64), char_of (0x80 + cp mod 64)]
      else if cp < 0x10000 then [char_of (0xE0 + cp div 4096), char_of (0x80 + cp div 64 mod 64), char_of (0x80 + cp mod 64)]
      else [char_of (0xF0 + cp div 262144), char_of (0x80 + cp div 4096 mod 64), char_of (0x80 + cp div 64 mod 64),
            char_of (0x80 + cp mod 64)])"

definition replacement :: string where
  "replacement = [CHR 0xEF, CHR 0xBF, CHR 0xBD]"

fun from_utf16_lossy :: "nat list \<Rightarrow> string" where
  "from_utf16_lossy [] = []"
| "from_utf16_lossy [u] = (if u < 0x80 \<or> u < 0xD800 \<or> 0xE000 \<le> u then utf8_encode u else replacement)"
| "from_utf16_lossy (u # v # us) =
     (if u < 0x80 \<or> u < 0xD800 \<or> 0xE000 \<le> u then utf8_encode u @ from_utf16_lossy (v # us)
      else if u < 0xDC00 \<and> 0xDC00 \<le> v \<and> v < 0xE000
      then utf8_encode (0x10000 + (u - 0xD800) * 1024 + (v - 0xDC00)) @ from_utf16_lossy us
      else replacement @ from_utf16_lossy (v # us))"

definition js_slice_utf16 :: "string \<Rightarrow> nat \<Rightarrow> int \<Rightarrow> string" where
  "js_slice_utf16 s begin_at end_at =
     (let units = utf16_units s;
          len = int (length units);
          stop = nat (if end_at < 0 then max 0 (len + end_at) else min end_at len)
      in if stop \<le> begin_at then [] else from_utf16_lossy (drop begin_at (take stop units)))"

fun has_var_ref :: "string \<Rightarrow> bool" where
  "has_var_ref [] = False"
| "has_var_ref (c # cs) =
     ((case strip_prefix ''var(--'' (c # cs) of
         None \<Rightarrow> False
       | Some r \<Rightarrow>
           let name = takeWhile (\<lambda>b. is_lower b \<or> is_digit b) r in name \<noteq> [] \<and> starts_with '')'' (drop (length name) r)) \<or>
      has_var_ref cs)"

definition unwrap_var_key :: "string \<Rightarrow> string" where
  "unwrap_var_key key = (if has_var_ref key then js_slice_utf16 key 4 (- 1) else key)"

definition js_truthy :: "'f js_num \<Rightarrow> 'f style_scalar \<Rightarrow> bool" where
  "js_truthy J scalar \<longleftrightarrow>
     (case scalar of
        Str_scalar s \<Rightarrow> s \<noteq> []
      | Num_scalar n \<Rightarrow> \<not> j_eq J n (j_of J 0) \<and> \<not> j_is_nan J n
      | Undefined_scalar \<Rightarrow> False)"

definition same_value_zero :: "'f js_num \<Rightarrow> 'f style_scalar \<Rightarrow> 'f style_scalar \<Rightarrow> bool" where
  "same_value_zero J a b \<longleftrightarrow>
     (case (a, b) of
        (Str_scalar x, Str_scalar y) \<Rightarrow> x = y
      | (Num_scalar x, Num_scalar y) \<Rightarrow> j_eq J x y \<or> (j_is_nan J x \<and> j_is_nan J y)
      | (Undefined_scalar, Undefined_scalar) \<Rightarrow> True
      | _ \<Rightarrow> False)"

fun scalar_of :: "'f eval_value \<Rightarrow> 'f style_scalar option" where
  "scalar_of (Str s) = Some (Str_scalar s)"
| "scalar_of (Num n) = Some (Num_scalar n)"
| "scalar_of _ = None"

definition rule_key_path :: "string list \<Rightarrow> string \<Rightarrow> string \<Rightarrow> string list option" where
  "rule_key_path key_path includes_key property =
     (if key_path = [] then None
      else Some (if includes_key \<in> set key_path then map (\<lambda>k. if k = includes_key then property else k) key_path
                 else key_path @ [property]))"

definition create_set :: "'f pre_rule list \<Rightarrow> 'f pre_rule" where
  "create_set rules =
     (case concat (map (\<lambda>r. case r of Set_rule inner \<Rightarrow> inner | _ \<Rightarrow> [r]) rules) of
        [] \<Rightarrow> Null_rule
      | [r] \<Rightarrow> r
      | flat \<Rightarrow> Set_rule flat)"

definition flatten_scalar ::
  "'f js_num \<Rightarrow> style_resolution \<Rightarrow> validation_mode \<Rightarrow> string list \<Rightarrow> string \<Rightarrow> 'f style_scalar option \<Rightarrow> 'f create_error + 'f flat" where
  "flatten_scalar J res mode key_path key scalar =
     map_sum Shorthand
       (map (\<lambda>(property, expanded).
          (property,
           case expanded of
             None \<Rightarrow> Null_rule
           | Some v \<Rightarrow> Rule property (Single v) (rule_key_path key_path key property))))
       (flat_map_expanded_shorthands J res mode False key scalar)"

text \<open>A fallback array: each element expands on its own, and the values of a property are merged in the order they come.\<close>

fun add_value :: "string \<times> 'f style_scalar option \<Rightarrow> (string \<times> 'f style_scalar list) list \<Rightarrow> (string \<times> 'f style_scalar list) list" where
  "add_value (property, expanded) [] = [(property, case expanded of None \<Rightarrow> [] | Some v \<Rightarrow> [v])]"
| "add_value (property, expanded) ((p, vs) # equivalent) =
     (if p = property then (p, vs @ (case expanded of None \<Rightarrow> [] | Some v \<Rightarrow> [v])) # equivalent
      else (p, vs) # add_value (property, expanded) equivalent)"

definition dedupe_values :: "'f js_num \<Rightarrow> 'f style_scalar list \<Rightarrow> 'f style_scalar list" where
  "dedupe_values J vs =
     foldl (\<lambda>ds v. if js_truthy J v \<and> \<not> list_ex (\<lambda>d. same_value_zero J d v) ds then ds @ [v] else ds) [] vs"

definition flatten_array ::
  "'f js_num \<Rightarrow> style_resolution \<Rightarrow> validation_mode \<Rightarrow> string list \<Rightarrow> string \<Rightarrow> string \<Rightarrow> 'f eval_value list \<Rightarrow>
   'f create_error + 'f flat" where
  "flatten_array J res mode key_path raw_key key items =
     map_sum Shorthand
       (\<lambda>expansions.
          map (\<lambda>(property, vs).
            (property,
             case dedupe_values J vs of
               [] \<Rightarrow> Null_rule
             | [v] \<Rightarrow> Rule property (Single v) (rule_key_path key_path raw_key property)
             | ds \<Rightarrow> Rule property (Multi ds) (rule_key_path key_path raw_key property)))
          (foldl (\<lambda>equivalent pair. add_value pair equivalent) [] (concat expansions)))
       (traverse (\<lambda>item. flat_map_expanded_shorthands J res mode False key (scalar_of item)) items)"

text \<open>The rules of a property by the condition they stand under; a condition that comes again replaces its rule.\<close>

fun put_condition :: "string \<Rightarrow> 'f pre_rule \<Rightarrow> (string \<times> 'f pre_rule) list \<Rightarrow> (string \<times> 'f pre_rule) list" where
  "put_condition condition r [] = [(condition, r)]"
| "put_condition condition r ((c, r') # conds) =
     (if c = condition then (c, r) # conds else (c, r') # put_condition condition r conds)"

fun add_leaf ::
  "string \<Rightarrow> string \<times> 'f pre_rule \<Rightarrow> (string \<times> (string \<times> 'f pre_rule) list) list \<Rightarrow> (string \<times> (string \<times> 'f pre_rule) list) list" where
  "add_leaf condition (property, r) [] = [(property, [(condition, r)])]"
| "add_leaf condition (property, r) ((p, conds) # equivalent) =
     (if p = property then (p, put_condition condition r conds) # equivalent
      else (p, conds) # add_leaf condition (property, r) equivalent)"

definition group_conditions :: "(string \<times> 'f flat) list \<Rightarrow> 'f flat" where
  "group_conditions leaves =
     map (\<lambda>(property, conds). (property, create_set (map snd conds)))
       (foldl (\<lambda>equivalent (condition, leaf). foldl (\<lambda>equivalent entry. add_leaf condition entry equivalent) equivalent leaf) [] leaves)"

function flatten_value_as_property ::
  "'f js_num \<Rightarrow> style_resolution \<Rightarrow> validation_mode \<Rightarrow> string \<Rightarrow> 'f eval_value \<Rightarrow> string list \<Rightarrow> 'f create_error + 'f flat" where
  "flatten_value_as_property J res mode key v nested_path =
     (case v of
        Arr items \<Rightarrow> flatten_array J res mode nested_path key key items
      | Obj obj \<Rightarrow>
          map_sum id group_conditions
            (traverse
               (\<lambda>(condition, inner).
                  map_sum id (\<lambda>leaf. (condition, leaf)) (flatten_value_as_property J res mode key inner (nested_path @ [condition])))
               (for_in_entries obj))
      | Undefined \<Rightarrow> Inr []
      | Bool _ \<Rightarrow> Inr []
      | _ \<Rightarrow> flatten_scalar J res mode nested_path key (scalar_of v))"
  by pat_completeness auto
termination
  by (relation "measure (\<lambda>(_, _, _, _, v, _). size v)") (auto dest: size_for_in)

declare flatten_value_as_property.simps [simp del]

text \<open>An entry whose key is a property: a scalar, an array, or an object of conditions.\<close>

definition flatten_property ::
  "'f js_num \<Rightarrow> style_resolution \<Rightarrow> validation_mode \<Rightarrow> string list \<Rightarrow> string \<Rightarrow> string \<Rightarrow> 'f eval_value \<Rightarrow> 'f create_error + 'f flat" where
  "flatten_property J res mode key_path raw_key key v =
     (case v of
        Arr items \<Rightarrow> flatten_array J res mode key_path raw_key key items
      | Obj obj \<Rightarrow>
          map_sum id group_conditions
            (traverse
               (\<lambda>(condition, inner).
                  map_sum id (\<lambda>leaf. (condition, leaf))
                    (flatten_value_as_property J res mode key inner
                       (if key_path = [] then [key, condition] else key_path @ [condition])))
               (for_in_entries obj))
      | Undefined \<Rightarrow> Inr []
      | Bool _ \<Rightarrow> Inr []
      | _ \<Rightarrow> flatten_scalar J res mode key_path key (scalar_of v))"

function flatten_inner ::
  "'f js_num \<Rightarrow> style_resolution \<Rightarrow> validation_mode \<Rightarrow> 'f eval_value js_map \<Rightarrow> string list \<Rightarrow> 'f create_error + 'f flat" where
  "flatten_inner J res mode style key_path =
     map_sum id concat
       (traverse
          (\<lambda>(raw_key, v).
             let key = unwrap_var_key raw_key in
             case v of
               Obj obj \<Rightarrow>
                 if is_condition key then
                   map_sum id (map (\<lambda>(property, r). (key @ ''_'' @ property, r)))
                     (flatten_inner J res mode obj (key_path @ [raw_key]))
                 else flatten_property J res mode key_path raw_key key v
             | _ \<Rightarrow> flatten_property J res mode key_path raw_key key v)
          (for_in_entries style))"
  by pat_completeness auto
termination
  by (relation "measure (\<lambda>(_, _, _, m, _). size (Obj m))") (auto dest: size_for_in)

declare flatten_inner.simps [simp del]

definition flatten_raw_style_object ::
  "'f js_num \<Rightarrow> style_resolution \<Rightarrow> validation_mode \<Rightarrow> 'f eval_value js_map \<Rightarrow> 'f create_error + 'f flat" where
  "flatten_raw_style_object J res mode style = flatten_inner J res mode style []"

text \<open>The declarations of a rule with the path each one stands under.\<close>

fun for_each_compiled ::
  "'f js_num \<Rightarrow> (string \<Rightarrow> string) \<Rightarrow> options \<Rightarrow> 'f pre_rule \<Rightarrow> 'f create_error + (stylex_rule \<times> string list) list" where
  "for_each_compiled J lower opts Null_rule = Inr []"
| "for_each_compiled J lower opts (Rule property val key_path) =
     (let path = (case key_path of Some p \<Rightarrow> p | None \<Rightarrow> [property]) in
      map_sum Style (\<lambda>decl. [(decl, path)])
        (uncached J lower \<lparr>cv_property = property, cv_value = val, cv_path = path, cv_options = opts\<rparr>))"
| "for_each_compiled J lower opts (Set_rule rules) = map_sum id concat (traverse (for_each_compiled J lower opts) rules)"

section \<open>A value under its property\<close>

lemma of_entries_ok: "js_ok (of_entries es)"
  unfolding of_entries_def by (rule js.puts_ok [OF js_new_ok])

lemma entries_single: "entries (of_entries [(key, v)]) = [(key, v)]"
proof -
  have "created (of_entries [(key, v)]) [(key, v)]"
    by (rule created_of_entries) simp
  from created_order [OF this] show ?thesis
    by (simp add: own_property_order_def)
qed

lemma js_get_of_entries: "distinct (map fst es) \<Longrightarrow> js_get (of_entries es) k = map_of es k"
  using created_of_entries [of es] js_get_eqI [of "of_entries es" "map_of es"] by (simp add: created_def)

lemma for_in_single: "key \<noteq> proto \<Longrightarrow> for_in_entries (of_entries [(key, v)]) = [(key, v)]"
  by (simp add: for_in_entries_def js_get_of_entries entries_single)

lemma traverse_single: "map_sum id concat (traverse f [x]) = f x"
  by (auto split: sum.split simp: map_sum_def)



section \<open>The reordering finds its keys\<close>

lemma rename_keys_found:
  "js_ok m \<Longrightarrow> distinct (map fst rs) \<Longrightarrow> \<forall>(k, _) \<in> set rs. js_get m k \<noteq> None \<Longrightarrow> \<exists>n. rename_keys rs m = Inr n \<and> js_ok n"
proof (induction rs arbitrary: m)
  case (Cons r rs)
  obtain k n where r: "r = (k, n)"
    by fastforce
  with Cons.prems obtain v where v: "js_get m k = Some v"
    by auto
  obtain m1 where m1: "js_remove m k = (Some v, m1)"
    using js_remove_old [OF Cons.prems(1), of k] v by (cases "js_remove m k") auto
  have ok1: "js_ok m1" and get1: "js_get m1 = (js_get m)(k := None)"
    using js_remove_ok [OF Cons.prems(1), of k] js_remove_get [OF Cons.prems(1), of k] by (simp_all add: m1)
  have "\<forall>(k', _) \<in> set rs. js_get (snd (js_insert m1 n v)) k' \<noteq> None"
    using Cons.prems(2,3) by (auto simp: r js_insert_get [OF ok1] get1 image_iff split: prod.splits)
  with Cons.IH [OF js_insert_ok [OF ok1]] Cons.prems(2) r m1 show ?case
    by simp
qed simp

lemma traverse_error: "traverse f xs = Inl e \<Longrightarrow> \<exists>x \<in> set xs. f x = Inl e"
  by (induction xs) (auto split: sum.splits)

lemma order_media_keys_found: "js_ok m \<Longrightarrow> order_media_keys F depth m \<noteq> Inl MissingKey"
proof -
  assume ok: "js_ok m"
  have "\<exists>n. rename_keys (zip (filter is_media_key (js_keys m)) new_keys) m = Inr n" for new_keys
  proof -
    have "distinct (map fst (zip (filter is_media_key (js_keys m)) new_keys))"
      using js_keys_distinct [OF ok] by (simp add: map_fst_zip_take)
    moreover have "\<forall>(k, _) \<in> set (zip (filter is_media_key (js_keys m)) new_keys). js_get m k \<noteq> None"
      by (auto simp: js_get_entries [OF ok] js_keys_def map_of_eq_None_iff dest!: set_zip_leftD)
    ultimately show ?thesis
      using rename_keys_found [OF ok] by blast
  qed
  then show ?thesis
    by (auto simp: order_media_keys_def Let_def split: sum.split) (metis Inr_Inl_False)
qed

text \<open>
  C40: The reordering of media queries takes out only keys that are there: the keys it collected from an object are found when
  they are renamed, although each renaming changes the object.
\<close>

theorem media_reordering_finds_keys: "media_order_transform F enabled style \<noteq> Inl MissingKey"
proof -
  have "dfs_process_map F m depth \<noteq> Inl MissingKey" for m depth
  proof (induction F m depth rule: dfs_process_map.induct)
    case (1 F m depth)
    show ?case
    proof
      let ?f = "\<lambda>(key, v). case v of
             Obj inner \<Rightarrow>
               if dfs_can_change inner (depth + 1) then map_sum id (\<lambda>p. (key, Obj p)) (dfs_process_map F inner (depth + 1))
               else Inr (key, v)
           | _ \<Rightarrow> Inr (key, v)"
      let ?es = "filter (\<lambda>(key, _). key \<noteq> proto) (entries m)"
      assume "dfs_process_map F m depth = Inl MissingKey"
      then have "traverse ?f ?es = Inl MissingKey"
        using order_media_keys_found [OF of_entries_ok]
        by (auto simp: dfs_process_map.simps [of F m depth] split: sum.splits)
      then obtain key v where kv: "(key, v) \<in> set ?es" and e: "?f (key, v) = Inl MissingKey"
        using traverse_error by fast
      then obtain inner where v: "v = Obj inner" "dfs_can_change inner (depth + 1)"
        and e: "dfs_process_map F inner (depth + 1) = Inl MissingKey"
        by (cases v) (auto simp: map_sum_def split: if_splits sum.splits)
      show False
        using 1 [OF kv refl v] e by simp
    qed
  qed
  then show ?thesis
    by (auto simp: media_order_transform_def map_sum_def split: sum.splits)
qed

section \<open>The shape of rules\<close>

text \<open>A set has two rules at least, and no set among them.\<close>

fun is_set_rule :: "'f pre_rule \<Rightarrow> bool" where
  "is_set_rule (Set_rule _) = True"
| "is_set_rule _ = False"

fun pre_rule_ok :: "'f pre_rule \<Rightarrow> bool" where
  "pre_rule_ok (Set_rule rs) \<longleftrightarrow> 2 \<le> length rs \<and> list_all (\<lambda>r. \<not> is_set_rule r) rs"
| "pre_rule_ok _ = True"

lemma create_set_ok:
  assumes "list_all pre_rule_ok rules"
  shows "pre_rule_ok (create_set rules)"
proof -
  let ?flat = "concat (map (\<lambda>r. case r of Set_rule inner \<Rightarrow> inner | _ \<Rightarrow> [r]) rules)"
  have flat: "list_all (\<lambda>r. \<not> is_set_rule r) ?flat"
    using assms by (induction rules) (auto split: pre_rule.split)
  have "pre_rule_ok r" if "\<not> is_set_rule r" for r :: "'a pre_rule"
    using that by (cases r) auto
  then show ?thesis
    using flat by (auto simp: create_set_def split: list.split)
qed

definition flat_ok :: "'f flat \<Rightarrow> bool" where
  "flat_ok fl \<longleftrightarrow> list_all (\<lambda>(_, r). pre_rule_ok r) fl"

lemma put_condition_ok: "list_all (pre_rule_ok o snd) conds \<Longrightarrow> pre_rule_ok r \<Longrightarrow> list_all (pre_rule_ok o snd) (put_condition c r conds)"
  by (induction c r conds rule: put_condition.induct) auto

lemma add_leaf_ok:
  "list_all (\<lambda>(_, conds). list_all (pre_rule_ok o snd) conds) eqs \<Longrightarrow> pre_rule_ok (snd e) \<Longrightarrow>
   list_all (\<lambda>(_, conds). list_all (pre_rule_ok o snd) conds) (add_leaf c e eqs)"
  by (induction c e eqs rule: add_leaf.induct) (auto simp: put_condition_ok)

lemma group_conditions_ok:
  assumes "list_all (\<lambda>(_, leaf). flat_ok leaf) leaves"
  shows "flat_ok (group_conditions leaves)"
proof -
  let ?ok = "list_all (\<lambda>(_, conds). list_all (pre_rule_ok o snd) conds)"
  have leaf: "?ok (foldl (\<lambda>eqs entry. add_leaf c entry eqs) eqs leaf)" if "?ok eqs" "flat_ok leaf" for c eqs leaf
    using that by (induction leaf arbitrary: eqs) (auto simp: flat_ok_def add_leaf_ok)
  have "?ok (foldl (\<lambda>eqs (c, leaf). foldl (\<lambda>eqs entry. add_leaf c entry eqs) eqs leaf) eqs leaves)" if "?ok eqs" for eqs
    using that assms by (induction leaves arbitrary: eqs) (auto simp: leaf)
  then have "?ok (foldl (\<lambda>eqs (c, leaf). foldl (\<lambda>eqs entry. add_leaf c entry eqs) eqs leaf) [] leaves)"
    by simp
  then show ?thesis
    by (fastforce simp: group_conditions_def flat_ok_def list_all_iff comp_def intro!: create_set_ok)
qed

lemma traverse_all: "traverse f xs = Inr ys \<Longrightarrow> (\<And>x y. x \<in> set xs \<Longrightarrow> f x = Inr y \<Longrightarrow> P y) \<Longrightarrow> list_all P ys"
proof (induction xs arbitrary: ys)
  case (Cons x xs)
  from Cons.prems(1) obtain y zs where "f x = Inr y" "traverse f xs = Inr zs" "ys = y # zs"
    by (auto split: sum.splits)
  moreover have "P y" "list_all P zs"
    using Cons.IH [of zs] Cons.prems(2) calculation by auto
  ultimately show ?case
    by simp
qed simp

lemma map_sum_Inr: "map_sum f g r = Inr y \<longleftrightarrow> (\<exists>x. r = Inr x \<and> y = g x)"
  by (cases r) auto

lemma flatten_scalar_ok: "flatten_scalar J res mode path key s = Inr fl \<Longrightarrow> flat_ok fl"
  by (auto simp: flatten_scalar_def flat_ok_def list_all_iff map_sum_def split: sum.splits option.split)

lemma flatten_array_ok: "flatten_array J res mode path raw key items = Inr fl \<Longrightarrow> flat_ok fl"
  by (auto simp: flatten_array_def flat_ok_def list_all_iff map_sum_def split: sum.splits list.split)

lemma conditions_ok:
  assumes "map_sum id group_conditions (traverse (\<lambda>(c, v). map_sum id (\<lambda>leaf. (c, leaf)) (f c v)) es) = Inr fl"
    and "\<And>c v leaf. (c, v) \<in> set es \<Longrightarrow> f c v = Inr leaf \<Longrightarrow> flat_ok leaf"
  shows "flat_ok fl"
proof -
  from assms(1) obtain leaves where leaves: "traverse (\<lambda>(c, v). map_sum id (\<lambda>leaf. (c, leaf)) (f c v)) es = Inr leaves"
    and fl: "fl = group_conditions leaves"
    by (auto simp: map_sum_Inr)
  have "list_all (\<lambda>(_, leaf). flat_ok leaf) leaves"
    by (rule traverse_all [OF leaves]) (use assms(2) in \<open>auto simp: map_sum_Inr\<close>)
  then show ?thesis
    unfolding fl by (rule group_conditions_ok)
qed

lemma flat_ok_Nil [simp]: "flat_ok []"
  by (simp add: flat_ok_def)

lemma flatten_value_ok: "flatten_value_as_property J res mode key v path = Inr fl \<Longrightarrow> flat_ok fl"
proof (induction J res mode key v path arbitrary: fl rule: flatten_value_as_property.induct)
  case (1 J res mode key v path)
  from 1(2) have eq: "(case v of
        Arr items \<Rightarrow> flatten_array J res mode path key key items
      | Obj obj \<Rightarrow>
          map_sum id group_conditions
            (traverse
               (\<lambda>(condition, inner).
                  map_sum id (\<lambda>leaf. (condition, leaf)) (flatten_value_as_property J res mode key inner (path @ [condition])))
               (for_in_entries obj))
      | Undefined \<Rightarrow> Inr []
      | Bool _ \<Rightarrow> Inr []
      | _ \<Rightarrow> flatten_scalar J res mode path key (scalar_of v)) = Inr fl"
    by (simp only: flatten_value_as_property.simps [of J res mode key v path])
  show ?case
  proof (cases v)
    case (Obj obj)
    with eq show ?thesis
      by (auto intro: conditions_ok [where es = "for_in_entries obj"] 1(1) [OF Obj])
  qed (use eq in \<open>auto intro: flatten_scalar_ok flatten_array_ok\<close>)
qed

lemma flatten_property_ok: "flatten_property J res mode path raw key v = Inr fl \<Longrightarrow> flat_ok fl"
  unfolding flatten_property_def
  by (cases v) (auto intro: flatten_scalar_ok flatten_array_ok conditions_ok flatten_value_ok)

lemma flatten_inner_ok: "flatten_inner J res mode style path = Inr fl \<Longrightarrow> flat_ok fl"
proof (induction J res mode style path arbitrary: fl rule: flatten_inner.induct)
  case (1 J res mode style path)
  from 1(2) obtain fls where fls: "traverse (\<lambda>(raw_key, v). let key = unwrap_var_key raw_key in case v of
         Obj obj \<Rightarrow>
           if is_condition key then
             map_sum id (map (\<lambda>(property, r). (key @ ''_'' @ property, r))) (flatten_inner J res mode obj (path @ [raw_key]))
           else flatten_property J res mode path raw_key key v
       | _ \<Rightarrow> flatten_property J res mode path raw_key key v) (for_in_entries style) = Inr fls"
    and fl: "fl = concat fls"
    unfolding flatten_inner.simps [of J res mode style path] by (auto simp: map_sum_Inr)
  have "flat_ok y" if "x \<in> set (for_in_entries style)" "(case x of (raw_key, v) \<Rightarrow> let key = unwrap_var_key raw_key in case v of
         Obj obj \<Rightarrow>
           if is_condition key then
             map_sum id (map (\<lambda>(property, r). (key @ ''_'' @ property, r))) (flatten_inner J res mode obj (path @ [raw_key]))
           else flatten_property J res mode path raw_key key v
       | _ \<Rightarrow> flatten_property J res mode path raw_key key v) = Inr y" for x y
  proof -
    obtain raw_key v where x: "x = (raw_key, v)"
      by fastforce
    show ?thesis
    proof (cases "\<exists>obj. v = Obj obj \<and> is_condition (unwrap_var_key raw_key)")
      case True
      then obtain obj where v: "v = Obj obj" "is_condition (unwrap_var_key raw_key)"
        by blast
      with that x obtain inner where "flatten_inner J res mode obj (path @ [raw_key]) = Inr inner"
        and y: "y = map (\<lambda>(property, r). (unwrap_var_key raw_key @ ''_'' @ property, r)) inner"
        by (auto simp: map_sum_Inr)
      with 1(1) [OF that(1) x [symmetric] refl v] have "flat_ok inner"
        by blast
      then show ?thesis
        by (auto simp: y flat_ok_def list_all_iff)
    next
      case False
      with that x have "flatten_property J res mode path raw_key (unwrap_var_key raw_key) v = Inr y"
        by (cases v) (auto simp: Let_def)
      then show ?thesis
        by (rule flatten_property_ok)
    qed
  qed
  then have "list_all flat_ok fls"
    by (rule traverse_all [OF fls])
  then show ?case
    by (auto simp: fl flat_ok_def list_all_iff)
qed

text \<open>
  Flattening gives rules of the right shape: a set of rules has two members at least and no set among them, so compilation
  meets sets one level deep.
\<close>

theorem flatten_shape:
  assumes "flatten_raw_style_object J res mode style = Inr fl"
  shows "list_all (\<lambda>(_, r). pre_rule_ok r) fl"
  using flatten_inner_ok assms unfolding flatten_raw_style_object_def flat_ok_def by blast

theorem flatten_shape_witness:
  "list_all (\<lambda>(_, r). pre_rule_ok r)
     [(''color'', Set_rule [Rule ''color'' (Single (Str_scalar ''red'')) (Some [''color'', ''default'']),
        Rule ''color'' (Single (Str_scalar ''blue'' :: int style_scalar)) (Some [''color'', '':hover''])])]"
proof (rule flatten_shape [where J = whole_numbers and res = PropertySpecificity and mode = Throw
      and style = "of_entries [(''color'', Obj (of_entries [(''default'', Str ''red''), ('':hover'', Str ''blue'')]))]"])
  show "flatten_raw_style_object whole_numbers PropertySpecificity Throw
      (of_entries [(''color'', Obj (of_entries [(''default'', Str ''red''), ('':hover'', Str ''blue'')]))]) =
    Inr [(''color'', Set_rule [Rule ''color'' (Single (Str_scalar ''red'')) (Some [''color'', ''default'']),
        Rule ''color'' (Single (Str_scalar ''blue'')) (Some [''color'', '':hover''])])]"
    by code_simp
qed

end
