(* ===== verification/Stylex_Create.thy ===== *)
theory Stylex_Create
  imports Stylex_Flatten "HOL-Library.Sublist"
begin

text \<open>
  Compilation of \<^verbatim>\<open>stylex.create\<close> namespaces: \<^verbatim>\<open>crates/oj_stylex/src/shared/create.rs\<close>, with the names of
  \<^verbatim>\<open>dev_naming.rs\<close>. A flat namespace of plain properties takes a short path past validation and flattening.
\<close>

section \<open>Names of development builds\<close>

record debug_path_info =
  file_package :: "(string \<times> string) option"
  cwd_package_name :: "string option"
  root_dir :: "string option"
  is_haste :: bool

definition path_basename :: "string \<Rightarrow> string" where
  "path_basename path = last (split_on CHR ''/'' path)"

definition dev_class_prefix :: "string option \<Rightarrow> string \<Rightarrow> string" where
  "dev_class_prefix var_name filename =
     (let basename = hd (split_on CHR ''.'' (path_basename filename)) in
      case var_name of Some v \<Rightarrow> basename @ ''__'' @ v @ ''.'' | None \<Rightarrow> basename @ ''__'')"

definition namespace_to_dev_class_name :: "string \<Rightarrow> string option \<Rightarrow> string \<Rightarrow> string" where
  "namespace_to_dev_class_name namespace var_name filename = sanitize_dev_class_name (dev_class_prefix var_name filename @ namespace)"

definition path_parts :: "string \<Rightarrow> string list" where
  "path_parts path = filter (\<lambda>s. s \<noteq> []) (split_on CHR ''/'' path)"

fun common_parts :: "string list \<Rightarrow> string list \<Rightarrow> nat" where
  "common_parts (a # as) (b # bs) = (if a = b then Suc (common_parts as bs) else 0)"
| "common_parts _ _ = 0"

definition relative_parts :: "string list \<Rightarrow> string list \<Rightarrow> string list" where
  "relative_parts src dst = replicate (length src - common_parts src dst) ''..'' @ drop (common_parts src dst) dst"

definition path_relative :: "string \<Rightarrow> string \<Rightarrow> string" where
  "path_relative src dst = join_with ''/'' (relative_parts (path_parts src) (path_parts dst))"

definition short_path :: "string \<Rightarrow> debug_path_info \<Rightarrow> string" where
  "short_path filename info =
     (case root_dir info of
        Some dir \<Rightarrow> path_relative dir filename
      | None \<Rightarrow> (let segments = split_on CHR ''/'' filename in join_with ''/'' (drop (length segments - 2) segments)))"

text \<open>The text past the separator; a slice inside a character has no value.\<close>

definition package_prefix :: "string \<Rightarrow> string option" where
  "package_prefix filename =
     (case split_once_str ''node_modules'' filename of
        None \<Rightarrow> None
      | Some (dir, _) \<Rightarrow>
          (case str_slice filename (length dir + 13) (length filename) of
             None \<Rightarrow> None
           | Some rest \<Rightarrow>
               if rest \<noteq> [] \<and> byte_in 0x80 0xBF (hd rest) then None
               else (let pre = hd (split_on CHR ''/'' rest) in if pre = [] then None else Some pre)))"

definition create_short_filename :: "string \<Rightarrow> debug_path_info \<Rightarrow> string" where
  "create_short_filename filename info =
     (case file_package info of
        Some (name, dir) \<Rightarrow>
          (let relative = path_relative dir filename in
           if cwd_package_name info = Some name then relative else name @ '':'' @ relative)
      | None \<Rightarrow>
          (case package_prefix filename of
             Some pre \<Rightarrow> pre @ '':'' @ short_path filename info
           | None \<Rightarrow> if is_haste info then path_basename filename else short_path filename info))"

definition convert_to_test_styles ::
  "'f eval_value js_map \<Rightarrow> string option \<Rightarrow> string option \<Rightarrow> 'f eval_value js_map" where
  "convert_to_test_styles compiled var_name filename =
     (let pre = dev_class_prefix var_name (case filename of Some f \<Rightarrow> f | None \<Rightarrow> ''UnknownFile'') in
      of_entries (map (\<lambda>(namespace, _).
        (let dev_class = sanitize_dev_class_name (pre @ namespace) in
         (namespace, Obj (of_entries [(dev_class, Str dev_class), (''$$css'', Bool True)])))) (entries compiled)))"

section \<open>Contexts\<close>

record create_options =
  co_base :: options
  co_mode :: validation_mode
  co_media_order :: bool
  co_minified_keys :: bool
  co_dev :: bool
  co_dev_class_names :: bool
  co_debug_data_prop :: bool
  co_test :: bool
  co_root_dir :: "string option"
  co_haste :: bool

record create_context =
  cx_options :: create_options
  cx_filename :: "string option"
  cx_var_name :: "string option"
  cx_namespace_lines :: "(string \<Rightarrow> nat option) option"
  cx_file_package :: "(string \<times> string) option"
  cx_cwd_package_name :: "string option"

record debug_source =
  ds_lines :: "string \<Rightarrow> nat option"
  ds_filename :: string
  ds_info :: debug_path_info

record dev_shape =
  dev_prefix :: "string option"
  shape_debug :: "debug_source option"

definition dev_class :: "dev_shape \<Rightarrow> string \<Rightarrow> string option" where
  "dev_class shape namespace = map_option (\<lambda>pre. sanitize_dev_class_name (pre @ namespace)) (dev_prefix shape)"

definition css_marker :: "dev_shape \<Rightarrow> string \<Rightarrow> 'f eval_value" where
  "css_marker shape namespace =
     (case shape_debug shape of
        None \<Rightarrow> Bool True
      | Some d \<Rightarrow>
          (case ds_lines d namespace of
             None \<Rightarrow> Bool True
           | Some line \<Rightarrow>
               (let short = create_short_filename (ds_filename d) (ds_info d) in
                if 0 < line \<and> short \<noteq> [] then Str (short @ '':'' @ show_radix 10 line) else Bool True)))"

definition dev_prefix_for :: "create_context \<Rightarrow> string option \<Rightarrow> string option" where
  "dev_prefix_for ctx var_name =
     (if co_dev (cx_options ctx) \<and> co_dev_class_names (cx_options ctx)
      then Some (dev_class_prefix var_name (case cx_filename ctx of Some f \<Rightarrow> f | None \<Rightarrow> ''UnknownFile'')) else None)"

section \<open>The entries of a namespace\<close>

definition resolution_of :: "create_options \<Rightarrow> style_resolution" where
  "resolution_of co = style_resolution (opt_rtl (co_base co))"

definition takes_raw_path :: "create_options \<Rightarrow> 'f eval_value js_map \<Rightarrow> bool" where
  "takes_raw_path co namespace \<longleftrightarrow>
     Option.is_none (js_get namespace proto) \<and>
     list_all (\<lambda>(key, v). is_scalar v \<and> CHR ''('' \<notin> set key \<and> is_unexpanded_property (resolution_of co) key) (entries namespace)"

definition raw_entry :: "string \<times> 'f eval_value \<Rightarrow> string \<times> 'f pre_rule" where
  "raw_entry entry =
     (case entry of (key, v) \<Rightarrow>
        (key, case scalar_of v of None \<Rightarrow> Null_rule | Some s \<Rightarrow> Rule key (Single s) None))"

fun raw_entries_from :: "nat \<Rightarrow> nat \<Rightarrow> 'f eval_value js_map \<Rightarrow> 'f flat" where
  "raw_entries_from 0 index namespace = []"
| "raw_entries_from (Suc left) index namespace =
     (case entry_at namespace index of
        None \<Rightarrow> []
      | Some entry \<Rightarrow> raw_entry entry # raw_entries_from left (index + 1) namespace)"

definition raw_entries :: "'f eval_value js_map \<Rightarrow> 'f flat" where
  "raw_entries namespace = raw_entries_from (js_len namespace) 0 namespace"

text \<open>The last entry of a key wins and keeps its place.\<close>

fun keep_last :: "(string \<times> 'a) list \<Rightarrow> (string \<times> 'a) list" where
  "keep_last [] = []"
| "keep_last ((key, r) # fl) = (if key \<in> fst ` set fl then keep_last fl else (key, r) # keep_last fl)"

definition dedupe_last_wins :: "(string \<times> 'a) list \<Rightarrow> (string \<times> 'a) list" where
  "dedupe_last_wins flattened = (if distinct (map fst flattened) then flattened else keep_last flattened)"

definition prepared_entries ::
  "'f js_num \<Rightarrow> 'f f64_ops \<Rightarrow> create_options \<Rightarrow> 'f eval_value js_map \<Rightarrow> 'f create_error + 'f flat" where
  "prepared_entries J F co namespace =
     (case validate_namespace (Obj namespace) of
        Some e \<Rightarrow> Inl e
      | None \<Rightarrow>
          (case media_order_transform F (co_media_order co) namespace of
             Inl e \<Rightarrow> Inl e
           | Inr transformed \<Rightarrow>
               map_sum id dedupe_last_wins
                 (flatten_raw_style_object J (resolution_of co) (co_mode co)
                    (case transformed of Some rebuilt \<Rightarrow> rebuilt | None \<Rightarrow> namespace))))"

definition namespace_entries ::
  "'f js_num \<Rightarrow> 'f f64_ops \<Rightarrow> create_options \<Rightarrow> 'f eval_value js_map \<Rightarrow> 'f create_error + 'f flat" where
  "namespace_entries J F co namespace =
     (if takes_raw_path co namespace then Inr (raw_entries namespace) else prepared_entries J F co namespace)"

section \<open>Compilation\<close>

definition minified_display_key :: "string \<Rightarrow> bool \<Rightarrow> string" where
  "minified_display_key key dbg = (let k_hash = CHR ''k'' # create_short_hash (''<>'' @ key) in if dbg then key @ ''-'' @ k_hash else k_hash)"

definition display_key :: "create_options \<Rightarrow> string \<Rightarrow> string" where
  "display_key co key =
     (if co_minified_keys co \<and> \<not> starts_with ''--'' key then minified_display_key key (debug (co_base co)) else key)"

type_synonym class_paths = "(string \<times> string list) list"

fun set_path :: "string \<Rightarrow> string list \<Rightarrow> class_paths \<Rightarrow> class_paths" where
  "set_path name path [] = [(name, path)]"
| "set_path name path ((n, p) # paths) = (if n = name then (n, path) # paths else (n, p) # set_path name path paths)"

text \<open>Class names joined once each, in the order they come.\<close>

fun first_names :: "string list \<Rightarrow> string list \<Rightarrow> string list" where
  "first_names seen [] = []"
| "first_names seen (name # names) =
     (if name \<in> set seen then first_names seen names else name # first_names (name # seen) names)"

fun push_rules :: "stylex_rule list \<Rightarrow> stylex_rule list \<times> string set \<Rightarrow> stylex_rule list \<times> string set" where
  "push_rules [] state = state"
| "push_rules (decl # decls) (rules, seen) =
     (if r_class_name decl \<in> seen then push_rules decls (rules, seen)
      else push_rules decls (rules @ [decl], insert (r_class_name decl) seen))"

record 'f namespace_state =
  ns_obj :: "'f eval_value js_map"
  ns_paths :: class_paths
  ns_rules :: "stylex_rule list \<times> string set"

definition compile_entry ::
  "'f js_num \<Rightarrow> (string \<Rightarrow> string) \<Rightarrow> create_options \<Rightarrow> bool \<Rightarrow> string \<times> 'f pre_rule \<Rightarrow> 'f namespace_state \<Rightarrow>
   'f create_error + 'f namespace_state" where
  "compile_entry J lower co need_class_paths entry st =
     (case entry of (key, pre_rule) \<Rightarrow>
        map_sum id
          (\<lambda>compiled.
             let decls = map fst compiled;
                 joined = join_with '' '' (first_names [] (map r_class_name decls))
             in \<lparr>ns_obj = snd (js_insert (ns_obj st) (display_key co key) (if joined = [] then Null else Str joined)),
                 ns_paths = (if need_class_paths
                   then foldl (\<lambda>paths (decl, path). set_path (r_class_name decl) path paths) (ns_paths st) compiled else ns_paths st),
                 ns_rules = push_rules decls (ns_rules st)\<rparr>)
          (for_each_compiled J lower (co_base co) pre_rule))"

fun compile_entries ::
  "'f js_num \<Rightarrow> (string \<Rightarrow> string) \<Rightarrow> create_options \<Rightarrow> bool \<Rightarrow> 'f flat \<Rightarrow> 'f namespace_state \<Rightarrow>
   'f create_error + 'f namespace_state" where
  "compile_entries J lower co need [] st = Inr st"
| "compile_entries J lower co need (entry # fl) st =
     (case compile_entry J lower co need entry st of Inl e \<Rightarrow> Inl e | Inr st \<Rightarrow> compile_entries J lower co need fl st)"

record 'f create_state =
  cs_resolved :: "'f eval_value js_map"
  cs_rules :: "stylex_rule list \<times> string set"
  cs_paths :: "(string \<times> class_paths) list"

definition compile_namespace ::
  "'f js_num \<Rightarrow> 'f f64_ops \<Rightarrow> (string \<Rightarrow> string) \<Rightarrow> create_options \<Rightarrow> bool \<Rightarrow> dev_shape \<Rightarrow> string \<times> 'f eval_value \<Rightarrow>
   'f create_state \<Rightarrow> 'f create_error + 'f create_state" where
  "compile_namespace J F lower co need_class_paths shape namespace st =
     (case namespace of (name, v) \<Rightarrow>
        if name = proto then Inr st
        else case v of
          Obj m \<Rightarrow>
            (case namespace_entries J F co m of
               Inl e \<Rightarrow> Inl e
             | Inr fl \<Rightarrow>
                 (let obj = (case dev_class shape name of Some d \<Rightarrow> snd (js_insert js_new d (Str d)) | None \<Rightarrow> js_new) in
                  map_sum id
                    (\<lambda>done.
                       \<lparr>cs_resolved = snd (js_insert (cs_resolved st) name
                          (Obj (snd (js_insert (ns_obj done) ''$$css'' (css_marker shape name))))),
                        cs_rules = ns_rules done,
                        cs_paths = (if need_class_paths then cs_paths st @ [(name, ns_paths done)] else cs_paths st)\<rparr>)
                    (compile_entries J lower co need_class_paths fl \<lparr>ns_obj = obj, ns_paths = [], ns_rules = cs_rules st\<rparr>)))
        | _ \<Rightarrow> Inl IllegalNamespaceValue)"

fun compile_all ::
  "'f js_num \<Rightarrow> 'f f64_ops \<Rightarrow> (string \<Rightarrow> string) \<Rightarrow> create_options \<Rightarrow> bool \<Rightarrow> dev_shape \<Rightarrow> (string \<times> 'f eval_value) list \<Rightarrow>
   'f create_state \<Rightarrow> 'f create_error + 'f create_state" where
  "compile_all J F lower co need shape [] st = Inr st"
| "compile_all J F lower co need shape (namespace # rest) st =
     (case compile_namespace J F lower co need shape namespace st of
        Inl e \<Rightarrow> Inl e
      | Inr st \<Rightarrow> compile_all J F lower co need shape rest st)"

record 'f create_output =
  out_compiled :: "'f eval_value js_map"
  out_rules :: "stylex_rule list"
  out_class_paths :: "(string \<times> class_paths) list"

definition compile_namespaces_core ::
  "'f js_num \<Rightarrow> 'f f64_ops \<Rightarrow> (string \<Rightarrow> string) \<Rightarrow> 'f eval_value js_map \<Rightarrow> create_context \<Rightarrow> bool \<Rightarrow> dev_shape \<Rightarrow>
   'f create_error + 'f create_output" where
  "compile_namespaces_core J F lower namespaces ctx need_class_paths shape =
     map_sum id (\<lambda>st. \<lparr>out_compiled = cs_resolved st, out_rules = fst (cs_rules st), out_class_paths = cs_paths st\<rparr>)
       (compile_all J F lower (cx_options ctx) need_class_paths shape (entries namespaces)
          \<lparr>cs_resolved = js_new, cs_rules = ([], {}), cs_paths = []\<rparr>)"

definition debug_source_of :: "create_context \<Rightarrow> debug_source option" where
  "debug_source_of ctx =
     (let co = cx_options ctx in
      if debug (co_base co) \<and> co_debug_data_prop co then
        (case (cx_namespace_lines ctx, cx_filename ctx) of
           (Some lines, Some filename) \<Rightarrow>
             Some \<lparr>ds_lines = lines, ds_filename = filename,
               ds_info = \<lparr>file_package = cx_file_package ctx, cwd_package_name = cx_cwd_package_name ctx,
                 root_dir = co_root_dir co, is_haste = co_haste co\<rparr>\<rparr>
         | _ \<Rightarrow> None)
      else None)"

definition compile_namespaces ::
  "'f js_num \<Rightarrow> 'f f64_ops \<Rightarrow> (string \<Rightarrow> string) \<Rightarrow> 'f eval_value js_map \<Rightarrow> create_context \<Rightarrow> bool \<Rightarrow>
   'f create_error + 'f create_output" where
  "compile_namespaces J F lower namespaces ctx need_class_paths =
     map_sum id
       (\<lambda>out. if co_test (cx_options ctx)
          then out\<lparr>out_compiled := convert_to_test_styles (out_compiled out) (cx_var_name ctx) (cx_filename ctx)\<rparr> else out)
       (compile_namespaces_core J F lower namespaces ctx need_class_paths
          \<lparr>dev_prefix = dev_prefix_for ctx (cx_var_name ctx), shape_debug = debug_source_of ctx\<rparr>)"

definition inline_namespace :: string where
  "inline_namespace = ''__inline__''"

definition compile_atom ::
  "'f js_num \<Rightarrow> 'f f64_ops \<Rightarrow> (string \<Rightarrow> string) \<Rightarrow> string \<Rightarrow> string \<Rightarrow> create_context \<Rightarrow> 'f create_error + 'f create_output" where
  "compile_atom J F lower property val ctx =
     compile_namespaces_core J F lower (of_entries [(inline_namespace, Obj (of_entries [(property, Str val)]))]) ctx False
       \<lparr>dev_prefix = dev_prefix_for ctx None, shape_debug = None\<rparr>"

section \<open>The short path\<close>

lemma keep_last_keys: "fst ` set (keep_last fl) = fst ` set fl"
  by (induction fl rule: keep_last.induct) auto

lemma keep_last_distinct: "distinct (map fst (keep_last fl))"
  by (induction fl rule: keep_last.induct) (auto simp: keep_last_keys)

lemma keep_last_map: "map_of (keep_last fl) k = map_of (rev fl) k"
proof (induction fl rule: keep_last.induct)
  case (2 key r fl)
  have "map_of (rev fl) key = None \<longleftrightarrow> key \<notin> fst ` set fl"
    by (simp add: map_of_eq_None_iff)
  with 2 show ?case
    by (auto simp: map_add_def split: option.split)
qed simp

lemma keep_last_subseq: "subseq (keep_last fl) fl"
  by (induction fl rule: keep_last.induct) (auto intro: list_emb_Cons)

lemma keep_last_id: "distinct (map fst fl) \<Longrightarrow> keep_last fl = fl"
  by (induction fl rule: keep_last.induct) auto

text \<open>
  Deduplication keeps one entry of each key, the last one, where it stands, whether it returns early or not.
\<close>

theorem dedupe_keeps_last:
  "distinct (map fst (dedupe_last_wins fl)) \<and> map_of (dedupe_last_wins fl) = map_of (rev fl) \<and> subseq (dedupe_last_wins fl) fl \<and>
   dedupe_last_wins fl = keep_last fl"
proof -
  have "dedupe_last_wins fl = keep_last fl"
    by (simp add: dedupe_last_wins_def keep_last_id)
  then show ?thesis
    by (simp add: keep_last_distinct keep_last_subseq keep_last_map fun_eq_iff)
qed

lemma entry_at_entries: "entry_at m i = (if i < length (entries m) then Some (entries m ! i) else None)"
  by (auto simp: entry_at_def entries_def nth_append Let_def)

lemma raw_entries_from_eq:
  "i + left \<le> length (entries m) \<Longrightarrow> raw_entries_from left i m = map raw_entry (take left (drop i (entries m)))"
proof (induction left arbitrary: i)
  case (Suc left)
  then have "drop i (entries m) = entries m ! i # drop (Suc i) (entries m)"
    by (simp add: Cons_nth_drop_Suc)
  with Suc show ?case
    by (simp add: entry_at_entries)
qed simp

lemma raw_entries_eq: "raw_entries m = map raw_entry (entries m)"
  using raw_entries_from_eq [of 0 "js_len m" m] by (simp add: raw_entries_def js_len_def entries_def)

lemma no_paren_no_var: "CHR ''('' \<notin> set s \<Longrightarrow> \<not> has_var_ref s"
proof (induction s)
  case (Cons c cs)
  have "strip_prefix ''var(--'' (c # cs) = None"
  proof (rule ccontr)
    assume "strip_prefix ''var(--'' (c # cs) \<noteq> None"
    then obtain r where "c # cs = ''var(--'' @ r"
      using strip_prefix_iff by blast
    then have "CHR ''('' \<in> set (c # cs)"
      by simp
    with Cons.prems show False
      by simp
  qed
  with Cons show ?case
    by (simp del: strip_prefix.simps)
qed simp

lemma no_paren_unwrap: "CHR ''('' \<notin> set s \<Longrightarrow> unwrap_var_key s = s \<and> unwrap_var s = s"
  by (auto simp: unwrap_var_key_def no_paren_no_var unwrap_var_def starts_with_iff)

lemma unexpanded_alone:
  assumes "is_unexpanded_property res key" "unwrap_var key = key"
  shows "flat_map_expanded_shorthands J res mode False key v = Inr [(key, v)]"
  using assms by (cases res) (auto simp: is_unexpanded_property_def flat_map_expanded_shorthands_def Let_def)

lemma traverse_Inr: "(\<And>x. x \<in> set xs \<Longrightarrow> f x = Inr (g x)) \<Longrightarrow> traverse f xs = Inr (map g xs)"
  by (induction xs) auto

lemma flatten_raw:
  assumes "Option.is_none (js_get m proto)"
    and "list_all (\<lambda>(key, v). is_scalar v \<and> CHR ''('' \<notin> set key \<and> is_unexpanded_property res key) (entries m)"
  shows "flatten_raw_style_object J res mode m = Inr (map raw_entry (entries m))"
proof -
  let ?f = "\<lambda>(raw_key, v). let key = unwrap_var_key raw_key in case v of
               Obj obj \<Rightarrow>
                 if is_condition key then
                   map_sum id (map (\<lambda>(property, r). (key @ ''_'' @ property, r)))
                     (flatten_inner J res mode obj ([] @ [raw_key]))
                 else flatten_property J res mode [] raw_key key v
             | _ \<Rightarrow> flatten_property J res mode [] raw_key key v"
  have "?f e = Inr [raw_entry e]" if "e \<in> set (entries m)" for e
  proof -
    obtain key v where e: "e = (key, v)"
      by fastforce
    with that assms(2) have kv: "is_scalar v" "CHR ''('' \<notin> set key" "is_unexpanded_property res key"
      by (auto simp: list_all_iff)
    have scalar: "flatten_scalar J res mode [] key (scalar_of v) = Inr [raw_entry e]"
      using kv no_paren_unwrap [OF kv(2)]
      by (simp add: flatten_scalar_def unexpanded_alone raw_entry_def e rule_key_path_def split: option.split)
    show ?thesis
      using kv(1) scalar no_paren_unwrap [OF kv(2)] by (cases v) (simp_all add: e flatten_property_def)
  qed
  then have "traverse ?f (entries m) = Inr (map (\<lambda>e. [raw_entry e]) (entries m))"
    by (rule traverse_Inr)
  then show ?thesis
    using assms(1)
    by (simp add: flatten_raw_style_object_def flatten_inner.simps [of J res mode m "[]"] for_in_entries_def concat_map_singleton)
qed

lemma validate_raw:
  assumes "Option.is_none (js_get m proto)" "list_all (\<lambda>(_, v). is_scalar v) (entries m)"
  shows "validate_namespace (Obj m) = None"
proof -
  have none: "first_error f xs = None" if "\<And>x. x \<in> set xs \<Longrightarrow> f x = None" for f :: "'b \<Rightarrow> 'c option" and xs
    using that by (induction xs) auto
  have "is_plain m"
    using assms(1) by (simp add: is_plain.simps [of m] Option.is_none_def)
  then show ?thesis
    using assms by (auto simp: validate_namespace_def validate_namespace_in.simps [of "Obj m"] for_in_entries_def list_all_iff
        intro!: none split: eval_value.split) fastforce+
qed

lemma entries_rebuilt: "js_ok m \<Longrightarrow> entries (of_entries (entries m)) = entries m"
proof -
  assume ok: "js_ok m"
  have d: "distinct (map fst (entries m))"
    using js_keys_distinct [OF ok] by (simp add: js_keys_def)
  have "created m (entries m)"
    using ok d by (simp add: created_def)
  then show ?thesis
    using created_order created_of_entries [OF d] by metis
qed

lemma media_order_raw:
  assumes "js_ok m" "Option.is_none (js_get m proto)" "list_all (\<lambda>(_, v). is_scalar v) (entries m)"
  shows "\<exists>t. media_order_transform F enabled m = Inr t \<and> entries (case t of Some r \<Rightarrow> r | None \<Rightarrow> m) = entries m \<and>
    js_ok (case t of Some r \<Rightarrow> r | None \<Rightarrow> m)"
proof (cases "enabled \<and> dfs_can_change m 0")
  case False
  with assms(1) show ?thesis
    by (auto simp: media_order_transform_def)
next
  case True
  have own: "filter (\<lambda>(key, _). key \<noteq> proto) (entries m) = entries m"
    using assms(1,2) by (force simp: filter_id_conv js_get_entries Option.is_none_def map_of_eq_None_iff)
  have "traverse (\<lambda>(key, v). case v of
             Obj inner \<Rightarrow>
               if dfs_can_change inner (0 + 1) then map_sum id (\<lambda>p. (key, Obj p)) (dfs_process_map F inner (0 + 1))
               else Inr (key, v)
           | _ \<Rightarrow> Inr (key, v)) (entries m) = Inr (map id (entries m))"
    by (rule traverse_Inr) (use assms(3) in \<open>auto simp: list_all_iff split: eval_value.split; fastforce\<close>)
  then have "dfs_process_map F m 0 = Inr (of_entries (entries m))"
    by (simp add: dfs_process_map.simps [of F m 0] own order_media_keys_def)
  with True show ?thesis
    by (simp add: media_order_transform_def entries_rebuilt [OF assms(1)] of_entries_ok)
qed

text \<open>
  C37: The short path of a plain namespace is the long one: where the code compiles the properties as they stand, validation
  accepts the namespace, and reordering, flattening and deduplication give the same entries, whatever the options.
\<close>

theorem raw_path_is_prepared_path:
  assumes "js_ok m" "takes_raw_path co m"
  shows "prepared_entries J F co m = Inr (raw_entries m)"
proof -
  have raw: "Option.is_none (js_get m proto)"
    "list_all (\<lambda>(key, v). is_scalar v \<and> CHR ''('' \<notin> set key \<and> is_unexpanded_property (resolution_of co) key) (entries m)"
    using assms(2) by (auto simp: takes_raw_path_def)
  then have scalars: "list_all (\<lambda>(_, v). is_scalar v) (entries m)"
    by (auto simp: list_all_iff)
  obtain t where t: "media_order_transform F (co_media_order co) m = Inr t"
    and e: "entries (case t of Some r \<Rightarrow> r | None \<Rightarrow> m) = entries m" and ok: "js_ok (case t of Some r \<Rightarrow> r | None \<Rightarrow> m)"
    using media_order_raw [OF assms(1) raw(1) scalars] by blast
  have "js_get (case t of Some r \<Rightarrow> r | None \<Rightarrow> m) = js_get m"
    using js_get_entries [OF ok] js_get_entries [OF assms(1)] by (simp add: e fun_eq_iff)
  then have flat: "flatten_raw_style_object J (resolution_of co) (co_mode co) (case t of Some r \<Rightarrow> r | None \<Rightarrow> m) =
      Inr (map raw_entry (entries m))"
    using flatten_raw [of "case t of Some r \<Rightarrow> r | None \<Rightarrow> m" "resolution_of co" J "co_mode co"] raw by (simp add: e)
  have "map fst (map raw_entry (entries m)) = js_keys m"
    by (auto simp: js_keys_def raw_entry_def)
  then have "dedupe_last_wins (map raw_entry (entries m)) = map raw_entry (entries m)"
    using js_keys_distinct [OF assms(1)] by (simp only: dedupe_last_wins_def if_True)
  then show ?thesis
    by (simp add: prepared_entries_def validate_raw [OF raw(1) scalars] t flat raw_entries_eq)
qed

section \<open>Every class has its rule\<close>

text \<open>The values of a compiled namespace: no class, the marker, or class names that have a rule.\<close>

definition class_value :: "stylex_rule list \<Rightarrow> 'f eval_value \<Rightarrow> bool" where
  "class_value rules v \<longleftrightarrow>
     v = Null \<or> v = Bool True \<or> (\<exists>names. v = Str (join_with '' '' names) \<and> set names \<subseteq> r_class_name ` set rules)"

lemma class_value_mono: "class_value rules v \<Longrightarrow> set rules \<subseteq> set rules' \<Longrightarrow> class_value rules' v"
  unfolding class_value_def by (blast dest: image_mono)

definition classes_in :: "stylex_rule list \<Rightarrow> 'f eval_value js_map \<Rightarrow> bool" where
  "classes_in rules obj \<longleftrightarrow> js_ok obj \<and> (\<forall>k v. js_get obj k = Some v \<longrightarrow> class_value rules v)"

lemma classes_in_new: "classes_in rules js_new"
  by (simp add: classes_in_def js_new_ok js_new_get)

lemma classes_in_insert: "classes_in rules obj \<Longrightarrow> class_value rules v \<Longrightarrow> classes_in rules (snd (js_insert obj k v))"
  by (auto simp: classes_in_def js_insert_ok js_insert_get split: if_splits)

lemma classes_in_mono: "classes_in rules obj \<Longrightarrow> set rules \<subseteq> set rules' \<Longrightarrow> classes_in rules' obj"
  by (auto simp: classes_in_def intro: class_value_mono)

definition rules_ok :: "stylex_rule list \<times> string set \<Rightarrow> bool" where
  "rules_ok st \<longleftrightarrow> snd st = r_class_name ` set (fst st) \<and> distinct (map r_class_name (fst st))"

lemma push_rules_ok:
  "rules_ok st \<Longrightarrow> rules_ok (push_rules decls st) \<and> set (fst st) \<subseteq> set (fst (push_rules decls st)) \<and>
   r_class_name ` set decls \<subseteq> r_class_name ` set (fst (push_rules decls st))"
proof (induction decls st rule: push_rules.induct)
  case (2 decl decls rules seen)
  show ?case
  proof (cases "r_class_name decl \<in> seen")
    case True
    have "r_class_name decl \<in> r_class_name ` set rules"
      using True 2(3) by (simp add: rules_ok_def)
    with True 2(1) [OF True] 2(3) show ?thesis
      by auto
  next
    case False
    have "rules_ok (rules @ [decl], insert (r_class_name decl) seen)"
      using False 2(3) by (auto simp: rules_ok_def)
    with False 2(2) [OF False] show ?thesis
      by auto
  qed
qed simp

lemma set_first_names: "set (first_names seen names) = set names - set seen"
  by (induction seen names rule: first_names.induct) auto

definition namespace_ok :: "'f namespace_state \<Rightarrow> bool" where
  "namespace_ok st \<longleftrightarrow> rules_ok (ns_rules st) \<and> classes_in (fst (ns_rules st)) (ns_obj st)"

lemma compile_entry_ok:
  assumes "compile_entry J lower co need entry st = Inr st'" "namespace_ok st"
  shows "namespace_ok st' \<and> set (fst (ns_rules st)) \<subseteq> set (fst (ns_rules st'))"
proof -
  obtain key r where entry: "entry = (key, r)"
    by fastforce
  from assms(1) obtain compiled where
    st': "st' = (let decls = map fst compiled; joined = join_with '' '' (first_names [] (map r_class_name decls))
             in \<lparr>ns_obj = snd (js_insert (ns_obj st) (display_key co key) (if joined = [] then Null else Str joined)),
                 ns_paths = (if need then foldl (\<lambda>paths (decl, path). set_path (r_class_name decl) path paths) (ns_paths st) compiled
                   else ns_paths st),
                 ns_rules = push_rules decls (ns_rules st)\<rparr>)"
    by (auto simp: compile_entry_def entry map_sum_Inr)
  let ?decls = "map fst compiled"
  let ?joined = "join_with '' '' (first_names [] (map r_class_name ?decls))"
  let ?rules = "push_rules ?decls (ns_rules st)"
  have push: "rules_ok ?rules" "set (fst (ns_rules st)) \<subseteq> set (fst ?rules)"
    "r_class_name ` set ?decls \<subseteq> r_class_name ` set (fst ?rules)"
    using push_rules_ok assms(2) unfolding namespace_ok_def by blast+
  have "set (first_names [] (map r_class_name ?decls)) \<subseteq> r_class_name ` set (fst ?rules)"
    using push(3) by (simp only: set_first_names set_map) auto
  then have "class_value (fst ?rules) (if ?joined = [] then Null else Str ?joined)"
    unfolding class_value_def by auto
  moreover have "classes_in (fst ?rules) (ns_obj st)"
    using assms(2) push(2) by (auto simp: namespace_ok_def intro: classes_in_mono)
  ultimately have "classes_in (fst ?rules) (snd (js_insert (ns_obj st) (display_key co key) (if ?joined = [] then Null else Str ?joined)))"
    by (intro classes_in_insert)
  then show ?thesis
    using push(1,2) unfolding st' Let_def namespace_ok_def namespace_state.simps by blast
qed

lemma compile_entries_ok:
  "compile_entries J lower co need fl st = Inr st' \<Longrightarrow> namespace_ok st \<Longrightarrow>
   namespace_ok st' \<and> set (fst (ns_rules st)) \<subseteq> set (fst (ns_rules st'))"
proof (induction J lower co need fl st rule: compile_entries.induct)
  case (2 J lower co need entry fl st)
  then obtain st1 where st1: "compile_entry J lower co need entry st = Inr st1" "compile_entries J lower co need fl st1 = Inr st'"
    by (auto split: sum.splits)
  with 2 compile_entry_ok [OF st1(1) 2(3)] show ?case
    by blast
qed simp

definition create_ok :: "'f create_state \<Rightarrow> bool" where
  "create_ok st \<longleftrightarrow> rules_ok (cs_rules st) \<and> js_ok (cs_resolved st) \<and>
     (\<forall>k v. js_get (cs_resolved st) k = Some v \<longrightarrow> (\<exists>obj. v = Obj obj \<and> classes_in (fst (cs_rules st)) obj))"

lemma compile_namespace_ok:
  assumes "compile_namespace J F lower co need \<lparr>dev_prefix = None, shape_debug = None\<rparr> namespace st = Inr st'" "create_ok st"
  shows "create_ok st'"
proof (cases "fst namespace = proto")
  case True
  with assms show ?thesis
    by (cases namespace) (simp add: compile_namespace_def)
next
  case False
  then obtain name m fl st1 where ns: "namespace = (name, Obj m)" "name \<noteq> proto"
    and st1: "compile_entries J lower co need fl \<lparr>ns_obj = js_new, ns_paths = [], ns_rules = cs_rules st\<rparr> = Inr st1"
    and st': "st' = \<lparr>cs_resolved = snd (js_insert (cs_resolved st) name (Obj (snd (js_insert (ns_obj st1) ''$$css'' (Bool True))))),
      cs_rules = ns_rules st1, cs_paths = (if need then cs_paths st @ [(name, ns_paths st1)] else cs_paths st)\<rparr>"
    using assms(1)
    by (cases namespace) (auto simp: compile_namespace_def dev_class_def css_marker_def map_sum_Inr split: eval_value.splits sum.splits)
  have "namespace_ok \<lparr>ns_obj = js_new, ns_paths = [], ns_rules = cs_rules st\<rparr>"
    using assms(2) by (simp add: namespace_ok_def create_ok_def classes_in_new)
  from compile_entries_ok [OF st1 this] have st1_ok: "namespace_ok st1" and grow: "set (fst (cs_rules st)) \<subseteq> set (fst (ns_rules st1))"
    by simp_all
  have "classes_in (fst (ns_rules st1)) (snd (js_insert (ns_obj st1) ''$$css'' (Bool True)))"
    using st1_ok by (intro classes_in_insert) (simp_all add: namespace_ok_def class_value_def)
  moreover have "\<exists>obj. v = Obj obj \<and> classes_in (fst (ns_rules st1)) obj" if "js_get (cs_resolved st) k = Some v" for k v
    using that assms(2) grow unfolding create_ok_def by (meson classes_in_mono)
  ultimately show ?thesis
    using assms(2) st1_ok by (auto simp: create_ok_def st' namespace_ok_def js_insert_ok js_insert_get split: if_splits)
qed

lemma compile_all_ok:
  "compile_all J F lower co need \<lparr>dev_prefix = None, shape_debug = None\<rparr> es st = Inr st' \<Longrightarrow> create_ok st \<Longrightarrow> create_ok st'"
proof (induction es arbitrary: st)
  case (Cons e es)
  then obtain st1 where st1: "compile_namespace J F lower co need \<lparr>dev_prefix = None, shape_debug = None\<rparr> e st = Inr st1"
    "compile_all J F lower co need \<lparr>dev_prefix = None, shape_debug = None\<rparr> es st1 = Inr st'"
    by (auto split: sum.splits)
  with Cons compile_namespace_ok [OF st1(1) Cons.prems(2)] show ?case
    by blast
qed simp


section \<open>Relative paths\<close>

text \<open>What a path of names and steps up leads to.\<close>

definition resolve_parts :: "string list \<Rightarrow> string list \<Rightarrow> string list" where
  "resolve_parts base rel = foldl (\<lambda>acc seg. if seg = ''..'' then butlast acc else acc @ [seg]) base rel"

lemma resolve_up: "resolve_parts base (replicate n ''..'') = take (length base - n) base"
proof (induction n arbitrary: base)
  case (Suc n)
  then show ?case
    by (simp add: resolve_parts_def butlast_conv_take min_def)
qed (simp add: resolve_parts_def)

lemma resolve_down: "''..'' \<notin> set rel \<Longrightarrow> resolve_parts base rel = base @ rel"
  by (induction rel arbitrary: base) (auto simp: resolve_parts_def)

lemma common_parts_take: "take (common_parts src dst) src = take (common_parts src dst) dst \<and> common_parts src dst \<le> length src"
  by (induction src dst rule: common_parts.induct) auto

text \<open>
  Following the relative path from the directory leads to the file, when neither path has a step up.
\<close>

theorem relative_path_leads_there:
  assumes "''..'' \<notin> set dst"
  shows "resolve_parts src (relative_parts src dst) = dst"
proof -
  have "resolve_parts src (relative_parts src dst) =
      resolve_parts (resolve_parts src (replicate (length src - common_parts src dst) ''..'')) (drop (common_parts src dst) dst)"
    by (simp add: relative_parts_def resolve_parts_def)
  also have "resolve_parts src (replicate (length src - common_parts src dst) ''..'') = take (common_parts src dst) dst"
    using common_parts_take [of src dst] by (simp add: resolve_up)
  also have "resolve_parts (take (common_parts src dst) dst) (drop (common_parts src dst) dst) = dst"
    using assms by (subst resolve_down) (auto dest: in_set_dropD)
  finally show ?thesis .
qed

theorem relative_path_leads_there_witness:
  "resolve_parts [''app'', ''src''] (relative_parts [''app'', ''src''] [''app'', ''lib'', ''a.ts'']) = [''app'', ''lib'', ''a.ts'']"
  by (rule relative_path_leads_there) simp

section \<open>Concrete inputs\<close>

definition int_ops :: "int f64_ops" where
  "int_ops = \<lparr>f_lt = (<), f_eq = (=), f_add = (+), f_sub = (-), f_inf = 10 ^ 9, f_neg_inf = - (10 ^ 9), f_eps = 1,
     f_parse = j_parse whole_numbers, f_show = ryu_js whole_numbers\<rparr>"

definition plain_create :: create_options where
  "plain_create = \<lparr>co_base = plain_options, co_mode = Throw, co_media_order = True, co_minified_keys = False, co_dev = False,
     co_dev_class_names = False, co_debug_data_prop = False, co_test = False, co_root_dir = None, co_haste = False\<rparr>"

definition plain_context :: create_context where
  "plain_context = \<lparr>cx_options = plain_create, cx_filename = None, cx_var_name = None, cx_namespace_lines = None,
     cx_file_package = None, cx_cwd_package_name = None\<rparr>"

theorem raw_path_is_prepared_path_witness:
  "prepared_entries whole_numbers int_ops plain_create (set_css_type (of_entries [(''color'', Str ''red''), (''width'', Null)]) ''color'') =
   Inr (raw_entries (set_css_type (of_entries [(''color'', Str ''red''), (''width'', Null)]) ''color''))"
proof (rule raw_path_is_prepared_path)
  show "js_ok (set_css_type (of_entries [(''color'', Str ''red''), (''width'', Null)]) ''color'')"
    by (rule set_css_type_ok [OF of_entries_ok])
  show "takes_raw_path plain_create (set_css_type (of_entries [(''color'', Str ''red''), (''width'', Null)]) ''color'')"
    by code_simp
qed

lemma red_compiles:
  "\<exists>rule. for_each_compiled whole_numbers id (co_base plain_create) (Rule ''color'' (Single (Str_scalar ''red'')) None) = Inr [(rule, [''color''])]"
proof -
  have vals: "rule_values whole_numbers id ''color'' (enable_font_size_px_to_rem plain_options) (Single (Str_scalar ''red'')) = Inr [''red'']"
    by code_simp
  have sorted: "sort_pseudos [] = Inr []" "pseudos_of [''color''] = []" "at_rules_of [''color''] = []" "const_rules_of [''color''] = []"
    by code_simp+
  show ?thesis
    by (simp add: uncached_def convert_uncached_def sorted vals Let_def plain_create_def)
qed


end
