(* ===== verification/Spec2Isabelle.thy ===== *)
theory Spec2Isabelle
  imports Hmr_Stamps Memory_Cache Start_Reloads Start_Hot Hmr_Gate Web_Urls App_Env Stylex_Hash Stylex_Priorities
    Css_Chunk Resolve_Alias Js_Scheduler Media_Transform Bundle_Evict Bundle_Key Stylex_Create
begin

text \<open>
  A verification development of oj, a build tool and development server for web applications written in Rust.

  \<^bold>\<open>The program.\<close> The development server compiles a module when a browser asks for it, records its imports in the
  module graph and its output in a cache of bounded size. When the watcher reports a write, the content filter and
  the editor's gate decide whether it counts, the module graph is walked up the importers to find the modules that can take
  the update, and the browser is sent an update or a reload. For a TanStack Start application the client is a bundle: patches
  are sent to open pages, pages are told to reload when the output is stale, and the bundles of earlier runs are kept
  in a content-addressed store on disk. Plugins and configuration run in an embedded JavaScript engine with deadlines and a
  heap limit. Around them stand passes on text: environment files and HTML, alias rewriting, StyleX, CSS chunks.

  \<^bold>\<open>Theories and sources\<close> (paths under \<^verbatim>\<open>src/crates\<close>).

  \<^item> \<open>Oj_Prelude\<close>: machine integers as words, the iteration orders of hash sets and maps as the locales \<open>hash_iter\<close> and
    \<open>map_iter\<close>, and \<open>search\<close>, the worklist search shared by all walks of the graph. \<open>Std_Str\<close>, \<open>Std_Path\<close>: what the code uses of
    Rust's \<^verbatim>\<open>str\<close> and \<^verbatim>\<open>Path\<close>. Strings are lists of bytes.
  \<^item> \<open>Module_Graph\<close>, \<open>Hmr_Stamps\<close>: \<^verbatim>\<open>oj_graph/src/lib.rs\<close>, a record of finite maps with one definition per public method.
    Import and importer edges mirror each other after every sequence of operations; registration of imports refines the replacement
    of a set; an invalidation stamps exactly the modules that see the change, and a client's invalidation is taken once.
  \<^item> \<open>Hmr_Propagate\<close>: \<^verbatim>\<open>oj_graph/src/propagate.rs\<close>. The walk is a total function. Its answer is characterised over reachability
    in the graph, does not depend on the order of hash sets, and covers every chain of importers.
  \<^item> \<open>Memory_Cache\<close>: \<^verbatim>\<open>oj_server/src/memory_cache.rs\<close>. Sizes are 64-bit words; round trip, budget, eviction order and accounting.
  \<^item> \<open>Start_Reloads\<close>, \<open>Start_Hot\<close>: \<^verbatim>\<open>oj/src/start_reloads.rs\<close> and \<^verbatim>\<open>start_hot.rs\<close>. Each lock-protected operation is one step;
    the theorems are about every interleaving of steps.
  \<^item> \<open>Hmr_Gate\<close>: the gate and the content filter of \<^verbatim>\<open>oj_server/src/hmr.rs\<close>; the clock and modification times are arguments.
  \<^item> \<open>Web_Urls\<close>, \<open>App_Env\<close>: asset types, url stamps, \<^verbatim>\<open>.env\<close> files, defines and HTML placeholders.
  \<^item> \<open>Stylex_Hash\<close>, \<open>Stylex_Tiers\<close>, \<open>Stylex_Priorities\<close>: the hashes of class names and the priorities that order StyleX rules.
  \<^item> \<open>Media_Rule\<close>, \<open>Media_Meaning\<close>, \<open>Media_Parse\<close>, \<open>Media_Wf\<close>, \<open>Media_Transform\<close>: all of
    \<^verbatim>\<open>oj_stylex/src/shared/media_query.rs\<close>. \<open>holds\<close> is the abstract specification, the truth of a query on a page; normalization and the
    last-query-wins rewriting are proved against it. Floating point is the record \<open>f64_ops\<close> with the laws of an order.
  \<^item> \<open>Css_Chunk\<close>, \<open>Resolve_Alias\<close>: \<^verbatim>\<open>oj_css/src/chunk.rs\<close> and \<^verbatim>\<open>oj_resolver/src/alias.rs\<close>. A slice at a bad index is a panic, which is a
    value of the model. The minifier and the regular expressions of \<^verbatim>\<open>regress\<close> are parameters.
  \<^item> \<open>Js_Isolate\<close>, \<open>Js_Scheduler\<close>: \<^verbatim>\<open>oj_js/src\<close>, the engine thread as a function of what each wake observes: V8's answers, the
    clock and the instants the watchdog runs at.
  \<^item> \<open>Bundle_Fs\<close>, \<open>Bundle_Store\<close>, \<open>Bundle_Persist\<close>, \<open>Bundle_Memo\<close>, \<open>Bundle_Evict\<close>, \<open>Bundle_Key\<close>: \<^verbatim>\<open>oj_cache/src/start_bundle\<close> on an
    explicit file system in which any operation may fail, as the argument \<open>fails\<close> says. blake3 and the binary codecs are the record
    \<open>codecs\<close>. The locale \<open>evictor\<close> is the contract of an eviction pass and is interpreted on both passes of the code.

  \<^bold>\<open>Loops.\<close> Every recursion has a termination proof; no definition takes fuel. Three kinds of loop needed more than structural
  recursion. The walks of the graph shrink the set of unseen nodes. The parsers of media queries compare the rest of the
  input with the input before they recurse, a guard the code does not have, and \<open>Media_Wf\<close> shows that it never fails, so that the
  equations of the code hold without it. Eviction loops shrink the list of generations.

  \<^bold>\<open>What is assumed.\<close> Only what stands in the statement of a theorem: that a hash order lists each element once, that a decoder undoes
  its encoder, that the hash does not collide where equal keys are to mean equal files, that comparison of numbers is a
  linear order. Each theorem that has such a hypothesis has a witness with concrete functions.

  \<^bold>\<open>What modelling showed.\<close> Five divergences are proved or described beside the definitions: imports that repeat a name
  (\<open>Module_Graph\<close>), a quoted charset that panics (\<open>Css_Chunk\<close>), a disjunction printed inside a conjunction
  (\<open>Media_Transform\<close>), an eviction pass that races a persist (\<open>Bundle_Evict\<close>), and an epoch whose fields are not delimited
  (\<open>Bundle_Key\<close>).

  \<^bold>\<open>Not modelled.\<close> Parsing, transforming and printing of JavaScript (\<^verbatim>\<open>oj_compiler\<close>, most of \<^verbatim>\<open>oj_stylex\<close>, the bundler) work on
  the syntax trees of third-party crates. The type checker under \<^verbatim>\<open>typecheck\<close> is a port of another compiler. \<^verbatim>\<open>oj_deno_*\<close>,
  \<^verbatim>\<open>oj_notify\<close> are adapted from other projects. HTTP handlers, command line, process handling and
  logging are input and output.
\<close>

end
